(* ===== verification/Prelude.thy ===== *)
theory Prelude
  imports Main "HOL-Library.Word"
begin

unbundle bit_operations_syntax

text \<open>
  Shared vocabulary of the development: the machine integers of the Go source, the outcome of
  a Go call (a value, a returned \<open>error\<close>, or a run-time panic), calls that thread a state,
  and the generic facts on lists and words that the components share.
\<close>

section \<open>Machine integers\<close>

type_synonym u8 = "8 word"
type_synonym u32 = "32 word"

text \<open>
  Go's \<open>int\<close> is 64 bits wide on the platforms the program targets. Where its overflow can be
  observed, a model keeps the value as a mathematical integer and applies \<open>i64\<close> after every
  arithmetic operation.
\<close>

definition i64 :: "int \<Rightarrow> int" where
  "i64 x = (x + 2 ^ 63) mod 2 ^ 64 - 2 ^ 63"

lemma i64_id: "- (2 ^ 63) \<le> x \<Longrightarrow> x < 2 ^ 63 \<Longrightarrow> i64 x = x"
  by (simp add: i64_def mod_pos_pos_trivial)

lemma i64_range: "- (2 ^ 63) \<le> i64 x \<and> i64 x < 2 ^ 63"
proof -
  have "0 \<le> (x + 2 ^ 63) mod 2 ^ 64" and "(x + 2 ^ 63) mod 2 ^ 64 < (2 :: int) ^ 64"
    by simp_all
  then show ?thesis by (simp add: i64_def)
qed

section \<open>Outcomes of a Go call\<close>

text \<open>
  The errors the modelled functions return: those of the standard library's readers and
  writers, a freshly made message (\<open>fmt.Errorf\<close>, \<open>errors.New\<close>) and a wrapped error
  (\<open>errors.Wrap\<close>).
\<close>

datatype go_error =
    EOF
  | UnexpectedEOF
  | WriteError
  | Msg string
  | Wrap go_error string

datatype go_panic =
    IndexOutOfRange
  | SliceOutOfRange
  | DivideByZero
  | TypeAssertion
  | NilDereference
  | Explicit go_error  \<comment> \<open>\<open>panic(v)\<close>\<close>

datatype 'a res = Ok 'a | Err go_error | Panic go_panic

text \<open>A call that reads and updates a state. The state survives an error and a panic.\<close>

type_synonym ('s, 'a) go = "'s \<Rightarrow> 'a res \<times> 's"

named_theorems go_simps \<open>unfolding of the sequencing of Go calls\<close>

definition go_return :: "'a \<Rightarrow> ('s, 'a) go" where
  "go_return a s = (Ok a, s)"

definition go_err :: "go_error \<Rightarrow> ('s, 'a) go" where
  "go_err e s = (Err e, s)"

definition go_panic :: "go_panic \<Rightarrow> ('s, 'a) go" where
  "go_panic p s = (Panic p, s)"

definition go_bind :: "('s, 'a) go \<Rightarrow> ('a \<Rightarrow> ('s, 'b) go) \<Rightarrow> ('s, 'b) go" where
  "go_bind m k s =
     (case m s of
        (Ok a, s') \<Rightarrow> k a s'
      | (Err e, s') \<Rightarrow> (Err e, s')
      | (Panic p, s') \<Rightarrow> (Panic p, s'))"

text \<open>\<open>if err != nil { return errors.Wrap(err, msg) }\<close> around a call.\<close>

definition go_wrap :: "string \<Rightarrow> ('s, 'a) go \<Rightarrow> ('s, 'a) go" where
  "go_wrap msg m s =
     (case m s of
        (Err e, s') \<Rightarrow> (Err (Wrap e msg), s')
      | r \<Rightarrow> r)"

text \<open>\<open>v, _ = f()\<close>: the error is dropped and the zero value \<open>d\<close> is used instead.\<close>

definition go_ignore :: "'a \<Rightarrow> ('s, 'a) go \<Rightarrow> ('s, 'a) go" where
  "go_ignore d m s =
     (case m s of
        (Err e, s') \<Rightarrow> (Ok d, s')
      | r \<Rightarrow> r)"

text \<open>An update of the state that cannot fail.\<close>

definition go_modify :: "('s \<Rightarrow> 's) \<Rightarrow> ('s, unit) go" where
  "go_modify f s = (Ok (), f s)"

text \<open>A call on the first or on the second component of a pair of states.\<close>

definition on_fst :: "('s, 'a) go \<Rightarrow> ('s \<times> 't, 'a) go" where
  "on_fst m st = (case m (fst st) of (r, s') \<Rightarrow> (r, (s', snd st)))"

definition on_snd :: "('t, 'a) go \<Rightarrow> ('s \<times> 't, 'a) go" where
  "on_snd m st = (case m (snd st) of (r, t') \<Rightarrow> (r, (fst st, t')))"

lemmas go_defs [go_simps] =
  go_return_def go_err_def go_panic_def go_wrap_def go_ignore_def go_modify_def

lemma on_snd_pair [go_simps]:
  "on_snd m (s, t) = (case m t of (r, t') \<Rightarrow> (r, (s, t')))"
  by (simp add: on_snd_def)

lemma on_fst_pair [go_simps]:
  "on_fst m (s, t) = (case m s of (r, s') \<Rightarrow> (r, (s', t)))"
  by (simp add: on_fst_def)

lemma go_bind_Ok: "m s = (Ok a, s') \<Longrightarrow> go_bind m k s = k a s'"
  by (simp add: go_bind_def)

lemma go_bind_Err: "m s = (Err e, s') \<Longrightarrow> go_bind m k s = (Err e, s')"
  by (simp add: go_bind_def)

lemma go_bind_Panic: "m s = (Panic p, s') \<Longrightarrow> go_bind m k s = (Panic p, s')"
  by (simp add: go_bind_def)

lemma go_bind_return [simp]: "go_bind (go_return a) k = k a"
  by (rule ext) (simp add: go_bind_def go_return_def)

lemma go_bind_assoc: "go_bind (go_bind m f) g = go_bind m (\<lambda>a. go_bind (f a) g)"
  by (rule ext) (simp add: go_bind_def split: prod.splits res.splits)

lemma go_bind_return_right [simp]: "go_bind m go_return = m"
  by (rule ext) (simp add: go_bind_def go_return_def split: prod.splits res.splits)

text \<open>
  An invariant-style rule: what every successful, failed or panicking run of a call keeps.
  \<open>keeps I m\<close> says that \<open>m\<close> preserves \<open>I\<close> whatever its outcome.
\<close>

definition keeps :: "('s \<Rightarrow> bool) \<Rightarrow> ('s, 'a) go \<Rightarrow> bool" where
  "keeps I m \<longleftrightarrow> (\<forall>s. I s \<longrightarrow> I (snd (m s)))"

named_theorems keepsI \<open>introduction rules for preserved state predicates\<close>

lemma keepsD: "keeps I m \<Longrightarrow> I s \<Longrightarrow> m s = (r, s') \<Longrightarrow> I s'"
  by (metis keeps_def snd_conv)

lemma keeps_bind [keepsI]:
  assumes "keeps I m" and "\<And>a. keeps I (k a)"
  shows "keeps I (go_bind m k)"
  using assms unfolding keeps_def go_bind_def
  by (fastforce split: prod.splits res.splits)

lemma keeps_return [keepsI]: "keeps I (go_return a)"
  by (simp add: keeps_def go_return_def)

lemma keeps_err [keepsI]: "keeps I (go_err e)"
  by (simp add: keeps_def go_err_def)

lemma keeps_panic [keepsI]: "keeps I (go_panic p)"
  by (simp add: keeps_def go_panic_def)

lemma keeps_wrap [keepsI]: "keeps I m \<Longrightarrow> keeps I (go_wrap msg m)"
  unfolding keeps_def go_wrap_def
  by (fastforce split: prod.splits res.splits)

lemma keeps_ignore [keepsI]: "keeps I m \<Longrightarrow> keeps I (go_ignore d m)"
  unfolding keeps_def go_ignore_def
  by (fastforce split: prod.splits res.splits)

lemma keeps_if [keepsI]: "keeps I m \<Longrightarrow> keeps I n \<Longrightarrow> keeps I (if b then m else n)"
  by simp

text \<open>
  Hoare triples over calls: from a state of \<open>P\<close>, a successful call gives a result and a state of
  \<open>Q\<close>, a failed one a state of \<open>E\<close>, and a panic happens only as \<open>X\<close> allows.
\<close>

definition triple :: "('s \<Rightarrow> bool) \<Rightarrow> ('s, 'a) go \<Rightarrow> ('a \<Rightarrow> 's \<Rightarrow> bool) \<Rightarrow> ('s \<Rightarrow> bool)
    \<Rightarrow> (go_panic \<Rightarrow> 's \<Rightarrow> bool) \<Rightarrow> bool" where
  "triple P m Q E X \<longleftrightarrow>
     (\<forall>s. P s \<longrightarrow>
        (case m s of
           (Ok a, s') \<Rightarrow> Q a s'
         | (Err e, s') \<Rightarrow> E s'
         | (Panic p, s') \<Rightarrow> X p s'))"

abbreviation no_panic :: "go_panic \<Rightarrow> 's \<Rightarrow> bool" where
  "no_panic \<equiv> \<lambda>_ _. False"

named_theorems tripleI \<open>introduction rules for triples\<close>

lemma tripleD:
  "triple P m Q E X \<Longrightarrow> P s \<Longrightarrow>
     (case m s of (Ok a, s') \<Rightarrow> Q a s' | (Err e, s') \<Rightarrow> E s' | (Panic p, s') \<Rightarrow> X p s')"
  by (simp add: triple_def)

lemma triple_outcome:
  "triple P m Q E X \<Longrightarrow> P s \<Longrightarrow> m s = (Ok a, s') \<Longrightarrow> Q a s'"
  "triple P m Q E X \<Longrightarrow> P s \<Longrightarrow> m s = (Err e, s') \<Longrightarrow> E s'"
  "triple P m Q E X \<Longrightarrow> P s \<Longrightarrow> m s = (Panic p, s') \<Longrightarrow> X p s'"
  by (auto dest: tripleD)

lemma triple_bind:
  assumes "triple P m R E X" and "\<And>a. triple (R a) (k a) Q E X"
  shows "triple P (go_bind m k) Q E X"
  using assms unfolding triple_def go_bind_def
  by (fastforce split: prod.splits res.splits)

lemma triple_seq [tripleI]:
  "triple P m (\<lambda>_. P) E X \<Longrightarrow> (\<And>a. triple P (k a) Q E X) \<Longrightarrow> triple P (go_bind m k) Q E X"
  by (rule triple_bind)

lemma triple_return: "(\<And>s. P s \<Longrightarrow> Q a s) \<Longrightarrow> triple P (go_return a) Q E X"
  by (simp add: triple_def go_return_def)

lemma triple_err: "(\<And>s. P s \<Longrightarrow> E s) \<Longrightarrow> triple P (go_err e) Q E X"
  by (simp add: triple_def go_err_def)

lemma triple_modify: "(\<And>s. P s \<Longrightarrow> Q () (f s)) \<Longrightarrow> triple P (go_modify f) Q E X"
  by (simp add: triple_def go_modify_def)

lemma triple_wrap [tripleI]: "triple P m Q E X \<Longrightarrow> triple P (go_wrap msg m) Q E X"
  unfolding triple_def go_wrap_def by (fastforce split: prod.splits res.splits)

lemma triple_ignore [tripleI]: "triple P m Q (Q d) X \<Longrightarrow> triple P (go_ignore d m) Q E X"
  unfolding triple_def go_ignore_def by (fastforce split: prod.splits res.splits)

lemma triple_on_snd [tripleI]:
  assumes "\<And>s. triple (\<lambda>t. P (s, t)) m (\<lambda>a t. Q a (s, t)) (\<lambda>t. E (s, t)) (\<lambda>p t. X p (s, t))"
  shows "triple P (on_snd m) Q E X"
  using assms unfolding triple_def on_snd_def by (fastforce split: prod.splits res.splits)

lemma triple_if [tripleI]:
  "(b \<Longrightarrow> triple P m Q E X) \<Longrightarrow> (\<not> b \<Longrightarrow> triple P n Q E X) \<Longrightarrow>
     triple P (if b then m else n) Q E X"
  by simp

lemma triple_state:
  "(\<And>s. P s \<Longrightarrow> triple (\<lambda>t. t = s) (m s) Q E X) \<Longrightarrow> triple P (\<lambda>s. m s s) Q E X"
  by (simp add: triple_def)

lemma triple_pre: "triple P m Q E X \<Longrightarrow> (\<And>s. P' s \<Longrightarrow> P s) \<Longrightarrow> triple P' m Q E X"
  by (simp add: triple_def)

lemma triple_conseq:
  assumes "triple P m Q E X" and "\<And>a s. Q a s \<Longrightarrow> Q' a s" and "\<And>s. E s \<Longrightarrow> E' s"
    and "\<And>p s. X p s \<Longrightarrow> X' p s"
  shows "triple P m Q' E' X'"
  using assms unfolding triple_def by (fastforce split: prod.splits res.splits)

section \<open>Lists\<close>

text \<open>Go's \<open>copy(dst[at:], src)\<close> on a destination that has room for the source.\<close>

definition overwrite :: "nat \<Rightarrow> 'a list \<Rightarrow> 'a list \<Rightarrow> 'a list" where
  "overwrite at src dst = take at dst @ src @ drop (at + length src) dst"

lemma length_overwrite [simp]:
  "at + length src \<le> length dst \<Longrightarrow> length (overwrite at src dst) = length dst"
  by (simp add: overwrite_def)

lemma take_overwrite [simp]:
  "n \<le> at \<Longrightarrow> at \<le> length dst \<Longrightarrow> take n (overwrite at src dst) = take n dst"
  by (simp add: overwrite_def min_def)

lemma nth_overwrite_before:
  "i < at \<Longrightarrow> at \<le> length dst \<Longrightarrow> overwrite at src dst ! i = dst ! i"
  by (simp add: overwrite_def nth_append)

lemma drop_overwrite [simp]:
  "n = at + length src \<Longrightarrow> n \<le> length dst \<Longrightarrow> drop n (overwrite at src dst) = drop n dst"
  by (simp add: overwrite_def)

lemma slice_overwrite [simp]:
  "at + length src \<le> length dst \<Longrightarrow> n = length src \<Longrightarrow>
     take n (drop at (overwrite at src dst)) = src"
  by (simp add: overwrite_def)

section \<open>Words\<close>

lemma unat_ucast_u8_u32 [simp]: "unat (ucast (b :: u8) :: u32) = unat b"
  by transfer (simp add: take_bit_nat_def take_bit_eq_mod)

lemma u8_bound: "unat (b :: u8) < 256"
  using unsigned_less [of b] by simp

lemma u32_bound: "unat (v :: u32) < 2 ^ 32"
  using unsigned_less [of v] by simp

lemma unat_of_nat_u32: "n < 2 ^ 32 \<Longrightarrow> unat (of_nat n :: u32) = n"
  by (simp add: unat_of_nat take_bit_nat_eq_self)

lemma unat_add_u32_small:
  "unat (a :: u32) + unat b < 2 ^ 32 \<Longrightarrow> unat (a + b) = unat a + unat b"
  by (simp add: unat_word_ariths)

lemma unat_sub_u32: "b \<le> a \<Longrightarrow> unat (a - b) = unat a - unat (b :: u32)"
  by (rule unat_sub)

end
