(* ===== verification/Bytes.thy ===== *)
theory Bytes
  imports Prelude
begin

text \<open>
  The integer codec of \<^verbatim>\<open>pkg/rtmp/chunk_stream.go\<close>: \<open>uintAsbyteSlice\<close> fills a byte slice
  with an unsigned integer and \<open>byteSliceAsUint\<close> reads one back, each in both byte orders.
  Every header field of the chunk format and of the handshake passes through these two. The
  slice that \<open>uintAsbyteSlice\<close> fills is modelled by its length, and the filled slice is the
  result.
\<close>

section \<open>The two loops\<close>

function uintAsbyteSlice_loop :: "nat \<Rightarrow> nat \<Rightarrow> u32 \<Rightarrow> bool \<Rightarrow> u8 list" where
  "uintAsbyteSlice_loop nbytes i val bigEndian =
     (if i < nbytes then
        (if bigEndian then
           (ucast (drop_bit (8 * (nbytes - i - 1)) val) AND 0xff)
             # uintAsbyteSlice_loop nbytes (i + 1) val bigEndian
         else
           (ucast val AND 0xff)
             # uintAsbyteSlice_loop nbytes (i + 1) (drop_bit 8 val) bigEndian)
      else [])"
  by pat_completeness auto
termination
  by (relation "measure (\<lambda>(nbytes, i, val, bigEndian). nbytes - i)") auto

declare uintAsbyteSlice_loop.simps [simp del]

definition uintAsbyteSlice :: "u32 \<Rightarrow> nat \<Rightarrow> bool \<Rightarrow> u8 list" where
  "uintAsbyteSlice val nbytes bigEndian = uintAsbyteSlice_loop nbytes 0 val bigEndian"

fun byteSliceAsUint_loop :: "bool \<Rightarrow> nat \<Rightarrow> u32 \<Rightarrow> u8 list \<Rightarrow> u32" where
  "byteSliceAsUint_loop bigEndian i ret [] = ret"
| "byteSliceAsUint_loop bigEndian i ret (x # b) =
     byteSliceAsUint_loop bigEndian (i + 1)
       (if bigEndian then push_bit 8 ret + ucast x else ret + push_bit (i * 8) (ucast x)) b"

definition byteSliceAsUint :: "u8 list \<Rightarrow> bool \<Rightarrow> u32" where
  "byteSliceAsUint b bigEndian = byteSliceAsUint_loop bigEndian 0 0 b"

section \<open>Recursive equations\<close>

lemma and_0xff_u8 [simp]: "(b :: u8) AND 0xff = b"
proof -
  have "(0xff :: u8) = mask LENGTH(8)" by (simp add: mask_eq_exp_minus_1)
  then have "b AND 0xff = take_bit LENGTH(8) b" by (simp only: take_bit_eq_mask)
  then show ?thesis by (simp only: take_bit_length_eq)
qed

lemma uint_loop_shift:
  "uintAsbyteSlice_loop (Suc n) (Suc i) val be = uintAsbyteSlice_loop n i val be"
proof (induction n i val be rule: uintAsbyteSlice_loop.induct)
  case (1 n i val be)
  then show ?case
    by (simp add: uintAsbyteSlice_loop.simps [of "Suc n" "Suc i"]
        uintAsbyteSlice_loop.simps [of n i])
qed

lemma uintAsbyteSlice_0 [simp]: "uintAsbyteSlice val 0 be = []"
  by (simp add: uintAsbyteSlice_def uintAsbyteSlice_loop.simps)

lemma uintAsbyteSlice_Suc:
  "uintAsbyteSlice val (Suc n) True = ucast (drop_bit (8 * n) val) # uintAsbyteSlice val n True"
  "uintAsbyteSlice val (Suc n) False = ucast val # uintAsbyteSlice (drop_bit 8 val) n False"
  unfolding uintAsbyteSlice_def
  by (subst uintAsbyteSlice_loop.simps; simp add: uint_loop_shift)+

lemma length_uintAsbyteSlice [simp]: "length (uintAsbyteSlice val n be) = n"
  by (induction n arbitrary: val) (cases be; simp add: uintAsbyteSlice_Suc)+

lemma be_loop_acc:
  "byteSliceAsUint_loop True i ret b
     = push_bit (8 * length b) ret + byteSliceAsUint_loop True 0 0 b"
proof (induction b arbitrary: i ret)
  case Nil
  show ?case by simp
next
  case (Cons x b)
  show ?case
    by (simp add: Cons [of "Suc i"] Cons [of "Suc 0" "ucast x"] push_bit_add algebra_simps)
qed

lemma le_loop_acc:
  "byteSliceAsUint_loop False i ret b
     = ret + push_bit (8 * i) (byteSliceAsUint_loop False 0 0 b)"
proof (induction b arbitrary: i ret)
  case Nil
  show ?case by simp
next
  case (Cons x b)
  show ?case
    by (simp add: Cons [of "Suc i"] Cons [of "Suc 0" "ucast x"] push_bit_add algebra_simps)
qed

lemma byteSliceAsUint_Nil [simp]: "byteSliceAsUint [] be = 0"
  by (simp add: byteSliceAsUint_def)

lemma byteSliceAsUint_Cons:
  "byteSliceAsUint (x # b) True = push_bit (8 * length b) (ucast x) + byteSliceAsUint b True"
  "byteSliceAsUint (x # b) False = ucast x + push_bit 8 (byteSliceAsUint b False)"
  using be_loop_acc [of "Suc 0" "ucast x" b] le_loop_acc [of "Suc 0" "ucast x" b]
  by (simp_all add: byteSliceAsUint_def)

section \<open>The codec law\<close>

text \<open>The number a byte slice denotes, as a natural number without wrap-around.\<close>

fun be_value :: "u8 list \<Rightarrow> nat" where
  "be_value [] = 0"
| "be_value (x # b) = unat x * 256 ^ length b + be_value b"

fun le_value :: "u8 list \<Rightarrow> nat" where
  "le_value [] = 0"
| "le_value (x # b) = unat x + 256 * le_value b"

lemma digits_bound: "x < B \<Longrightarrow> y < K \<Longrightarrow> x + B * y < B * (K :: nat)"
proof -
  assume "x < B" and "y < K"
  then have "x + B * y < B + B * y" and "B * Suc y \<le> B * K" by (simp_all del: mult_Suc_right)
  then show ?thesis by simp
qed

lemma digits_inj:
  assumes "x < B" and "x' < B" and "x + B * y = x' + B * (y' :: nat)"
  shows "x = x' \<and> y = y'"
proof -
  have "(x + B * y) mod B = x" and "(x' + B * y') mod B = x'"
    and "(x + B * y) div B = y" and "(x' + B * y') div B = y'"
    using assms(1,2) by simp_all
  with assms(3) show ?thesis by metis
qed

lemma unat_eq_u8: "unat (x :: u8) = unat y \<Longrightarrow> x = y"
  by (simp only: word_unat_eq_iff)

lemma be_value_bound: "be_value b < 256 ^ length b"
proof (induction b)
  case Nil
  show ?case by simp
next
  case (Cons x b)
  then show ?case
    using digits_bound [OF Cons u8_bound [of x]] by (simp add: mult.commute)
qed

lemma le_value_bound: "le_value b < 256 ^ length b"
proof (induction b)
  case Nil
  show ?case by simp
next
  case (Cons x b)
  then show ?case
    using digits_bound [OF u8_bound [of x] Cons] by simp
qed

lemma be_value_inj: "length a = length b \<Longrightarrow> be_value a = be_value b \<Longrightarrow> a = b"
proof (induction a b rule: list_induct2)
  case Nil
  show ?case by simp
next
  case (Cons x a y b)
  have "be_value a = be_value b \<and> unat x = unat y"
    by (rule digits_inj [OF be_value_bound]; insert Cons be_value_bound [of b])
      (simp_all add: mult.commute add.commute)
  with Cons.IH show ?case by (simp add: unat_eq_u8)
qed

lemma le_value_inj: "length a = length b \<Longrightarrow> le_value a = le_value b \<Longrightarrow> a = b"
proof (induction a b rule: list_induct2)
  case Nil
  show ?case by simp
next
  case (Cons x a y b)
  have "unat x = unat y \<and> le_value a = le_value b"
    by (rule digits_inj [OF u8_bound u8_bound]) (use Cons.prems in simp)
  with Cons.IH show ?case by (simp add: unat_eq_u8)
qed

lemma pow256: "(256 :: nat) ^ n = 2 ^ (8 * n)"
  by (simp add: power_mult)

lemma unat_push_bit_u32: "unat (push_bit n (w :: u32)) = (unat w * 2 ^ n) mod 2 ^ 32"
  by (subst unsigned_push_bit_eq) (simp add: take_bit_eq_mod push_bit_eq_mult) 

lemma be_value_unat: "unat (byteSliceAsUint b True) = be_value b mod 2 ^ 32"
  by (induction b)
    (simp_all add: byteSliceAsUint_Cons unat_word_ariths unat_push_bit_u32 pow256 mod_simps)

lemma le_value_unat: "unat (byteSliceAsUint b False) = le_value b mod 2 ^ 32"
  by (induction b)
    (simp_all add: byteSliceAsUint_Cons unat_word_ariths unat_push_bit_u32 mod_simps mult.commute)

lemma ucast_u8_u32: "(ucast (ucast (v :: u32) :: u8) :: u32) = take_bit 8 v"
  by (simp add: unsigned_ucast_eq) 

lemma be_dec_enc: "byteSliceAsUint (uintAsbyteSlice v n True) True = take_bit (8 * n) v"
proof (induction n)
  case 0
  show ?case by simp
next
  case (Suc n)
  have "push_bit (8 * n) (take_bit 8 (drop_bit (8 * n) v)) + take_bit (8 * n) v
      = take_bit (8 * Suc n) v"
    using bits_ident [of "8 * n" "take_bit (8 * Suc n) v"]
    by (simp add: drop_bit_take_bit)
  then show ?case
    by (simp add: uintAsbyteSlice_Suc byteSliceAsUint_Cons Suc ucast_u8_u32)
qed

lemma le_dec_enc: "byteSliceAsUint (uintAsbyteSlice v n False) False = take_bit (8 * n) v"
proof (induction n arbitrary: v)
  case 0
  show ?case by simp
next
  case (Suc n)
  have "take_bit 8 v + push_bit 8 (take_bit (8 * n) (drop_bit 8 v)) = take_bit (8 * Suc n) v"
    using bits_ident [of 8 "take_bit (8 * Suc n) v"]
    by (simp add: drop_bit_take_bit add.commute)
  then show ?case
    by (simp add: uintAsbyteSlice_Suc byteSliceAsUint_Cons Suc ucast_u8_u32)
qed

text \<open>
  The contract every caller of the codec relies on: a fixed width, decoding gives the encoded
  number cut to that width, and no two slices of at most four bytes denote the same number.
\<close>

locale uint_codec =
  fixes enc :: "u32 \<Rightarrow> nat \<Rightarrow> u8 list"
    and dec :: "u8 list \<Rightarrow> u32"
  assumes length_enc: "length (enc v n) = n"
    and dec_enc: "dec (enc v n) = take_bit (8 * n) v"
    and dec_inj: "length a = length b \<Longrightarrow> length a \<le> 4 \<Longrightarrow> dec a = dec b \<Longrightarrow> a = b"
    and dec_bound: "length b \<le> 4 \<Longrightarrow> unat (dec b) < 256 ^ length b"
begin

lemma fits: "unat v < 256 ^ n \<Longrightarrow> take_bit (8 * n) v = v"
  by (simp add: word_unat_eq_iff unsigned_take_bit_eq take_bit_nat_eq_self pow256)

lemma dec_enc_small: "unat v < 256 ^ n \<Longrightarrow> dec (enc v n) = v"
  by (simp add: dec_enc fits)

lemma enc_dec: "length b = n \<Longrightarrow> n \<le> 4 \<Longrightarrow> enc (dec b) n = b"
  using dec_enc_small [of "dec b" n] dec_bound [of b]
  by (intro dec_inj) (simp_all add: length_enc)

lemma enc_inj: "unat v < 256 ^ n \<Longrightarrow> unat w < 256 ^ n \<Longrightarrow> enc v n = enc w n \<Longrightarrow> v = w"
  by (metis dec_enc_small)

lemma dec_enc_4: "dec (enc v 4) = v"
  using u32_bound [of v] by (intro dec_enc_small) simp

end

lemma value_mod_u32: "length b \<le> 4 \<Longrightarrow> x < 256 ^ length b \<Longrightarrow> x mod 2 ^ 32 = (x :: nat)"
  using power_increasing [of "length b" 4 "256 :: nat"] by simp

interpretation be: uint_codec "\<lambda>v n. uintAsbyteSlice v n True" "\<lambda>b. byteSliceAsUint b True"
proof (unfold_locales, goal_cases)
  case (3 a b)
  then show ?case
    using value_mod_u32 [OF _ be_value_bound [of a]] value_mod_u32 [OF _ be_value_bound [of b]]
      be_value_unat [of a] be_value_unat [of b]
    by (intro be_value_inj) simp_all
next
  case (4 b)
  then show ?case
    using value_mod_u32 [OF _ be_value_bound [of b]] be_value_bound [of b]
    by (simp add: be_value_unat)
qed (simp_all add: be_dec_enc)

interpretation le: uint_codec "\<lambda>v n. uintAsbyteSlice v n False" "\<lambda>b. byteSliceAsUint b False"
proof (unfold_locales, goal_cases)
  case (3 a b)
  then show ?case
    using value_mod_u32 [OF _ le_value_bound [of a]] value_mod_u32 [OF _ le_value_bound [of b]]
      le_value_unat [of a] le_value_unat [of b]
    by (intro le_value_inj) simp_all
next
  case (4 b)
  then show ?case
    using value_mod_u32 [OF _ le_value_bound [of b]] le_value_bound [of b]
    by (simp add: le_value_unat)
qed (simp_all add: le_dec_enc)

end
