(* ===== verification/Chunk.thy ===== *)
theory Chunk
  imports Bytes
begin

text \<open>
  The chunk stream record of \<^verbatim>\<open>pkg/rtmp/chunk_stream.go\<close> and its constructors. The
  embedded headers (\<open>ChunkHeader\<close>, \<open>ChunkBasicHeader\<close>, \<open>ChunkMessageHeader\<close>) are flattened, as
  Go's promoted fields read them. The scratch buffer \<open>msgHdrBuf\<close> is represented by its length,
  0 for \<open>nil\<close>: its bytes are always overwritten before they are read. A slice made by
  \<open>make([]byte, n)\<close> is a list of \<open>n\<close> bytes, so its capacity is its length.
\<close>

section \<open>Message types\<close>

definition MsgSetChunkSize :: u32 where [simp]: "MsgSetChunkSize = 1"
definition MsgAcknowledgement :: u32 where [simp]: "MsgAcknowledgement = 3"
definition MsgUserControlMessage :: u32 where [simp]: "MsgUserControlMessage = 4"
definition MsgWindowAcknowledgementSize :: u32 where [simp]: "MsgWindowAcknowledgementSize = 5"
definition MsgSetPeerBandwidth :: u32 where [simp]: "MsgSetPeerBandwidth = 6"
definition MsgAudioMessage :: u32 where [simp]: "MsgAudioMessage = 8"
definition MsgVideoMessage :: u32 where [simp]: "MsgVideoMessage = 9"
definition MsgAMF3DataMessage :: u32 where [simp]: "MsgAMF3DataMessage = 15"
definition MsgAMF3CommandMessage :: u32 where [simp]: "MsgAMF3CommandMessage = 17"
definition MSGAMF0DataMessage :: u32 where [simp]: "MSGAMF0DataMessage = 18"
definition MsgAMF0CommandMessage :: u32 where [simp]: "MsgAMF0CommandMessage = 20"

section \<open>Chunk streams\<close>

record chunk_stream =
  Fmt :: u8
  Csid :: u32
  TimeStamp :: u32
  MsgLength :: u32
  MsgTypeID :: u32
  MsgStreamID :: u32
  ExtendedTimeStamp :: u32
  ChunkBody :: "u8 list"
  msgHdrSize :: nat
  msgHdrBuf :: nat
  timeExtended :: bool
  gotBodyFull :: bool
  bodyIndex :: u32
  bodyRemain :: u32

definition newChunkStream :: chunk_stream where
  "newChunkStream =
     \<lparr> Fmt = 0, Csid = 0, TimeStamp = 0, MsgLength = 0, MsgTypeID = 0, MsgStreamID = 0,
       ExtendedTimeStamp = 0, ChunkBody = [], msgHdrSize = 0, msgHdrBuf = 0,
       timeExtended = False, gotBodyFull = False, bodyIndex = 0, bodyRemain = 0 \<rparr>"

definition setBasicHeader :: "u8 \<Rightarrow> u32 \<Rightarrow> chunk_stream \<Rightarrow> chunk_stream" where
  "setBasicHeader fmt csid cs = cs\<lparr>Fmt := fmt, Csid := csid\<rparr>"

definition setMessageHeader ::
    "u32 \<Rightarrow> u32 \<Rightarrow> u32 \<Rightarrow> u32 \<Rightarrow> chunk_stream \<Rightarrow> chunk_stream" where
  "setMessageHeader timeStamp msgLength msgTypeID msgStreamID cs =
     cs\<lparr>TimeStamp := timeStamp, MsgLength := msgLength, MsgTypeID := msgTypeID,
        MsgStreamID := msgStreamID\<rparr>"

definition setChunkBodyBuffer :: "u32 \<Rightarrow> chunk_stream \<Rightarrow> chunk_stream" where
  "setChunkBodyBuffer len cs = cs\<lparr>ChunkBody := replicate (unat len) 0\<rparr>"

text \<open>The code makes an 11 byte buffer whatever size it is asked for.\<close>

definition setMessageHeaderBuffer :: "nat \<Rightarrow> chunk_stream \<Rightarrow> chunk_stream" where
  "setMessageHeaderBuffer sz cs = cs\<lparr>msgHdrBuf := 11\<rparr>"

definition newChunkStreamForRead :: "u8 \<Rightarrow> u32 \<Rightarrow> chunk_stream" where
  "newChunkStreamForRead fmt csid =
     setMessageHeaderBuffer 11 (setBasicHeader fmt csid newChunkStream)"

text \<open>
  The slice expression \<open>cs.ChunkBody[:4]\<close> panics on a body shorter than four bytes; otherwise
  the value is written over the first four bytes.
\<close>

definition NewProtolControlMessage :: "u32 \<Rightarrow> u32 \<Rightarrow> u32 \<Rightarrow> chunk_stream res" where
  "NewProtolControlMessage typeID len val =
     (let cs = setChunkBodyBuffer len
                 (setMessageHeader 0 len typeID 0 (setBasicHeader 0 2 newChunkStream))
      in if 4 \<le> length (ChunkBody cs)
         then Ok (cs\<lparr>ChunkBody := overwrite 0 (uintAsbyteSlice val 4 True) (ChunkBody cs)\<rparr>)
         else Panic SliceOutOfRange)"

definition NewUserControlMessage :: "u32 \<Rightarrow> u32 \<Rightarrow> chunk_stream res" where
  "NewUserControlMessage eventType buflen0 =
     (let buflen = buflen0 + 2;
          cs = setChunkBodyBuffer buflen
                 (setMessageHeader 0 buflen MsgUserControlMessage 1
                   (setBasicHeader 0 2 newChunkStream))
      in if 2 \<le> length (ChunkBody cs)
         then Ok (cs\<lparr>ChunkBody := (ChunkBody cs)
                     [0 := ucast (drop_bit 8 eventType AND 0xff),
                      1 := ucast (eventType AND 0xff)]\<rparr>)
         else Panic IndexOutOfRange)"

lemmas chunk_make_defs =
  newChunkStream_def setBasicHeader_def setMessageHeader_def setChunkBodyBuffer_def
  setMessageHeaderBuffer_def newChunkStreamForRead_def

lemma newChunkStreamForRead_sel [simp]:
  "Fmt (newChunkStreamForRead f i) = f"
  "Csid (newChunkStreamForRead f i) = i"
  "TimeStamp (newChunkStreamForRead f i) = 0"
  "MsgLength (newChunkStreamForRead f i) = 0"
  "msgHdrBuf (newChunkStreamForRead f i) = 11"
  "timeExtended (newChunkStreamForRead f i) = False"
  "gotBodyFull (newChunkStreamForRead f i) = False"
  "bodyIndex (newChunkStreamForRead f i) = 0"
  "bodyRemain (newChunkStreamForRead f i) = 0"
  "ChunkBody (newChunkStreamForRead f i) = []"
  by (simp_all add: chunk_make_defs)

text \<open>A message the writer can send: the announced length is the length of its body.\<close>

definition wf_message :: "chunk_stream \<Rightarrow> bool" where
  "wf_message cs \<longleftrightarrow> unat (MsgLength cs) = length (ChunkBody cs)"

lemma wf_NewProtolControlMessage:
  "NewProtolControlMessage typeID len val = Ok cs \<Longrightarrow> wf_message cs"
  by (auto simp: NewProtolControlMessage_def Let_def wf_message_def chunk_make_defs
      split: if_splits)

lemma wf_NewUserControlMessage:
  "NewUserControlMessage ev len = Ok cs \<Longrightarrow> wf_message cs"
  by (auto simp: NewUserControlMessage_def Let_def wf_message_def chunk_make_defs
      split: if_splits)

lemma NewProtolControlMessage_4:
  "\<exists>cs. NewProtolControlMessage t 4 v = Ok cs \<and> MsgTypeID cs = t \<and> MsgLength cs = 4
     \<and> ChunkBody cs = uintAsbyteSlice v 4 True \<and> TimeStamp cs = 0 \<and> Csid cs = 2
     \<and> MsgStreamID cs = 0 \<and> msgHdrBuf cs = 0"
  by (simp add: NewProtolControlMessage_def Let_def chunk_make_defs overwrite_def)

end
