(* ===== verification/Conn.thy ===== *)
theory Conn
  imports Chunk
begin

text \<open>
  The connection record of \<^verbatim>\<open>pkg/rtmp/conn.go\<close>, its construction in \<^verbatim>\<open>rtmp.go\<close> and its byte
  level input and output. The socket and its \<open>bufio.Reader\<close> are two byte sequences: \<open>rx\<close> is what
  the peer will still send before the stream ends with the error \<open>rx_end\<close>, \<open>tx\<close> is what the
  socket has accepted. \<open>tx_left\<close> is the number of bytes the socket accepts before it breaks,
  \<open>None\<close> for a socket that does not break. \<open>writeBuffer\<close> holds the bytes of the pending
  \<open>net.Buffers\<close>, and \<open>basicHdrBuf\<close>, a scratch buffer, is represented by its length.
\<close>

record conn =
  rx :: "u8 list"
  rx_end :: go_error
  tx :: "u8 list"
  tx_left :: "nat option"
  writeBuffer :: "u8 list"
  isClient :: bool
  HandshakeStatus :: u32
  handshakeErr :: "go_error option"
  transactionID :: int
  handleCommandMessageDone :: bool
  appName :: string
  flashVer :: string
  swfUrl :: string
  tcUrl :: string
  objectEncoding :: int
  host :: string
  port :: int
  vhost :: string
  rawQuery :: string
  urlValues :: "string \<rightharpoonup> string list"
  isPublisher :: bool
  streamName :: string
  streamKey :: string
  basicHdrBuf :: nat
  chunks :: "u32 \<rightharpoonup> chunk_stream"
  localChunksize :: u32
  localWindowAckSize :: u32
  remoteChunkSize :: u32
  remoteWindowAckSize :: u32
  ackSeqNumber :: u32
  bytesRecv :: u32
  bytesRecvReset :: u32

text \<open>The zero value of the struct, on a socket.\<close>

definition zero_conn :: "u8 list \<Rightarrow> go_error \<Rightarrow> nat option \<Rightarrow> conn" where
  "zero_conn inp inp_end room =
     \<lparr> rx = inp, rx_end = inp_end, tx = [], tx_left = room, writeBuffer = [],
       isClient = False, HandshakeStatus = 0, handshakeErr = None, transactionID = 0,
       handleCommandMessageDone = False, appName = [], flashVer = [], swfUrl = [], tcUrl = [],
       objectEncoding = 0, host = [], port = 0, vhost = [], rawQuery = [],
       urlValues = Map.empty, isPublisher = False, streamName = [], streamKey = [],
       basicHdrBuf = 0, chunks = Map.empty, localChunksize = 0, localWindowAckSize = 0,
       remoteChunkSize = 0, remoteWindowAckSize = 0, ackSeqNumber = 0, bytesRecv = 0,
       bytesRecvReset = 0 \<rparr>"

definition Server :: "u8 list \<Rightarrow> go_error \<Rightarrow> nat option \<Rightarrow> conn" where
  "Server inp inp_end room =
     (zero_conn inp inp_end room)
       \<lparr> localChunksize := 60000, remoteChunkSize := 128,
         localWindowAckSize := 2500000, remoteWindowAckSize := 250000 \<rparr>"

definition Client :: "u8 list \<Rightarrow> go_error \<Rightarrow> nat option \<Rightarrow> conn" where
  "Client inp inp_end room = (zero_conn inp inp_end room)\<lparr>isClient := True\<rparr>"

section \<open>Reading\<close>

text \<open>
  \<open>Conn.Read\<close> is \<open>io.ReadAtLeast(c.reader, b, len(b))\<close>: all the bytes or an error, which is
  \<open>io.ErrUnexpectedEOF\<close> when the stream ends with \<open>io.EOF\<close> after some of them. A read of no
  bytes succeeds.
\<close>

definition Conn_Read :: "nat \<Rightarrow> (conn, u8 list) go" where
  "Conn_Read n c =
     (if n \<le> length (rx c) then (Ok (take n (rx c)), c\<lparr>rx := drop n (rx c)\<rparr>)
      else (Err (if rx_end c = EOF \<and> rx c \<noteq> [] then UnexpectedEOF else rx_end c),
            c\<lparr>rx := []\<rparr>))"

text \<open>\<open>bufio.Reader.Peek\<close> and \<open>Discard\<close>: the first looks ahead, the second skips.\<close>

definition reader_Peek :: "nat \<Rightarrow> (conn, u8 list) go" where
  "reader_Peek n c =
     (if n \<le> length (rx c) then (Ok (take n (rx c)), c) else (Err (rx_end c), c))"

definition reader_Discard :: "nat \<Rightarrow> (conn, unit) go" where
  "reader_Discard n c =
     (if n \<le> length (rx c) then (Ok (), c\<lparr>rx := drop n (rx c)\<rparr>)
      else (Err (rx_end c), c\<lparr>rx := []\<rparr>))"

definition readUint :: "nat \<Rightarrow> bool \<Rightarrow> (conn, u32) go" where
  "readUint n bigEndian =
     go_bind (Conn_Read n) (\<lambda>b. go_return (byteSliceAsUint b bigEndian))"

section \<open>Writing\<close>

text \<open>
  \<open>net.Buffers.WriteTo\<close>: what the socket takes leaves the buffer, what it refuses stays in it.
\<close>

definition WriteTo :: "(conn, unit) go" where
  "WriteTo c =
     (let b = writeBuffer c in
      case tx_left c of
        None \<Rightarrow> (Ok (), c\<lparr>tx := tx c @ b, writeBuffer := []\<rparr>)
      | Some k \<Rightarrow>
          if length b \<le> k
          then (Ok (), c\<lparr>tx := tx c @ b, writeBuffer := [], tx_left := Some (k - length b)\<rparr>)
          else (Err WriteError,
                c\<lparr>tx := tx c @ take k b, writeBuffer := drop k b, tx_left := Some 0\<rparr>))"

definition Conn_Write :: "u8 list \<Rightarrow> (conn, unit) go" where
  "Conn_Write b c = WriteTo (c\<lparr>writeBuffer := writeBuffer c @ b\<rparr>)"

definition Conn_Flush :: "(conn, unit) go" where
  "Conn_Flush = WriteTo"

definition writeUint :: "u32 \<Rightarrow> nat \<Rightarrow> bool \<Rightarrow> (conn, unit) go" where
  "writeUint val n bigEndian = Conn_Write (uintAsbyteSlice val n bigEndian)"

text \<open>A slice of the scratch buffer of the basic header, as in \<open>c.basicHdrBuf[0:1]\<close>.\<close>

definition with_basicHdrBuf :: "nat \<Rightarrow> (conn, 'a) go \<Rightarrow> (conn, 'a) go" where
  "with_basicHdrBuf hi m c = (if hi \<le> basicHdrBuf c then m c else (Panic SliceOutOfRange, c))"

section \<open>Laws of the byte stream\<close>

lemma Conn_Read_append:
  "rx c = w @ rest \<Longrightarrow> length w = n \<Longrightarrow> Conn_Read n c = (Ok w, c\<lparr>rx := rest\<rparr>)"
  by (simp add: Conn_Read_def)

lemma Conn_Read_0 [simp]: "Conn_Read 0 c = (Ok [], c)"
  by (simp add: Conn_Read_def)

lemma readUint_append:
  "rx c = w @ rest \<Longrightarrow> length w = n \<Longrightarrow>
     readUint n be c = (Ok (byteSliceAsUint w be), c\<lparr>rx := rest\<rparr>)"
  by (simp add: readUint_def go_bind_def Conn_Read_append go_return_def)

text \<open>An open connection: nothing pending and a socket that does not break.\<close>

definition tx_open :: "conn \<Rightarrow> bool" where
  "tx_open c \<longleftrightarrow> tx_left c = None \<and> writeBuffer c = []"

abbreviation sent :: "conn \<Rightarrow> u8 list \<Rightarrow> conn" where
  "sent c b \<equiv> c\<lparr>tx := tx c @ b\<rparr>"

lemma tx_open_sent [simp]: "tx_open (sent c b) = tx_open c"
  by (simp add: tx_open_def)

lemma tx_open_rx [simp]: "tx_open (c\<lparr>rx := r\<rparr>) = tx_open c"
  by (simp add: tx_open_def)

lemma tx_open_chunks [simp]: "tx_open (c\<lparr>chunks := m\<rparr>) = tx_open c"
  by (simp add: tx_open_def)

lemma Conn_Write_open [simp]: "tx_open c \<Longrightarrow> Conn_Write b c = (Ok (), sent c b)"
  by (cases c) (simp add: Conn_Write_def WriteTo_def tx_open_def)

lemma Conn_Flush_open [simp]: "tx_open c \<Longrightarrow> Conn_Flush c = (Ok (), c)"
  by (cases c) (simp add: Conn_Flush_def WriteTo_def tx_open_def)

lemma writeUint_open [simp]:
  "tx_open c \<Longrightarrow> writeUint v n be c = (Ok (), sent c (uintAsbyteSlice v n be))"
  by (simp add: writeUint_def)

end
