(* ===== verification/ChunkWrite.thy ===== *)
theory ChunkWrite
  imports Conn
begin

text \<open>
  The writing side of \<^verbatim>\<open>pkg/rtmp/chunk_stream.go\<close>: the basic header, the message header, the
  body and the loop of \<open>writeChunkStream\<close> that splits a message into chunks of the local chunk
  size. The functions work on the message being written and on the connection, since
  \<open>writeChunkStream\<close> updates both. The second half states the bytes a message becomes
  (\<open>message_wire\<close>) without the loop, and shows that the loop sends exactly these.
\<close>

section \<open>Operations\<close>

text \<open>
  A chunk stream identifier of 65600 or more falls through every case of the code's
  \<open>switch\<close>: nothing is written and no error is returned.
\<close>

definition writeChunkBasicHeader :: "u8 \<Rightarrow> u32 \<Rightarrow> (conn, unit) go" where
  "writeChunkBasicHeader fmt csid =
     (let h = push_bit 6 (ucast fmt :: u32) in
      if csid < 64 then
        with_basicHdrBuf 1 (writeUint (h OR csid) 1 False)
      else if csid - 64 < 256 then
        go_bind (with_basicHdrBuf 1 (writeUint (h OR 0) 1 False)) (\<lambda>_.
          with_basicHdrBuf 1 (writeUint (csid - 64) 1 False))
      else if csid - 64 < 65536 then
        go_bind (with_basicHdrBuf 1 (writeUint (h OR 1) 1 False)) (\<lambda>_.
          with_basicHdrBuf 2 (writeUint (csid - 64) 2 False))
      else go_return ())"

text \<open>\<open>c.writeUint(val, cs.msgHdrBuf[0:n], bigEndian)\<close>\<close>

definition writeMsgField :: "u32 \<Rightarrow> nat \<Rightarrow> bool \<Rightarrow> (chunk_stream \<times> conn, unit) go" where
  "writeMsgField val n bigEndian st =
     (if n \<le> msgHdrBuf (fst st) then on_snd (writeUint val n bigEndian) st
      else (Panic SliceOutOfRange, st))"

text \<open>
  The local variable \<open>ts\<close> is capped at \<open>0xffffff\<close> unless the format is 3, and the label
  \<open>END\<close> tests the capped value.
\<close>

definition writeChunkMessageHeader :: "(chunk_stream \<times> conn, unit) go" where
  "writeChunkMessageHeader st =
     (let cs = (if msgHdrBuf (fst st) = 0 then (fst st)\<lparr>msgHdrBuf := 11\<rparr> else fst st);
          ts = (if Fmt cs \<noteq> 3 \<and> TimeStamp cs > 0xffffff then 0xffffff else TimeStamp cs);
          END = (if ts > 0xffffff then writeMsgField (TimeStamp cs) 4 True else go_return ())
      in (if Fmt cs = 3 then END
          else go_bind (writeMsgField ts 3 True) (\<lambda>_.
            if Fmt cs = 2 then END
            else if MsgLength cs > 0xffffff then go_err (Msg ''length'')
            else go_bind (writeMsgField (MsgLength cs) 3 True) (\<lambda>_.
              go_bind (writeMsgField (MsgTypeID cs) 1 True) (\<lambda>_.
                if Fmt cs = 1 then END
                else go_bind (writeMsgField (MsgStreamID cs) 4 False) (\<lambda>_. END)))))
         (cs, snd st))"

definition writeChunkMessageBody :: "u32 \<Rightarrow> u32 \<Rightarrow> (chunk_stream \<times> conn, unit) go" where
  "writeChunkMessageBody start chunkSize st =
     (let lo = unat start; hi = unat (start + chunkSize); b = ChunkBody (fst st) in
      if lo \<le> hi \<and> hi \<le> length b
      then on_snd (Conn_Write (drop lo (take hi b))) st
      else (Panic SliceOutOfRange, st))"

text \<open>
  One iteration of the loop of \<open>writeChunkStream\<close> after the test of \<open>totalLen\<close>; its result is
  \<open>inc\<close>, the number of body bytes written. The body of a chunk starts at \<open>i\<close> times the local
  chunk size.
\<close>

definition writeOneChunk :: "nat \<Rightarrow> (chunk_stream \<times> conn, u32) go" where
  "writeOneChunk i st =
     (let cs = (fst st)\<lparr>Fmt := (if i = 0 then 0 else 3)\<rparr> in
      go_bind (go_wrap ''write chunk basic header''
                 (on_snd (writeChunkBasicHeader (Fmt cs) (Csid cs)))) (\<lambda>_.
      go_bind (go_wrap ''write chunk message header'' writeChunkMessageHeader) (\<lambda>_ st2.
        let n = localChunksize (snd st2);
            start = of_nat i * n;
            leftLen = of_nat (length (ChunkBody (fst st2))) - start;
            inc = (if leftLen < n then leftLen else n)
        in go_bind (go_wrap ''write chunk body'' (writeChunkMessageBody start inc))
             (\<lambda>_. go_return inc) st2)) (cs, snd st))"

text \<open>
  The loop variable \<open>i\<close> runs from 0 to \<open>numChunks\<close>. It is a natural number here: the code's
  32 bit counter could only wrap for a message of more than \<open>0xffffff\<close> bytes, which the first
  message header refuses.
\<close>

function writeChunks :: "u32 \<Rightarrow> nat \<Rightarrow> u32 \<Rightarrow> (chunk_stream \<times> conn, unit) go" where
  "writeChunks numChunks i totalLen st =
     (if i \<le> unat numChunks then
        if totalLen = MsgLength (fst st) then (Ok (), st)
        else (case writeOneChunk i st of
                (Ok inc, st') \<Rightarrow> writeChunks numChunks (Suc i) (totalLen + inc) st'
              | (Err e, st') \<Rightarrow> (Err e, st')
              | (Panic p, st') \<Rightarrow> (Panic p, st'))
      else (Ok (), st))"
  by pat_completeness auto
termination
  by (relation "measure (\<lambda>(numChunks, i, totalLen, st). Suc (unat numChunks) - i)") auto

declare writeChunks.simps [simp del]

definition assignCsid :: "chunk_stream \<Rightarrow> chunk_stream" where
  "assignCsid cs =
     (if MsgTypeID cs = MsgAudioMessage then cs\<lparr>Csid := 4\<rparr>
      else if MsgTypeID cs = MsgVideoMessage \<or> MsgTypeID cs = MsgAMF3DataMessage
              \<or> MsgTypeID cs = MSGAMF0DataMessage then cs\<lparr>Csid := 6\<rparr>
      else cs)"

definition writeChunkStream :: "(chunk_stream \<times> conn, unit) go" where
  "writeChunkStream st =
     (let cs = assignCsid (fst st); c = snd st in
      if localChunksize c = 0 then (Panic DivideByZero, (cs, c))
      else go_bind (writeChunks (MsgLength cs div localChunksize c) 0 0) (\<lambda>_.
             go_wrap ''flush chunk stream'' (on_snd Conn_Flush)) (cs, c))"

section \<open>The bytes of a message\<close>

definition basic_header :: "u8 \<Rightarrow> u32 \<Rightarrow> u8 list" where
  "basic_header fmt csid =
     (let h = push_bit 6 (ucast fmt :: u32) in
      if csid < 64 then uintAsbyteSlice (h OR csid) 1 False
      else if csid < 320 then uintAsbyteSlice h 1 False @ uintAsbyteSlice (csid - 64) 1 False
      else if csid < 65600 then
        uintAsbyteSlice (h OR 1) 1 False @ uintAsbyteSlice (csid - 64) 2 False
      else [])"

text \<open>The message header of a format 0 chunk: the timestamp is capped.\<close>

definition message_header :: "chunk_stream \<Rightarrow> u8 list" where
  "message_header cs =
     uintAsbyteSlice (min (TimeStamp cs) 0xffffff) 3 True
       @ uintAsbyteSlice (MsgLength cs) 3 True
       @ uintAsbyteSlice (MsgTypeID cs) 1 True
       @ uintAsbyteSlice (MsgStreamID cs) 4 False"

text \<open>What a format 3 chunk repeats: the full timestamp, when it exceeds 24 bits.\<close>

definition continuation_header :: "u32 \<Rightarrow> u8 list" where
  "continuation_header ts =
     (if ts > 0xffffff then uintAsbyteSlice ts 4 True else [])"

text \<open>The chunks after the first, for the rest of a body cut into pieces of \<open>n\<close> bytes.\<close>

function continuation_wire :: "u32 \<Rightarrow> u32 \<Rightarrow> nat \<Rightarrow> u8 list \<Rightarrow> u8 list" where
  "continuation_wire csid ts n b =
     (if n = 0 \<or> b = [] then []
      else basic_header 3 csid @ continuation_header ts @ take n b
             @ continuation_wire csid ts n (drop n b))"
  by pat_completeness auto
termination
  by (relation "measure (\<lambda>(csid, ts, n, b). length b)") auto

declare continuation_wire.simps [simp del]

definition message_wire :: "nat \<Rightarrow> chunk_stream \<Rightarrow> u8 list" where
  "message_wire n cs =
     (if ChunkBody cs = [] then []
      else basic_header 0 (Csid cs) @ message_header cs @ take n (ChunkBody cs)
             @ continuation_wire (Csid cs) (TimeStamp cs) n (drop n (ChunkBody cs)))"

lemma continuation_wire_Nil [simp]: "continuation_wire csid ts n [] = []"
  by (simp add: continuation_wire.simps)

lemma continuation_wire_step:
  "0 < n \<Longrightarrow> b \<noteq> [] \<Longrightarrow>
     continuation_wire csid ts n b =
       basic_header 3 csid @ continuation_header ts @ take n b
         @ continuation_wire csid ts n (drop n b)"
  by (simp add: continuation_wire.simps [of csid ts n b])

section \<open>The loop sends the bytes of the message\<close>

definition writable :: "conn \<Rightarrow> bool" where
  "writable c \<longleftrightarrow> tx_open c \<and> 3 \<le> basicHdrBuf c"

lemma writable_sent [simp]: "writable (sent c b) = writable c"
  by (simp add: writable_def)

text \<open>The message once its header buffer is in place, in the format of the chunk \<open>i\<close>.\<close>

definition in_chunk :: "nat \<Rightarrow> chunk_stream \<Rightarrow> chunk_stream" where
  "in_chunk i cs =
     cs\<lparr>Fmt := (if i = 0 then 0 else 3),
        msgHdrBuf := (if msgHdrBuf cs = 0 then 11 else msgHdrBuf cs)\<rparr>"

lemma in_chunk_sel [simp]:
  "Csid (in_chunk i cs) = Csid cs" "TimeStamp (in_chunk i cs) = TimeStamp cs"
  "MsgLength (in_chunk i cs) = MsgLength cs" "MsgTypeID (in_chunk i cs) = MsgTypeID cs"
  "MsgStreamID (in_chunk i cs) = MsgStreamID cs" "ChunkBody (in_chunk i cs) = ChunkBody cs"
  "Fmt (in_chunk i cs) = (if i = 0 then 0 else 3)"
  "msgHdrBuf (in_chunk i cs) = (if msgHdrBuf cs = 0 then 11 else msgHdrBuf cs)"
  by (simp_all add: in_chunk_def)

lemma in_chunk_in_chunk [simp]: "in_chunk j (in_chunk i cs) = in_chunk j cs"
  by (simp add: in_chunk_def)

text \<open>A message the writer sends without an error.\<close>

definition sendable :: "chunk_stream \<Rightarrow> bool" where
  "sendable cs \<longleftrightarrow>
     wf_message cs \<and> MsgLength cs \<le> 0xffffff \<and> (msgHdrBuf cs = 0 \<or> 4 \<le> msgHdrBuf cs)"

lemma sendable_in_chunk [simp]: "sendable (in_chunk i cs) = sendable cs"
  by (simp add: sendable_def wf_message_def)

lemma write_basic_header:
  assumes "writable c"
  shows "writeChunkBasicHeader fmt csid c = (Ok (), sent c (basic_header fmt csid))"
proof -
  have "csid - 64 < 256 \<longleftrightarrow> csid < 320" if "\<not> csid < 64"
    using that by unat_arith
  moreover have "csid - 64 < 65536 \<longleftrightarrow> csid < 65600" if "\<not> csid < 64"
    using that by unat_arith
  ultimately show ?thesis using assms
    by (simp add: writeChunkBasicHeader_def basic_header_def with_basicHdrBuf_def writable_def
        Let_def go_bind_def go_return_def)
qed

lemma write_message_header_0:
  assumes "tx_open c" and "sendable cs"
  shows "writeChunkMessageHeader (cs\<lparr>Fmt := 0\<rparr>, c) =
           (Ok (), (in_chunk 0 cs, sent c (message_header cs)))"
  using assms
  by (auto simp: writeChunkMessageHeader_def writeMsgField_def message_header_def in_chunk_def
      sendable_def go_bind_def go_return_def on_snd_def min_def Let_def not_less)

lemma write_message_header_3:
  assumes "tx_open c" and "sendable cs"
  shows "writeChunkMessageHeader (cs\<lparr>Fmt := 3\<rparr>, c) =
           (Ok (), (in_chunk (Suc i) cs, sent c (continuation_header (TimeStamp cs))))"
  using assms
  by (auto simp: writeChunkMessageHeader_def writeMsgField_def continuation_header_def in_chunk_def
      sendable_def go_return_def on_snd_def Let_def)

text \<open>
  One chunk: the header of its format, then the piece of the body at \<open>i\<close> times the chunk size.
\<close>

definition chunk_header :: "nat \<Rightarrow> chunk_stream \<Rightarrow> u8 list" where
  "chunk_header i cs =
     (if i = 0 then basic_header 0 (Csid cs) @ message_header cs
      else basic_header 3 (Csid cs) @ continuation_header (TimeStamp cs))"

lemma write_one_header:
  assumes "writable c" and "sendable cs" and "cs1 = cs\<lparr>Fmt := (if i = 0 then 0 else 3)\<rparr>"
  shows "go_bind (go_wrap a (on_snd (writeChunkBasicHeader (Fmt cs1) (Csid cs1)))) (\<lambda>_.
           go_bind (go_wrap b writeChunkMessageHeader) k) (cs1, c)
         = k () (in_chunk i cs, sent c (chunk_header i cs))"
proof (cases i)
  case 0
  with assms write_message_header_0 [of "sent c (basic_header 0 (Csid cs))" cs] show ?thesis
    by (simp add: go_bind_def go_wrap_def on_snd_def write_basic_header chunk_header_def
        writable_def)
next
  case (Suc j)
  with assms write_message_header_3 [of "sent c (basic_header 3 (Csid cs))" cs j] show ?thesis
    by (simp add: go_bind_def go_wrap_def on_snd_def write_basic_header chunk_header_def
        writable_def)
qed

lemma write_body:
  assumes "tx_open c" and "lo + sz \<le> length (ChunkBody cs)" and "length (ChunkBody cs) < 2 ^ 32"
    and "unat start = lo" and "unat size32 = sz"
  shows "writeChunkMessageBody start size32 (cs, c) =
           (Ok (), (cs, sent c (take sz (drop lo (ChunkBody cs)))))"
proof -
  have "unat (start + size32) = lo + sz"
    using assms by (simp add: unat_add_u32_small)
  with assms show ?thesis
    by (simp add: writeChunkMessageBody_def on_snd_def Let_def drop_take)
qed

lemma take_min_drop: "take (min n (length b - k)) (drop k b) = take n (drop k b)"
  by (simp add: min_def)

lemma unat_times_small:
  assumes "i * unat n < 2 ^ 32"
  shows "unat (of_nat i * n :: u32) = i * unat n"
proof -
  have "of_nat i * n = (of_nat (i * unat n) :: u32)" by simp
  then show ?thesis using assms by (simp only: unat_of_nat_u32)
qed

lemma write_one_chunk:
  assumes c: "writable c" and cs: "sendable cs"
    and n: "n = unat (localChunksize c)"
    and b: "b = drop (i * n) (ChunkBody cs)" "i * n \<le> length (ChunkBody cs)"
  shows "writeOneChunk i (cs, c) =
           (Ok (of_nat (min n (length b))),
            (in_chunk i cs, sent c (chunk_header i cs @ take n b)))"
proof -
  let ?len = "length (ChunkBody cs)" and ?start = "of_nat i * localChunksize c :: u32"
  let ?left = "of_nat ?len - ?start :: u32"
  let ?inc = "if ?left < localChunksize c then ?left else localChunksize c"
  have len: "?len < 2 ^ 32"
    using cs u32_bound [of "MsgLength cs"] by (simp add: sendable_def wf_message_def)
  have start: "unat ?start = i * n"
    using b len n by (simp add: unat_times_small)
  have left: "unat ?left = length b"
    using start b len by (simp add: unat_sub_u32 word_le_nat_alt unat_of_nat_u32)
  have inc: "unat ?inc = min n (length b)"
    using left n by (simp add: word_less_nat_alt min_def)
  have body: "writeChunkMessageBody ?start ?inc (in_chunk i cs, sent c h)
      = (Ok (), (in_chunk i cs, sent c (h @ take n b)))" for h
    using write_body [OF _ _ _ start inc, of "sent c h" "in_chunk i cs"] c b len
    by (simp add: writable_def take_min_drop)
  have "unat (of_nat (min n (length b)) :: u32) = min n (length b)"
    by (rule unat_of_nat_u32) (use len b in auto)
  with inc have inc32: "?inc = of_nat (min n (length b))"
    by (simp only: word_unat_eq_iff)
  then show ?thesis
    unfolding writeOneChunk_def Let_def fst_conv snd_conv
    by (subst write_one_header [OF c cs refl])
      (simp add: go_bind_def go_wrap_def go_return_def body [unfolded inc32]
        split del: if_split cong del: if_weak_cong)
qed

text \<open>The body the loop has sent before iteration \<open>i\<close>, and the message it leaves behind.\<close>

definition sent_upto :: "nat \<Rightarrow> nat \<Rightarrow> chunk_stream \<Rightarrow> u32" where
  "sent_upto n i cs = of_nat (min (i * n) (length (ChunkBody cs)))"

lemma sent_upto_0 [simp]: "sent_upto n 0 cs = 0"
  by (simp add: sent_upto_def)

lemma sent_upto_in_chunk [simp]: "sent_upto n i (in_chunk j cs) = sent_upto n i cs"
  by (simp add: sent_upto_def)

lemma sent_upto_Suc:
  "i * n \<le> length (ChunkBody cs) \<Longrightarrow>
     sent_upto n i cs + of_nat (min n (length (drop (i * n) (ChunkBody cs))))
       = sent_upto n (Suc i) cs"
proof -
  assume "i * n \<le> length (ChunkBody cs)"
  then have "min (i * n) (length (ChunkBody cs)) + min n (length (drop (i * n) (ChunkBody cs)))
      = min (Suc i * n) (length (ChunkBody cs))"
    by auto
  then show ?thesis
    unfolding sent_upto_def by (simp only: of_nat_add [symmetric])
qed

lemma sendable_length:
  "sendable cs \<Longrightarrow> length (ChunkBody cs) < 2 ^ 24 \<and> unat (MsgLength cs) = length (ChunkBody cs)"
  by (simp add: sendable_def wf_message_def word_le_nat_alt)

lemma sent_upto_eq:
  assumes "sendable cs"
  shows "sent_upto n i cs = MsgLength cs \<longleftrightarrow> length (ChunkBody cs) \<le> i * n"
proof -
  have "sent_upto n i cs = MsgLength cs \<longleftrightarrow>
          unat (sent_upto n i cs) = length (ChunkBody cs)"
    using sendable_length [OF assms] by (simp add: word_unat_eq_iff)
  also have "unat (sent_upto n i cs) = min (i * n) (length (ChunkBody cs))"
    unfolding sent_upto_def
    by (rule unat_of_nat_u32) (use sendable_length [OF assms] in auto)
  finally show ?thesis by auto
qed

lemma writeChunks_done:
  "length (ChunkBody cs) \<le> i * n \<Longrightarrow> sendable cs \<Longrightarrow>
     writeChunks k i (sent_upto n i cs) (cs, c) = (Ok (), (cs, c))"
  by (simp add: writeChunks.simps sent_upto_eq)

lemma writeChunks_step:
  assumes "writable c" "sendable cs" "n = unat (localChunksize c)"
    and "0 < n" "i * n < length (ChunkBody cs)" "k = MsgLength cs div localChunksize c"
  shows "writeChunks k i (sent_upto n i cs) (cs, c) =
           writeChunks k (Suc i) (sent_upto n (Suc i) cs)
             (in_chunk i cs,
              sent c (chunk_header i cs @ take n (drop (i * n) (ChunkBody cs))))"
proof -
  have "unat k = length (ChunkBody cs) div n"
    using assms by (simp add: unat_div sendable_length)
  then have "i \<le> unat k"
    using assms by (simp add: less_eq_div_iff_mult_less_eq)
  moreover have "sent_upto n i cs \<noteq> MsgLength cs"
    using assms by (simp add: sent_upto_eq)
  ultimately show ?thesis
    using write_one_chunk [OF assms(1,2,3) refl, of i] assms sent_upto_Suc [of i n cs]
    by (subst writeChunks.simps) simp
qed

text \<open>The chunks after the first.\<close>

lemma writeChunks_rest:
  assumes "writable c" "sendable cs" "n = unat (localChunksize c)" "0 < n" "0 < i"
    and "k = MsgLength cs div localChunksize c" and "i * n < length (ChunkBody cs)"
  shows "writeChunks k i (sent_upto n i cs) (cs, c) =
           (Ok (), (in_chunk 1 cs,
                    sent c (continuation_wire (Csid cs) (TimeStamp cs) n
                              (drop (i * n) (ChunkBody cs)))))"
  using assms
proof (induction "length (ChunkBody cs) - i * n" arbitrary: i cs c rule: less_induct)
  case less
  let ?c1 = "sent c (chunk_header i cs @ take n (drop (i * n) (ChunkBody cs)))"
  have step: "writeChunks k i (sent_upto n i cs) (cs, c) =
      writeChunks k (Suc i) (sent_upto n (Suc i) (in_chunk i cs)) (in_chunk i cs, ?c1)"
    using less.prems by (simp add: writeChunks_step)
  have same: "in_chunk i cs = in_chunk 1 cs"
    using less.prems by (simp add: in_chunk_def)
  show ?case
  proof (cases "Suc i * n < length (ChunkBody cs)")
    case True
    then have "writeChunks k (Suc i) (sent_upto n (Suc i) (in_chunk i cs)) (in_chunk i cs, ?c1)
        = (Ok (), (in_chunk 1 cs, sent ?c1 (continuation_wire (Csid cs) (TimeStamp cs) n
             (drop (Suc i * n) (ChunkBody cs)))))"
      using less.hyps [of "in_chunk i cs" "Suc i" ?c1] less.prems by simp
    then show ?thesis
      using less.prems(4,5,7)
      by (simp add: step continuation_wire_step [of n "drop (i * n) (ChunkBody cs)"]
          chunk_header_def add.commute)
  next
    case False
    then have "drop (n + i * n) (ChunkBody cs) = []" by simp
    then show ?thesis
      using writeChunks_done [of "in_chunk 1 cs" "Suc i" n k ?c1] False less.prems(2,4,5,7) same
      by (simp add: step continuation_wire_step [of n "drop (i * n) (ChunkBody cs)"]
          chunk_header_def)
  qed
qed

text \<open>The message as the writer leaves it: its last chunk decides its format.\<close>

definition after_write :: "nat \<Rightarrow> chunk_stream \<Rightarrow> chunk_stream" where
  "after_write n cs =
     (if ChunkBody cs = [] then cs
      else in_chunk (if length (ChunkBody cs) \<le> n then 0 else 1) cs)"

lemma writeChunks_all:
  assumes "writable c" "sendable cs" "n = unat (localChunksize c)" "0 < n"
  shows "writeChunks (MsgLength cs div localChunksize c) 0 0 (cs, c) =
           (Ok (), (after_write n cs, sent c (message_wire n cs)))"
proof (cases "ChunkBody cs = []")
  case True
  then show ?thesis
    using writeChunks_done [of cs 0 n] assms(2) by (simp add: after_write_def message_wire_def)
next
  case False
  let ?c1 = "sent c (chunk_header 0 cs @ take n (ChunkBody cs))"
  have step: "writeChunks (MsgLength cs div localChunksize c) 0 0 (cs, c) =
      writeChunks (MsgLength cs div localChunksize c) 1 (sent_upto n 1 (in_chunk 0 cs))
        (in_chunk 0 cs, ?c1)"
    using writeChunks_step [OF assms, of 0] False by simp
  show ?thesis
  proof (cases "n < length (ChunkBody cs)")
    case True
    then show ?thesis
      using writeChunks_rest [of ?c1 "in_chunk 0 cs" n 1] assms False
      by (simp add: step message_wire_def chunk_header_def after_write_def)
  next
    case False
    then show ?thesis
      using writeChunks_done [of "in_chunk 0 cs" 1 n _ ?c1] assms(2) \<open>ChunkBody cs \<noteq> []\<close>
      by (simp add: step message_wire_def chunk_header_def after_write_def)
  qed
qed

lemma assignCsid_sel [simp]:
  "ChunkBody (assignCsid cs) = ChunkBody cs" "MsgLength (assignCsid cs) = MsgLength cs"
  "TimeStamp (assignCsid cs) = TimeStamp cs" "MsgTypeID (assignCsid cs) = MsgTypeID cs"
  "MsgStreamID (assignCsid cs) = MsgStreamID cs" "msgHdrBuf (assignCsid cs) = msgHdrBuf cs"
  by (simp_all add: assignCsid_def)

lemma sendable_assignCsid [simp]: "sendable (assignCsid cs) = sendable cs"
  by (simp add: sendable_def wf_message_def)

lemma writeChunkStream_wire:
  assumes "writable c" "sendable cs" "0 < localChunksize c"
  shows "writeChunkStream (cs, c) =
           (Ok (), (after_write (unat (localChunksize c)) (assignCsid cs),
                    sent c (message_wire (unat (localChunksize c)) (assignCsid cs))))"
proof -
  have "localChunksize c \<noteq> 0" and "0 < unat (localChunksize c)"
    using assms(3) by (auto simp: word_greater_zero_iff unat_gt_0)
  then show ?thesis
    using writeChunks_all [of c "assignCsid cs" "unat (localChunksize c)"] assms(1,2)
    by (simp add: writeChunkStream_def Let_def go_bind_def go_wrap_def on_snd_def writable_def)
qed

section \<open>What writing leaves alone\<close>

text \<open>A property of the connection that does not look at the outgoing bytes.\<close>

definition tx_frame :: "(conn \<Rightarrow> bool) \<Rightarrow> bool" where
  "tx_frame P \<longleftrightarrow>
     (\<forall>c b. P (c\<lparr>tx := b\<rparr>) = P c) \<and> (\<forall>c k. P (c\<lparr>tx_left := k\<rparr>) = P c)
     \<and> (\<forall>c b. P (c\<lparr>writeBuffer := b\<rparr>) = P c)"

lemma keeps_on_snd [keepsI]: "keeps P m \<Longrightarrow> keeps (\<lambda>st. P (snd st)) (on_snd m)"
  unfolding keeps_def on_snd_def by (auto split: prod.splits)

lemma keeps_WriteTo [keepsI]: "tx_frame P \<Longrightarrow> keeps P WriteTo"
  unfolding keeps_def tx_frame_def WriteTo_def Let_def by (auto split: option.splits)

lemma keeps_Conn_Write [keepsI]: "tx_frame P \<Longrightarrow> keeps P (Conn_Write b)"
  using keeps_WriteTo [of P] unfolding keeps_def Conn_Write_def tx_frame_def by auto

lemma keeps_Conn_Flush [keepsI]: "tx_frame P \<Longrightarrow> keeps P Conn_Flush"
  unfolding Conn_Flush_def by (rule keeps_WriteTo)

lemma keeps_writeUint [keepsI]: "tx_frame P \<Longrightarrow> keeps P (writeUint v n be)"
  unfolding writeUint_def by (rule keeps_Conn_Write)

lemma keeps_with_basicHdrBuf [keepsI]: "keeps P m \<Longrightarrow> keeps P (with_basicHdrBuf n m)"
  unfolding keeps_def with_basicHdrBuf_def by auto

lemma keeps_writeChunkBasicHeader [keepsI]:
  "tx_frame P \<Longrightarrow> keeps P (writeChunkBasicHeader fmt csid)"
  unfolding writeChunkBasicHeader_def Let_def by (intro keepsI)

lemma keeps_writeMsgField [keepsI]:
  "tx_frame P \<Longrightarrow> keeps (\<lambda>st. P (snd st)) (writeMsgField v n be)"
  using keeps_on_snd [OF keeps_writeUint [of P v n be]]
  unfolding keeps_def writeMsgField_def by auto

lemma keepsD': "keeps I m \<Longrightarrow> I s \<Longrightarrow> I (snd (m s))"
  by (simp add: keeps_def)

lemma keeps_writeChunkMessageHeader [keepsI]:
  assumes "tx_frame P"
  shows "keeps (\<lambda>st. P (snd st)) writeChunkMessageHeader"
  unfolding keeps_def writeChunkMessageHeader_def Let_def
  by (intro allI impI keepsD' [where I = "\<lambda>st. P (snd st)"] keepsI assms) simp

lemma keeps_writeChunkMessageBody [keepsI]:
  assumes "tx_frame P"
  shows "keeps (\<lambda>st. P (snd st)) (writeChunkMessageBody start sz)"
  unfolding keeps_def writeChunkMessageBody_def Let_def
  by (auto intro!: keepsD' [where I = "\<lambda>st. P (snd st)"] keepsI assms)

lemma keeps_writeOneChunk [keepsI]:
  assumes "tx_frame P"
  shows "keeps (\<lambda>st. P (snd st)) (writeOneChunk i)"
proof -
  have body: "keeps (\<lambda>st. P (snd st)) (\<lambda>st2. go_bind (go_wrap a
      (writeChunkMessageBody (f st2) (g st2))) (\<lambda>_. go_return (h st2)) st2)" for a f g h
    unfolding keeps_def
    by (intro allI impI keepsD' [where I = "\<lambda>st. P (snd st)"] keepsI assms)
  show ?thesis
    unfolding keeps_def writeOneChunk_def Let_def
    by (intro allI impI keepsD' [where I = "\<lambda>st. P (snd st)"] keepsI assms body) simp
qed

lemma keeps_writeChunks [keepsI]:
  assumes "tx_frame P"
  shows "keeps (\<lambda>st. P (snd st)) (writeChunks k i t)"
proof -
  have "P (snd st) \<Longrightarrow> P (snd (snd (writeChunks k i t st)))" for st
  proof (induction k i t st rule: writeChunks.induct)
    case (1 k i t st)
    then show ?case
      using keepsD' [OF keeps_writeOneChunk [OF assms], of st i]
      by (subst writeChunks.simps) (auto split: prod.splits res.splits)
  qed
  then show ?thesis by (simp add: keeps_def)
qed

lemma keeps_writeChunkStream [keepsI]:
  assumes "tx_frame P"
  shows "keeps (\<lambda>st. P (snd st)) writeChunkStream"
proof -
  have "keeps (\<lambda>st. P (snd st)) (go_bind (writeChunks k i t) (\<lambda>_.
      go_wrap a (on_snd Conn_Flush)))" for k i t a
    by (intro keepsI assms)
  then show ?thesis
    unfolding keeps_def writeChunkStream_def Let_def by simp
qed

end
