(* ===== verification/ChunkRead.thy ===== *)
theory ChunkRead
  imports ChunkWrite
begin

text \<open>
  The reading side of \<^verbatim>\<open>pkg/rtmp/chunk_stream.go\<close>: the basic header, the message header, the
  body, the bookkeeping of a completed message (\<open>onReadChunkStreamSucc\<close>, \<open>ack\<close>) and the loop
  of \<open>readChunkStream\<close>. The pointer \<open>cs\<close> that the loop shares with the map \<open>c.chunks\<close> is modelled by
  storing the chunk stream back into the map after the calls that update it. The loop ends because
  every iteration takes at least one byte of the input.
\<close>

section \<open>Headers\<close>

definition readChunkBasicHeader :: "(conn, u8 \<times> u32) go" where
  "readChunkBasicHeader =
     go_bind (go_wrap ''basic header requires 1 bytes'' (with_basicHdrBuf 1 (readUint 1 True)))
       (\<lambda>h.
         let fmt = ucast (drop_bit 6 h) :: u8; csid = h AND 0x3f in
         if csid = 0 then
           go_bind (go_wrap ''basic header requires 2 bytes''
                      (with_basicHdrBuf 2 (readUint 1 False)))
             (\<lambda>id. go_return (fmt, id + 64))
         else if csid = 1 then
           go_bind (go_wrap ''basic header requires 3 bytes''
                      (with_basicHdrBuf 3 (readUint 2 False)))
             (\<lambda>id. go_return (fmt, id + 64))
         else go_return (fmt, csid))"

definition headerSize :: "u8 \<Rightarrow> nat \<Rightarrow> nat" where
  "headerSize fmt old =
     (if fmt = 0 then 11 else if fmt = 1 then 7 else if fmt = 2 then 3
      else if fmt = 3 then 0 else old)"

text \<open>
  The fields of a header of format 0, 1 or 2. The code selects how the timestamp is updated by
  \<open>cs.Fmt\<close>, the format the chunk stream was created with, not by the format just read.
\<close>

definition parseMessageHeader :: "u8 \<Rightarrow> u8 list \<Rightarrow> chunk_stream \<Rightarrow> chunk_stream" where
  "parseMessageHeader fmt buf cs =
     (let ts = byteSliceAsUint (take 3 buf) True;
          cs1 = cs\<lparr>ExtendedTimeStamp := ts, timeExtended := ts \<ge> 0xffffff\<rparr>;
          cs2 = (if \<not> timeExtended cs1 then
                   (if Fmt cs1 = 0 then cs1\<lparr>TimeStamp := ts\<rparr>
                    else if Fmt cs1 = 1 \<or> Fmt cs1 = 2
                         then cs1\<lparr>TimeStamp := TimeStamp cs1 + ts\<rparr>
                    else cs1)
                 else cs1);
          cs3 = (if fmt \<le> 1 then
                   cs2\<lparr>MsgLength := byteSliceAsUint (take 3 (drop 3 buf)) True,
                       MsgTypeID := byteSliceAsUint (take 1 (drop 6 buf)) True\<rparr>
                 else cs2);
          cs4 = (if fmt = 0
                 then cs3\<lparr>MsgStreamID := byteSliceAsUint (take 4 (drop 7 buf)) False\<rparr>
                 else cs3)
      in cs4\<lparr>gotBodyFull := False, bodyIndex := 0, bodyRemain := MsgLength cs4,
             ChunkBody := replicate (unat (MsgLength cs4)) 0\<rparr>)"

text \<open>A format 3 header: a new message on an idle stream, or one more chunk of a message.\<close>

definition restartBody :: "chunk_stream \<Rightarrow> chunk_stream" where
  "restartBody cs =
     cs\<lparr>gotBodyFull := False, bodyIndex := 0, bodyRemain := MsgLength cs,
        ChunkBody := replicate (unat (MsgLength cs)) 0\<rparr>"

definition continueMessageHeader :: "(chunk_stream \<times> conn, unit) go" where
  "continueMessageHeader st =
     (let cs = fst st in
      if bodyRemain cs = 0 then
        go_bind
          (if Fmt cs = 0 then
             (if timeExtended cs then
                go_bind (on_snd (go_ignore 0 (readUint 4 True)))
                  (\<lambda>t. go_modify (apfst (\<lambda>cs. cs\<lparr>TimeStamp := t\<rparr>)))
              else go_return ())
           else if Fmt cs = 1 \<or> Fmt cs = 2 then
             go_bind (if timeExtended cs then on_snd (go_ignore 0 (readUint 4 True))
                      else go_return (ExtendedTimeStamp cs))
               (\<lambda>d. go_modify (apfst (\<lambda>cs. cs\<lparr>TimeStamp := TimeStamp cs + d\<rparr>)))
           else go_return ())
          (\<lambda>_. go_modify (apfst restartBody)) st
      else if timeExtended cs then
        go_bind (go_wrap ''peek 4 bytes'' (on_snd (reader_Peek 4)))
          (\<lambda>b. if byteSliceAsUint b True = TimeStamp cs
                then on_snd (go_ignore () (reader_Discard 4)) else go_return ()) st
      else (Ok (), st))"

definition readChunkMessageHeader :: "u8 \<Rightarrow> (chunk_stream \<times> conn, unit) go" where
  "readChunkMessageHeader fmt st =
     (let cs = (fst st)\<lparr>msgHdrSize := headerSize fmt (msgHdrSize (fst st))\<rparr>;
          n = msgHdrSize cs
      in if msgHdrBuf cs < n then (Panic SliceOutOfRange, (cs, snd st))
         else go_bind (go_wrap ''read message header'' (on_snd (Conn_Read n)))
                (\<lambda>buf. if fmt \<le> 2
                        then go_modify (apfst (parseMessageHeader fmt buf))
                        else continueMessageHeader)
                (cs, snd st))"

section \<open>Body\<close>

definition storeBody :: "u8 list \<Rightarrow> chunk_stream \<Rightarrow> chunk_stream" where
  "storeBody buf cs =
     (let nr = of_nat (length buf) in
      cs\<lparr>ChunkBody := overwrite (unat (bodyIndex cs)) buf (ChunkBody cs),
         bodyIndex := bodyIndex cs + nr, bodyRemain := bodyRemain cs - nr,
         gotBodyFull := (if bodyRemain cs - nr = 0 then True else gotBodyFull cs)\<rparr>)"

definition readChunkMessageBody :: "(chunk_stream \<times> conn, unit) go" where
  "readChunkMessageBody st =
     (let cs = fst st; c = snd st;
          sz = (if bodyRemain cs > remoteChunkSize c then remoteChunkSize c
                else bodyRemain cs);
          lo = unat (bodyIndex cs); hi = unat (bodyIndex cs + sz)
      in if hi < lo \<or> length (ChunkBody cs) < hi then (Panic SliceOutOfRange, st)
         else go_bind (go_wrap ''read body'' (on_snd (Conn_Read (unat sz))))
                (\<lambda>buf. go_modify (apfst (storeBody buf))) st)"

section \<open>A completed message\<close>

text \<open>
  An acknowledgement that cannot be written is logged and otherwise ignored; the message that
  carries it is dropped afterwards.
\<close>

definition writeMessage :: "chunk_stream \<Rightarrow> (conn, unit) go" where
  "writeMessage cs c = (case writeChunkStream (cs, c) of (r, st) \<Rightarrow> (r, snd st))"

definition ack :: "u32 \<Rightarrow> (conn, unit) go" where
  "ack sz c =
     (let c1 = c\<lparr>bytesRecv := bytesRecv c + sz\<rparr>;
          c2 = (if bytesRecv c1 \<ge> 0xffffffff
                then c1\<lparr>bytesRecv := 0, bytesRecvReset := bytesRecvReset c1 + 1\<rparr> else c1);
          c3 = c2\<lparr>ackSeqNumber := ackSeqNumber c2 + sz\<rparr>
      in if ackSeqNumber c3 \<ge> remoteWindowAckSize c3 then
           (case NewProtolControlMessage MsgAcknowledgement 4 (ackSeqNumber c3) of
              Ok cs \<Rightarrow> go_bind (go_ignore () (writeMessage cs))
                          (\<lambda>_. go_modify (\<lambda>c. c\<lparr>ackSeqNumber := 0\<rparr>)) c3
            | Err e \<Rightarrow> (Err e, c3)
            | Panic p \<Rightarrow> (Panic p, c3))
         else (Ok (), c3))"

text \<open>\<open>binary.BigEndian.Uint32\<close> panics on fewer than four bytes and reads the first four.\<close>

definition BigEndian_Uint32 :: "u8 list \<Rightarrow> u32 res" where
  "BigEndian_Uint32 b =
     (if length b < 4 then Panic IndexOutOfRange else Ok (byteSliceAsUint (take 4 b) True))"

definition onReadChunkStreamSucc :: "chunk_stream \<Rightarrow> (conn, unit) go" where
  "onReadChunkStreamSucc cs =
     go_bind
       (if MsgTypeID cs = MsgSetChunkSize then
          go_bind (\<lambda>c. (BigEndian_Uint32 (ChunkBody cs), c))
            (\<lambda>v. go_modify (\<lambda>c. c\<lparr>remoteChunkSize := v\<rparr>))
        else if MsgTypeID cs = MsgWindowAcknowledgementSize then
          go_bind (\<lambda>c. (BigEndian_Uint32 (ChunkBody cs), c))
            (\<lambda>v. go_modify (\<lambda>c. c\<lparr>remoteWindowAckSize := v\<rparr>))
        else go_return ())
       (\<lambda>_. ack (MsgLength cs))"

section \<open>The loop\<close>

text \<open>The chunk stream of an identifier, made on first use, and its update in the map.\<close>

definition chunkFor :: "u8 \<Rightarrow> u32 \<Rightarrow> conn \<Rightarrow> chunk_stream" where
  "chunkFor fmt csid c =
     (case chunks c csid of Some cs \<Rightarrow> cs | None \<Rightarrow> newChunkStreamForRead fmt csid)"

definition with_chunk :: "u32 \<Rightarrow> chunk_stream \<Rightarrow> (chunk_stream \<times> conn, unit) go
    \<Rightarrow> (conn, chunk_stream) go" where
  "with_chunk csid cs m c =
     (case m (cs, c) of
        (r, (cs', c')) \<Rightarrow>
          ((case r of Ok _ \<Rightarrow> Ok cs' | Err e \<Rightarrow> Err e | Panic p \<Rightarrow> Panic p),
           c'\<lparr>chunks := (chunks c')(csid \<mapsto> cs')\<rparr>))"

text \<open>The body of the \<open>for\<close> loop: \<open>Some\<close> of a completed message, or another iteration.\<close>

definition readOneChunk :: "(conn, chunk_stream) go" where
  "readOneChunk =
     go_bind (go_wrap ''read chunk basic header'' readChunkBasicHeader) (\<lambda>(fmt, csid) c.
       with_chunk csid (chunkFor fmt csid c)
         (go_bind (go_wrap ''read chunk message header'' (readChunkMessageHeader fmt)) (\<lambda>_.
            go_wrap ''read chunk message body'' readChunkMessageBody)) c)"

definition readIteration :: "(conn, chunk_stream option) go" where
  "readIteration =
     go_bind readOneChunk (\<lambda>cs.
       if gotBodyFull cs then go_bind (onReadChunkStreamSucc cs) (\<lambda>_. go_return (Some cs))
       else go_return None)"

section \<open>Termination\<close>

text \<open>No call gives input back, and the basic header of an iteration takes at least one byte.\<close>

abbreviation rx_atmost :: "nat \<Rightarrow> conn \<Rightarrow> bool" where
  "rx_atmost n c \<equiv> length (rx c) \<le> n"

lemma tx_frame_rx [simp]: "tx_frame (rx_atmost n)"
  by (simp add: tx_frame_def)

lemma rx_Conn_Read [keepsI]: "keeps (rx_atmost n) (Conn_Read k)"
  by (auto simp: keeps_def Conn_Read_def)

lemma rx_Peek [keepsI]: "keeps (rx_atmost n) (reader_Peek k)"
  by (simp add: keeps_def reader_Peek_def)

lemma rx_Discard [keepsI]: "keeps (rx_atmost n) (reader_Discard k)"
  by (auto simp: keeps_def reader_Discard_def)

lemma rx_readUint [keepsI]: "keeps (rx_atmost n) (readUint k be)"
  unfolding readUint_def by (intro keepsI)

lemma keeps_fst_modify [keepsI]: "keeps (\<lambda>st. P (snd st)) (go_modify (apfst f))"
  by (simp add: keeps_def go_modify_def apfst_def map_prod_def split: prod.splits)

lemma rx_continue [keepsI]: "keeps (\<lambda>st. rx_atmost n (snd st)) continueMessageHeader"
  unfolding keeps_def continueMessageHeader_def Let_def
  by (auto intro!: keepsD' [where I = "\<lambda>st. rx_atmost n (snd st)"] keepsI)

lemma rx_header [keepsI]: "keeps (\<lambda>st. rx_atmost n (snd st)) (readChunkMessageHeader fmt)"
  unfolding keeps_def readChunkMessageHeader_def Let_def
  by (auto intro!: keepsD' [where I = "\<lambda>st. rx_atmost n (snd st)"] keepsI)

lemma rx_body [keepsI]: "keeps (\<lambda>st. rx_atmost n (snd st)) readChunkMessageBody"
  unfolding keeps_def readChunkMessageBody_def Let_def
  by (auto intro!: keepsD' [where I = "\<lambda>st. rx_atmost n (snd st)"] keepsI)

lemma keeps_writeMessage [keepsI]: "tx_frame P \<Longrightarrow> keeps P (writeMessage cs)"
  using keepsD' [OF keeps_writeChunkStream [of P]]
  by (simp add: keeps_def writeMessage_def split_beta)

lemma rx_ack [keepsI]: "keeps (rx_atmost n) (ack sz)"
proof -
  have "keeps (rx_atmost n) (go_bind (go_ignore () (writeMessage cs))
          (\<lambda>_. go_modify (\<lambda>c. c\<lparr>ackSeqNumber := 0\<rparr>)))" for cs
    by (intro keepsI) (simp_all add: keeps_def go_modify_def)
  then show ?thesis
    by (auto simp: keeps_def ack_def Let_def split: res.splits)
qed

lemma rx_onSucc [keepsI]: "keeps (rx_atmost n) (onReadChunkStreamSucc cs)"
  unfolding onReadChunkStreamSucc_def
  by (intro keepsI) (simp_all add: keeps_def go_modify_def)

lemma rx_with_chunk:
  assumes "keeps (\<lambda>st. rx_atmost n (snd st)) m"
  shows "keeps (rx_atmost n) (with_chunk csid cs m)"
  using keepsD' [OF assms] by (simp add: keeps_def with_chunk_def split_beta)

lemma rx_basic_header:
  "readChunkBasicHeader c = (Ok r, c') \<Longrightarrow> length (rx c') < length (rx c)"
  by (auto simp: readChunkBasicHeader_def readUint_def Conn_Read_def go_bind_def go_wrap_def
      go_return_def with_basicHdrBuf_def Let_def split: if_splits)

lemma readOneChunk_consumes:
  assumes "readOneChunk c = (Ok cs, c')"
  shows "length (rx c') < length (rx c)"
proof -
  let ?m = "\<lambda>fmt. go_bind (go_wrap ''read chunk message header'' (readChunkMessageHeader fmt))
    (\<lambda>_. go_wrap ''read chunk message body'' readChunkMessageBody)"
  obtain fmt csid c1 where h: "readChunkBasicHeader c = (Ok (fmt, csid), c1)"
    and b: "with_chunk csid (chunkFor fmt csid c1) (?m fmt) c1 = (Ok cs, c')"
    using assms by (auto simp: readOneChunk_def go_bind_def go_wrap_def
        split: prod.splits res.splits)
  have "keeps (rx_atmost (length (rx c1)))
          (with_chunk csid (chunkFor fmt csid c1) (?m fmt))"
    by (intro rx_with_chunk keepsI)
  from keepsD' [OF this, of c1] b have "length (rx c') \<le> length (rx c1)"
    by simp
  with rx_basic_header [OF h] show ?thesis by simp
qed

lemma readIteration_consumes:
  assumes "readIteration c = (Ok r, c')"
  shows "length (rx c') < length (rx c)"
proof -
  obtain cs c1 where one: "readOneChunk c = (Ok cs, c1)"
    and rest: "(if gotBodyFull cs
       then go_bind (onReadChunkStreamSucc cs) (\<lambda>_. go_return (Some cs))
       else go_return None) c1 = (Ok r, c')"
    using assms by (auto simp: readIteration_def go_bind_def split: prod.splits res.splits)
  have "keeps (rx_atmost (length (rx c1))) (if gotBodyFull cs
       then go_bind (onReadChunkStreamSucc cs) (\<lambda>_. go_return (Some cs))
       else go_return None)"
    by (intro keepsI)
  from keepsD' [OF this, of c1] rest have "length (rx c') \<le> length (rx c1)"
    by simp
  with readOneChunk_consumes [OF one] show ?thesis by simp
qed

function readChunkStream :: "(conn, chunk_stream) go" where
  "readChunkStream c =
     (case readIteration c of
        (Ok (Some cs), c') \<Rightarrow> (Ok cs, c')
      | (Ok None, c') \<Rightarrow> readChunkStream c'
      | (Err e, c') \<Rightarrow> (Err e, c')
      | (Panic p, c') \<Rightarrow> (Panic p, c'))"
  by pat_completeness auto
termination
  by (relation "measure (\<lambda>c. length (rx c))") (auto dest!: sym [of "(Ok None, _)"] readIteration_consumes)

declare readChunkStream.simps [simp del]

lemma readChunkStream_consumes:
  "readChunkStream c = (Ok cs, c') \<Longrightarrow> length (rx c') < length (rx c)"
proof (induction c rule: readChunkStream.induct)
  case (1 c)
  obtain r c1 where one: "readIteration c = (r, c1)" by (cases "readIteration c")
  show ?case
  proof (cases r)
    case (Ok x)
    note less = readIteration_consumes [OF one [unfolded Ok]]
    show ?thesis
    proof (cases x)
      case None
      then have "readChunkStream c1 = (Ok cs, c')"
        using 1(2) one Ok by (subst (asm) readChunkStream.simps) simp
      then have "length (rx c') < length (rx c1)"
        using 1(1) one Ok None by simp
      with less show ?thesis by simp
    next
      case Some
      with 1(2) one Ok less show ?thesis by (subst (asm) readChunkStream.simps) simp
    qed
  next
    case Err
    with 1(2) one show ?thesis by (subst (asm) readChunkStream.simps) simp
  next
    case Panic
    with 1(2) one show ?thesis by (subst (asm) readChunkStream.simps) simp
  qed
qed

end
