(* ===== verification/ChunkSafety.thy ===== *)
theory ChunkSafety
  imports ChunkRead
begin

text \<open>
  The chunk protocol does not go wrong: what the writer and the reader keep of the connection and
  of every chunk stream, and which panics a peer can cause. The writer never panics on a message
  it can send, however the socket breaks. The reader keeps \<open>conn_inv\<close> on any input, and its
  only panic is the one of \<open>binary.BigEndian.Uint32\<close> on a control message with a short body.
\<close>

section \<open>The writer\<close>

lemma triple_Conn_Write: "tx_frame P \<Longrightarrow> triple P (Conn_Write b) (\<lambda>_. P) P no_panic"
  unfolding triple_def tx_frame_def Conn_Write_def WriteTo_def Let_def
  by (auto split: option.splits)

lemma triple_Conn_Flush: "tx_frame P \<Longrightarrow> triple P Conn_Flush (\<lambda>_. P) P no_panic"
  unfolding triple_def tx_frame_def Conn_Flush_def WriteTo_def Let_def
  by (auto split: option.splits)

lemma triple_writeUint: "tx_frame P \<Longrightarrow> triple P (writeUint v n be) (\<lambda>_. P) P no_panic"
  unfolding writeUint_def by (rule triple_Conn_Write)

lemma triple_with_basicHdrBuf:
  "triple P m Q E X \<Longrightarrow> (\<And>c. P c \<Longrightarrow> n \<le> basicHdrBuf c) \<Longrightarrow>
     triple P (with_basicHdrBuf n m) Q E X"
  unfolding triple_def with_basicHdrBuf_def by auto

text \<open>What the writer needs of the connection: the scratch buffer and a chunk size.\<close>

definition can_write :: "u32 \<Rightarrow> (conn \<Rightarrow> bool) \<Rightarrow> conn \<Rightarrow> bool" where
  "can_write n P c \<longleftrightarrow> P c \<and> 3 \<le> basicHdrBuf c \<and> localChunksize c = n"

lemma tx_frame_can_write [simp]: "tx_frame P \<Longrightarrow> tx_frame (can_write n P)"
  by (simp add: tx_frame_def can_write_def)

lemma triple_writeChunkBasicHeader:
  assumes "tx_frame P"
  shows "triple (can_write n P) (writeChunkBasicHeader fmt csid) (\<lambda>_. can_write n P)
           (can_write n P) no_panic"
  unfolding writeChunkBasicHeader_def Let_def
  by (intro tripleI triple_with_basicHdrBuf triple_writeUint triple_return)
    (simp_all add: assms can_write_def)

text \<open>States of the pair in which the message is known.\<close>

definition on_message :: "chunk_stream \<Rightarrow> (conn \<Rightarrow> bool) \<Rightarrow> chunk_stream \<times> conn \<Rightarrow> bool" where
  "on_message cs P st \<longleftrightarrow> fst st = cs \<and> P (snd st)"

lemma triple_message:
  assumes "triple P m (\<lambda>_. Q) E no_panic"
  shows "triple (on_message cs P) (on_snd m) (\<lambda>_. on_message cs Q) (\<lambda>st. E (snd st)) no_panic"
  using assms unfolding triple_def on_snd_def on_message_def
  by (fastforce split: prod.splits res.splits)

lemma triple_writeMsgField:
  assumes "tx_frame P" and "n \<le> msgHdrBuf cs"
  shows "triple (on_message cs P) (writeMsgField v n be) (\<lambda>_. on_message cs P)
           (\<lambda>st. P (snd st)) no_panic"
proof -
  have "writeMsgField v n be st = on_snd (writeUint v n be) st" if "on_message cs P st" for st
    using that assms(2) by (simp add: writeMsgField_def on_message_def)
  with triple_message [OF triple_writeUint [OF assms(1)]] show ?thesis
    by (simp add: triple_def)
qed

lemma triple_restart:
  "triple (on_message cs P) m Q E X \<Longrightarrow> (\<And>c. n (cs0, c) = m (cs, c)) \<Longrightarrow>
     triple (on_message cs0 P) n Q E X"
  by (fastforce simp: triple_def on_message_def)

lemma triple_writeChunkMessageHeader:
  assumes "tx_frame P" and "sendable cs" and "Fmt cs = (if i = 0 then 0 else 3)"
  shows "triple (on_message cs P) writeChunkMessageHeader (\<lambda>_. on_message (in_chunk i cs) P)
           (\<lambda>st. P (snd st)) no_panic"
proof -
  let ?cs = "in_chunk i cs" and ?ts = "if TimeStamp cs > 0xffffff then 0xffffff else TimeStamp cs"
  have cs: "(if msgHdrBuf cs = 0 then cs\<lparr>msgHdrBuf := 11\<rparr> else cs) = ?cs"
    using assms(3) by (cases cs) (simp add: in_chunk_def)
  have buf: "4 \<le> msgHdrBuf ?cs" and len: "\<not> MsgLength cs > 0xffffff"
    using assms(2) by (auto simp: sendable_def)
  have ts: "\<not> ?ts > 0xffffff" by simp
  note field = triple_writeMsgField [OF assms(1), of _ ?cs]
  show ?thesis
  proof (cases "i = 0")
    case True
    have "writeChunkMessageHeader (cs, c) =
        go_bind (writeMsgField ?ts 3 True) (\<lambda>_. go_bind (writeMsgField (MsgLength cs) 3 True)
          (\<lambda>_. go_bind (writeMsgField (MsgTypeID cs) 1 True)
            (\<lambda>_. writeMsgField (MsgStreamID cs) 4 False))) (?cs, c)" for c
      using assms(3) len True ts
      unfolding writeChunkMessageHeader_def Let_def fst_conv snd_conv cs
      by (simp split del: if_split cong del: if_weak_cong)
    then show ?thesis
      by (rule triple_restart [where cs = ?cs, rotated])
        (intro triple_seq field; use buf in simp)
  next
    case False
    have "writeChunkMessageHeader (cs, c) =
        (if TimeStamp cs > 0xffffff then writeMsgField (TimeStamp cs) 4 True else go_return ())
          (?cs, c)" for c
      using assms(3) False
      unfolding writeChunkMessageHeader_def Let_def fst_conv snd_conv cs by simp
    then show ?thesis
      by (rule triple_restart [where cs = ?cs, rotated])
        (intro triple_if triple_return field; use buf in simp)
  qed
qed

lemma triple_writeChunkMessageBody:
  assumes "tx_frame P" and "unat start \<le> unat (start + n)"
    and "unat (start + n) \<le> length (ChunkBody cs)"
  shows "triple (on_message cs P) (writeChunkMessageBody start n) (\<lambda>_. on_message cs P)
           (\<lambda>st. P (snd st)) no_panic"
  by (rule triple_restart [OF triple_message [OF triple_Conn_Write [OF assms(1)]]])
    (use assms in \<open>simp add: writeChunkMessageBody_def Let_def\<close>)

text \<open>One chunk and the loop, on a message the writer can send.\<close>

lemma triple_writeOneChunk:
  assumes P: "tx_frame P" and cs: "sendable cs" and i: "i * unat n \<le> length (ChunkBody cs)"
  shows "triple (on_message cs (can_write n P)) (writeOneChunk i)
           (\<lambda>inc st. inc = of_nat (min (unat n) (length (drop (i * unat n) (ChunkBody cs))))
              \<and> on_message (in_chunk i cs) (can_write n P) st)
           (\<lambda>st. can_write n P (snd st)) no_panic"
proof -
  let ?I = "can_write n P" and ?cs = "cs\<lparr>Fmt := (if i = 0 then 0 else 3)\<rparr>"
  let ?left = "of_nat (length (ChunkBody cs)) - of_nat i * n :: u32"
  let ?inc = "if ?left < n then ?left else n"
  let ?n = "min (unat n) (length (drop (i * unat n) (ChunkBody cs)))"
  have len: "length (ChunkBody cs) < 2 ^ 32"
    using sendable_length [OF cs] by simp
  have start: "unat (of_nat i * n :: u32) = i * unat n"
    using i len by (simp add: unat_times_small)
  have left: "unat ?left = length (drop (i * unat n) (ChunkBody cs))"
    using start i len by (simp add: unat_sub_u32 word_le_nat_alt unat_of_nat_u32)
  have inc: "unat ?inc = ?n"
    using left by (simp add: word_less_nat_alt min_def)
  have "unat (of_nat ?n :: u32) = ?n"
    by (rule unat_of_nat_u32) (use len in auto)
  with inc have inc32: "?inc = of_nat ?n" by (simp only: word_unat_eq_iff)
  have hi: "unat (of_nat i * n + ?inc) = i * unat n + ?n"
    using start inc i len by (subst unat_add_u32_small) auto
  have "triple (on_message (in_chunk i cs) ?I)
      (go_bind (go_wrap b (writeChunkMessageBody (of_nat i * n) ?inc)) (\<lambda>_. go_return ?inc))
      (\<lambda>inc st. inc = of_nat ?n \<and> on_message (in_chunk i cs) ?I st) (\<lambda>st. ?I (snd st)) no_panic" for b
    unfolding inc32 [symmetric]
    by (rule triple_seq, rule triple_wrap, rule triple_writeChunkMessageBody)
      (use P hi start i in \<open>auto intro: triple_return\<close>)
  then have body: "triple (on_message (in_chunk i cs) ?I) (\<lambda>st2.
      go_bind (go_wrap b (writeChunkMessageBody (of_nat i * localChunksize (snd st2))
        (if of_nat (length (ChunkBody (fst st2))) - of_nat i * localChunksize (snd st2)
              < localChunksize (snd st2)
         then of_nat (length (ChunkBody (fst st2))) - of_nat i * localChunksize (snd st2)
         else localChunksize (snd st2))))
        (\<lambda>_. go_return (if of_nat (length (ChunkBody (fst st2)))
              - of_nat i * localChunksize (snd st2) < localChunksize (snd st2)
         then of_nat (length (ChunkBody (fst st2))) - of_nat i * localChunksize (snd st2)
         else localChunksize (snd st2))) st2)
      (\<lambda>inc st. inc = of_nat ?n \<and> on_message (in_chunk i cs) ?I st) (\<lambda>st. ?I (snd st)) no_panic" for b
    unfolding triple_def on_message_def can_write_def by (auto cong: if_cong)
  have head: "triple (on_message ?cs ?I)
      (go_bind (go_wrap a (on_snd (writeChunkBasicHeader (Fmt ?cs) (Csid ?cs)))) (\<lambda>_.
         go_bind (go_wrap b writeChunkMessageHeader) k))
      (\<lambda>inc st. inc = of_nat ?n \<and> on_message (in_chunk i cs) ?I st) (\<lambda>st. ?I (snd st)) no_panic"
    if "triple (on_message (in_chunk i cs) ?I) (k ()) (\<lambda>inc st. inc = of_nat ?n
          \<and> on_message (in_chunk i cs) ?I st) (\<lambda>st. ?I (snd st)) no_panic" for a b k
  proof -
    have "in_chunk i ?cs = in_chunk i cs" and "sendable ?cs"
      using cs by (simp_all add: in_chunk_def sendable_def wf_message_def)
    then have "triple (on_message ?cs ?I) (go_bind (go_wrap b writeChunkMessageHeader) k)
        (\<lambda>inc st. inc = of_nat ?n \<and> on_message (in_chunk i cs) ?I st) (\<lambda>st. ?I (snd st)) no_panic"
      using triple_writeChunkMessageHeader [of ?I ?cs i] P that
      by (rule_tac triple_bind [where R = "\<lambda>_. on_message (in_chunk i cs) ?I"])
        (simp_all add: triple_wrap)
    then show ?thesis
      by (rule_tac triple_seq)
        (intro triple_wrap triple_message triple_writeChunkBasicHeader P)
  qed
  show ?thesis
    by (rule triple_restart [where cs = ?cs, OF head [OF body]])
      (simp add: writeOneChunk_def Let_def)
qed

text \<open>
  Sending a message on any socket, broken or not: an error is possible, a panic is not, and
  nothing but the outgoing bytes changes.
\<close>

lemma writeChunks_safe:
  assumes P: "tx_frame P"
  shows "sendable cs \<Longrightarrow> can_write n P c \<Longrightarrow> 0 < n \<Longrightarrow>
    (case writeChunks k i (sent_upto (unat n) i cs) (cs, c) of
       (Ok _, st) \<Rightarrow> can_write n P (snd st)
     | (Err _, st) \<Rightarrow> can_write n P (snd st)
     | (Panic _, st) \<Rightarrow> False)"
proof (induction "Suc (unat k) - i" arbitrary: i cs c)
  case 0
  then show ?case by (simp add: writeChunks.simps [of k i])
next
  case (Suc d)
  show ?case
  proof (cases "sent_upto (unat n) i cs = MsgLength cs")
    case True
    then show ?thesis using Suc.prems by (simp add: writeChunks.simps [of k i])
  next
    case False
    then have i: "i * unat n \<le> length (ChunkBody cs)"
      using sent_upto_eq [OF Suc.prems(1)] by (meson nat_le_linear)
    have k: "i \<le> unat k" "d = Suc (unat k) - Suc i" using Suc.hyps(2) by simp_all
    note one = tripleD [OF triple_writeOneChunk [OF P Suc.prems(1) i], of "(cs, c)"]
    note rest = Suc.hyps(1) [OF k(2), of "in_chunk i cs"]
    show ?thesis
      using one rest Suc.prems k(1) False sent_upto_Suc [OF i]
      by (subst writeChunks.simps)
        (force simp: on_message_def split: prod.splits res.splits)
  qed
qed

lemma writeChunkStream_safe:
  assumes "tx_frame P" and "sendable cs" and "can_write n P c" and "0 < n"
  shows "(case writeChunkStream (cs, c) of
            (Ok _, st) \<Rightarrow> can_write n P (snd st)
          | (Err _, st) \<Rightarrow> can_write n P (snd st)
          | (Panic _, st) \<Rightarrow> False)"
proof -
  let ?I = "can_write n P" and ?cs = "assignCsid cs"
  have n: "localChunksize c \<noteq> 0" and P: "tx_frame ?I" using assms by (auto simp: can_write_def)
  have flush: "triple (\<lambda>st. ?I (snd st)) (go_wrap a (on_snd Conn_Flush)) (\<lambda>_ st. ?I (snd st))
      (\<lambda>st. ?I (snd st)) no_panic" for a
    using triple_Conn_Flush [OF P] by (intro tripleI) simp
  have all: "triple (\<lambda>st. st = (?cs, c)) (writeChunks (MsgLength ?cs div n) 0 0)
      (\<lambda>_ st. ?I (snd st)) (\<lambda>st. ?I (snd st)) no_panic"
    using writeChunks_safe [OF assms(1), of ?cs n c "MsgLength ?cs div n" 0] assms(2,3,4)
    by (simp add: triple_def)
  have "triple (\<lambda>st. st = (cs, c)) writeChunkStream (\<lambda>_ st. ?I (snd st)) (\<lambda>st. ?I (snd st)) no_panic"
    using triple_bind [OF all flush] n assms(3)
    by (simp add: triple_def writeChunkStream_def Let_def can_write_def)
  then show ?thesis by (simp add: triple_def)
qed

section \<open>The reader\<close>

lemma triple_apply:
  "(\<And>s. P s \<Longrightarrow> triple (\<lambda>t. t = s) m Q E X) \<Longrightarrow> triple P m Q E X"
  by (simp add: triple_def)

text \<open>
  A chunk stream between two chunks: the body has the announced length, and the bytes received
  and the bytes missing add up to it.
\<close>

definition chunk_inv :: "chunk_stream \<Rightarrow> bool" where
  "chunk_inv cs \<longleftrightarrow>
     msgHdrBuf cs = 11 \<and> msgHdrSize cs \<le> 11 \<and> wf_message cs \<and> length (ChunkBody cs) < 2 ^ 24
     \<and> unat (bodyIndex cs) + unat (bodyRemain cs) = length (ChunkBody cs)
     \<and> (gotBodyFull cs \<longrightarrow> bodyRemain cs = 0)"

definition conn_inv :: "conn \<Rightarrow> bool" where
  "conn_inv c \<longleftrightarrow>
     3 \<le> basicHdrBuf c \<and> localChunksize c \<noteq> 0
     \<and> (\<forall>csid cs. chunks c csid = Some cs \<longrightarrow> chunk_inv cs)"

definition stream_inv :: "chunk_stream \<times> conn \<Rightarrow> bool" where
  "stream_inv st \<longleftrightarrow> chunk_inv (fst st) \<and> conn_inv (snd st)"

lemma conn_inv_rx [simp]: "conn_inv (c\<lparr>rx := r\<rparr>) = conn_inv c"
  by (simp add: conn_inv_def)

lemma tx_frame_conn_inv [simp]: "tx_frame conn_inv"
  by (simp add: tx_frame_def conn_inv_def)

lemma conn_inv_upd [simp]:
  "conn_inv (c\<lparr>remoteChunkSize := v\<rparr>) = conn_inv c"
  "conn_inv (c\<lparr>remoteWindowAckSize := v\<rparr>) = conn_inv c"
  "conn_inv (c\<lparr>bytesRecv := v\<rparr>) = conn_inv c"
  "conn_inv (c\<lparr>bytesRecvReset := v\<rparr>) = conn_inv c"
  "conn_inv (c\<lparr>ackSeqNumber := v\<rparr>) = conn_inv c"
  by (simp_all add: conn_inv_def)

lemma chunk_inv_new [simp]: "chunk_inv (newChunkStreamForRead fmt csid)"
  by (simp add: chunk_inv_def wf_message_def chunk_make_defs)

lemma chunk_inv_chunkFor: "conn_inv c \<Longrightarrow> chunk_inv (chunkFor fmt csid c)"
  by (auto simp: chunkFor_def conn_inv_def split: option.splits)

lemma dec_take_3: "unat (byteSliceAsUint (take 3 b) True) < 2 ^ 24"
proof -
  have "unat (byteSliceAsUint (take 3 b) True) < 256 ^ length (take 3 b)"
    by (rule be.dec_bound) simp
  also have "\<dots> \<le> 256 ^ 3" by (rule power_increasing) simp_all
  finally show ?thesis by simp
qed

lemma chunk_inv_parse:
  assumes "chunk_inv cs"
  shows "chunk_inv (parseMessageHeader fmt buf cs)"
  using assms dec_take_3 [of "drop 3 buf"]
  by (simp add: parseMessageHeader_def chunk_inv_def wf_message_def Let_def)

lemma chunk_inv_restart: "chunk_inv cs \<Longrightarrow> chunk_inv (restartBody cs)"
  by (simp add: restartBody_def chunk_inv_def wf_message_def)

lemma triple_Conn_Read:
  "triple conn_inv (Conn_Read n) (\<lambda>b c. length b = n \<and> conn_inv c) conn_inv no_panic"
  by (simp add: triple_def Conn_Read_def)

lemma triple_readUint: "triple conn_inv (readUint n be) (\<lambda>_. conn_inv) conn_inv no_panic"
  unfolding readUint_def
  by (rule triple_bind [OF triple_Conn_Read triple_return]) simp

lemma triple_readChunkBasicHeader:
  "triple conn_inv readChunkBasicHeader (\<lambda>_. conn_inv) conn_inv no_panic"
  unfolding readChunkBasicHeader_def Let_def
  by (intro tripleI triple_with_basicHdrBuf triple_readUint triple_return; simp add: conn_inv_def)

lemma triple_stream_snd:
  assumes "triple conn_inv m (\<lambda>a. Q a) conn_inv no_panic" and "\<And>a c. Q a c \<Longrightarrow> conn_inv c"
  shows "triple stream_inv (on_snd m) (\<lambda>a st. Q a (snd st) \<and> stream_inv st) stream_inv no_panic"
  using assms unfolding triple_def on_snd_def stream_inv_def
  by (fastforce split: prod.splits res.splits)

lemma triple_stream_modify:
  "(\<And>cs. chunk_inv cs \<Longrightarrow> chunk_inv (f cs)) \<Longrightarrow>
     triple stream_inv (go_modify (apfst f)) (\<lambda>_. stream_inv) stream_inv no_panic"
  by (rule triple_modify) (simp add: stream_inv_def)

lemma triple_peek: "triple conn_inv (reader_Peek n) (\<lambda>_. conn_inv) conn_inv no_panic"
  by (simp add: triple_def reader_Peek_def)

lemma triple_discard: "triple conn_inv (reader_Discard n) (\<lambda>_. conn_inv) conn_inv no_panic"
  by (simp add: triple_def reader_Discard_def)

lemma triple_stream_read:
  assumes "triple conn_inv m (\<lambda>_. conn_inv) conn_inv no_panic"
  shows "triple stream_inv (on_snd m) (\<lambda>_. stream_inv) stream_inv no_panic"
  by (rule triple_conseq [OF triple_stream_snd [OF assms]]) simp_all

lemma triple_stream_ignore:
  assumes "triple conn_inv m (\<lambda>_. conn_inv) conn_inv no_panic"
  shows "triple stream_inv (on_snd (go_ignore d m)) (\<lambda>_. stream_inv) stream_inv no_panic"
  by (rule triple_stream_read, rule triple_ignore, rule assms)

lemma triple_continueMessageHeader:
  "triple stream_inv continueMessageHeader (\<lambda>_. stream_inv) stream_inv no_panic"
proof (rule triple_apply)
  fix st assume I: "stream_inv st"
  note steps = triple_seq triple_if triple_stream_ignore triple_readUint triple_stream_modify
    triple_discard chunk_inv_restart
  have idle: "triple stream_inv
      (go_bind
        (if Fmt cs = 0 then
           (if timeExtended cs then
              go_bind (on_snd (go_ignore 0 (readUint 4 True)))
                (\<lambda>t. go_modify (apfst (\<lambda>cs. cs\<lparr>TimeStamp := t\<rparr>)))
            else go_return ())
         else if Fmt cs = 1 \<or> Fmt cs = 2 then
           go_bind (if timeExtended cs then on_snd (go_ignore 0 (readUint 4 True))
                    else go_return (ExtendedTimeStamp cs))
             (\<lambda>d. go_modify (apfst (\<lambda>cs. cs\<lparr>TimeStamp := TimeStamp cs + d\<rparr>)))
         else go_return ())
        (\<lambda>_. go_modify (apfst restartBody))) (\<lambda>_. stream_inv) stream_inv no_panic" for cs
    by (intro steps triple_return) (simp_all add: chunk_inv_def wf_message_def)
  have more: "triple stream_inv (go_bind (go_wrap a (on_snd (reader_Peek 4)))
      (\<lambda>b. if byteSliceAsUint b True = t
            then on_snd (go_ignore () (reader_Discard 4)) else go_return ()))
      (\<lambda>_. stream_inv) stream_inv no_panic" for a t
    by (intro steps triple_wrap triple_stream_read triple_peek triple_return) simp
  show "triple (\<lambda>t. t = st) continueMessageHeader (\<lambda>_. stream_inv) stream_inv no_panic"
  proof (cases "bodyRemain (fst st) = 0")
    case True
    show ?thesis
      unfolding triple_def continueMessageHeader_def Let_def
      using tripleD [OF idle I, of "fst st"] by (simp only: True simp_thms if_True)
  next
    case False
    then show ?thesis
      using tripleD [OF more I, of "''peek 4 bytes''" "TimeStamp (fst st)"] I
      by (simp add: triple_def continueMessageHeader_def Let_def cong del: if_weak_cong)
  qed
qed

lemma triple_readChunkMessageHeader:
  "triple stream_inv (readChunkMessageHeader fmt) (\<lambda>_. stream_inv) stream_inv no_panic"
proof (rule triple_apply)
  fix st assume I: "stream_inv st"
  let ?st = "((fst st)\<lparr>msgHdrSize := headerSize fmt (msgHdrSize (fst st))\<rparr>, snd st)"
  have I': "stream_inv ?st" and n: "msgHdrSize (fst ?st) \<le> msgHdrBuf (fst ?st)"
    using I by (auto simp: stream_inv_def chunk_inv_def wf_message_def headerSize_def)
  have "triple stream_inv (go_bind (go_wrap a (on_snd (Conn_Read n)))
      (\<lambda>buf. if fmt \<le> 2 then go_modify (apfst (parseMessageHeader fmt buf))
              else continueMessageHeader)) (\<lambda>_. stream_inv) stream_inv no_panic" for a n
    by (intro triple_seq triple_wrap triple_stream_read triple_if triple_stream_modify
        triple_continueMessageHeader chunk_inv_parse triple_conseq [OF triple_Conn_Read]) simp_all
  then show "triple (\<lambda>t. t = st) (readChunkMessageHeader fmt) (\<lambda>_. stream_inv) stream_inv no_panic"
    using I' n by (simp add: triple_def readChunkMessageHeader_def Let_def)
qed

text \<open>The body read in one chunk never runs past the message.\<close>

lemma chunk_inv_store:
  assumes "chunk_inv cs" and "length buf \<le> unat (bodyRemain cs)"
  shows "chunk_inv (storeBody buf cs)"
proof -
  have sum: "unat (bodyIndex cs) + unat (bodyRemain cs) = length (ChunkBody cs)"
    and len: "length (ChunkBody cs) < 2 ^ 24"
    using assms(1) by (simp_all add: chunk_inv_def)
  have n: "unat (of_nat (length buf) :: u32) = length buf"
    using sum len assms(2) by (intro unat_of_nat_u32) simp
  then have "unat (bodyIndex cs + of_nat (length buf)) = unat (bodyIndex cs) + length buf"
    and "unat (bodyRemain cs - of_nat (length buf)) = unat (bodyRemain cs) - length buf"
    using sum len assms(2) by (simp_all add: unat_add_u32_small unat_sub_u32 word_le_nat_alt)
  with assms sum show ?thesis
    by (auto simp: storeBody_def Let_def chunk_inv_def wf_message_def)
qed

lemma triple_readChunkMessageBody:
  "triple stream_inv readChunkMessageBody (\<lambda>_. stream_inv) stream_inv no_panic"
proof (rule triple_apply)
  fix st assume I: "stream_inv st"
  let ?cs = "fst st"
  define sz where "sz = (if bodyRemain ?cs > remoteChunkSize (snd st)
    then remoteChunkSize (snd st) else bodyRemain ?cs)"
  have sum: "unat (bodyIndex ?cs) + unat (bodyRemain ?cs) = length (ChunkBody ?cs)"
    and len: "length (ChunkBody ?cs) < 2 ^ 24" and c: "chunk_inv ?cs" "conn_inv (snd st)"
    using I by (simp_all add: stream_inv_def chunk_inv_def)
  have sz: "unat sz \<le> unat (bodyRemain ?cs)"
    by (auto simp: sz_def word_less_nat_alt)
  then have hi: "unat (bodyIndex ?cs + sz) = unat (bodyIndex ?cs) + unat sz"
    using sum len by (simp add: unat_add_u32_small)
  have "triple (\<lambda>t. t = st) (go_bind (go_wrap a (on_snd (Conn_Read (unat sz))))
      (\<lambda>buf. go_modify (apfst (storeBody buf)))) (\<lambda>_. stream_inv) stream_inv no_panic" for a
    using c sz by (auto simp: triple_def go_bind_def go_wrap_def on_snd_def Conn_Read_def
        go_modify_def stream_inv_def chunk_inv_store)
  then show "triple (\<lambda>t. t = st) readChunkMessageBody (\<lambda>_. stream_inv) stream_inv no_panic"
    using hi sum sz by (simp add: triple_def readChunkMessageBody_def Let_def sz_def [symmetric])
qed

section \<open>A completed message\<close>

text \<open>A property of the connection that the counters of \<open>ack\<close> do not touch.\<close>

definition ack_frame :: "(conn \<Rightarrow> bool) \<Rightarrow> bool" where
  "ack_frame P \<longleftrightarrow>
     tx_frame P \<and> (\<forall>c v. P (c\<lparr>bytesRecv := v\<rparr>) = P c) \<and> (\<forall>c v. P (c\<lparr>bytesRecvReset := v\<rparr>) = P c)
     \<and> (\<forall>c v. P (c\<lparr>ackSeqNumber := v\<rparr>) = P c)"

lemma ack_frame_conn_inv [simp]: "ack_frame conn_inv"
  by (simp add: ack_frame_def)

lemma ack_frame_can_write: "ack_frame P \<Longrightarrow> ack_frame (can_write n P)"
  by (simp add: ack_frame_def can_write_def tx_frame_def)

lemma triple_writeMessage:
  assumes "tx_frame P" and "sendable cs" and "0 < n"
  shows "triple (can_write n P) (writeMessage cs) (\<lambda>_. can_write n P) (can_write n P) no_panic"
  using writeChunkStream_safe [OF assms(1,2) _ assms(3)]
  by (fastforce simp: triple_def writeMessage_def split: prod.splits res.splits)

lemma triple_ack:
  assumes P: "ack_frame P" and n: "0 < n"
  shows "triple (can_write n P) (ack sz) (\<lambda>_. can_write n P) (\<lambda>_. False) no_panic"
proof (rule triple_apply)
  fix c assume I: "can_write n P c"
  note F = ack_frame_can_write [OF P, of n]
  have counters: "can_write n P (c\<lparr>bytesRecv := a, ackSeqNumber := b\<rparr>)"
    "can_write n P (c\<lparr>bytesRecv := a, bytesRecvReset := d, ackSeqNumber := b\<rparr>)" for a b d
    using F I by (simp_all add: ack_frame_def)
  have "sendable cs" if "NewProtolControlMessage MsgAcknowledgement 4 v = Ok cs" for v cs
    using NewProtolControlMessage_4 [of MsgAcknowledgement v] that
    by (auto simp: sendable_def wf_message_def)
  then have "triple (can_write n P) (go_bind (go_ignore () (writeMessage cs))
      (\<lambda>_. go_modify (\<lambda>c. c\<lparr>ackSeqNumber := 0\<rparr>))) (\<lambda>_. can_write n P) (\<lambda>_. False) no_panic"
    if "NewProtolControlMessage MsgAcknowledgement 4 v = Ok cs" for v cs
    using F that n P unfolding ack_frame_def
    by (intro triple_seq triple_ignore triple_writeMessage triple_modify) auto
  then have clear: "triple (\<lambda>s. s = c') (go_bind (go_ignore () (writeMessage cs))
      (\<lambda>_. go_modify (\<lambda>c. c\<lparr>ackSeqNumber := 0\<rparr>))) (\<lambda>_. can_write n P) (\<lambda>_. False) no_panic"
    if "NewProtolControlMessage MsgAcknowledgement 4 v = Ok cs" "can_write n P c'" for v cs c'
    using that by (blast intro: triple_pre)
  have send: "case go_bind (go_ignore () (writeMessage cs))
      (\<lambda>_. go_modify (\<lambda>c. c\<lparr>ackSeqNumber := 0\<rparr>)) c' of
        (Ok a, s) \<Rightarrow> can_write n P s | (Err e, s) \<Rightarrow> False | (Panic p, s) \<Rightarrow> False"
    if "NewProtolControlMessage MsgAcknowledgement 4 v = Ok cs" "can_write n P c'" for v cs c'
    using tripleD [OF clear [OF that] refl] .
  define c2 where "c2 = (let c1 = c\<lparr>bytesRecv := bytesRecv c + sz\<rparr> in
    if bytesRecv c1 \<ge> 0xffffffff
    then c1\<lparr>bytesRecv := 0, bytesRecvReset := bytesRecvReset c1 + 1\<rparr> else c1)"
  define c3 where "c3 = c2\<lparr>ackSeqNumber := ackSeqNumber c2 + sz\<rparr>"
  have c3: "can_write n P c3"
    using counters by (simp add: c3_def c2_def Let_def)
  obtain cs where cs: "NewProtolControlMessage MsgAcknowledgement 4 (ackSeqNumber c3) = Ok cs"
    using NewProtolControlMessage_4 by blast
  have "ack sz c = (if ackSeqNumber c3 \<ge> remoteWindowAckSize c3 then
      go_bind (go_ignore () (writeMessage cs)) (\<lambda>_. go_modify (\<lambda>c. c\<lparr>ackSeqNumber := 0\<rparr>)) c3
    else (Ok (), c3))"
    using cs by (simp add: ack_def Let_def c3_def c2_def)
  then show "triple (\<lambda>s. s = c) (ack sz) (\<lambda>_. can_write n P) (\<lambda>_. False) no_panic"
    using send [OF cs c3] c3 by (simp add: triple_def)
qed

text \<open>The panic a peer can cause: a control message whose body has fewer than four bytes.\<close>

definition short_control :: "chunk_stream \<Rightarrow> bool" where
  "short_control cs \<longleftrightarrow>
     (MsgTypeID cs = MsgSetChunkSize \<or> MsgTypeID cs = MsgWindowAcknowledgementSize)
     \<and> length (ChunkBody cs) < 4"

lemma conn_inv_can_write: "conn_inv c \<Longrightarrow> \<exists>n > 0. can_write n conn_inv c"
  by (auto simp: can_write_def conn_inv_def word_neq_0_conv)

lemma triple_ack_inv: "triple conn_inv (ack sz) (\<lambda>_. conn_inv) (\<lambda>_. False) no_panic"
proof (rule triple_apply)
  fix c assume "conn_inv c"
  then obtain n where n: "0 < n" "can_write n conn_inv c"
    using conn_inv_can_write by blast
  then show "triple (\<lambda>s. s = c) (ack sz) (\<lambda>_. conn_inv) (\<lambda>_. False) no_panic"
    using tripleD [OF triple_ack [OF ack_frame_conn_inv n(1)] n(2), of sz]
    by (cases "ack sz c") (auto simp: triple_def can_write_def split: res.splits)
qed

lemma triple_onSucc:
  assumes c: "conn_inv c"
  shows "triple (\<lambda>s. s = c) (onReadChunkStreamSucc cs) (\<lambda>_. conn_inv) (\<lambda>_. False)
           (\<lambda>p s. p = IndexOutOfRange \<and> short_control cs \<and> s = c)"
    (is "triple _ _ _ _ ?X")
proof -
  have dec: "triple (\<lambda>s. s = c) (\<lambda>c. (BigEndian_Uint32 (ChunkBody cs), c)) (\<lambda>_. conn_inv)
      (\<lambda>_. False) ?X"
    if "MsgTypeID cs = MsgSetChunkSize \<or> MsgTypeID cs = MsgWindowAcknowledgementSize"
    using that c by (auto simp: triple_def BigEndian_Uint32_def short_control_def)
  have save: "triple conn_inv (go_modify f) (\<lambda>_. conn_inv) (\<lambda>_. False) ?X"
    if "\<And>c. conn_inv (f c) = conn_inv c" for f
    using that by (intro triple_modify) simp
  have first: "triple (\<lambda>s. s = c)
      (if MsgTypeID cs = MsgSetChunkSize then
          go_bind (\<lambda>c. (BigEndian_Uint32 (ChunkBody cs), c))
            (\<lambda>v. go_modify (\<lambda>c. c\<lparr>remoteChunkSize := v\<rparr>))
        else if MsgTypeID cs = MsgWindowAcknowledgementSize then
          go_bind (\<lambda>c. (BigEndian_Uint32 (ChunkBody cs), c))
            (\<lambda>v. go_modify (\<lambda>c. c\<lparr>remoteWindowAckSize := v\<rparr>))
        else go_return ()) (\<lambda>_. conn_inv) (\<lambda>_. False) ?X"
    using c by (intro triple_if triple_bind [OF dec save] triple_return) simp_all
  have ack: "triple conn_inv (ack sz) (\<lambda>_. conn_inv) (\<lambda>_. False) ?X" for sz
    by (rule triple_conseq [OF triple_ack_inv]) simp_all
  show ?thesis
    unfolding onReadChunkStreamSucc_def by (rule triple_bind [OF first ack])
qed

section \<open>The loop\<close>

lemma triple_with_chunk:
  assumes m: "triple stream_inv m (\<lambda>_. stream_inv) stream_inv no_panic" and cs: "chunk_inv cs"
  shows "triple conn_inv (with_chunk csid cs m)
           (\<lambda>r c. conn_inv c \<and> chunks c csid = Some r) conn_inv no_panic"
proof (rule triple_apply)
  fix c assume c: "conn_inv c"
  obtain r cs' c' where run: "m (cs, c) = (r, (cs', c'))" by (cases "m (cs, c)") auto
  have "stream_inv (cs', c')" and "\<forall>p. r \<noteq> Panic p"
    using tripleD [OF m, of "(cs, c)"] cs c
    by (cases r; simp add: run stream_inv_def)+
  then show "triple (\<lambda>s. s = c) (with_chunk csid cs m)
      (\<lambda>r c. conn_inv c \<and> chunks c csid = Some r) conn_inv no_panic"
    by (cases r) (simp_all add: triple_def with_chunk_def run stream_inv_def conn_inv_def)
qed

lemma triple_readOneChunk:
  "triple conn_inv readOneChunk (\<lambda>r c. conn_inv c \<and> (\<exists>csid. chunks c csid = Some r))
     conn_inv no_panic"
proof -
  have m: "triple stream_inv (go_bind (go_wrap a (readChunkMessageHeader fmt))
      (\<lambda>_. go_wrap b readChunkMessageBody)) (\<lambda>_. stream_inv) stream_inv no_panic" for a b fmt
    by (intro triple_seq triple_wrap triple_readChunkMessageHeader triple_readChunkMessageBody)
  show ?thesis
    unfolding readOneChunk_def
  proof (intro triple_seq triple_wrap triple_readChunkBasicHeader, rule triple_apply, clarsimp)
    fix fmt csid c assume c: "conn_inv c"
    show "triple (\<lambda>s. s = c) (\<lambda>c. with_chunk csid (chunkFor fmt csid c)
        (go_bind (go_wrap ''read chunk message header'' (readChunkMessageHeader fmt))
          (\<lambda>_. go_wrap ''read chunk message body'' readChunkMessageBody)) c)
        (\<lambda>r c. conn_inv c \<and> (\<exists>csid. chunks c csid = Some r)) conn_inv no_panic"
      unfolding triple_def
      using tripleD [OF triple_with_chunk [OF m chunk_inv_chunkFor [OF c]] c,
          of csid fmt csid "''read chunk message header''" fmt "''read chunk message body''"]
      by (fastforce split: prod.splits res.splits)
  qed
qed

text \<open>A chunk stream of the connection, completed by a control message that is too short.\<close>

definition short_control_received :: "go_panic \<Rightarrow> conn \<Rightarrow> bool" where
  "short_control_received p c \<longleftrightarrow>
     p = IndexOutOfRange \<and> conn_inv c \<and> (\<exists>csid cs. chunks c csid = Some cs \<and> short_control cs)"

lemma triple_readIteration:
  "triple conn_inv readIteration
     (\<lambda>r c. conn_inv c \<and> (\<forall>cs. r = Some cs \<longrightarrow> chunk_inv cs \<and> gotBodyFull cs))
     conn_inv short_control_received"
  unfolding readIteration_def
proof (rule triple_bind)
  show "triple conn_inv readOneChunk (\<lambda>r c. conn_inv c \<and> (\<exists>csid. chunks c csid = Some r))
     conn_inv short_control_received"
    by (rule triple_conseq [OF triple_readOneChunk]) simp_all
next
  fix cs
  let ?I = "\<lambda>c. conn_inv c \<and> (\<exists>csid. chunks c csid = Some cs)"
  show "triple ?I
      (if gotBodyFull cs then go_bind (onReadChunkStreamSucc cs) (\<lambda>_. go_return (Some cs))
       else go_return None)
      (\<lambda>r c. conn_inv c \<and> (\<forall>cs. r = Some cs \<longrightarrow> chunk_inv cs \<and> gotBodyFull cs))
      conn_inv short_control_received"
  proof (rule triple_apply)
    fix c assume c: "?I c"
    then have cs: "chunk_inv cs" by (auto simp: conn_inv_def)
    have "triple (\<lambda>s. s = c) (onReadChunkStreamSucc cs) (\<lambda>_. conn_inv) conn_inv
        short_control_received"
      using c by (intro triple_conseq [OF triple_onSucc]) (auto simp: short_control_received_def)
    then show "triple (\<lambda>s. s = c)
      (if gotBodyFull cs then go_bind (onReadChunkStreamSucc cs) (\<lambda>_. go_return (Some cs))
       else go_return None)
      (\<lambda>r c. conn_inv c \<and> (\<forall>cs. r = Some cs \<longrightarrow> chunk_inv cs \<and> gotBodyFull cs))
      conn_inv short_control_received"
      using cs c by (intro triple_if triple_bind [where R = "\<lambda>_. conn_inv"] triple_return) auto
  qed
qed

lemma triple_readChunkStream:
  "triple conn_inv readChunkStream
     (\<lambda>cs c. conn_inv c \<and> chunk_inv cs \<and> gotBodyFull cs) conn_inv short_control_received"
proof -
  have "conn_inv c \<Longrightarrow> (case readChunkStream c of
      (Ok cs, c') \<Rightarrow> conn_inv c' \<and> chunk_inv cs \<and> gotBodyFull cs
    | (Err e, c') \<Rightarrow> conn_inv c' | (Panic p, c') \<Rightarrow> short_control_received p c')" for c
  proof (induction c rule: readChunkStream.induct)
    case (1 c)
    obtain r c' where one: "readIteration c = (r, c')" by (cases "readIteration c")
    with tripleD [OF triple_readIteration 1(2)] 1(1) show ?case
      by (subst readChunkStream.simps) (auto split: res.splits option.splits)
  qed
  then show ?thesis by (simp add: triple_def)
qed

end
