(* ===== verification/ChunkRoundtrip.thy ===== *)
theory ChunkRoundtrip
  imports ChunkSafety
begin

text \<open>
  What the reader makes of the bytes the writer sends: every header field is recovered, the
  pieces of the body are put together again, and \<open>readChunkStream\<close> delivers the message that
  \<open>writeChunkStream\<close> was given. The section on single chunks steps the reader through one header
  and one piece; the section on messages composes these along \<open>continuation_wire\<close>.
\<close>

section \<open>The basic header\<close>

lemma take_bit_small_u32: "unat (v :: u32) < 2 ^ k \<Longrightarrow> take_bit k v = v"
  by (simp add: word_unat_eq_iff unsigned_take_bit_eq take_bit_nat_eq_self)

lemma take_bit_small_u8: "unat (v :: u8) < 2 ^ k \<Longrightarrow> take_bit k v = v"
  by (simp add: word_unat_eq_iff unsigned_take_bit_eq take_bit_nat_eq_self)

lemma and_0x3f: "(h :: u32) AND 0x3f = take_bit 6 h"
proof -
  have "(0x3f :: u32) = mask 6" by (simp add: mask_eq_exp_minus_1)
  then show ?thesis by (simp only: take_bit_eq_mask)
qed

lemma basic_header_fields:
  assumes "(fmt :: u8) \<le> 3" and "(csid :: u32) < 64"
  shows "ucast (drop_bit 6 (push_bit 6 (ucast fmt) OR csid)) = fmt"
    and "(push_bit 6 (ucast fmt) OR csid) AND 0x3f = csid"
    and "take_bit 8 (push_bit 6 (ucast fmt) OR csid) = push_bit 6 (ucast fmt) OR csid"
proof -
  have c: "take_bit 6 csid = csid"
    using assms(2) by (intro take_bit_small_u32) unat_arith
  have f: "take_bit 2 fmt = fmt"
    using assms(1) by (intro take_bit_small_u8) unat_arith
  have "ucast (drop_bit 6 (push_bit 6 (ucast fmt) OR take_bit 6 csid)) = fmt"
    by (rule bit_eqI) (auto simp: bit_simps)
  then show "ucast (drop_bit 6 (push_bit 6 (ucast fmt) OR csid)) = fmt" by (simp only: c)
  have "take_bit 6 (push_bit 6 (ucast fmt) OR csid) = take_bit 6 csid"
    by (rule bit_eqI) (auto simp: bit_simps)
  then show "(push_bit 6 (ucast fmt) OR csid) AND 0x3f = csid" by (simp only: c and_0x3f)
  have "take_bit 8 (push_bit 6 (ucast (take_bit 2 fmt) :: u32) OR take_bit 6 csid)
    = push_bit 6 (ucast (take_bit 2 fmt)) OR take_bit 6 csid"
    by (rule bit_eqI) (auto simp: bit_simps)
  then show "take_bit 8 (push_bit 6 (ucast fmt) OR csid) = push_bit 6 (ucast fmt) OR csid"
    by (simp only: c f)
qed

lemma one_byte: "uintAsbyteSlice v (Suc 0) False = uintAsbyteSlice v (Suc 0) True"
  using uintAsbyteSlice_Suc [of v 0] by simp

lemma first_byte:
  assumes "fmt \<le> 3" and "low < 64"
  shows "byteSliceAsUint (uintAsbyteSlice (push_bit 6 (ucast fmt) OR low) (Suc 0) False) True
           = push_bit 6 (ucast (fmt :: u8)) OR low"
  using be_dec_enc [of "push_bit 6 (ucast fmt) OR low" "Suc 0"] basic_header_fields(3) [OF assms]
  by (simp add: one_byte)

text \<open>The identifiers that survive the three forms of the basic header.\<close>

definition valid_csid :: "u32 \<Rightarrow> bool" where
  "valid_csid csid \<longleftrightarrow> 2 \<le> csid \<and> csid < 65600"

lemma read_basic_header_1:
  assumes "rx c = uintAsbyteSlice (push_bit 6 (ucast fmt) OR low) (Suc 0) False @ rest"
    and "fmt \<le> 3" and "low < 64" and "3 \<le> basicHdrBuf c"
  shows "go_wrap msg (with_basicHdrBuf (Suc 0) (readUint (Suc 0) True)) c
           = (Ok (push_bit 6 (ucast (fmt :: u8)) OR low), c\<lparr>rx := rest\<rparr>)"
  using assms by (simp add: go_wrap_def with_basicHdrBuf_def readUint_append first_byte)

lemma read_csid:
  assumes "rx c = uintAsbyteSlice v n False @ rest" and "unat v < 256 ^ n"
    and "k \<le> basicHdrBuf c"
  shows "go_wrap msg (with_basicHdrBuf k (readUint n False)) c = (Ok v, c\<lparr>rx := rest\<rparr>)"
  using assms by (simp add: go_wrap_def with_basicHdrBuf_def readUint_append le.dec_enc_small)

lemma read_basic_header:
  assumes c: "rx c = basic_header fmt csid @ rest" "3 \<le> basicHdrBuf c"
    and v: "valid_csid csid" and f: "fmt \<le> 3"
  shows "readChunkBasicHeader c = (Ok (fmt, csid), c\<lparr>rx := rest\<rparr>)"
proof -
  note fields = basic_header_fields [OF f] basic_header_fields(1) [OF f, unfolded drop_bit_or]
  consider "csid < 64" | "\<not> csid < 64" "csid < 320" | "\<not> csid < 320" "csid < 65600"
    using v by (auto simp: valid_csid_def)
  then show ?thesis
  proof cases
    case 1
    moreover have "csid \<noteq> 0" "csid \<noteq> 1" using v by (auto simp: valid_csid_def word_le_nat_alt)
    ultimately show ?thesis
      using c f read_basic_header_1 [of c fmt csid rest]
      by (simp add: readChunkBasicHeader_def basic_header_def go_bind_def go_return_def fields
          Let_def)
  next
    case 2
    then have "unat (csid - 64) < 256 ^ Suc 0" by unat_arith
    with 2 c f show ?thesis
      using read_basic_header_1 [of c fmt 0 "uintAsbyteSlice (csid - 64) (Suc 0) False @ rest"]
        read_csid [of "c\<lparr>rx := uintAsbyteSlice (csid - 64) (Suc 0) False @ rest\<rparr>"
            "csid - 64" "Suc 0"] fields [of 0]
      by (simp add: readChunkBasicHeader_def basic_header_def go_bind_def go_return_def Let_def)
  next
    case 3
    then have "unat (csid - 64) < 256 ^ 2" and "\<not> csid < 64" by unat_arith+
    with 3 c f show ?thesis
      using read_basic_header_1 [of c fmt 1 "uintAsbyteSlice (csid - 64) 2 False @ rest"]
        read_csid [of "c\<lparr>rx := uintAsbyteSlice (csid - 64) 2 False @ rest\<rparr>" "csid - 64" 2]
        fields [of 1]
      by (simp add: readChunkBasicHeader_def basic_header_def go_bind_def go_return_def Let_def)
  qed
qed

section \<open>One chunk\<close>

text \<open>
  A message that survives the trip. The bound on the timestamp excludes the values the writer
  caps and the reader takes for the mark of an extended timestamp.
\<close>

definition deliverable :: "chunk_stream \<Rightarrow> bool" where
  "deliverable m \<longleftrightarrow>
     sendable m \<and> ChunkBody m \<noteq> [] \<and> TimeStamp m < 0xffffff \<and> MsgTypeID m < 256
     \<and> valid_csid (Csid m)"

text \<open>
  The reader's chunk stream after \<open>k\<close> bytes of the body of \<open>m\<close> have arrived, the last header
  having had \<open>hs\<close> bytes.
\<close>

definition receiving :: "chunk_stream \<Rightarrow> nat \<Rightarrow> nat \<Rightarrow> chunk_stream \<Rightarrow> chunk_stream" where
  "receiving m k hs cs =
     cs\<lparr>TimeStamp := TimeStamp m, MsgLength := MsgLength m, MsgTypeID := MsgTypeID m,
        MsgStreamID := MsgStreamID m, ExtendedTimeStamp := TimeStamp m, timeExtended := False,
        msgHdrSize := hs,
        ChunkBody := take k (ChunkBody m) @ replicate (length (ChunkBody m) - k) 0,
        gotBodyFull := (length (ChunkBody m) \<le> k), bodyIndex := of_nat k,
        bodyRemain := of_nat (length (ChunkBody m) - k)\<rparr>"

lemma receiving_sel [simp]:
  "Fmt (receiving m k hs cs) = Fmt cs" "Csid (receiving m k hs cs) = Csid cs"
  "msgHdrBuf (receiving m k hs cs) = msgHdrBuf cs"
  "MsgLength (receiving m k hs cs) = MsgLength m"
  "MsgTypeID (receiving m k hs cs) = MsgTypeID m"
  "MsgStreamID (receiving m k hs cs) = MsgStreamID m"
  "TimeStamp (receiving m k hs cs) = TimeStamp m"
  "timeExtended (receiving m k hs cs) = False"
  "msgHdrSize (receiving m k hs cs) = hs"
  "gotBodyFull (receiving m k hs cs) = (length (ChunkBody m) \<le> k)"
  "bodyIndex (receiving m k hs cs) = of_nat k"
  "bodyRemain (receiving m k hs cs) = of_nat (length (ChunkBody m) - k)"
  by (simp_all add: receiving_def)

lemma deliverableD:
  assumes "deliverable m"
  shows "sendable m" "ChunkBody m \<noteq> []" "TimeStamp m < 0xffffff" "MsgTypeID m < 256"
    "valid_csid (Csid m)" "length (ChunkBody m) < 2 ^ 24"
    "unat (MsgLength m) = length (ChunkBody m)"
  using assms sendable_length [of m] by (simp_all add: deliverable_def)

lemma receiving_body_full:
  "length (ChunkBody m) \<le> k \<Longrightarrow> ChunkBody (receiving m k hs cs) = ChunkBody m"
  by (simp add: receiving_def)

lemma parse_message_header:
  assumes m: "deliverable m" and cs: "Fmt cs = 0"
  shows "parseMessageHeader 0 (message_header m) (cs\<lparr>msgHdrSize := 11\<rparr>) = receiving m 0 11 cs"
proof -
  note d = deliverableD [OF m]
  have ts: "min (TimeStamp m) 0xffffff = TimeStamp m" and t: "\<not> 0xffffff \<le> TimeStamp m"
    using d(3) by (simp_all add: min.absorb1 less_imp_le not_le)
  have "unat (TimeStamp m) < 256 ^ 3" and "unat (MsgTypeID m) < 256 ^ 1"
    and "unat (MsgLength m) < 256 ^ 3"
    using d(3,4,6,7) by (simp_all add: word_less_nat_alt)
  then have fields: "byteSliceAsUint (uintAsbyteSlice (TimeStamp m) 3 True) True = TimeStamp m"
    "byteSliceAsUint (uintAsbyteSlice (MsgTypeID m) (Suc 0) True) True = MsgTypeID m"
    "byteSliceAsUint (uintAsbyteSlice (MsgLength m) 3 True) True = MsgLength m"
    "byteSliceAsUint (uintAsbyteSlice (MsgStreamID m) 4 False) False = MsgStreamID m"
    by (simp_all add: be.dec_enc_small le.dec_enc_4)
  have "of_nat (length (ChunkBody m)) = MsgLength m"
    by (simp flip: d(7))
  then show ?thesis
    using cs d(2,7) t
    by (cases cs)
      (simp add: parseMessageHeader_def message_header_def receiving_def Let_def ts fields)
qed

lemma read_header_0:
  assumes m: "deliverable m" and cs: "Fmt cs = 0" "msgHdrBuf cs = 11"
    and c: "rx c = message_header m @ rest"
  shows "readChunkMessageHeader 0 (cs, c) = (Ok (), (receiving m 0 11 cs, c\<lparr>rx := rest\<rparr>))"
proof -
  have "length (message_header m) = 11" by (simp add: message_header_def)
  with parse_message_header [OF m cs(1)] cs c show ?thesis
    by (simp add: readChunkMessageHeader_def headerSize_def Let_def go_bind_def go_wrap_def
        on_snd_def Conn_Read_append go_modify_def)
qed

lemma read_header_3:
  assumes m: "deliverable m" and "k < length (ChunkBody m)"
  shows "readChunkMessageHeader 3 (receiving m k hs cs, c)
           = (Ok (), (receiving m k 0 cs, c))"
proof -
  have "unat (of_nat (length (ChunkBody m) - k) :: u32) = length (ChunkBody m) - k"
    using deliverableD(6) [OF m] by (intro unat_of_nat_u32) simp
  then have "(of_nat (length (ChunkBody m) - k) :: u32) \<noteq> 0"
    using assms(2) by (metis unat_0 zero_less_diff less_irrefl)
  moreover have "(receiving m k hs cs)\<lparr>msgHdrSize := 0\<rparr> = receiving m k 0 cs"
    by (simp add: receiving_def)
  ultimately show ?thesis
    by (simp add: readChunkMessageHeader_def headerSize_def Let_def go_bind_def go_wrap_def
        on_snd_def continueMessageHeader_def)
qed

lemma receiving_store:
  assumes "B = take j (ChunkBody m) @ replicate (length (ChunkBody m) - j) 0"
    and "I = of_nat j" and "R = of_nat (length (ChunkBody m) - j)"
    and "G = (length (ChunkBody m) \<le> j)"
  shows "(receiving m k hs cs)\<lparr>ChunkBody := B, bodyIndex := I, bodyRemain := R, gotBodyFull := G\<rparr>
           = receiving m j hs cs"
  by (rule chunk_stream.equality) (simp_all add: receiving_def assms del: of_nat_diff)

lemma of_nat_u32_sub: "j \<le> i \<Longrightarrow> (of_nat i - of_nat j :: u32) = of_nat (i - j)"
  by simp

lemma of_nat_u32_eq_0: "i < 2 ^ 32 \<Longrightarrow> (of_nat i :: u32) = 0 \<longleftrightarrow> i = 0"
  using unat_of_nat_u32 [of i] arg_cong [of "of_nat i :: u32" 0 unat] by auto

lemma overwrite_piece:
  assumes "k \<le> length b"
  shows "overwrite k (take n (drop k b)) (take k b @ replicate (length b - k) z)
           = take (min (length b) (k + n)) b @ replicate (length b - min (length b) (k + n)) z"
  using assms by (simp add: overwrite_def min_def take_add)

lemma if_True_disj: "(if P then True else Q) = (P \<or> Q)"
  by simp

lemma store_body:
  assumes m: "deliverable m" and k: "k < length (ChunkBody m)" and n: "0 < n"
  shows "storeBody (take n (drop k (ChunkBody m))) (receiving m k hs cs)
           = receiving m (min (length (ChunkBody m)) (k + n)) hs cs"
proof -
  let ?b = "ChunkBody m"
  obtain L where L: "L = length ?b" by blast
  obtain j where j: "j = min n (L - k)" by blast
  obtain e where e: "e = min L (k + n)" by blast
  have kj: "k + j = e" "L - k - j = L - e" "j \<le> L - k" "k < L" "L < 2 ^ 32"
    using k deliverableD(6) [OF m] by (auto simp: L j e min_def)
  have next_idx: "(of_nat k + of_nat j :: u32) = of_nat e"
    by (simp only: of_nat_add [symmetric] kj)
  have rem: "(of_nat (L - k) - of_nat j :: u32) = of_nat (L - e)"
    using of_nat_u32_sub [OF kj(3)] by (simp only: kj)
  have full: "((of_nat (L - e) :: u32) = 0 \<or> L \<le> k) = (L \<le> e)"
    using of_nat_u32_eq_0 [of "L - e"] kj by auto
  have idx: "unat (of_nat k :: u32) = k"
    using kj by (intro unat_of_nat_u32) simp
  have len: "length (take n (drop k ?b)) = j" by (simp add: L j min.commute)
  have stored: "ChunkBody (receiving m k hs cs) = take k ?b @ replicate (L - k) 0"
    by (simp add: receiving_def L)
  have body: "overwrite k (take n (drop k ?b)) (take k ?b @ replicate (L - k) 0)
      = take e ?b @ replicate (L - e) 0"
    using overwrite_piece [of k ?b n 0] k by (simp add: L e)
  have "storeBody (take n (drop k ?b)) (receiving m k hs cs)
      = (receiving m k hs cs)\<lparr>ChunkBody := take e ?b @ replicate (L - e) 0,
           bodyIndex := of_nat e, bodyRemain := of_nat (L - e), gotBodyFull := (L \<le> e)\<rparr>"
    by (simp only: storeBody_def Let_def len receiving_sel stored idx body next_idx rem full
        L [symmetric] if_True_disj)
  then show ?thesis
    unfolding e [symmetric] L [symmetric]
    by (simp only: receiving_store [where j = e] L)
qed

lemma read_body:
  assumes m: "deliverable m" and k: "k < length (ChunkBody m)"
    and n: "n = unat (remoteChunkSize c)" "0 < n"
    and c: "rx c = take n (drop k (ChunkBody m)) @ rest"
  shows "readChunkMessageBody (receiving m k hs cs, c) =
           (Ok (), (receiving m (min (length (ChunkBody m)) (k + n)) hs cs, c\<lparr>rx := rest\<rparr>))"
proof -
  let ?L = "length (ChunkBody m)" and ?rem = "of_nat (length (ChunkBody m) - k) :: u32"
  let ?sz = "if ?rem > remoteChunkSize c then remoteChunkSize c else ?rem"
  have L: "?L < 2 ^ 32" using deliverableD(6) [OF m] by simp
  have "unat ?rem = ?L - k" using L by (intro unat_of_nat_u32) simp
  then have sz: "unat ?sz = min n (?L - k)"
    using n by (simp add: word_less_nat_alt min_def del: of_nat_diff)
  have k32: "unat (of_nat k :: u32) = k" using L k by (intro unat_of_nat_u32) simp
  have hi: "unat (of_nat k + ?sz) = k + min n (?L - k)"
    using sz k32 L k by (subst unat_add_u32_small) simp_all
  have "length (take n (drop k (ChunkBody m))) = min n (?L - k)" by simp
  moreover have "k + min n (?L - k) \<le> ?L" using k by simp
  moreover from calculation have "Conn_Read (unat ?sz) c = (Ok (take n (drop k (ChunkBody m))), c\<lparr>rx := rest\<rparr>)"
    using c by (intro Conn_Read_append) (simp_all only: sz)
  moreover have "length (ChunkBody (receiving m k hs cs)) = ?L"
    using k by (simp add: receiving_def)
  ultimately show ?thesis
    using k sz hi k32 store_body [OF m k n(2), of hs cs]
    by (simp add: readChunkMessageBody_def Let_def go_bind_def go_wrap_def on_snd_def
        go_modify_def split del: if_split del: of_nat_diff cong del: if_weak_cong)
qed

section \<open>Messages\<close>

text \<open>What \<open>readChunkStream\<close> does once the last piece of a message is in.\<close>

definition finish_message :: "chunk_stream \<Rightarrow> (conn, chunk_stream) go" where
  "finish_message cs = go_bind (onReadChunkStreamSucc cs) (\<lambda>_. go_return cs)"

lemma readChunkStream_full:
  assumes "readOneChunk c = (Ok cs, c')" and "gotBodyFull cs"
  shows "readChunkStream c = finish_message cs c'"
  using assms
  by (simp add: readChunkStream.simps [of c] readIteration_def finish_message_def go_bind_def
      go_return_def split: prod.splits res.splits)

lemma readChunkStream_more:
  assumes "readOneChunk c = (Ok cs, c')" and "\<not> gotBodyFull cs"
  shows "readChunkStream c = readChunkStream c'"
  using assms
  by (simp add: readChunkStream.simps [of c] readIteration_def go_bind_def go_return_def)

text \<open>
  The reader is ready for a message on \<open>csid\<close>: the identifier is new, or its chunk stream was
  opened by a format 0 chunk.
\<close>

definition fresh_for :: "u32 \<Rightarrow> conn \<Rightarrow> bool" where
  "fresh_for csid c \<longleftrightarrow>
     3 \<le> basicHdrBuf c
     \<and> (\<forall>cs. chunks c csid = Some cs \<longrightarrow> Fmt cs = 0 \<and> msgHdrBuf cs = 11)"

lemma fresh_chunkFor:
  "fresh_for csid c \<Longrightarrow>
     Fmt (chunkFor 0 csid c) = 0 \<and> msgHdrBuf (chunkFor 0 csid c) = 11 \<and> 3 \<le> basicHdrBuf c"
  by (auto simp: fresh_for_def chunkFor_def split: option.splits)

lemma read_first_chunk:
  assumes m: "deliverable m" and f: "fresh_for (Csid m) c"
    and n: "n = unat (remoteChunkSize c)" "0 < n"
    and c: "rx c = basic_header 0 (Csid m) @ message_header m @ take n (ChunkBody m) @ rest"
  defines "cs \<equiv> receiving m (min (length (ChunkBody m)) n) 11 (chunkFor 0 (Csid m) c)"
  shows "readOneChunk c = (Ok cs, c\<lparr>rx := rest, chunks := (chunks c)(Csid m \<mapsto> cs)\<rparr>)"
proof -
  let ?c1 = "c\<lparr>rx := message_header m @ take n (ChunkBody m) @ rest\<rparr>"
  note fc = fresh_chunkFor [OF f]
  have h: "readChunkBasicHeader c = (Ok (0, Csid m), ?c1)"
    using read_basic_header [OF c] fc deliverableD(5) [OF m] by simp
  have same: "chunkFor 0 (Csid m) ?c1 = chunkFor 0 (Csid m) c" by (simp add: chunkFor_def)
  have len: "0 < length (ChunkBody m)" using deliverableD(2) [OF m] by simp
  show ?thesis
    using h same fc n
      read_header_0 [OF m, of "chunkFor 0 (Csid m) c" ?c1 "take n (ChunkBody m) @ rest"]
      read_body [OF m len, of n "c\<lparr>rx := take n (ChunkBody m) @ rest\<rparr>" rest 11
        "chunkFor 0 (Csid m) c"]
    by (simp add: readOneChunk_def go_bind_def go_wrap_def with_chunk_def cs_def)
qed

lemma read_next_chunk:
  assumes m: "deliverable m" and k: "0 < k" "k < length (ChunkBody m)"
    and n: "n = unat (remoteChunkSize c)" "0 < n" and b: "3 \<le> basicHdrBuf c"
    and c: "rx c = basic_header 3 (Csid m) @ take n (drop k (ChunkBody m)) @ rest"
    and base: "chunks c (Csid m) = Some (receiving m k hs base)"
  defines "cs \<equiv> receiving m (min (length (ChunkBody m)) (k + n)) 0 base"
  shows "readOneChunk c = (Ok cs, c\<lparr>rx := rest, chunks := (chunks c)(Csid m \<mapsto> cs)\<rparr>)"
proof -
  let ?c1 = "c\<lparr>rx := take n (drop k (ChunkBody m)) @ rest\<rparr>"
  have h: "readChunkBasicHeader c = (Ok (3, Csid m), ?c1)"
    using read_basic_header [OF c b] deliverableD(5) [OF m] by simp
  have "chunkFor 3 (Csid m) ?c1 = receiving m k hs base" by (simp add: chunkFor_def base)
  then show ?thesis
    using h n read_header_3 [OF m k(2), of hs base ?c1]
      read_body [OF m k(2), of n ?c1 rest 0 base]
    by (simp add: readOneChunk_def go_bind_def go_wrap_def with_chunk_def cs_def)
qed

text \<open>The remaining chunks of a message: induction on the bytes still missing.\<close>

lemma read_rest:
  assumes "deliverable m" "0 < k" "k < length (ChunkBody m)"
    and "n = unat (remoteChunkSize c)" "0 < n" "3 \<le> basicHdrBuf c"
    and "rx c = continuation_wire (Csid m) (TimeStamp m) n (drop k (ChunkBody m)) @ rest"
    and "chunks c (Csid m) = Some (receiving m k hs base)"
  defines "cs \<equiv> receiving m (length (ChunkBody m)) 0 base"
  shows "readChunkStream c =
           finish_message cs (c\<lparr>rx := rest, chunks := (chunks c)(Csid m \<mapsto> cs)\<rparr>)"
  using assms(1-8) unfolding cs_def
proof (induction "length (ChunkBody m) - k" arbitrary: k hs c rule: less_induct)
  case less
  let ?b = "ChunkBody m" and ?k' = "min (length (ChunkBody m)) (k + n)"
  let ?rest = "continuation_wire (Csid m) (TimeStamp m) n (drop (k + n) ?b) @ rest"
  let ?cs = "receiving m ?k' 0 base"
  let ?c' = "c\<lparr>rx := ?rest, chunks := (chunks c)(Csid m \<mapsto> ?cs)\<rparr>"
  have "continuation_header (TimeStamp m) = []"
    using order.asym [OF deliverableD(3) [OF less.prems(1)]] by (auto simp: continuation_header_def)
  then have "rx c = basic_header 3 (Csid m) @ take n (drop k ?b) @ ?rest"
    using less.prems(3,5,7) by (simp add: continuation_wire_step add.commute)
  then have one: "readOneChunk c = (Ok ?cs, ?c')"
    using less.prems by (intro read_next_chunk)
  show ?case
  proof (cases "length ?b \<le> k + n")
    case True
    then show ?thesis
      using readChunkStream_full [OF one] by (simp add: min_def)
  next
    case False
    then have "readChunkStream c = readChunkStream ?c'"
      using readChunkStream_more [OF one] by simp
    also have "\<dots> = finish_message (receiving m (length ?b) 0 base)
        (?c'\<lparr>rx := rest,
           chunks := (chunks ?c')(Csid m \<mapsto> receiving m (length ?b) 0 base)\<rparr>)"
      using less.prems False by (intro less.hyps [where k = "k + n"]) simp_all
    finally show ?thesis by simp
  qed
qed

text \<open>One whole message.\<close>

lemma read_message:
  assumes m: "deliverable m" and f: "fresh_for (Csid m) c"
    and n: "n = unat (remoteChunkSize c)" "0 < n"
    and c: "rx c = message_wire n m @ rest"
  obtains hs where
    "readChunkStream c =
       finish_message (receiving m (length (ChunkBody m)) hs (chunkFor 0 (Csid m) c))
         (c\<lparr>rx := rest,
            chunks := (chunks c)(Csid m \<mapsto>
              receiving m (length (ChunkBody m)) hs (chunkFor 0 (Csid m) c))\<rparr>)"
proof -
  let ?b = "ChunkBody m" and ?base = "chunkFor 0 (Csid m) c"
  let ?rest = "continuation_wire (Csid m) (TimeStamp m) n (drop n ?b) @ rest"
  let ?cs = "receiving m (min (length ?b) n) 11 ?base"
  let ?c' = "c\<lparr>rx := ?rest, chunks := (chunks c)(Csid m \<mapsto> ?cs)\<rparr>"
  have one: "readOneChunk c = (Ok ?cs, ?c')"
    using c deliverableD(2) [OF m]
    by (intro read_first_chunk m f n) (simp add: message_wire_def)
  show ?thesis
  proof (cases "length ?b \<le> n")
    case True
    then show ?thesis
      using readChunkStream_full [OF one] by (intro that [of 11]) (simp add: min_def)
  next
    case False
    then have "readChunkStream c = readChunkStream ?c'"
      using readChunkStream_more [OF one] by simp
    also have "\<dots> = finish_message (receiving m (length ?b) 0 ?base)
        (?c'\<lparr>rx := rest, chunks := (chunks ?c')(Csid m \<mapsto> receiving m (length ?b) 0 ?base)\<rparr>)"
      using m n f False by (intro read_rest [where k = n and hs = 11 and base = ?base]) (simp_all add: fresh_for_def)
    finally show ?thesis by (intro that [of 0]) simp
  qed
qed

section \<open>The round trip\<close>

text \<open>What a reader learns of a message: every field of its header and its body.\<close>

definition same_message :: "chunk_stream \<Rightarrow> chunk_stream \<Rightarrow> bool" where
  "same_message a b \<longleftrightarrow>
     TimeStamp a = TimeStamp b \<and> MsgLength a = MsgLength b \<and> MsgTypeID a = MsgTypeID b
     \<and> MsgStreamID a = MsgStreamID b \<and> ChunkBody a = ChunkBody b"

definition sets_parameter :: "chunk_stream \<Rightarrow> bool" where
  "sets_parameter m \<longleftrightarrow>
     MsgTypeID m = MsgSetChunkSize \<or> MsgTypeID m = MsgWindowAcknowledgementSize"

text \<open>A reader between two messages of a peer that opens its chunk streams with format 0.\<close>

definition reader_ready :: "conn \<Rightarrow> bool" where
  "reader_ready c \<longleftrightarrow>
     3 \<le> basicHdrBuf c \<and> 0 < localChunksize c \<and> 0 < remoteChunkSize c
     \<and> (\<forall>csid cs. chunks c csid = Some cs \<longrightarrow> Fmt cs = 0 \<and> msgHdrBuf cs = 11)"

lemma ready_fresh: "reader_ready c \<Longrightarrow> fresh_for csid c"
  by (auto simp: reader_ready_def fresh_for_def)

lemma ready_upd [simp]: "reader_ready (c\<lparr>rx := r\<rparr>) = reader_ready c"
  by (simp add: reader_ready_def)

lemma ready_chunk:
  "reader_ready c \<Longrightarrow> Fmt cs = 0 \<Longrightarrow> msgHdrBuf cs = 11 \<Longrightarrow>
     reader_ready (c\<lparr>rx := r, chunks := (chunks c)(csid \<mapsto> cs)\<rparr>)"
  by (auto simp: reader_ready_def)

lemma finish_plain:
  assumes "\<not> sets_parameter cs" and P: "ack_frame P" "P c"
    and c: "3 \<le> basicHdrBuf c" "0 < localChunksize c"
  obtains c' where "finish_message cs c = (Ok cs, c')" and "P c'"
proof -
  have "can_write (localChunksize c) P c" using P c by (simp add: can_write_def)
  from tripleD [OF triple_ack [OF P(1) c(2)] this, of "MsgLength cs"]
  obtain c' where "ack (MsgLength cs) c = (Ok (), c')" and "P c'"
    by (auto simp: can_write_def split: prod.splits res.splits)
  then show ?thesis
    using assms(1) that
    by (simp add: finish_message_def onReadChunkStreamSucc_def sets_parameter_def go_bind_def
        go_return_def)
qed

lemma receiving_same:
  "same_message (receiving m (length (ChunkBody m)) hs cs) m"
  by (simp add: same_message_def receiving_body_full)

lemma same_message_assignCsid [simp]: "same_message g (assignCsid m) = same_message g m"
  by (simp add: same_message_def)

lemma read_ready:
  assumes m: "deliverable m" "\<not> sets_parameter m" and c: "reader_ready c"
    and rx: "rx c = message_wire (unat (remoteChunkSize c)) m @ rest"
  obtains got c' where "readChunkStream c = (Ok got, c')" and "same_message got m"
    and "Csid got = Csid (chunkFor 0 (Csid m) c)"
    and "rx c' = rest" and "reader_ready c'" and "remoteChunkSize c' = remoteChunkSize c"
proof -
  let ?cs = "\<lambda>hs. receiving m (length (ChunkBody m)) hs (chunkFor 0 (Csid m) c)"
  have n: "0 < unat (remoteChunkSize c)"
    using c by (auto simp: reader_ready_def unat_gt_0)
  obtain hs where run: "readChunkStream c = finish_message (?cs hs)
      (c\<lparr>rx := rest, chunks := (chunks c)(Csid m \<mapsto> ?cs hs)\<rparr>)"
    using read_message [OF m(1) ready_fresh [OF c] refl n rx] .
  let ?c = "c\<lparr>rx := rest, chunks := (chunks c)(Csid m \<mapsto> ?cs hs)\<rparr>"
  let ?P = "\<lambda>d. rx d = rest \<and> reader_ready d \<and> remoteChunkSize d = remoteChunkSize c"
  have "ack_frame ?P" by (simp add: ack_frame_def tx_frame_def reader_ready_def)
  moreover have P: "?P ?c"
    using c fresh_chunkFor [OF ready_fresh [OF c, of "Csid m"]] by (simp add: ready_chunk)
  moreover have "\<not> sets_parameter (?cs hs)" using m(2) by (simp add: sets_parameter_def)
  ultimately obtain c' where "finish_message (?cs hs) ?c = (Ok (?cs hs), c')" and "?P c'"
    using finish_plain [of "?cs hs" ?P ?c] c P unfolding reader_ready_def [of c] by auto
  with run receiving_same that [of "?cs hs" c'] show ?thesis
    by (simp only: receiving_sel)
qed

text \<open>C1: what \<open>writeChunkStream\<close> sends for a message, in chunks of the writer's chunk size,
  \<open>readChunkStream\<close> on a connection that reads with the same chunk size delivers again: the
  same timestamp, type, stream identifier, length and body. The reader consumes exactly these
  bytes and is ready for the next message.\<close>

theorem write_read_roundtrip:
  assumes "writable w" and "0 < localChunksize w"
    and "deliverable (assignCsid m)" and "\<not> sets_parameter m"
    and "writeChunkStream (m, w) = (r, (m', w'))"
    and "reader_ready c" and "remoteChunkSize c = localChunksize w"
    and "rx c = drop (length (tx w)) (tx w') @ rest"
  shows "\<exists>got c'. readChunkStream c = (Ok got, c') \<and> same_message got m \<and> rx c' = rest
           \<and> reader_ready c' \<and> remoteChunkSize c' = remoteChunkSize c"
proof -
  let ?m = "assignCsid m"
  have "sendable m" using deliverableD(1) [OF assms(3)] by simp
  then have "tx w' = tx w @ message_wire (unat (localChunksize w)) ?m"
    using writeChunkStream_wire [OF assms(1) _ assms(2), of m] assms(5) by auto
  moreover have "\<not> sets_parameter ?m" using assms(4) by (simp add: sets_parameter_def)
  moreover have "rx c = message_wire (unat (remoteChunkSize c)) ?m @ rest"
    using assms(7,8) calculation(1) by simp
  ultimately show ?thesis
    using read_ready [OF assms(3) _ assms(6), of rest] unfolding same_message_assignCsid by blast
qed

text \<open>A sequence of messages: writing them in order, reading as many as were written.\<close>

fun writeMessages :: "chunk_stream list \<Rightarrow> (conn, unit) go" where
  "writeMessages [] = go_return ()"
| "writeMessages (m # ms) = go_bind (writeMessage m) (\<lambda>_. writeMessages ms)"

fun readMessages :: "nat \<Rightarrow> (conn, chunk_stream list) go" where
  "readMessages 0 = go_return []"
| "readMessages (Suc n) =
     go_bind readChunkStream (\<lambda>m. go_bind (readMessages n) (\<lambda>ms. go_return (m # ms)))"

lemma writeMessages_wire:
  "writable w \<Longrightarrow> 0 < localChunksize w \<Longrightarrow> list_all (\<lambda>m. deliverable (assignCsid m)) ms \<Longrightarrow>
     writeMessages ms w =
       (Ok (), sent w (concat (map (\<lambda>m. message_wire (unat (localChunksize w)) (assignCsid m)) ms)))"
proof (induction ms arbitrary: w)
  case Nil
  then show ?case by (simp add: go_return_def)
next
  case (Cons m ms)
  then have "sendable m" using deliverableD(1) [of "assignCsid m"] by simp
  then have "writeMessage m w =
      (Ok (), sent w (message_wire (unat (localChunksize w)) (assignCsid m)))"
    using writeChunkStream_wire [of w m] Cons.prems by (simp add: writeMessage_def)
  then show ?case
    using Cons.IH [of "sent w (message_wire (unat (localChunksize w)) (assignCsid m))"] Cons.prems
    by (simp add: go_bind_def)
qed

lemma readMessages_wire:
  "reader_ready c \<Longrightarrow> list_all (\<lambda>m. deliverable m \<and> \<not> sets_parameter m) ms \<Longrightarrow>
     rx c = concat (map (message_wire (unat (remoteChunkSize c))) ms) @ rest \<Longrightarrow>
     \<exists>got c'. readMessages (length ms) c = (Ok got, c') \<and> list_all2 same_message got ms
       \<and> rx c' = rest \<and> reader_ready c'"
proof (induction ms arbitrary: c)
  case Nil
  then show ?case by (simp add: go_return_def)
next
  case (Cons m ms)
  obtain g c1 where one: "readChunkStream c = (Ok g, c1)" "same_message g m" "reader_ready c1"
    "rx c1 = concat (map (message_wire (unat (remoteChunkSize c1))) ms) @ rest"
    using read_ready [of m c "concat (map (message_wire (unat (remoteChunkSize c))) ms) @ rest"]
      Cons.prems by (simp add: list_all_iff) metis
  from Cons.IH [OF this(3) _ this(4)] Cons.prems obtain gs c2 where
    "readMessages (length ms) c1 = (Ok gs, c2)" "list_all2 same_message gs ms" "rx c2 = rest"
    "reader_ready c2"
    by auto
  with one show ?case by (auto simp: go_bind_def go_return_def)
qed

text \<open>C10: a whole session: any number of messages on any mix of chunk streams, written one after
  the other, are read back in the same order, each with its header fields and its body intact.\<close>

theorem session_roundtrip:
  assumes "writable w" and "0 < localChunksize w"
    and "list_all (\<lambda>m. deliverable (assignCsid m) \<and> \<not> sets_parameter m) ms"
    and "writeMessages ms w = (r, w')"
    and "reader_ready c" and "remoteChunkSize c = localChunksize w"
    and "rx c = drop (length (tx w)) (tx w') @ rest"
  shows "r = Ok () \<and> (\<exists>got c'. readMessages (length ms) c = (Ok got, c')
           \<and> list_all2 same_message got ms \<and> rx c' = rest \<and> reader_ready c')"
proof -
  let ?ms = "map assignCsid ms"
  have "r = Ok ()" and "rx c = concat (map (message_wire (unat (remoteChunkSize c))) ?ms) @ rest"
    using writeMessages_wire [of w ms] assms by (auto simp: list_all_iff comp_def)
  moreover have "list_all (\<lambda>m. deliverable m \<and> \<not> sets_parameter m) ?ms"
    using assms(3) by (simp add: list_all_iff sets_parameter_def)
  ultimately show ?thesis
    using readMessages_wire [OF assms(5), of ?ms rest]
    by (simp add: list_all2_map2)
qed

end
