(* ===== verification/ChunkInterleave.thy ===== *)
theory ChunkInterleave
  imports ChunkRoundtrip
begin

text \<open>
  Interleaved chunk streams. A peer may send a chunk of one message, then chunks of messages on
  other chunk streams, before it goes on with the first. \<open>schedule\<close> gives the bytes of such a
  transmission for any order of the chunk streams; the reader puts every message together again
  and delivers the messages in the order in which their last chunks arrive.
\<close>

section \<open>Transmissions\<close>

text \<open>The chunk of \<open>m\<close> that follows the first \<open>k\<close> bytes of its body.\<close>

definition chunk_piece :: "nat \<Rightarrow> chunk_stream \<Rightarrow> nat \<Rightarrow> u8 list" where
  "chunk_piece n m k = chunk_header (if k = 0 then 0 else 1) m @ take n (drop k (ChunkBody m))"

text \<open>
  For every chunk stream, \<open>q\<close> holds the messages still to be sent and \<open>p\<close> the bytes of the first
  of them already sent. The schedule names the chunk stream of each chunk in turn; the result
  is the transmission and the messages it completes.
\<close>

fun schedule :: "nat \<Rightarrow> (u32 \<Rightarrow> chunk_stream list) \<Rightarrow> (u32 \<Rightarrow> nat) \<Rightarrow> u32 list
    \<Rightarrow> u8 list \<times> chunk_stream list" where
  "schedule n q p [] = ([], [])"
| "schedule n q p (i # is) =
     (case q i of
        [] \<Rightarrow> schedule n q p is
      | m # ms \<Rightarrow>
          if length (ChunkBody m) \<le> p i + n
          then (case schedule n (q(i := ms)) (p(i := 0)) is of
                  (bs, done) \<Rightarrow> (chunk_piece n m (p i) @ bs, m # done))
          else (case schedule n q (p(i := p i + n)) is of
                  (bs, done) \<Rightarrow> (chunk_piece n m (p i) @ bs, done)))"

section \<open>The reader on a transmission\<close>

text \<open>The chunk stream \<open>i\<close> of the reader: idle, or in the middle of the first message of \<open>q i\<close>.\<close>

definition stream_at :: "chunk_stream list \<Rightarrow> nat \<Rightarrow> chunk_stream option \<Rightarrow> bool" where
  "stream_at ms k st \<longleftrightarrow>
     (if k = 0 then (\<forall>cs. st = Some cs \<longrightarrow> Fmt cs = 0 \<and> msgHdrBuf cs = 11)
      else (\<exists>m ms' hs base. ms = m # ms' \<and> k < length (ChunkBody m) \<and> Fmt base = 0
              \<and> msgHdrBuf base = 11 \<and> st = Some (receiving m k hs base)))"

definition sendable_on :: "u32 \<Rightarrow> chunk_stream \<Rightarrow> bool" where
  "sendable_on i m \<longleftrightarrow> deliverable m \<and> \<not> sets_parameter m \<and> Csid m = i"

definition following :: "nat \<Rightarrow> (u32 \<Rightarrow> chunk_stream list) \<Rightarrow> (u32 \<Rightarrow> nat) \<Rightarrow> conn \<Rightarrow> bool" where
  "following n q p c \<longleftrightarrow>
     3 \<le> basicHdrBuf c \<and> 0 < localChunksize c \<and> unat (remoteChunkSize c) = n \<and> 0 < n
     \<and> (\<forall>i. stream_at (q i) (p i) (chunks c i) \<and> list_all (sendable_on i) (q i))"

lemma deliverable_no_extension: "deliverable m \<Longrightarrow> continuation_header (TimeStamp m) = []"
  using order.asym [OF deliverableD(3) [of m]] by (auto simp: continuation_header_def)

lemma read_piece:
  assumes f: "following n q p c" and q: "q i = m # ms" and c: "rx c = chunk_piece n m (p i) @ rest"
  obtains hs base where "Fmt base = 0" "msgHdrBuf base = 11"
    and "readOneChunk c = (Ok (receiving m (min (length (ChunkBody m)) (p i + n)) hs base),
      c\<lparr>rx := rest, chunks := (chunks c)(i \<mapsto>
           receiving m (min (length (ChunkBody m)) (p i + n)) hs base)\<rparr>)"
proof -
  have m: "deliverable m" "Csid m = i" and st: "stream_at (m # ms) (p i) (chunks c i)"
    and n: "n = unat (remoteChunkSize c)" "0 < n" and b: "3 \<le> basicHdrBuf c"
    using f q by (auto simp: following_def sendable_on_def dest: spec [of _ i])
  show ?thesis
  proof (cases "p i = 0")
    case True
    then have fresh: "fresh_for (Csid m) c"
      using st b m(2) by (auto simp: stream_at_def fresh_for_def)
    have "rx c = basic_header 0 (Csid m) @ message_header m @ take n (ChunkBody m) @ rest"
      using c True by (simp add: chunk_piece_def chunk_header_def)
    from read_first_chunk [OF m(1) fresh n this] True m(2) show ?thesis
      using fresh_chunkFor [OF fresh] by (intro that [of "chunkFor 0 (Csid m) c" 11]) simp_all
  next
    case False
    then obtain hs base where base: "p i < length (ChunkBody m)" "Fmt base = 0"
      "msgHdrBuf base = 11" "chunks c (Csid m) = Some (receiving m (p i) hs base)"
      using st m(2) by (auto simp: stream_at_def)
    have "rx c = basic_header 3 (Csid m) @ take n (drop (p i) (ChunkBody m)) @ rest"
      using c False deliverable_no_extension [OF m(1)] by (simp add: chunk_piece_def chunk_header_def)
    from read_next_chunk [OF m(1) _ base(1) n b this base(4)] False base(2,3) m(2) show ?thesis
      by (intro that [of base 0]) simp_all
  qed
qed

lemma following_frame:
  "following n q p c \<Longrightarrow> chunks c' = chunks c \<Longrightarrow> remoteChunkSize c' = remoteChunkSize c \<Longrightarrow>
     basicHdrBuf c' = basicHdrBuf c \<Longrightarrow> localChunksize c' = localChunksize c \<Longrightarrow> following n q p c'"
  by (simp add: following_def)

lemma following_queue: "following n q p c \<Longrightarrow> list_all (sendable_on i) (q i)"
  by (simp add: following_def)

lemma following_upd:
  assumes "following n q p c" "stream_at ms k (Some cs)" "list_all (sendable_on i) ms"
  shows "following n (q(i := ms)) (p(i := k)) (c\<lparr>rx := r, chunks := (chunks c)(i \<mapsto> cs)\<rparr>)"
  using assms by (simp add: following_def)

lemma following_more:
  assumes "following n q p c" "q i = m # ms" "p i + n < length (ChunkBody m)"
    and "Fmt base = 0" "msgHdrBuf base = 11"
  shows "following n q (p(i := p i + n))
           (c\<lparr>rx := r, chunks := (chunks c)(i \<mapsto> receiving m (p i + n) hs base)\<rparr>)"
proof -
  have "p i + n \<noteq> 0" using assms(1) by (simp add: following_def)
  then have "stream_at (q i) (p i + n) (Some (receiving m (p i + n) hs base))"
    using assms by (auto simp: stream_at_def)
  from following_upd [OF assms(1) this following_queue [OF assms(1)]] show ?thesis by simp
qed

lemma following_done:
  assumes "following n q p c" "q i = m # ms" "Fmt cs = 0" "msgHdrBuf cs = 11"
  shows "following n (q(i := ms)) (p(i := 0)) (c\<lparr>rx := r, chunks := (chunks c)(i \<mapsto> cs)\<rparr>)"
  using following_queue [OF assms(1), of i] assms
  by (intro following_upd) (simp_all add: stream_at_def)

lemma finish_following:
  assumes f: "following n q p c" and m: "\<not> sets_parameter cs"
  obtains c' where "finish_message cs c = (Ok cs, c')" and "following n q p c'" and "rx c' = rx c"
proof -
  let ?P = "\<lambda>d. rx d = rx c \<and> chunks d = chunks c \<and> remoteChunkSize d = remoteChunkSize c
    \<and> basicHdrBuf d = basicHdrBuf c \<and> localChunksize d = localChunksize c"
  have "ack_frame ?P" by (simp add: ack_frame_def tx_frame_def)
  moreover have "3 \<le> basicHdrBuf c" "0 < localChunksize c" using f by (simp_all add: following_def)
  ultimately obtain c' where "finish_message cs c = (Ok cs, c')" and P: "?P c'"
    using finish_plain [OF m, of ?P c] by auto
  with following_frame [OF f, of c'] show ?thesis by (intro that [of c']) simp_all
qed

lemma schedule_read:
  "following n q p c \<Longrightarrow> schedule n q p is = (bs, done) \<Longrightarrow> rx c = bs @ rest \<Longrightarrow>
     \<exists>got c'. readMessages (length done) c = (Ok got, c') \<and> list_all2 same_message got done"
proof (induction "is" arbitrary: q p c bs "done")
  case Nil
  then show ?case by (simp add: go_return_def)
next
  case (Cons i "is")
  show ?case
  proof (cases "q i")
    case Nil
    with Cons show ?thesis by simp
  next
    case (Cons m ms)
    let ?L = "length (ChunkBody m)"
    obtain bs' where bs: "bs = chunk_piece n m (p i) @ bs'"
      using Cons.prems(2) Cons by (auto split: if_splits prod.splits)
    have c: "rx c = chunk_piece n m (p i) @ bs' @ rest" using Cons.prems(3) bs by simp
    obtain hs base where base: "Fmt base = 0" "msgHdrBuf base = 11"
      and one: "readOneChunk c = (Ok (receiving m (min ?L (p i + n)) hs base),
        c\<lparr>rx := bs' @ rest, chunks := (chunks c)(i \<mapsto> receiving m (min ?L (p i + n)) hs base)\<rparr>)"
      using read_piece [OF Cons.prems(1) Cons c] .
    show ?thesis
    proof (cases "?L \<le> p i + n")
      case True
      then obtain done' where rec: "schedule n (q(i := ms)) (p(i := 0)) is = (bs', done')"
        and d: "done = m # done'"
        using Cons.prems(2) Cons bs by (auto split: prod.splits)
      let ?m = "receiving m ?L hs base"
      let ?c = "c\<lparr>rx := bs' @ rest, chunks := (chunks c)(i \<mapsto> ?m)\<rparr>"
      have "following n (q(i := ms)) (p(i := 0)) ?c"
        using following_done [OF Cons.prems(1) Cons] base by simp
      moreover have "\<not> sets_parameter ?m"
        using Cons.prems(1) Cons
        by (auto simp: following_def sendable_on_def sets_parameter_def dest: spec [of _ i])
      ultimately obtain c' where fin: "finish_message ?m ?c = (Ok ?m, c')"
        and "following n (q(i := ms)) (p(i := 0)) c'" and "rx c' = rx ?c"
        using finish_following [of n "q(i := ms)" "p(i := 0)" ?c ?m] by blast
      moreover have "rx ?c = bs' @ rest" by simp
      ultimately have "following n (q(i := ms)) (p(i := 0)) c'" and "rx c' = bs' @ rest"
        by simp_all
      then obtain gs c'' where
        "readMessages (length done') c' = (Ok gs, c'')" "list_all2 same_message gs done'"
        using Cons.IH [OF _ rec] by blast
      moreover have "readChunkStream c = (Ok ?m, c')"
        using readChunkStream_full [OF one] fin True by (simp add: min_absorb1)
      ultimately show ?thesis
        using receiving_same by (simp add: d go_bind_def go_return_def)
    next
      case False
      then have rec: "schedule n q (p(i := p i + n)) is = (bs', done)"
        using Cons.prems(2) Cons bs by (auto split: prod.splits)
      let ?c = "c\<lparr>rx := bs' @ rest, chunks := (chunks c)(i \<mapsto> receiving m (p i + n) hs base)\<rparr>"
      have "following n q (p(i := p i + n)) ?c"
        using following_more [OF Cons.prems(1) Cons] False base by simp
      moreover have "rx ?c = bs' @ rest" by simp
      ultimately obtain gs c'' where
        rest: "readMessages (length done) ?c = (Ok gs, c'')" "list_all2 same_message gs done"
        using Cons.IH [OF _ rec] by blast
      have "readChunkStream c = readChunkStream ?c"
        using readChunkStream_more [OF one] False by simp
      with rest show ?thesis by (cases "length done") (auto simp: go_bind_def go_return_def)
    qed
  qed
qed

text \<open>C9: any interleaving of chunk streams: for every order in which a peer sends the chunks of
  its messages (\<open>schedule\<close>), each chunk stream keeping the order of its own chunks, a ready reader
  puts every message together again and delivers the messages in the order in which they are
  completed, header fields and bodies intact.\<close>

theorem interleaved_roundtrip:
  assumes "reader_ready c" and "unat (remoteChunkSize c) = n"
    and "\<forall>i. list_all (\<lambda>m. deliverable m \<and> \<not> sets_parameter m \<and> Csid m = i) (q i)"
    and "schedule n q (\<lambda>_. 0) order = (wire, completed)"
    and "rx c = wire @ rest"
  shows "\<exists>got c'. readMessages (length completed) c = (Ok got, c')
           \<and> list_all2 same_message got completed"
proof -
  have "following n q (\<lambda>_. 0) c"
    using assms(1-3)
    by (auto simp: following_def reader_ready_def stream_at_def sendable_on_def [abs_def]
        unat_gt_0)
  from schedule_read [OF this assms(4,5)] show ?thesis .
qed

end
