(* ===== verification/ChunkProps.thy ===== *)
theory ChunkProps
  imports ChunkInterleave
begin

text \<open>
  The contracts of the chunk protocol that a connection relies on: the bytes of a message, the
  absence of panics on both sides, the effect of the control messages the reader interprets, and
  the acknowledgement window. The examples at the end run the round trips on concrete
  connections.
\<close>

section \<open>The writer\<close>


text \<open>However the socket breaks, \<open>writeChunkStream\<close> returns or fails with an error and
  never panics on a message it can send, and every property of the connection that does not look at
  the outgoing bytes survives.\<close>

theorem writeChunkStream_never_panics:
  assumes "tx_frame P" and "P c" and "3 \<le> basicHdrBuf c" and "0 < localChunksize c"
    and "sendable m" and "writeChunkStream (m, c) = (r, (m', c'))"
  shows "(\<forall>p. r \<noteq> Panic p) \<and> P c' \<and> localChunksize c' = localChunksize c"
proof -
  have "can_write (localChunksize c) P c" using assms by (simp add: can_write_def)
  from writeChunkStream_safe [OF assms(1,5) this assms(4)] show ?thesis
    unfolding assms(6) by (cases r) (auto simp: can_write_def)
qed

section \<open>The reader\<close>


text \<open>Every peer can cause that panic: a SetChunkSize or WindowAcknowledgementSize message with a
  body of one to three bytes takes down the goroutine that reads it.\<close>

theorem short_control_message_panics:
  assumes "reader_ready c" and "deliverable m" and "sets_parameter m"
    and "length (ChunkBody m) < 4"
    and "rx c = message_wire (unat (remoteChunkSize c)) m @ rest"
  shows "fst (readChunkStream c) = Panic IndexOutOfRange"
proof -
  have "0 < unat (remoteChunkSize c)" using assms(1) by (auto simp: reader_ready_def unat_gt_0)
  from read_message [OF assms(2) ready_fresh [OF assms(1)] refl this assms(5)]
  obtain hs c1 where "readChunkStream c =
      finish_message (receiving m (length (ChunkBody m)) hs (chunkFor 0 (Csid m) c)) c1" by metis
  then show ?thesis
    using assms(3,4)
    by (auto simp: finish_message_def onReadChunkStreamSucc_def sets_parameter_def go_bind_def
        BigEndian_Uint32_def receiving_body_full)
qed

text \<open>A SetChunkSize message changes the size in which the reader expects later chunks to the
  big-endian number in the first four bytes of its body, and nothing else does: the value sent by
  \<open>NewProtolControlMessage\<close> is the one installed.\<close>

theorem set_chunk_size_takes_effect:
  assumes "reader_ready c" and "NewProtolControlMessage MsgSetChunkSize 4 v = Ok m"
    and "rx c = message_wire (unat (remoteChunkSize c)) m @ rest"
  shows "\<exists>got c'. readChunkStream c = (Ok got, c') \<and> remoteChunkSize c' = v \<and> rx c' = rest"
proof -
  have m: "MsgTypeID m = 1" "MsgLength m = 4" "ChunkBody m = uintAsbyteSlice v 4 True"
    "TimeStamp m = 0" "Csid m = 2" "MsgStreamID m = 0" "msgHdrBuf m = 0"
    using NewProtolControlMessage_4 [of MsgSetChunkSize v] assms(2) by auto
  have d: "deliverable m"
    using m length_uintAsbyteSlice [of v 4 True]
    by (auto simp: deliverable_def sendable_def wf_message_def valid_csid_def simp del: length_uintAsbyteSlice)
  have "0 < unat (remoteChunkSize c)" using assms(1) by (auto simp: reader_ready_def unat_gt_0)
  from read_message [OF d ready_fresh [OF assms(1)] refl this assms(3)]
  obtain hs where run: "readChunkStream c =
      finish_message (receiving m (length (ChunkBody m)) hs (chunkFor 0 (Csid m) c))
        (c\<lparr>rx := rest, chunks := (chunks c)(Csid m \<mapsto>
           receiving m (length (ChunkBody m)) hs (chunkFor 0 (Csid m) c))\<rparr>)" .
  let ?m = "receiving m (length (ChunkBody m)) hs (chunkFor 0 (Csid m) c)"
  let ?c = "c\<lparr>rx := rest, chunks := (chunks c)(Csid m \<mapsto> ?m), remoteChunkSize := v\<rparr>"
  let ?P = "\<lambda>d. remoteChunkSize d = v \<and> rx d = rest"
  have "can_write (localChunksize c) ?P ?c"
    using assms(1) by (simp add: can_write_def reader_ready_def)
  moreover have "ack_frame ?P" and "0 < localChunksize c"
    using assms(1) by (simp_all add: ack_frame_def tx_frame_def reader_ready_def)
  ultimately obtain c' where "ack 4 ?c = (Ok (), c')" "?P c'"
    using tripleD [OF triple_ack, of ?P "localChunksize c" ?c 4]
    by (auto simp: can_write_def split: prod.splits res.splits)
  moreover have "BigEndian_Uint32 (ChunkBody ?m) = Ok v"
    by (simp add: receiving_body_full BigEndian_Uint32_def m be.dec_enc_4)
  ultimately show ?thesis
    by (simp add: run finish_message_def onReadChunkStreamSucc_def go_bind_def m(1,2)
        go_modify_def go_return_def)
qed

section \<open>The acknowledgement window\<close>

lemma control_message_wire:
  assumes "NewProtolControlMessage t 4 v = Ok m" and "4 \<le> n" and "t < 7"
  shows "message_wire n (assignCsid m) =
           [2, 0, 0, 0, 0, 0, 4, ucast t, 0, 0, 0, 0] @ uintAsbyteSlice v 4 True"
proof -
  have m: "MsgTypeID m = t" "MsgLength m = 4" "ChunkBody m = uintAsbyteSlice v 4 True"
    "TimeStamp m = 0" "Csid m = 2" "MsgStreamID m = 0"
    using NewProtolControlMessage_4 [of t v] assms(1) by auto
  then have "assignCsid m = m"
    using assms(3) by (auto simp: assignCsid_def)
  moreover have "ChunkBody m \<noteq> []" and "length (ChunkBody m) \<le> n"
    using m(3) assms(2) by (metis length_uintAsbyteSlice list.size(3) zero_neq_numeral, simp)
  moreover have "uintAsbyteSlice 0 3 True = [0, 0, 0]" "uintAsbyteSlice 4 3 True = [0, 0, 4]"
    "uintAsbyteSlice 0 4 False = [0, 0, 0, 0]" "uintAsbyteSlice 2 1 False = [2]"
    by code_simp+
  moreover have "uintAsbyteSlice t 1 True = [ucast t]"
    using uintAsbyteSlice_Suc(1) [of t 0] by simp
  ultimately show ?thesis
    by (simp add: message_wire_def basic_header_def message_header_def m Let_def)
qed

text \<open>The acknowledgement window. Below the peer's window size the received bytes are only
  counted; once the count reaches it, the connection sends an Acknowledgement message whose body is
  the count, and starts counting again.\<close>

theorem ack_window:
  assumes "writable c" and "4 \<le> localChunksize c" and "ack sz c = (r, c')"
  shows "r = Ok () \<and>
    (if ackSeqNumber c + sz < remoteWindowAckSize c
     then tx c' = tx c \<and> ackSeqNumber c' = ackSeqNumber c + sz
     else tx c' = tx c @ [2, 0, 0, 0, 0, 0, 4, 3, 0, 0, 0, 0]
                       @ uintAsbyteSlice (ackSeqNumber c + sz) 4 True
          \<and> ackSeqNumber c' = 0)"
proof -
  define c2 where "c2 = (let c1 = c\<lparr>bytesRecv := bytesRecv c + sz\<rparr> in
    if bytesRecv c1 \<ge> 0xffffffff
    then c1\<lparr>bytesRecv := 0, bytesRecvReset := bytesRecvReset c1 + 1\<rparr> else c1)"
  define c3 where "c3 = c2\<lparr>ackSeqNumber := ackSeqNumber c2 + sz\<rparr>"
  have c3: "writable c3" "localChunksize c3 = localChunksize c" "tx c3 = tx c"
    "ackSeqNumber c3 = ackSeqNumber c + sz" "remoteWindowAckSize c3 = remoteWindowAckSize c"
    using assms(1) by (simp_all add: c3_def c2_def Let_def writable_def tx_open_def)
  obtain m where m: "NewProtolControlMessage MsgAcknowledgement 4 (ackSeqNumber c3) = Ok m"
    "sendable m"
    using NewProtolControlMessage_4 [of MsgAcknowledgement "ackSeqNumber c3"]
    by (auto simp: sendable_def wf_message_def)
  have n: "0 < localChunksize c3" "4 \<le> unat (localChunksize c3)"
    using assms(2) c3(2) by (auto simp: word_le_nat_alt word_less_nat_alt)
  have "ack sz c = (if ackSeqNumber c3 \<ge> remoteWindowAckSize c3 then
      go_bind (go_ignore () (writeMessage m)) (\<lambda>_. go_modify (\<lambda>c. c\<lparr>ackSeqNumber := 0\<rparr>)) c3
    else (Ok (), c3))"
    using m(1) by (simp add: ack_def Let_def c3_def c2_def)
  moreover have "writeMessage m c3 = (Ok (), sent c3 ([2, 0, 0, 0, 0, 0, 4, 3, 0, 0, 0, 0]
      @ uintAsbyteSlice (ackSeqNumber c3) 4 True))"
    using writeChunkStream_wire [OF c3(1) m(2) n(1)] control_message_wire [OF m(1) n(2)]
    by (simp add: writeMessage_def)
  ultimately show ?thesis
    using assms(3) c3
    by (cases "remoteWindowAckSize c \<le> ackSeqNumber c + sz")
      (simp_all add: go_bind_def go_ignore_def go_modify_def leD not_le)
qed

section \<open>Examples\<close>

definition demo_writer :: conn where
  "demo_writer = (Server [] EOF None)\<lparr>basicHdrBuf := 3, localChunksize := 2\<rparr>"

definition demo_audio :: chunk_stream where
  "demo_audio = newChunkStream\<lparr>TimeStamp := 10, MsgLength := 3, MsgTypeID := 8,
     MsgStreamID := 1, ChunkBody := [0xaf, 1, 2]\<rparr>"

definition demo_video :: chunk_stream where
  "demo_video = newChunkStream\<lparr>TimeStamp := 10, MsgLength := 5, MsgTypeID := 9,
     MsgStreamID := 1, ChunkBody := [0x17, 1, 2, 3, 4]\<rparr>"

definition demo_reader :: "u8 list \<Rightarrow> conn" where
  "demo_reader inp = (Server inp EOF None)\<lparr>basicHdrBuf := 3, remoteChunkSize := 2\<rparr>"

definition demo_audio_wire :: "u8 list" where
  "demo_audio_wire =
     [4, 0, 0, 10, 0, 0, 3, 8, 1, 0, 0, 0, 0xaf, 1] @ [0xc4, 2]"

definition demo_video_wire :: "u8 list" where
  "demo_video_wire =
     [6, 0, 0, 10, 0, 0, 5, 9, 1, 0, 0, 0, 0x17, 1] @ [0xc6, 2, 3] @ [0xc6, 4]"

lemma demo_writer_ok: "writable demo_writer" "0 < localChunksize demo_writer" "tx demo_writer = []"
  "localChunksize demo_writer = 2" "3 \<le> basicHdrBuf demo_writer"
  by (simp_all add: demo_writer_def Server_def zero_conn_def writable_def tx_open_def)

lemma demo_reader_ok: "reader_ready (demo_reader inp)" "remoteChunkSize (demo_reader inp) = 2"
  "rx (demo_reader inp) = inp" "conn_inv (demo_reader inp)"
  by (simp_all add: demo_reader_def Server_def zero_conn_def reader_ready_def conn_inv_def)

lemma demo_messages_ok: "deliverable (assignCsid demo_audio)" "deliverable (assignCsid demo_video)"
  "\<not> sets_parameter demo_audio" "\<not> sets_parameter demo_video"
  by (simp_all add: demo_audio_def demo_video_def newChunkStream_def deliverable_def sendable_def
      wf_message_def valid_csid_def assignCsid_def sets_parameter_def)

lemma demo_sendable: "sendable demo_audio" "sendable demo_video"
  using deliverableD(1) [OF demo_messages_ok(1)] deliverableD(1) [OF demo_messages_ok(2)] by simp_all

lemma demo_wires: "message_wire 2 (assignCsid demo_audio) = demo_audio_wire"
  "message_wire 2 (assignCsid demo_video) = demo_video_wire"
  by code_simp+

theorem write_read_roundtrip_witness:
  "\<exists>got c'. readChunkStream (demo_reader (demo_audio_wire @ [7])) = (Ok got, c')
     \<and> same_message got demo_audio \<and> rx c' = [7] \<and> reader_ready c'
     \<and> remoteChunkSize c' = remoteChunkSize (demo_reader (demo_audio_wire @ [7]))"
proof (rule write_read_roundtrip [where m = demo_audio and w = demo_writer])
  show "writeChunkStream (demo_audio, demo_writer) =
      (Ok (), (after_write 2 (assignCsid demo_audio), sent demo_writer demo_audio_wire))"
    using writeChunkStream_wire [OF demo_writer_ok(1) demo_sendable(1) demo_writer_ok(2)]
    by (simp add: demo_writer_ok demo_wires)
qed (simp_all add: demo_writer_ok demo_messages_ok demo_reader_ok)

theorem session_roundtrip_witness:
  "fst (writeMessages [demo_audio, demo_video] demo_writer) = Ok () \<and>
   (\<exists>got c'. readMessages 2 (demo_reader (demo_audio_wire @ demo_video_wire @ [7])) = (Ok got, c')
     \<and> list_all2 same_message got [demo_audio, demo_video] \<and> rx c' = [7] \<and> reader_ready c')"
proof -
  let ?ms = "[demo_audio, demo_video]" and ?w = "writeMessages [demo_audio, demo_video] demo_writer"
  have sent: "?w = (Ok (), sent demo_writer (demo_audio_wire @ demo_video_wire))"
    using writeMessages_wire [OF demo_writer_ok(1,2), of ?ms]
    by (simp add: demo_messages_ok demo_writer_ok demo_wires)
  have "length ?ms = 2" by simp
  then show ?thesis
    using session_roundtrip [OF demo_writer_ok(1,2), of ?ms "fst ?w" "snd ?w"
        "demo_reader (demo_audio_wire @ demo_video_wire @ [7])" "[7]"]
    by (simp add: sent demo_messages_ok demo_writer_ok demo_reader_ok numeral_2_eq_2
        del: writeMessages.simps readMessages.simps)
qed

theorem interleaved_roundtrip_witness:
  "\<exists>got c'. readMessages 2 (demo_reader
       ([6, 0, 0, 10, 0, 0, 5, 9, 1, 0, 0, 0, 0x17, 1] @ demo_audio_wire
          @ [0xc6, 2, 3] @ [0xc6, 4] @ [7])) = (Ok got, c')
     \<and> list_all2 same_message got [assignCsid demo_audio, assignCsid demo_video]"
proof -
  let ?q = "\<lambda>i. if i = 4 then [assignCsid demo_audio]
    else if i = 6 then [assignCsid demo_video] else []"
  let ?wire = "[6, 0, 0, 10, 0, 0, 5, 9, 1, 0, 0, 0, 0x17, 1] @ demo_audio_wire
    @ [0xc6, 2, 3] @ [0xc6, 4]"
  have "schedule 2 ?q (\<lambda>_. 0) [6, 4, 4, 6, 6]
      = (?wire, [assignCsid demo_audio, assignCsid demo_video])"
    by code_simp
  moreover have "\<forall>i. list_all (\<lambda>m. deliverable m \<and> \<not> sets_parameter m \<and> Csid m = i) (?q i)"
    using demo_messages_ok
    by (auto simp: sets_parameter_def) (simp_all add: assignCsid_def demo_audio_def demo_video_def)
  moreover have "unat (remoteChunkSize (demo_reader (?wire @ [7]))) = 2"
    and "rx (demo_reader (?wire @ [7])) = ?wire @ [7]"
    by (simp_all add: demo_reader_ok)
  ultimately have "\<exists>got c'. readMessages (length [assignCsid demo_audio, assignCsid demo_video])
        (demo_reader (?wire @ [7])) = (Ok got, c')
      \<and> list_all2 same_message got [assignCsid demo_audio, assignCsid demo_video]"
    by (intro interleaved_roundtrip [OF demo_reader_ok(1)])
  moreover have "length [assignCsid demo_audio, assignCsid demo_video] = 2" by simp
  ultimately show ?thesis by (simp only: append_assoc)
qed


text \<open>A socket that breaks after six bytes, in the middle of the message header.\<close>

theorem writeChunkStream_never_panics_witness:
  "let (r, (m', c')) = writeChunkStream (demo_video, demo_writer\<lparr>tx_left := Some 6\<rparr>) in
     r = Err (Wrap WriteError ''write chunk message header'') \<and> rx c' = [] \<and> localChunksize c' = 2"
proof -
  let ?c = "demo_writer\<lparr>tx_left := Some 6\<rparr>"
  obtain r m' c' where run: "writeChunkStream (demo_video, ?c) = (r, (m', c'))"
    by (cases "writeChunkStream (demo_video, ?c)") auto
  have "tx_frame (\<lambda>c. rx c = [])" by (simp add: tx_frame_def)
  moreover have "rx ?c = []" by (simp add: demo_writer_def Server_def zero_conn_def)
  ultimately have "(\<forall>p. r \<noteq> Panic p) \<and> rx c' = [] \<and> localChunksize c' = localChunksize ?c"
    using writeChunkStream_never_panics [OF _ _ _ _ demo_sendable(2) run, of "\<lambda>c. rx c = []"]
      demo_writer_ok by simp
  moreover have "fst (writeChunkStream (demo_video, ?c))
      = Err (Wrap WriteError ''write chunk message header'')"
    by code_simp
  ultimately show ?thesis by (simp add: run demo_writer_ok)
qed


definition demo_short_control :: chunk_stream where
  "demo_short_control =
     newChunkStream\<lparr>Csid := 2, MsgLength := 1, MsgTypeID := 1, ChunkBody := [0xff]\<rparr>"

theorem short_control_message_panics_witness:
  "fst (readChunkStream (demo_reader [2, 0, 0, 0, 0, 0, 1, 1, 0, 0, 0, 0, 0xff]))
     = Panic IndexOutOfRange"
proof (rule short_control_message_panics [where m = demo_short_control and rest = "[]"])
  show "rx (demo_reader [2, 0, 0, 0, 0, 0, 1, 1, 0, 0, 0, 0, 0xff]) = message_wire
      (unat (remoteChunkSize (demo_reader [2, 0, 0, 0, 0, 0, 1, 1, 0, 0, 0, 0, 0xff])))
        demo_short_control @ []"
    by code_simp
qed (simp_all add: demo_reader_ok demo_short_control_def newChunkStream_def deliverable_def
    sendable_def wf_message_def valid_csid_def sets_parameter_def)

definition demo_set_chunk_size :: chunk_stream where
  "demo_set_chunk_size = newChunkStream\<lparr>Csid := 2, MsgLength := 4, MsgTypeID := 1,
     ChunkBody := [0, 0, 0x10, 0]\<rparr>"

theorem set_chunk_size_takes_effect_witness:
  "\<exists>got c'. readChunkStream (demo_reader
       ([2, 0, 0, 0, 0, 0, 4, 1, 0, 0, 0, 0, 0, 0, 0xc2, 0x10, 0] @ [9])) = (Ok got, c')
     \<and> remoteChunkSize c' = 4096 \<and> rx c' = [9]"
proof (rule set_chunk_size_takes_effect [where m = demo_set_chunk_size])
  show "NewProtolControlMessage MsgSetChunkSize 4 4096 = Ok demo_set_chunk_size"
    by code_simp
  have "message_wire 2 demo_set_chunk_size
      = [2, 0, 0, 0, 0, 0, 4, 1, 0, 0, 0, 0, 0, 0, 0xc2, 0x10, 0]"
    by code_simp
  then show "rx (demo_reader ([2, 0, 0, 0, 0, 0, 4, 1, 0, 0, 0, 0, 0, 0, 0xc2, 0x10, 0] @ [9]))
      = message_wire (unat (remoteChunkSize (demo_reader
          ([2, 0, 0, 0, 0, 0, 4, 1, 0, 0, 0, 0, 0, 0, 0xc2, 0x10, 0] @ [9]))))
          demo_set_chunk_size @ [9]"
    by (simp add: demo_reader_ok)
qed (rule demo_reader_ok)

theorem ack_window_witness:
  "let (r, c') = ack 300000 (demo_writer\<lparr>localChunksize := 128\<rparr>) in
     r = Ok () \<and> tx c' = [2, 0, 0, 0, 0, 0, 4, 3, 0, 0, 0, 0, 0, 4, 0x93, 0xe0] \<and> ackSeqNumber c' = 0"
proof -
  let ?c = "demo_writer\<lparr>localChunksize := 128\<rparr>"
  obtain r c' where run: "ack 300000 ?c = (r, c')" by (cases "ack 300000 ?c")
  have "writable ?c" using demo_writer_ok(1) by (simp add: writable_def tx_open_def)
  moreover have "ackSeqNumber ?c = 0" "remoteWindowAckSize ?c = 250000" "tx ?c = []"
    by (simp_all add: demo_writer_def Server_def zero_conn_def)
  moreover have "uintAsbyteSlice 300000 4 True = [0, 4, 0x93, 0xe0]" by code_simp
  ultimately show ?thesis
    using ack_window [OF _ _ run] by (simp add: run)
qed

end
