(* ===== verification/Sha256.thy ===== *)
theory Sha256
  imports Prelude
begin

text \<open>
  The keyed digest of the handshake: SHA-256 (FIPS 180-4) and HMAC (RFC 2104), as the
  handshake obtains them from Go's \<open>crypto/sha256\<close> and \<open>crypto/hmac\<close>. The definitions are
  executable; the handshake proofs rest on one law only, the length of the digest, stated as
  the locale \<open>keyed_digest\<close>.
\<close>

section \<open>SHA-256\<close>

definition sha256_K :: "u32 list" where
  "sha256_K =
     [
     1116352408, 1899447441, 3049323471, 3921009573, 961987163, 1508970993,
     2453635748, 2870763221, 3624381080, 310598401, 607225278, 1426881987,
     1925078388, 2162078206, 2614888103, 3248222580, 3835390401, 4022224774,
     264347078, 604807628, 770255983, 1249150122, 1555081692, 1996064986,
     2554220882, 2821834349, 2952996808, 3210313671, 3336571891, 3584528711,
     113926993, 338241895, 666307205, 773529912, 1294757372, 1396182291,
     1695183700, 1986661051, 2177026350, 2456956037, 2730485921, 2820302411,
     3259730800, 3345764771, 3516065817, 3600352804, 4094571909, 275423344,
     430227734, 506948616, 659060556, 883997877, 958139571, 1322822218,
     1537002063, 1747873779, 1955562222, 2024104815, 2227730452, 2361852424,
     2428436474, 2756734187, 3204031479, 3329325298]"

datatype sha_state = ShaState u32 u32 u32 u32 u32 u32 u32 u32

definition sha256_init :: sha_state where
  "sha256_init = ShaState 0x6a09e667 0xbb67ae85 0x3c6ef372 0xa54ff53a
     0x510e527f 0x9b05688c 0x1f83d9ab 0x5be0cd19"

definition rotr32 :: "nat \<Rightarrow> u32 \<Rightarrow> u32" where
  "rotr32 n w = drop_bit n w OR push_bit (32 - n) w"

text \<open>The message schedule is kept as the last sixteen words, the oldest first.\<close>

definition next_word :: "u32 list \<Rightarrow> u32" where
  "next_word ws =
     (let w1 = ws ! 1; w14 = ws ! 14 in
      ws ! 0 + (rotr32 7 w1 XOR rotr32 18 w1 XOR drop_bit 3 w1)
      + ws ! 9 + (rotr32 17 w14 XOR rotr32 19 w14 XOR drop_bit 10 w14))"

fun sha_round :: "u32 \<Rightarrow> u32 \<Rightarrow> sha_state \<Rightarrow> sha_state" where
  "sha_round k w (ShaState a b c d e f g h) =
     (let t1 = h + (rotr32 6 e XOR rotr32 11 e XOR rotr32 25 e)
                 + ((e AND f) XOR (NOT e AND g)) + k + w;
          t2 = (rotr32 2 a XOR rotr32 13 a XOR rotr32 22 a)
                 + ((a AND b) XOR (a AND c) XOR (b AND c))
      in ShaState (t1 + t2) a b c (d + t1) e f g)"

fun sha_rounds :: "u32 list \<Rightarrow> u32 list \<Rightarrow> sha_state \<Rightarrow> sha_state" where
  "sha_rounds [] ws st = st"
| "sha_rounds (k # ks) ws st =
     sha_rounds ks (tl ws @ [next_word ws]) (sha_round k (hd ws) st)"

fun sha_add :: "sha_state \<Rightarrow> sha_state \<Rightarrow> sha_state" where
  "sha_add (ShaState a b c d e f g h) (ShaState a' b' c' d' e' f' g' h') =
     ShaState (a + a') (b + b') (c + c') (d + d') (e + e') (f + f') (g + g') (h + h')"

fun be_words :: "u8 list \<Rightarrow> u32 list" where
  "be_words (a # b # c # d # bs) =
     (push_bit 24 (ucast a) OR push_bit 16 (ucast b) OR push_bit 8 (ucast c) OR ucast d)
       # be_words bs"
| "be_words _ = []"

definition word_bytes :: "u32 \<Rightarrow> u8 list" where
  "word_bytes w = [ucast (drop_bit 24 w), ucast (drop_bit 16 w), ucast (drop_bit 8 w), ucast w]"

fun sha_bytes :: "sha_state \<Rightarrow> u8 list" where
  "sha_bytes (ShaState a b c d e f g h) = concat (map word_bytes [a, b, c, d, e, f, g, h])"

definition sha_block :: "sha_state \<Rightarrow> u8 list \<Rightarrow> sha_state" where
  "sha_block st b = sha_add st (sha_rounds sha256_K (be_words b) st)"

function sha_blocks :: "sha_state \<Rightarrow> u8 list \<Rightarrow> sha_state" where
  "sha_blocks st m =
     (if length m < 64 then st else sha_blocks (sha_block st (take 64 m)) (drop 64 m))"
  by pat_completeness auto
termination
  by (relation "measure (\<lambda>(st, m). length m)") auto

declare sha_blocks.simps [simp del]

text \<open>
  The padding: a one bit, zeros, and the length in bits as 64 bits. The upper half of that length
  is the length in bytes divided by \<open>2 ^ 29\<close>, in two steps so that it evaluates.
\<close>

definition sha_pad :: "u8 list \<Rightarrow> u8 list" where
  "sha_pad m =
     (let n = length m in
      m @ [0x80] @ replicate ((119 - n mod 64) mod 64) 0
        @ word_bytes (of_nat (n div 65536 div 8192)) @ word_bytes (8 * of_nat n))"

definition sha256 :: "u8 list \<Rightarrow> u8 list" where
  "sha256 m = sha_bytes (sha_blocks sha256_init (sha_pad m))"

section \<open>HMAC\<close>

definition hmac_key :: "u8 list \<Rightarrow> u8 list" where
  "hmac_key key =
     (let k = (if length key > 64 then sha256 key else key) in k @ replicate (64 - length k) 0)"

definition hmac_sha256 :: "u8 list \<Rightarrow> u8 list \<Rightarrow> u8 list" where
  "hmac_sha256 key m =
     sha256 (map (\<lambda>b. b XOR 0x5c) (hmac_key key)
               @ sha256 (map (\<lambda>b. b XOR 0x36) (hmac_key key) @ m))"

section \<open>The law of a keyed digest\<close>

lemma length_sha256 [simp]: "length (sha256 m) = 32"
  unfolding sha256_def by (cases "sha_blocks sha256_init (sha_pad m)") (simp add: word_bytes_def)

text \<open>The padded message is a whole number of blocks, so every byte is hashed.\<close>

lemma pad_gap:
  assumes "r < 64"
  shows "r + 9 + (119 - r) mod 64 = (if r \<le> 55 then 64 else 128 :: nat)"
proof (cases "r \<le> 55")
  case True
  then have "119 - r = (55 - r) + 64" by simp
  then have "(119 - r) mod 64 = 55 - r" by (simp only: mod_add_self2) simp
  with True show ?thesis by simp
next
  case False
  then have "(119 - r) mod 64 = 119 - r" by (intro mod_less) simp
  with False assms show ?thesis by simp
qed

lemma length_sha_pad:
  "length (sha_pad m) = length m + 9 + (119 - length m mod 64) mod 64"
  unfolding sha_pad_def Let_def word_bytes_def by simp

lemma sha_pad_blocks: "64 dvd length (sha_pad m)"
proof -
  let ?r = "length m mod 64"
  have "length (sha_pad m) = 64 * (length m div 64) + (?r + 9 + (119 - ?r) mod 64)"
    unfolding length_sha_pad by (subst (1) mult_div_mod_eq [of 64 "length m", symmetric]) (simp only: add.assoc)
  then show ?thesis
    unfolding pad_gap [OF mod_less_divisor, simplified] by simp
qed

text \<open>
  Both sides of the handshake embed a digest of a block in the block itself: the digest is taken
  over the block without the 32 bytes at \<open>gap\<close> and stored there. The lemmas hold for every keyed
  digest of 32 bytes.
\<close>

locale keyed_digest =
  fixes mac :: "u8 list \<Rightarrow> u8 list \<Rightarrow> u8 list"
  assumes length_mac: "length (mac key m) = 32"
begin

lemma seal_length:
  "gap + 32 \<le> length p \<Longrightarrow> length (overwrite gap (mac key m) p) = length p"
  by (simp add: length_mac)

lemma seal_verifies:
  assumes "gap + 32 \<le> length p" and "m = take gap p @ drop (gap + 32) p"
    and "q = overwrite gap (mac key m) p"
  shows "take 32 (drop gap q) = mac key (take gap q @ drop (gap + 32) q)"
  using assms by (simp add: length_mac)

lemma seal_prefix:
  "n \<le> gap \<Longrightarrow> gap + 32 \<le> length p \<Longrightarrow> take n (overwrite gap (mac key m) p) = take n p"
  by simp

end

interpretation hmac: keyed_digest hmac_sha256
  by unfold_locales (simp add: hmac_sha256_def)

end
