(* ===== verification/Handshake.thy ===== *)
theory Handshake
  imports Sha256 Conn
begin

text \<open>
  The server side of the RTMP handshake (\<^verbatim>\<open>pkg/rtmp/handshake_server.go\<close>) and the guard around
  it (\<open>Handshake\<close> in \<^verbatim>\<open>conn.go\<close>). The array \<open>random\<close> of the code is cut into the slices C0C1, C2,
  S0S1 and S2, which do not overlap and start as zeros; each slice is a local list here. All
  blocks have 1536 bytes, so no index is out of range. \<open>math/rand.Read\<close> is a parameter \<open>rand\<close>:
  the sequence of bytes the generator will produce.
\<close>

section \<open>Keys\<close>

definition hsKeySuffix :: "u8 list" where
  "hsKeySuffix =
     [0xF0, 0xEE, 0xC2, 0x4A, 0x80, 0x68, 0xBE, 0xE8, 0x2E, 0x00, 0xD0, 0xD1,
      0x02, 0x9E, 0x7E, 0x57, 0x6E, 0xEC, 0x5D, 0x2D, 0x29, 0x80, 0x6F, 0xAB,
      0x93, 0xB8, 0xE6, 0x36, 0xCF, 0xEB, 0x31, 0xAE]"

definition bytes_of :: "string \<Rightarrow> u8 list" where
  "bytes_of s = map of_char s"

definition hsClientFullKey :: "u8 list" where
  "hsClientFullKey = bytes_of ''Genuine Adobe Flash Player 001'' @ hsKeySuffix"

definition hsServerFullKey :: "u8 list" where
  "hsServerFullKey = bytes_of ''Genuine Adobe Flash Media Server 001'' @ hsKeySuffix"

definition hsClientPartialKey :: "u8 list" where
  "hsClientPartialKey = take 30 hsClientFullKey"

definition hsServerPartialKey :: "u8 list" where
  "hsServerPartialKey = take 36 hsServerFullKey"

section \<open>Digests\<close>

definition complexHandshakeCalcDigestPos :: "u8 list \<Rightarrow> nat \<Rightarrow> nat" where
  "complexHandshakeCalcDigestPos p base =
     sum_list (map (\<lambda>i. unat (p ! (base + i))) [0..<4]) mod 728 + base + 4"

definition complexHandshakeMakeDigest :: "u8 list \<Rightarrow> u8 list \<Rightarrow> int \<Rightarrow> u8 list" where
  "complexHandshakeMakeDigest key src gap =
     (if gap \<le> 0 then hmac_sha256 key src
      else hmac_sha256 key (take (nat gap) src @ drop (nat gap + 32) src))"

text \<open>The position of the digest, or -1 when the bytes found there are not the digest.\<close>

definition complexHandshakeFindDigest :: "u8 list \<Rightarrow> u8 list \<Rightarrow> nat \<Rightarrow> int" where
  "complexHandshakeFindDigest p key base =
     (let gap = complexHandshakeCalcDigestPos p base;
          digest = complexHandshakeMakeDigest key p (int gap)
      in if take 32 (drop gap p) \<noteq> digest then -1 else int gap)"

text \<open>\<open>None\<close> stands for the result \<open>(false, nil)\<close>.\<close>

definition complexHandshakeParseC1 :: "u8 list \<Rightarrow> u8 list \<Rightarrow> u8 list \<Rightarrow> u8 list option" where
  "complexHandshakeParseC1 p peerkey key =
     (let pos = complexHandshakeFindDigest p peerkey 772;
          pos = (if pos = -1 then complexHandshakeFindDigest p peerkey 8 else pos)
      in if pos = -1 then None
         else Some (complexHandshakeMakeDigest key (take 32 (drop (nat pos) p)) (-1)))"

definition rand_bytes :: "(nat \<Rightarrow> u8) \<Rightarrow> nat \<Rightarrow> nat \<Rightarrow> u8 list" where
  "rand_bytes rand from n = map rand [from..<from + n]"

text \<open>The two writers fill the slice in place; the filled slice is the result.\<close>

definition complexHandshakeCreateS0S1 ::
    "u8 list \<Rightarrow> u8 list \<Rightarrow> u32 \<Rightarrow> u32 \<Rightarrow> u8 list \<Rightarrow> u8 list" where
  "complexHandshakeCreateS0S1 rnd p time ver key =
     (let p1 = take 8 (drop 1 p) @ rnd;
          p1 = overwrite 0 (uintAsbyteSlice time 4 True) p1;
          p1 = overwrite 4 (uintAsbyteSlice ver 4 True) p1;
          gap = complexHandshakeCalcDigestPos p1 8;
          digest = complexHandshakeMakeDigest key p1 (int gap)
      in take 1 p @ overwrite gap digest p1)"

definition complexHandshakeCreateS2 :: "u8 list \<Rightarrow> u8 list \<Rightarrow> u8 list" where
  "complexHandshakeCreateS2 rnd key =
     (let p = rnd;
          gap = length p - 32;
          digest = complexHandshakeMakeDigest key p (int gap)
      in overwrite gap digest p)"

section \<open>The exchange\<close>

definition serverHandshake :: "(nat \<Rightarrow> u8) \<Rightarrow> (conn, unit) go" where
  "serverHandshake rand =
     go_bind (Conn_Read (1536 + 1)) (\<lambda>c0c1.
       let c0 = take 1 c0c1; c1 = drop 1 c0c1;
           c2 = replicate 1536 0; s0s1 = 3 # replicate 1536 0; s2 = (replicate 1536 0 :: u8 list) in
       if c0 ! 0 \<noteq> 3 then go_err (Msg ''handshake version invalid'')
       else
         let cliTime = byteSliceAsUint (take 4 c1) True;
             cliVer = byteSliceAsUint (take 4 (drop 4 c1)) True;
             reply =
               (if cliVer \<noteq> 0 then
                  (case complexHandshakeParseC1 c1 hsClientPartialKey hsServerFullKey of
                     None \<Rightarrow> None
                   | Some digest \<Rightarrow>
                       Some (complexHandshakeCreateS0S1
                               (rand_bytes rand 0 (length s0s1 - 1 - 8)) s0s1 cliTime 0x0d0e0a0d
                               hsServerPartialKey
                             @ complexHandshakeCreateS2
                                 (rand_bytes rand (length s0s1 - 1 - 8) (length s2)) digest))
                else Some (take 1 s0s1 @ c2 @ c1))
         in case reply of
              None \<Rightarrow> go_err (Msg ''C1 invalid'')
            | Some s0s1s2 \<Rightarrow>
                go_bind (Conn_Write s0s1s2) (\<lambda>_.
                go_bind Conn_Flush (\<lambda>_.
                go_bind (Conn_Read 1536) (\<lambda>_. go_return ()))))"

text \<open>
  \<open>Handshake\<close> runs the handshake function of the connection once. The result is kept in
  \<open>handshakeErr\<close> and \<open>HandshakeStatus\<close>.
\<close>

definition handshakeComplete :: "conn \<Rightarrow> bool" where
  "handshakeComplete c \<longleftrightarrow> HandshakeStatus c = 1"

definition clientHandshake :: "(conn, unit) go" where
  "clientHandshake = go_return ()"

definition handshakeFn :: "(nat \<Rightarrow> u8) \<Rightarrow> (conn, unit) go" where
  "handshakeFn rand c = (if isClient c then clientHandshake c else serverHandshake rand c)"

definition Handshake :: "(nat \<Rightarrow> u8) \<Rightarrow> (conn, unit) go" where
  "Handshake rand c =
     (case handshakeErr c of
        Some e \<Rightarrow> (Err e, c)
      | None \<Rightarrow>
          if handshakeComplete c then (Ok (), c)
          else
            (case handshakeFn rand c of
               (Panic p, c1) \<Rightarrow> (Panic p, c1)
             | (Err e, c1) \<Rightarrow> (Err e, snd (Conn_Flush (c1\<lparr>handshakeErr := Some e\<rparr>)))
             | (Ok _, c1) \<Rightarrow>
                 let c2 = c1\<lparr>handshakeErr := None, HandshakeStatus := HandshakeStatus c1 + 1\<rparr> in
                 if \<not> handshakeComplete c2
                 then (let e = Msg ''internal error'' in (Err e, c2\<lparr>handshakeErr := Some e\<rparr>))
                 else (Ok (), c2)))"

definition ConnectionState :: "conn \<Rightarrow> bool" where
  "ConnectionState c = handshakeComplete c"

section \<open>Positions\<close>

lemma digest_pos_bounds:
  "base + 4 \<le> complexHandshakeCalcDigestPos p base
   \<and> complexHandshakeCalcDigestPos p base \<le> base + 731"
proof -
  have "n mod 728 \<le> 727" for n :: nat
    using mod_less_divisor [of 728 n] by simp
  then show ?thesis by (simp add: complexHandshakeCalcDigestPos_def)
qed

lemma digest_pos_cong:
  "take (base + 4) p = take (base + 4) q \<Longrightarrow>
     complexHandshakeCalcDigestPos p base = complexHandshakeCalcDigestPos q base"
proof -
  assume eq: "take (base + 4) p = take (base + 4) q"
  have "p ! (base + i) = q ! (base + i)" if "i < 4" for i
    using that arg_cong [OF eq, of "\<lambda>l. l ! (base + i)"] by simp
  then have "map (\<lambda>i. unat (p ! (base + i))) [0..<4] = map (\<lambda>i. unat (q ! (base + i))) [0..<4]"
    by simp
  then show ?thesis by (simp only: complexHandshakeCalcDigestPos_def)
qed

lemma MakeDigest_gap:
  "0 < gap \<Longrightarrow>
     complexHandshakeMakeDigest key p (int gap) = hmac_sha256 key (take gap p @ drop (gap + 32) p)"
  by (simp add: complexHandshakeMakeDigest_def)

lemma length_MakeDigest [simp]: "length (complexHandshakeMakeDigest key p gap) = 32"
  by (simp add: complexHandshakeMakeDigest_def hmac.length_mac)

text \<open>A block with the digest of the scheme \<open>base\<close> stored in it, as a peer makes it.\<close>

definition sealed :: "u8 list \<Rightarrow> nat \<Rightarrow> u8 list \<Rightarrow> u8 list" where
  "sealed key base p =
     (let gap = complexHandshakeCalcDigestPos p base
      in overwrite gap (complexHandshakeMakeDigest key p (int gap)) p)"

lemma sealed_pos:
  assumes "base + 763 \<le> length p"
  shows "complexHandshakeCalcDigestPos (sealed key base p) base
           = complexHandshakeCalcDigestPos p base"
  using assms digest_pos_bounds [of base p]
  by (intro digest_pos_cong) (simp add: sealed_def Let_def)

lemma length_sealed:
  "base + 763 \<le> length p \<Longrightarrow> length (sealed key base p) = length p"
  using digest_pos_bounds [of base p] by (simp add: sealed_def Let_def)

lemma sealed_prefix:
  "base + 763 \<le> length p \<Longrightarrow> take (base + 4) (sealed key base p) = take (base + 4) p"
  using digest_pos_bounds [of base p] by (simp add: sealed_def Let_def)

lemma FindDigest_sealed:
  assumes "base + 763 \<le> length p"
  shows "complexHandshakeFindDigest (sealed key base p) key base
           = int (complexHandshakeCalcDigestPos p base)"
proof -
  let ?gap = "complexHandshakeCalcDigestPos p base"
  have gap: "0 < ?gap" "?gap + 32 \<le> length p"
    using digest_pos_bounds [of base p] assms by simp_all
  have "take 32 (drop ?gap (sealed key base p))
      = hmac_sha256 key (take ?gap (sealed key base p) @ drop (?gap + 32) (sealed key base p))"
    using hmac.seal_verifies [OF gap(2) refl refl, of key]
    by (simp add: sealed_def Let_def MakeDigest_gap [OF gap(1)])
  then show ?thesis
    using sealed_pos [OF assms, of key]
    by (simp add: complexHandshakeFindDigest_def Let_def MakeDigest_gap [OF gap(1)])
qed

lemma FindDigest_neg: "complexHandshakeFindDigest p key base \<noteq> -1 \<Longrightarrow>
    complexHandshakeFindDigest p key base = int (complexHandshakeCalcDigestPos p base)"
  by (auto simp: complexHandshakeFindDigest_def Let_def split: if_splits)

section \<open>The reply\<close>

lemma tx_open_tx [simp]: "tx_open (c\<lparr>tx := b\<rparr>) = tx_open c"
  by (simp add: tx_open_def)

lemma CreateS2_verifies:
  assumes "32 < length rnd"
  shows "length (complexHandshakeCreateS2 rnd key) = length rnd"
    and "drop (length rnd - 32) (complexHandshakeCreateS2 rnd key)
           = hmac_sha256 key (take (length rnd - 32) (complexHandshakeCreateS2 rnd key))"
proof -
  have gap: "0 < length rnd - 32" "length rnd - 32 + 32 \<le> length rnd" using assms by simp_all
  show "length (complexHandshakeCreateS2 rnd key) = length rnd"
    using assms by (simp add: complexHandshakeCreateS2_def Let_def)
  then show "drop (length rnd - 32) (complexHandshakeCreateS2 rnd key)
      = hmac_sha256 key (take (length rnd - 32) (complexHandshakeCreateS2 rnd key))"
    using hmac.seal_verifies [OF gap(2) refl refl, of key] assms
    by (simp add: complexHandshakeCreateS2_def Let_def MakeDigest_gap [OF gap(1)]
        del: of_nat_diff)
qed

lemma CreateS0S1_sealed:
  assumes "length rnd = 1528" and "length p = 1537"
  shows "complexHandshakeCreateS0S1 rnd p time ver key
           = take 1 p @ sealed key 8 (uintAsbyteSlice time 4 True @ uintAsbyteSlice ver 4 True @ rnd)"
  using assms
  by (simp add: complexHandshakeCreateS0S1_def Let_def sealed_def overwrite_def min_def)

lemma length_rand_bytes [simp]: "length (rand_bytes rand from n) = n"
  by (simp add: rand_bytes_def)

text \<open>The reply of the server to a client that asks for the scheme with digests.\<close>

lemma complex_reply:
  assumes s0s1_def: "s0s1 = complexHandshakeCreateS0S1 (rand_bytes rand 0 1528)
      (3 # replicate 1536 0) time 0x0d0e0a0d hsServerPartialKey"
    and s2_def: "s2 = complexHandshakeCreateS2 (rand_bytes rand 1528 1536) d"
  obtains s1 where "s0s1 = 3 # s1" and "length s1 = 1536"
    and "take 8 s1 = uintAsbyteSlice time 4 True @ [0x0d, 0x0e, 0x0a, 0x0d]"
    and "complexHandshakeFindDigest s1 hsServerPartialKey 8 \<noteq> -1"
    and "length s2 = 1536" and "drop 1504 s2 = hmac_sha256 d (take 1504 s2)"
proof -
  let ?p = "uintAsbyteSlice time 4 True @ uintAsbyteSlice 0x0d0e0a0d 4 True @ rand_bytes rand 0 1528"
  let ?s1 = "sealed hsServerPartialKey 8 ?p"
  have len: "8 + 763 \<le> length ?p" by simp
  have ver: "uintAsbyteSlice 0x0d0e0a0d 4 True = [0x0d, 0x0e, 0x0a, 0x0d]" by code_simp
  have "s0s1 = 3 # ?s1"
    using CreateS0S1_sealed [of "rand_bytes rand 0 1528" "3 # replicate 1536 0"]
    by (simp add: s0s1_def)
  moreover have "length ?s1 = 1536" using length_sealed [OF len, of hsServerPartialKey] by simp
  moreover have "take 8 ?s1 = uintAsbyteSlice time 4 True @ [0x0d, 0x0e, 0x0a, 0x0d]"
  proof -
    have "take 8 ?s1 = take 8 (take (8 + 4) ?s1)" by (simp only: take_take) simp
    also have "\<dots> = take 8 ?p" unfolding sealed_prefix [OF len] by simp
    finally show ?thesis by (simp add: ver)
  qed
  moreover have "complexHandshakeFindDigest ?s1 hsServerPartialKey 8 \<noteq> -1"
    unfolding FindDigest_sealed [OF len] by linarith
  moreover have "length s2 = 1536" and "drop 1504 s2 = hmac_sha256 d (take 1504 s2)"
    using CreateS2_verifies [of "rand_bytes rand 1528 1536" d] by (simp_all add: s2_def)
  ultimately show ?thesis by (intro that)
qed

section \<open>Properties\<close>

text \<open>The simple handshake. A client whose version field is zero gets S0 with version 3, an S1
  of zeros and its own C1 as S2; the server then consumes C2 and nothing more.\<close>

theorem simple_handshake:
  assumes "tx_open c" and "rx c = [3] @ time @ [0, 0, 0, 0] @ noise @ c2 @ rest"
    and "length time = 4" and "length noise = 1528" and "length c2 = 1536"
  shows "serverHandshake rand c =
    (Ok (), c\<lparr>rx := rest,
              tx := tx c @ [3] @ replicate 1536 0 @ time @ [0, 0, 0, 0] @ noise\<rparr>)"
proof -
  let ?c1 = "time @ [0, 0, 0, 0] @ noise"
  have "Conn_Read (1536 + 1) c = (Ok (3 # ?c1), c\<lparr>rx := c2 @ rest\<rparr>)"
    using assms by (intro Conn_Read_append) simp_all
  moreover have "byteSliceAsUint (take 4 (drop 4 ?c1)) True = 0"
    using assms(3) by (simp add: byteSliceAsUint_Cons)
  moreover have "Conn_Read 1536 (c\<lparr>rx := c2 @ rest, tx := t\<rparr>) = (Ok c2, c\<lparr>rx := rest, tx := t\<rparr>)" for t
    using assms(5) Conn_Read_append [of "c\<lparr>rx := c2 @ rest, tx := t\<rparr>" c2 rest 1536] by simp
  ultimately show ?thesis
    using assms(1,3) by (simp add: serverHandshake_def go_bind_def Let_def go_return_def)
qed

text \<open>C11: the handshake with digests. When C1 carries a digest the server can verify, the server
  answers with S1 and S2 of 1536 bytes each. S1 repeats the client's time, names the server
  version 13.14.10.13 and carries a digest that verifies under the server's partial key, where a client
  looks for it. The last 32 bytes of S2 are the keyed digest of the rest of S2 under the digest
  derived from C1.\<close>

theorem complex_handshake:
  assumes "tx_open c" and "rx c = 3 # c1 @ c2 @ rest" and "length c1 = 1536" and "length c2 = 1536"
    and "byteSliceAsUint (take 4 (drop 4 c1)) True \<noteq> 0"
    and "complexHandshakeParseC1 c1 hsClientPartialKey hsServerFullKey = Some digest"
  shows "\<exists>s1 s2. serverHandshake rand c = (Ok (), c\<lparr>rx := rest, tx := tx c @ 3 # s1 @ s2\<rparr>)
    \<and> length s1 = 1536 \<and> length s2 = 1536
    \<and> take 8 s1 = take 4 c1 @ [0x0d, 0x0e, 0x0a, 0x0d]
    \<and> complexHandshakeFindDigest s1 hsServerPartialKey 8 \<noteq> -1
    \<and> drop 1504 s2 = hmac_sha256 digest (take 1504 s2)"
proof -
  let ?time = "byteSliceAsUint (take 4 c1) True"
  let ?s2 = "complexHandshakeCreateS2 (rand_bytes rand 1528 1536) digest"
  have time: "uintAsbyteSlice ?time 4 True = take 4 c1"
    using assms(3) by (intro be.enc_dec) simp_all
  obtain s1 where s1: "complexHandshakeCreateS0S1 (rand_bytes rand 0 1528) (3 # replicate 1536 0)
      ?time 0x0d0e0a0d hsServerPartialKey = 3 # s1" "length s1 = 1536"
    "take 8 s1 = take 4 c1 @ [0x0d, 0x0e, 0x0a, 0x0d]"
    "complexHandshakeFindDigest s1 hsServerPartialKey 8 \<noteq> -1"
    "length ?s2 = 1536" "drop 1504 ?s2 = hmac_sha256 digest (take 1504 ?s2)"
    using complex_reply [OF refl refl, of rand ?time digest thesis] unfolding time by blast
  have "Conn_Read (1536 + 1) c = (Ok (3 # c1), c\<lparr>rx := c2 @ rest\<rparr>)"
    using assms by (intro Conn_Read_append) simp_all
  moreover have "Conn_Read 1536 (c\<lparr>rx := c2 @ rest, tx := t\<rparr>) = (Ok c2, c\<lparr>rx := rest, tx := t\<rparr>)" for t
    using assms(4) Conn_Read_append [of "c\<lparr>rx := c2 @ rest, tx := t\<rparr>" c2 rest 1536] by simp
  ultimately have "serverHandshake rand c = (Ok (), c\<lparr>rx := rest, tx := tx c @ 3 # s1 @ ?s2\<rparr>)"
    using assms(1,5,6) s1(1) by (simp add: serverHandshake_def go_bind_def Let_def go_return_def)
  with s1 show ?thesis by blast
qed

text \<open>A client that stores the digest of its C1 by the scheme at 772, under the client's partial
  key, is accepted, and the digest the reply is built from is the keyed digest, under the server's
  full key, of the 32 bytes the client stored.\<close>

theorem sealed_C1_accepted:
  assumes "length p = 1536"
  shows "complexHandshakeParseC1 (sealed hsClientPartialKey 772 p) hsClientPartialKey key =
    Some (hmac_sha256 key (take 32 (drop (complexHandshakeCalcDigestPos p 772)
                                         (sealed hsClientPartialKey 772 p))))"
proof -
  have "772 + 763 \<le> length p" using assms by simp
  note pos = FindDigest_sealed [OF this, of hsClientPartialKey]
  have "int n \<noteq> -1" for n by linarith
  with pos show ?thesis
    by (simp add: complexHandshakeParseC1_def Let_def complexHandshakeMakeDigest_def)
qed

text \<open>The position of a digest computed from the bytes of a block leaves room for the 32 bytes
  of the digest in a block of 1536 bytes, after the four bytes that determine it, in both
  schemes: no slice of the handshake is out of range and storing a digest does not move it.\<close>

theorem digest_fits:
  "base \<in> {8, 772} \<Longrightarrow>
     base + 4 \<le> complexHandshakeCalcDigestPos p base
     \<and> complexHandshakeCalcDigestPos p base + 32 \<le> 1536
     \<and> (length p = 1536 \<longrightarrow>
          complexHandshakeCalcDigestPos (sealed key base p) base
            = complexHandshakeCalcDigestPos p base)"
  using digest_pos_bounds [of base p] sealed_pos [of base p key] by auto

text \<open>What the server demands of C0 and C1.\<close>

definition acceptable :: "u8 list \<Rightarrow> bool" where
  "acceptable c0c1 \<longleftrightarrow>
     length c0c1 = 1537 \<and> c0c1 ! 0 = 3
     \<and> (byteSliceAsUint (take 4 (drop 5 c0c1)) True \<noteq> 0 \<longrightarrow>
          complexHandshakeParseC1 (drop 1 c0c1) hsClientPartialKey hsServerFullKey \<noteq> None)"

lemma length_reply:
  "length (complexHandshakeCreateS0S1 (rand_bytes rand 0 1528) (3 # replicate 1536 0) t 0x0d0e0a0d
            hsServerPartialKey
          @ complexHandshakeCreateS2 (rand_bytes rand 1528 1536) d) = 3073"
proof -
  obtain s1 where "complexHandshakeCreateS0S1 (rand_bytes rand 0 1528) (3 # replicate 1536 0) t
      0x0d0e0a0d hsServerPartialKey = 3 # s1" "length s1 = 1536"
    "length (complexHandshakeCreateS2 (rand_bytes rand 1528 1536) d) = 1536"
    using complex_reply [OF refl refl, of rand t d thesis] by blast
  then show ?thesis by simp
qed

abbreviation send_reply :: "u8 list \<Rightarrow> (conn, unit) go" where
  "send_reply b \<equiv> go_bind (Conn_Write b) (\<lambda>_. go_bind Conn_Flush (\<lambda>_.
     go_bind (Conn_Read 1536) (\<lambda>_. go_return ())))"

lemma send_reply_open:
  assumes "tx_open c" and "send_reply b c = (r, c')"
  shows "(\<forall>p. r \<noteq> Panic p) \<and> tx c' = tx c @ b \<and> (r = Ok () \<longleftrightarrow> 1536 \<le> length (rx c))"
  using assms by (auto simp: go_bind_def go_return_def Conn_Read_def split: if_splits)

lemma serverHandshake_cases:
  assumes "Conn_Read 1537 c = (Ok b, c1)" and "length b = 1537"
  shows "serverHandshake rand c =
    (if b ! 0 \<noteq> 3 then (Err (Msg ''handshake version invalid''), c1)
     else if byteSliceAsUint (take 4 (drop 5 b)) True = 0
     then send_reply (3 # replicate 1536 0 @ drop 1 b) c1
     else case complexHandshakeParseC1 (drop 1 b) hsClientPartialKey hsServerFullKey of
            None \<Rightarrow> (Err (Msg ''C1 invalid''), c1)
          | Some d \<Rightarrow> send_reply
              (complexHandshakeCreateS0S1 (rand_bytes rand 0 1528) (3 # replicate 1536 0)
                 (byteSliceAsUint (take 4 (drop 1 b)) True) 0x0d0e0a0d hsServerPartialKey
               @ complexHandshakeCreateS2 (rand_bytes rand 1528 1536) d) c1)"
proof -
  have read: "Conn_Read (1536 + 1) c = (Ok b, c1)" using assms(1) by simp
  have drop: "drop 4 (drop 1 b) = drop 5 b" by simp
  have sizes: "length (3 # replicate 1536 (0 :: u8)) - 1 - 8 = 1528"
    "length (replicate 1536 (0 :: u8)) = 1536" by simp_all
  have first: "take 1 b ! 0 = b ! 0" by simp
  show ?thesis
    unfolding serverHandshake_def go_bind_Ok [where m = "Conn_Read (1536 + 1)", OF read]
      Let_def sizes first drop
    by (simp add: go_err_def split: option.splits)
qed


text \<open>The handshake runs once. After it has returned, with or without an error, every later call
  returns the same result and leaves the connection alone.\<close>

theorem handshake_runs_once:
  assumes "Handshake rand c = (r, c')" and "\<forall>p. r \<noteq> Panic p"
  shows "Handshake rand' c' = (r, c')"
proof -
  have flush: "handshakeErr (snd (Conn_Flush d)) = handshakeErr d" for d
    by (simp add: Conn_Flush_def WriteTo_def Let_def split: option.splits)
  show ?thesis
    using assms
    by (auto simp: Handshake_def Let_def flush handshakeComplete_def split: option.splits res.splits
        prod.splits if_splits)
qed

section \<open>Examples\<close>

definition demo_server :: "u8 list \<Rightarrow> conn" where
  "demo_server inp = Server inp EOF None"

lemma demo_server_sel [simp]:
  "tx_open (demo_server inp)" "rx (demo_server inp) = inp" "tx (demo_server inp) = []"
  "handshakeErr (demo_server inp) = None" "HandshakeStatus (demo_server inp) = 0"
  "isClient (demo_server inp) = False" "rx_end (demo_server inp) = EOF"
  by (simp_all add: demo_server_def Server_def zero_conn_def tx_open_def)

definition demo_simple :: "u8 list" where
  "demo_simple = [3] @ [0, 0, 0, 9] @ [0, 0, 0, 0] @ replicate 1528 1 @ replicate 1536 2 @ [7]"

theorem simple_handshake_witness:
  "serverHandshake (\<lambda>_. 0) (demo_server demo_simple) =
    (Ok (), (demo_server demo_simple)\<lparr>rx := [7],
       tx := [3] @ replicate 1536 0 @ [0, 0, 0, 9] @ [0, 0, 0, 0] @ replicate 1528 1\<rparr>)"
  using simple_handshake [of "demo_server demo_simple" "[0, 0, 0, 9]" "replicate 1528 1"
      "replicate 1536 2" "[7]" "\<lambda>_. 0"]
  by (simp add: demo_simple_def)

text \<open>A C1 of a client that uses digests: time 0, version 9.0.115.0, noise of zeros.\<close>

definition demo_noise :: "u8 list" where
  "demo_noise = [0, 0, 0, 0, 9, 0, 0x73, 0] @ replicate 1528 0"

definition demo_C1 :: "u8 list" where
  "demo_C1 = sealed hsClientPartialKey 772 demo_noise"

lemma demo_noise_length: "length demo_noise = 1536"
  by (simp add: demo_noise_def)

lemma demo_C1_prefix: "take 8 demo_C1 = [0, 0, 0, 0, 9, 0, 0x73, 0]" "length demo_C1 = 1536"
proof -
  have len: "772 + 763 \<le> length demo_noise" by (simp add: demo_noise_length)
  have "take 8 demo_C1 = take 8 (take (772 + 4) demo_C1)" by (simp only: take_take) simp
  also have "\<dots> = take 8 demo_noise"
    unfolding demo_C1_def sealed_prefix [OF len] by simp
  finally show "take 8 demo_C1 = [0, 0, 0, 0, 9, 0, 0x73, 0]" by (simp add: demo_noise_def)
  show "length demo_C1 = 1536"
    using length_sealed [OF len] by (simp add: demo_C1_def demo_noise_length)
qed

lemma demo_C1_version: "byteSliceAsUint (take 4 (drop 4 demo_C1)) True = 0x09007300"
proof -
  have "take 4 (drop 4 demo_C1) = drop 4 (take 8 demo_C1)" by (simp add: drop_take)
  also have "\<dots> = [9, 0, 0x73, 0]" by (simp add: demo_C1_prefix)
  finally have "byteSliceAsUint (take 4 (drop 4 demo_C1)) True = byteSliceAsUint [9, 0, 0x73, 0] True"
    by (rule arg_cong)
  also have "\<dots> = 0x09007300" by code_simp
  finally show ?thesis .
qed

definition demo_digest :: "u8 list" where
  "demo_digest = hmac_sha256 hsServerFullKey
     (take 32 (drop (complexHandshakeCalcDigestPos demo_noise 772) demo_C1))"

theorem sealed_C1_accepted_witness:
  "complexHandshakeParseC1 demo_C1 hsClientPartialKey hsServerFullKey = Some demo_digest"
  unfolding demo_C1_def demo_digest_def by (rule sealed_C1_accepted [OF demo_noise_length])

lemma demo_C1_parse:
  "complexHandshakeParseC1 demo_C1 hsClientPartialKey hsServerFullKey = Some demo_digest"
proof -
  have "772 + 763 \<le> length demo_noise" by (simp add: demo_noise_length)
  note pos = FindDigest_sealed [OF this, of hsClientPartialKey]
  have "int n \<noteq> -1" for n by linarith
  with pos show ?thesis
    by (simp add: complexHandshakeParseC1_def Let_def complexHandshakeMakeDigest_def demo_C1_def
        demo_digest_def)
qed

theorem complex_handshake_witness:
  "\<exists>s1 s2. serverHandshake (\<lambda>_. 0) (demo_server (3 # demo_C1 @ replicate 1536 0 @ [7]))
      = (Ok (), (demo_server (3 # demo_C1 @ replicate 1536 0 @ [7]))\<lparr>rx := [7], tx := 3 # s1 @ s2\<rparr>)
    \<and> take 8 s1 = take 4 demo_C1 @ [0x0d, 0x0e, 0x0a, 0x0d]
    \<and> complexHandshakeFindDigest s1 hsServerPartialKey 8 \<noteq> -1
    \<and> drop 1504 s2 = hmac_sha256 demo_digest (take 1504 s2)"
  using complex_handshake [of "demo_server (3 # demo_C1 @ replicate 1536 0 @ [7])" demo_C1
      "replicate 1536 0" "[7]" demo_digest "\<lambda>_. 0"]
  by (simp add: demo_C1_prefix demo_C1_version demo_C1_parse) blast

theorem digest_fits_witness:
  "complexHandshakeCalcDigestPos demo_C1 772 + 32 \<le> 1536
   \<and> complexHandshakeCalcDigestPos (sealed hsServerPartialKey 772 demo_C1) 772
       = complexHandshakeCalcDigestPos demo_C1 772"
  using digest_fits [of 772 demo_C1 hsServerPartialKey] by (simp add: demo_C1_prefix)


theorem handshake_runs_once_witness:
  "Handshake (\<lambda>_. 1) (snd (Handshake (\<lambda>_. 0) (demo_server [])))
     = (Err EOF, snd (Handshake (\<lambda>_. 0) (demo_server [])))"
proof -
  have "fst (Handshake (\<lambda>_. 0) (demo_server [])) = Err EOF"
    by (simp add: Handshake_def handshakeFn_def handshakeComplete_def serverHandshake_def
        go_bind_def Conn_Read_def)
  then have "Handshake (\<lambda>_. 0) (demo_server [])
      = (Err EOF, snd (Handshake (\<lambda>_. 0) (demo_server [])))"
    by (metis prod.collapse)
  from handshake_runs_once [OF this, of "\<lambda>_. 1"] show ?thesis by simp
qed

end
