(* ===== verification/Flv.thy ===== *)
theory Flv
  imports Prelude
begin

text \<open>
  Media packets (\<^verbatim>\<open>pkg/av\<close>) and the decoding of their FLV headers (\<^verbatim>\<open>pkg/flv\<close>). A packet's header is
  an interface value in the code; the only type that is ever stored there is \<open>*flv.Tag\<close>, which
  implements both the audio and the video interface, so a header is \<open>None\<close> or a tag and the type
  assertions to \<open>av.AudioPacketHeader\<close> and \<open>av.VideoPacketHeader\<close> succeed on every tag. The part
  \<open>flvTag\<close> of a tag is never written and is left out.
\<close>

section \<open>Data\<close>

definition KEY_FRAME :: u8 where [simp]: "KEY_FRAME = 1"
definition INTER_FRAME :: u8 where [simp]: "INTER_FRAME = 2"
definition AVC_SEQHDR :: u8 where [simp]: "AVC_SEQHDR = 0"
definition SOUND_AAC :: u8 where [simp]: "SOUND_AAC = 10"
definition AAC_SEQHDR :: u8 where [simp]: "AAC_SEQHDR = 0"

record media_tag =
  soundFormat :: u8
  SoundRate :: u8
  SoundSize :: u8
  SoundType :: u8
  aacPacketType :: u8
  FrameType :: u8
  codecID :: u8
  AvcPacketType :: u8
  compositionTime :: "32 word"

definition new_Tag :: media_tag where
  "new_Tag = \<lparr> soundFormat = 0, SoundRate = 0, SoundSize = 0, SoundType = 0, aacPacketType = 0,
     FrameType = 0, codecID = 0, AvcPacketType = 0, compositionTime = 0 \<rparr>"

record packet =
  Header :: "media_tag option"
  Data :: "u8 list"
  PktTimeStamp :: u32
  StreamID :: u32
  IsAudio :: bool
  IsVideo :: bool
  IsMetaData :: bool

definition new_Packet :: packet where
  "new_Packet = \<lparr> Header = None, Data = [], PktTimeStamp = 0, StreamID = 0,
     IsAudio = False, IsVideo = False, IsMetaData = False \<rparr>"

definition SoundFormat :: "media_tag \<Rightarrow> u8" where [simp]: "SoundFormat t = soundFormat t"
definition AACPacketType :: "media_tag \<Rightarrow> u8" where [simp]: "AACPacketType t = aacPacketType t"
definition CodecID :: "media_tag \<Rightarrow> u8" where [simp]: "CodecID t = codecID t"

definition IsKeyFrame :: "media_tag \<Rightarrow> bool" where
  "IsKeyFrame t \<longleftrightarrow> FrameType t = KEY_FRAME"

definition IsSeq :: "media_tag \<Rightarrow> bool" where
  "IsSeq t \<longleftrightarrow> IsKeyFrame t \<and> AvcPacketType t = AVC_SEQHDR"

definition CompositionTime :: "media_tag \<Rightarrow> int" where
  "CompositionTime t = sint (compositionTime t)"

section \<open>Decoding\<close>

definition decodeAudioHeader :: "u8 list \<Rightarrow> (media_tag, nat) go" where
  "decodeAudioHeader b t =
     (if length b < 1 then (Err (Msg ''invalid Audio Data''), t)
      else
        let flags = b ! 0;
            t = t\<lparr>soundFormat := drop_bit 4 flags, SoundRate := drop_bit 2 flags AND 0x3,
                  SoundSize := drop_bit 1 flags AND 0x01, SoundType := flags AND 0x01\<rparr>
        in if soundFormat t = SOUND_AAC then
             (if length b < 2 then (Panic IndexOutOfRange, t)
              else (Ok 2, t\<lparr>aacPacketType := b ! 1\<rparr>))
           else (Ok 1, t))"

definition decodeVideoHeader :: "u8 list \<Rightarrow> (media_tag, nat) go" where
  "decodeVideoHeader b t =
     (if length b < 5 then (Err (Msg ''invalid Video Data''), t)
      else
        let flags = b ! 0;
            t = t\<lparr>FrameType := drop_bit 4 flags, codecID := flags AND 0xf\<rparr>
        in if FrameType t = INTER_FRAME \<or> FrameType t = KEY_FRAME then
             (Ok 5, t\<lparr>AvcPacketType := b ! 1,
                      compositionTime :=
                        foldl (\<lambda>ct i. push_bit 8 ct + ucast (b ! i)) (compositionTime t) [2..<5]\<rparr>)
           else (Ok 1, t))"

definition decodeMediaTagHeader :: "u8 list \<Rightarrow> bool \<Rightarrow> (media_tag, nat) go" where
  "decodeMediaTagHeader b isVideo =
     (if isVideo then decodeVideoHeader b else decodeAudioHeader b)"

definition Demux :: "packet \<Rightarrow> packet res" where
  "Demux pkt = Ok pkt"

definition DemuxHdr :: "(packet, unit) go" where
  "DemuxHdr pkt =
     (case decodeMediaTagHeader (Data pkt) (IsVideo pkt) new_Tag of
        (Ok _, t) \<Rightarrow> (Ok (), pkt\<lparr>Header := Some t\<rparr>)
      | (Err e, t) \<Rightarrow> (Err e, pkt)
      | (Panic p, t) \<Rightarrow> (Panic p, pkt))"

section \<open>Headers as bytes\<close>

text \<open>The bytes a tag stands for, the inverse of the decoding.\<close>

definition audio_flags :: "media_tag \<Rightarrow> u8" where
  "audio_flags t =
     push_bit 4 (soundFormat t) OR push_bit 2 (SoundRate t) OR push_bit 1 (SoundSize t) OR SoundType t"

definition encode_audio :: "media_tag \<Rightarrow> u8 list" where
  "encode_audio t =
     audio_flags t # (if soundFormat t = SOUND_AAC then [aacPacketType t] else [])"

definition encode_video :: "media_tag \<Rightarrow> u8 list" where
  "encode_video t =
     [push_bit 4 (FrameType t) OR codecID t, AvcPacketType t,
      ucast (drop_bit 16 (compositionTime t)), ucast (drop_bit 8 (compositionTime t)),
      ucast (compositionTime t)]"

lemma and_masks_u8:
  "(b :: u8) AND 0x3 = take_bit 2 b" "b AND 0x01 = take_bit 1 b" "b AND 0xf = take_bit 4 b"
proof -
  have "(0x3 :: u8) = mask 2" "(0x01 :: u8) = mask 1" "(0xf :: u8) = mask 4"
    by (simp_all add: mask_eq_exp_minus_1)
  then show "b AND 0x3 = take_bit 2 b" "b AND 0x01 = take_bit 1 b" "b AND 0xf = take_bit 4 b"
    by (simp_all only: take_bit_eq_mask)
qed

lemma flags_split:
  "push_bit 4 (drop_bit 4 (b :: u8)) OR push_bit 2 (take_bit 2 (drop_bit 2 b))
     OR push_bit 1 (take_bit 1 (drop_bit 1 b)) OR take_bit 1 b = b"
proof (rule bit_word_eqI)
  fix n assume n: "n < LENGTH(8)"
  then have "n = 0 \<or> n = 1 \<or> n = 2 \<or> n = 3 \<or> n = 4 \<or> n = 5 \<or> n = 6 \<or> n = 7" by auto
  then show "bit (push_bit 4 (drop_bit 4 b) OR push_bit 2 (take_bit 2 (drop_bit 2 b))
     OR push_bit 1 (take_bit 1 (drop_bit 1 b)) OR take_bit 1 b) n = bit b n"
    by (simp only: bit_or_iff bit_push_bit_iff bit_drop_bit_eq comp_apply bit_take_bit_iff)
      (elim disjE; simp)
qed

lemma video_split: "push_bit 4 (drop_bit 4 (b :: u8)) OR take_bit 4 b = b"
  by (rule bit_eqI) (auto simp: bit_simps)

lemma foldl_bytes:
  "foldl (\<lambda>ct i. push_bit 8 ct + ucast (b ! i)) c [2..<5]
     = push_bit 8 (push_bit 8 (push_bit 8 c + ucast (b ! 2)) + ucast (b ! 3)) + (ucast (b ! 4) :: u32)"
  for b :: "u8 list"
  by (simp add: upt_rec)

lemma three_bytes:
  fixes x y z :: u8
  defines "v \<equiv> push_bit 8 (push_bit 8 (ucast x) + ucast y) + (ucast z :: u32)"
  shows "unat v = unat x * 65536 + unat y * 256 + unat z"
    and "ucast (drop_bit 16 v) = x" and "ucast (drop_bit 8 v) = y" and "ucast v = z"
proof -
  have disj: "push_bit 8 (w :: u32) + ucast (c :: u8) = push_bit 8 w OR ucast c" for w c
    by (rule disjunctive_add) (auto simp: bit_simps dest: bit_imp_le_length)
  have v: "v = push_bit 8 (push_bit 8 (ucast x) OR ucast y) OR ucast z"
    by (simp only: v_def disj)
  show "ucast (drop_bit 16 v) = x"
    unfolding v by (rule bit_word_eqI) (auto simp: bit_simps dest: bit_imp_le_length)
  show "ucast (drop_bit 8 v) = y"
    unfolding v by (rule bit_word_eqI) (auto simp: bit_simps dest: bit_imp_le_length)
  show "ucast v = z"
    unfolding v by (rule bit_word_eqI) (auto simp: bit_simps dest: bit_imp_le_length)
  have "unat (push_bit 8 (ucast x :: u32) + ucast y) = unat x * 256 + unat y"
    using u8_bound [of x] u8_bound [of y]
    by (simp add: unat_word_ariths unsigned_push_bit_eq take_bit_eq_mod push_bit_eq_mult)
  then show "unat v = unat x * 65536 + unat y * 256 + unat z"
    using u8_bound [of x] u8_bound [of y] u8_bound [of z]
    by (simp add: v_def unat_word_ariths unsigned_push_bit_eq take_bit_eq_mod push_bit_eq_mult)
qed

section \<open>Properties\<close>

text \<open>Decoding an audio header loses nothing: on a packet with a header that fits, the decoder
  succeeds and the decoded fields encode back to the bytes it consumed.\<close>

theorem audio_header_roundtrip:
  assumes "decodeAudioHeader b new_Tag = (Ok n, t)"
  shows "encode_audio t = take n b \<and> n \<le> length b
    \<and> soundFormat t < 16 \<and> SoundRate t < 4 \<and> SoundSize t < 2 \<and> SoundType t < 2"
proof -
  obtain x bs where b: "b = x # bs"
    using assms by (cases b) (simp_all add: decodeAudioHeader_def)
  have bound: "take_bit 4 y < 16" "take_bit 2 y < 4" "take_bit (Suc 0) y < 2" for y :: u8
    using take_bit_nat_less_exp [of 4 "unat y"] take_bit_nat_less_exp [of 2 "unat y"]
      take_bit_nat_less_exp [of "Suc 0" "unat y"]
    by (simp_all only: word_less_nat_alt unsigned_take_bit_eq) simp_all
  have "drop_bit 4 x = take_bit 4 (drop_bit 4 x)"
    by (rule bit_eqI) (auto simp: bit_simps dest: bit_imp_le_length)
  then have "drop_bit 4 x < 16" using bound(1) [of "drop_bit 4 x"] by simp
  moreover note bound(2) [of "drop_bit 2 x"] bound(3) [of "drop_bit 1 x"] bound(3) [of x]
  ultimately show ?thesis
    using assms flags_split [of x]
    by (cases bs) (auto simp: decodeAudioHeader_def b encode_audio_def audio_flags_def and_masks_u8
        Let_def split: if_splits)
qed

text \<open>Decoding the header of a video frame loses nothing: the frame type, the codec, the AVC
  packet type and the composition time of a key or inter frame encode back to the five bytes
  consumed.\<close>

theorem video_header_roundtrip:
  assumes "decodeVideoHeader b new_Tag = (Ok 5, t)"
  shows "encode_video t = take 5 b \<and> unat (compositionTime t)
           = unat (b ! 2) * 65536 + unat (b ! 3) * 256 + unat (b ! 4)"
proof -
  have "5 \<le> length b" using assms by (auto simp: decodeVideoHeader_def split: if_splits)
  then obtain b0 b1 b2 b3 b4 bs where b: "b = b0 # b1 # b2 # b3 # b4 # bs"
    by (auto simp: Suc_le_length_iff numeral_eq_Suc)
  have t: "t = new_Tag\<lparr>FrameType := drop_bit 4 b0, codecID := take_bit 4 b0, AvcPacketType := b1,
      compositionTime := push_bit 8 (push_bit 8 (ucast b2) + ucast b3) + ucast b4\<rparr>"
    using assms foldl_bytes [of "b0 # b1 # b2 # b3 # b4 # bs" 0]
    by (auto simp: decodeVideoHeader_def b Let_def and_masks_u8 new_Tag_def split: if_splits)
  show ?thesis
    using three_bytes [of b2 b3 b4] video_split [of b0]
    by (simp add: t encode_video_def b)
qed

text \<open>What the publisher relies on: \<open>DemuxHdr\<close> either attaches a header and leaves the rest of the
  packet alone, or fails and leaves all of it alone. It panics exactly on a one-byte audio packet
  whose format is AAC.\<close>

theorem DemuxHdr_outcomes:
  "case DemuxHdr pkt of
     (Ok _, pkt') \<Rightarrow> (\<exists>t. pkt' = pkt\<lparr>Header := Some t\<rparr>)
   | (Err e, pkt') \<Rightarrow> pkt' = pkt \<and> length (Data pkt) < (if IsVideo pkt then 5 else 1)
   | (Panic p, pkt') \<Rightarrow> p = IndexOutOfRange \<and> pkt' = pkt \<and> \<not> IsVideo pkt
       \<and> (\<exists>x. Data pkt = [x] \<and> drop_bit 4 x = SOUND_AAC)"
proof (cases "Data pkt")
  case Nil
  then show ?thesis
    by (simp add: DemuxHdr_def decodeMediaTagHeader_def decodeVideoHeader_def decodeAudioHeader_def)
next
  case (Cons x bs)
  then show ?thesis
    by (cases bs) (auto simp: DemuxHdr_def decodeMediaTagHeader_def decodeVideoHeader_def
        decodeAudioHeader_def Let_def)
qed

text \<open>The composition time of a decoded frame is never negative, although the FLV format stores
  it as a signed 24 bit number: the three bytes \<open>0xffffff\<close>, minus one, decode as 16777215.\<close>

theorem composition_time_unsigned:
  assumes "decodeVideoHeader b new_Tag = (Ok n, t)"
  shows "0 \<le> CompositionTime t \<and> CompositionTime t < 2 ^ 24"
proof -
  have "unat (compositionTime t) < 2 ^ 24"
  proof (cases "n = 5")
    case True
    with assms have l: "5 \<le> length b" and "decodeVideoHeader b new_Tag = (Ok 5, t)"
      by (auto simp: decodeVideoHeader_def split: if_splits)
    then obtain b0 b1 b2 b3 b4 bs where b: "b = b0 # b1 # b2 # b3 # b4 # bs"
      by (auto simp: Suc_le_length_iff numeral_eq_Suc)
    have "compositionTime t = push_bit 8 (push_bit 8 (ucast b2) + ucast b3) + ucast b4"
      using assms True foldl_bytes [of b 0]
      by (auto simp: decodeVideoHeader_def b Let_def new_Tag_def split: if_splits)
    then show ?thesis
      using three_bytes(1) [of b2 b3 b4] u8_bound [of b2] u8_bound [of b3] u8_bound [of b4] by simp
  next
    case False
    then show ?thesis
      using assms by (auto simp: decodeVideoHeader_def Let_def new_Tag_def split: if_splits)
  qed
  then have "unat (compositionTime t) < 16777216" by simp
  then have "uint (compositionTime t) < 16777216"
    using uint_nat [of "compositionTime t"] by linarith
  then have "uint (compositionTime t) < 2 ^ 24" by simp
  then have "sint (compositionTime t) = uint (compositionTime t)"
    by (subst sint_uint, intro signed_take_bit_int_eq_self)
      (simp_all add: order.trans [OF _ uint_ge_0])
  with \<open>uint (compositionTime t) < 2 ^ 24\<close> show ?thesis by (simp add: CompositionTime_def)
qed

theorem audio_header_roundtrip_witness:
  "\<exists>t. decodeAudioHeader [0xaf, 1, 9] new_Tag = (Ok 2, t) \<and> encode_audio t = [0xaf, 1]
     \<and> soundFormat t = SOUND_AAC"
proof -
  let ?t = "snd (decodeAudioHeader [0xaf, 1, 9] new_Tag)"
  have run: "decodeAudioHeader [0xaf, 1, 9] new_Tag = (Ok 2, ?t)" and "soundFormat ?t = SOUND_AAC"
    by (simp_all add: decodeAudioHeader_def Let_def)
  moreover have "take 2 [0xaf, 1, 9] = [0xaf, 1 :: u8]" by simp
  ultimately show ?thesis using audio_header_roundtrip [OF run] by metis
qed

theorem video_header_roundtrip_witness:
  "\<exists>t. decodeVideoHeader [0x17, 0, 0, 1, 2, 9] new_Tag = (Ok 5, t)
     \<and> encode_video t = [0x17, 0, 0, 1, 2] \<and> unat (compositionTime t) = 258"
proof -
  let ?b = "[0x17, 0, 0, 1, 2, 9] :: u8 list"
  let ?t = "snd (decodeVideoHeader ?b new_Tag)"
  have run: "decodeVideoHeader ?b new_Tag = (Ok 5, ?t)"
    by (simp add: decodeVideoHeader_def Let_def)
  have "take 5 ?b = [0x17, 0, 0, 1, 2]" and "unat (?b ! 2) = 0" and "unat (?b ! 3) = 1"
    and "unat (?b ! 4) = 2"
    by simp_all
  with video_header_roundtrip [OF run]
  have "encode_video ?t = [0x17, 0, 0, 1, 2]" and "unat (compositionTime ?t) = 258"
    by (simp_all only:)
  with run show ?thesis by blast
qed

theorem composition_time_unsigned_witness:
  "\<exists>t. decodeVideoHeader [0x27, 1, 0xff, 0xff, 0xff] new_Tag = (Ok 5, t)
     \<and> CompositionTime t = 16777215 \<and> 0 \<le> CompositionTime t \<and> CompositionTime t < 2 ^ 24"
proof -
  let ?t = "snd (decodeVideoHeader [0x27, 1, 0xff, 0xff, 0xff] new_Tag)"
  have run: "decodeVideoHeader [0x27, 1, 0xff, 0xff, 0xff] new_Tag = (Ok 5, ?t)"
    by (simp add: decodeVideoHeader_def Let_def)
  have "CompositionTime ?t = 16777215" by code_simp
  with run composition_time_unsigned [OF run] show ?thesis by blast
qed

end
