(* ===== verification/Cache.thy ===== *)
theory Cache
  imports Flv
begin

text \<open>
  The cache of a stream source (\<^verbatim>\<open>pkg/rtmp/cache.go\<close>): the last metadata packet and the last video
  and audio sequence headers, kept for subscribers that join later. The locale \<open>last_slot\<close>
  states what a single slot promises; each of the three slots interprets it.
\<close>

record special_cache =
  cache_full :: bool
  cache_pkt :: "packet option"

definition NewSpecialCache :: special_cache where
  "NewSpecialCache = \<lparr> cache_full = False, cache_pkt = None \<rparr>"

definition SpecialCache_Write :: "packet \<Rightarrow> special_cache \<Rightarrow> special_cache" where
  "SpecialCache_Write pkt c = c\<lparr>cache_pkt := Some pkt, cache_full := True\<rparr>"

record av_cache =
  videoSeq :: special_cache
  audioSeq :: special_cache
  metaData :: special_cache

definition NewCache :: av_cache where
  "NewCache = \<lparr> videoSeq = NewSpecialCache, audioSeq = NewSpecialCache, metaData = NewSpecialCache \<rparr>"

definition Cache_Write :: "packet \<Rightarrow> av_cache \<Rightarrow> av_cache" where
  "Cache_Write pkt c =
     (if IsMetaData pkt then c\<lparr>metaData := SpecialCache_Write pkt (metaData c)\<rparr>
      else if \<not> IsVideo pkt then
        (case Header pkt of
           Some ah \<Rightarrow>
             if SoundFormat ah = SOUND_AAC \<and> AACPacketType ah = AAC_SEQHDR
             then c\<lparr>audioSeq := SpecialCache_Write pkt (audioSeq c)\<rparr> else c
         | None \<Rightarrow> c)
      else
        (case Header pkt of
           Some vh \<Rightarrow>
             if IsSeq vh then c\<lparr>videoSeq := SpecialCache_Write pkt (videoSeq c)\<rparr> else c
         | None \<Rightarrow> c))"

section \<open>What a slot keeps\<close>

definition is_audio_seq :: "packet \<Rightarrow> bool" where
  "is_audio_seq p \<longleftrightarrow> \<not> IsMetaData p \<and> \<not> IsVideo p
     \<and> (case Header p of None \<Rightarrow> False
        | Some t \<Rightarrow> soundFormat t = SOUND_AAC \<and> aacPacketType t = AAC_SEQHDR)"

definition is_video_seq :: "packet \<Rightarrow> bool" where
  "is_video_seq p \<longleftrightarrow> \<not> IsMetaData p \<and> IsVideo p
     \<and> (case Header p of None \<Rightarrow> False | Some t \<Rightarrow> IsSeq t)"

text \<open>The value a reader of a slot sees: \<open>full\<close> and a packet.\<close>

definition slot_value :: "special_cache \<Rightarrow> packet option" where
  "slot_value c = (if cache_full c then cache_pkt c else None)"

text \<open>The last element of a list that satisfies a predicate.\<close>

definition last_such :: "('a \<Rightarrow> bool) \<Rightarrow> 'a list \<Rightarrow> 'a option" where
  "last_such P xs = find P (rev xs)"

lemma last_such_Nil [simp]: "last_such P [] = None"
  by (simp add: last_such_def)

lemma last_such_snoc [simp]:
  "last_such P (xs @ [x]) = (if P x then Some x else last_such P xs)"
  by (simp add: last_such_def)

lemma last_such_Some: "last_such P xs = Some x \<Longrightarrow> x \<in> set xs \<and> P x"
  by (auto simp: last_such_def find_Some_iff) (metis nth_mem set_rev length_rev)

locale last_slot =
  fixes put :: "'p \<Rightarrow> 'c \<Rightarrow> 'c"
    and slot :: "'c \<Rightarrow> 'p option"
    and accepts :: "'p \<Rightarrow> bool"
    and empty :: 'c
  assumes slot_empty: "slot empty = None"
    and slot_write: "slot (put p c) = (if accepts p then Some p else slot c)"
begin

lemma slot_fold: "slot (fold put ps empty) = last_such accepts ps"
  by (induction ps rule: rev_induct) (simp_all add: slot_empty slot_write)

lemma slot_stable: "(\<And>p. p \<in> set ps \<Longrightarrow> \<not> accepts p) \<Longrightarrow> slot (fold put ps c) = slot c"
  by (induction ps arbitrary: c) (simp_all add: slot_write)

end

interpretation meta: last_slot Cache_Write "\<lambda>c. slot_value (metaData c)" IsMetaData NewCache
  by unfold_locales
    (auto simp: NewCache_def NewSpecialCache_def slot_value_def Cache_Write_def
      SpecialCache_Write_def split: option.splits)

interpretation video: last_slot Cache_Write "\<lambda>c. slot_value (videoSeq c)" is_video_seq NewCache
  by unfold_locales
    (auto simp: NewCache_def NewSpecialCache_def slot_value_def Cache_Write_def is_video_seq_def
      SpecialCache_Write_def split: option.splits)

interpretation audio: last_slot Cache_Write "\<lambda>c. slot_value (audioSeq c)" is_audio_seq NewCache
  by unfold_locales
    (auto simp: NewCache_def NewSpecialCache_def slot_value_def Cache_Write_def is_audio_seq_def
      SpecialCache_Write_def split: option.splits)

text \<open>After any sequence of packets the cache holds the last metadata packet, the last video
  sequence header and the last AAC sequence header among them, and nothing that is none of the
  three.\<close>

theorem cache_keeps_latest:
  "slot_value (metaData (fold Cache_Write ps NewCache)) = last_such IsMetaData ps
   \<and> slot_value (videoSeq (fold Cache_Write ps NewCache)) = last_such is_video_seq ps
   \<and> slot_value (audioSeq (fold Cache_Write ps NewCache)) = last_such is_audio_seq ps"
  using meta.slot_fold video.slot_fold audio.slot_fold by simp

end
