(* ===== verification/Subscriber.thy ===== *)
theory Subscriber
  imports Cache ChunkProps
begin

text \<open>
  A subscriber (\<^verbatim>\<open>pkg/rtmp/subscriber.go\<close>): the bounded queue of packets between the publisher's
  goroutine and the subscriber's own, the policy that drops packets when the queue is nearly full,
  and the sending of packets as RTMP messages. The channel \<open>avPktQueue\<close> is a list with the
  capacity \<open>avPktQueueSize\<close>; an operation on it that would wait is \<open>None\<close>. The channel is never
  closed, so a receive never reports a closed channel. \<open>remoteAddr\<close> is the string
  \<open>rtmpConn.RemoteAddr().String()\<close>. The reform of a metadata body, \<open>amf.MetaDataReform\<close> with the
  flag \<open>DEL\<close>, is third-party code and a parameter \<open>reform\<close>.
\<close>

record subscriber =
  rtmpConn :: conn
  remoteAddr :: string
  stopped :: bool
  avPktQueue :: "packet list"
  avPktQueueSize :: int
  initCache :: bool
  baseTimeStamp :: u32
  lastAudioTimeStamp :: u32
  lastVideoTimeStamp :: u32
  chunkMsgToSend :: chunk_stream

definition newSubscriber :: "conn \<Rightarrow> string \<Rightarrow> int \<Rightarrow> subscriber" where
  "newSubscriber c addr avQueueSize =
     \<lparr> rtmpConn = c, remoteAddr = addr, stopped = False, avPktQueue = [],
       avPktQueueSize = avQueueSize, initCache = False, baseTimeStamp = 0,
       lastAudioTimeStamp = 0, lastVideoTimeStamp = 0, chunkMsgToSend = newChunkStream \<rparr>"

section \<open>The queue\<close>

definition chan_send :: "packet \<Rightarrow> subscriber \<Rightarrow> subscriber option" where
  "chan_send p s =
     (if int (length (avPktQueue s)) < avPktQueueSize s
      then Some (s\<lparr>avPktQueue := avPktQueue s @ [p]\<rparr>) else None)"

definition chan_recv :: "subscriber \<Rightarrow> (packet \<times> subscriber) option" where
  "chan_recv s =
     (case avPktQueue s of [] \<Rightarrow> None | p # q \<Rightarrow> Some (p, s\<lparr>avPktQueue := q\<rparr>))"

definition chan_len :: "subscriber \<Rightarrow> int" where
  "chan_len s = int (length (avPktQueue s))"

definition is_key_or_seq :: "packet \<Rightarrow> bool" where
  "is_key_or_seq p = (case Header p of Some t \<Rightarrow> IsSeq t \<or> IsKeyFrame t | None \<Rightarrow> False)"

text \<open>One iteration of the loop of \<open>dropAVPacket\<close>.\<close>

definition dropStep :: "subscriber \<Rightarrow> subscriber option" where
  "dropStep s =
     (case chan_recv s of
        None \<Rightarrow> None
      | Some (pkt, s1) \<Rightarrow>
          if IsAudio pkt then
            if chan_len s1 > avPktQueueSize s1 - 2
            then map_option snd (chan_recv s1)
            else chan_send pkt s1
          else if IsVideo pkt then
            (case (if is_key_or_seq pkt then chan_send pkt s1 else Some s1) of
               None \<Rightarrow> None
             | Some s2 \<Rightarrow>
                 if chan_len s2 > avPktQueueSize s2 - 10
                 then map_option snd (chan_recv s2)
                 else Some s2)
          else Some s1)"

fun dropLoop :: "nat \<Rightarrow> subscriber \<Rightarrow> subscriber option" where
  "dropLoop 0 s = Some s"
| "dropLoop (Suc n) s = Option.bind (dropStep s) (dropLoop n)"

definition dropAVPacket :: "subscriber \<Rightarrow> subscriber option" where
  "dropAVPacket s = dropLoop (nat (avPktQueueSize s - 84)) s"

definition writeAVPacket :: "packet \<Rightarrow> subscriber \<Rightarrow> subscriber option" where
  "writeAVPacket pkt s =
     (if chan_len s > avPktQueueSize s - 24 then dropAVPacket s else chan_send pkt s)"

definition writeCached :: "special_cache \<Rightarrow> subscriber \<Rightarrow> subscriber option" where
  "writeCached c s =
     (case cache_pkt c of
        Some p \<Rightarrow> if cache_full c then writeAVPacket p s else Some s
      | None \<Rightarrow> Some s)"

definition sendCachePacket :: "av_cache \<Rightarrow> subscriber \<Rightarrow> subscriber option" where
  "sendCachePacket cache s =
     (if initCache s then Some s
      else Option.bind (writeCached (metaData cache) s) (\<lambda>s.
           Option.bind (writeCached (videoSeq cache) s) (\<lambda>s.
           Option.bind (writeCached (audioSeq cache) s) (\<lambda>s.
           Some (s\<lparr>initCache := True\<rparr>)))))"

section \<open>Sending\<close>

definition recordTimeStamp :: "u32 \<Rightarrow> u32 \<Rightarrow> subscriber \<Rightarrow> subscriber" where
  "recordTimeStamp msgTypeID timeStamp s =
     (let s = (if msgTypeID = MsgVideoMessage then s\<lparr>lastVideoTimeStamp := timeStamp\<rparr>
               else if msgTypeID = MsgAudioMessage then s\<lparr>lastAudioTimeStamp := timeStamp\<rparr>
               else s)
      in if lastAudioTimeStamp s > lastVideoTimeStamp s
         then s\<lparr>baseTimeStamp := lastAudioTimeStamp s\<rparr>
         else s\<lparr>baseTimeStamp := lastVideoTimeStamp s\<rparr>)"

definition getBaseTimeStamp :: "subscriber \<Rightarrow> u32" where
  "getBaseTimeStamp s = baseTimeStamp s"

text \<open>\<open>s.rtmpConn.writeChunkStream(cs)\<close> on the message \<open>chunkMsgToSend\<close>.\<close>

definition sub_writeChunkStream :: "(subscriber, unit) go" where
  "sub_writeChunkStream s =
     (case writeChunkStream (chunkMsgToSend s, rtmpConn s) of
        (r, (cs, c)) \<Rightarrow> (r, s\<lparr>chunkMsgToSend := cs, rtmpConn := c\<rparr>))"

definition writeAVChunkStream :: "(u8 list \<Rightarrow> u8 list res) \<Rightarrow> (subscriber, unit) go" where
  "writeAVChunkStream reform s =
     (let cs = chunkMsgToSend s in
      if MsgTypeID cs = MsgAMF3DataMessage \<or> MsgTypeID cs = MSGAMF0DataMessage then
        (case reform (ChunkBody cs) of
           Ok b \<Rightarrow> sub_writeChunkStream
                     (s\<lparr>chunkMsgToSend := cs\<lparr>ChunkBody := b, MsgLength := of_nat (length b)\<rparr>\<rparr>)
         | Err e \<Rightarrow> (Err e, s\<lparr>chunkMsgToSend := cs\<lparr>ChunkBody := []\<rparr>\<rparr>)
         | Panic p \<Rightarrow> (Panic p, s))
      else if MsgTypeID cs = MsgSetChunkSize then
        (case BigEndian_Uint32 (ChunkBody cs) of
           Ok v \<Rightarrow> sub_writeChunkStream (s\<lparr>rtmpConn := (rtmpConn s)\<lparr>localChunksize := v\<rparr>\<rparr>)
         | Err e \<Rightarrow> (Err e, s)
         | Panic p \<Rightarrow> (Panic p, s))
      else sub_writeChunkStream s)"

definition fillMessage :: "packet \<Rightarrow> subscriber \<Rightarrow> chunk_stream" where
  "fillMessage pkt s =
     (let cs = (chunkMsgToSend s)
            \<lparr>ChunkBody := Data pkt, MsgLength := of_nat (length (Data pkt)),
             MsgStreamID := StreamID pkt, TimeStamp := PktTimeStamp pkt + getBaseTimeStamp s\<rparr>
      in if IsVideo pkt then cs\<lparr>MsgTypeID := MsgVideoMessage\<rparr>
         else if IsAudio pkt then cs\<lparr>MsgTypeID := MsgAudioMessage\<rparr>
         else if IsMetaData pkt then cs\<lparr>MsgTypeID := MSGAMF0DataMessage\<rparr>
         else cs)"

definition sendAVPacket :: "(u8 list \<Rightarrow> u8 list res) \<Rightarrow> packet \<Rightarrow> (subscriber, unit) go" where
  "sendAVPacket reform pkt s =
     (let cs = fillMessage pkt s
      in writeAVChunkStream reform
           (recordTimeStamp (MsgTypeID cs) (TimeStamp cs) (s\<lparr>chunkMsgToSend := cs\<rparr>)))"

section \<open>The playing loop\<close>

text \<open>
  \<open>playingCycle\<close> up to the point where it waits for the next packet: \<open>None\<close>, or the outcome
  with which it stops.
\<close>

lemma avPktQueue_send [simp]:
  "avPktQueue (snd (sub_writeChunkStream s)) = avPktQueue s"
  by (simp add: sub_writeChunkStream_def split: prod.splits)

lemma avPktQueue_sendAVPacket [simp]:
  "avPktQueue (snd (sendAVPacket reform pkt s)) = avPktQueue s"
  by (simp add: sendAVPacket_def Let_def writeAVChunkStream_def recordTimeStamp_def
      split: res.splits)

function playingCycle :: "(u8 list \<Rightarrow> u8 list res) \<Rightarrow> subscriber \<Rightarrow> unit res option \<times> subscriber" where
  "playingCycle reform s =
     (case chan_recv s of
        None \<Rightarrow> (None, s)
      | Some (pkt, s1) \<Rightarrow>
          (case sendAVPacket reform pkt s1 of
             (Ok _, s2) \<Rightarrow> playingCycle reform s2
           | (Err e, s2) \<Rightarrow> (Some (Err e), s2\<lparr>stopped := True\<rparr>)
           | (Panic p, s2) \<Rightarrow> (Some (Panic p), s2)))"
  by pat_completeness auto
termination
proof (relation "measure (\<lambda>(reform, s). length (avPktQueue s))", simp)
  fix reform s x pkt s1 r s2 u
  assume "chan_recv s = Some x" "(pkt, s1) = x" "(r, s2) = sendAVPacket reform pkt s1" "r = Ok u"
  then have "avPktQueue s2 = avPktQueue s1" and "length (avPktQueue s1) < length (avPktQueue s)"
    using avPktQueue_sendAVPacket [of reform pkt s1]
    by (metis snd_conv, auto simp: chan_recv_def split: list.splits)
  then show "((reform, s2), (reform, s)) \<in> measure (\<lambda>(reform, s). length (avPktQueue s))" by simp
qed

declare playingCycle.simps [simp del]

section \<open>The dropping policy\<close>

text \<open>The packets that survive: audio, and video key frames and sequence headers.\<close>

definition kept :: "packet \<Rightarrow> bool" where
  "kept p \<longleftrightarrow> IsAudio p \<or> IsVideo p \<and> is_key_or_seq p"

lemma dropStep_kept:
  assumes "avPktQueue s = p # q" and "int (length (p # q)) \<le> avPktQueueSize s - 10"
  shows "dropStep s = Some (s\<lparr>avPktQueue := q @ filter kept [p]\<rparr>)"
  using assms
  by (auto simp: dropStep_def chan_recv_def chan_send_def chan_len_def kept_def)

lemma dropLoop_kept:
  "n \<le> length (avPktQueue s) \<Longrightarrow> int (length (avPktQueue s)) \<le> avPktQueueSize s - 10 \<Longrightarrow>
     dropLoop n s = Some (s\<lparr>avPktQueue := drop n (avPktQueue s)
                                          @ filter kept (take n (avPktQueue s))\<rparr>)"
proof (induction n arbitrary: s)
  case 0
  then show ?case by simp
next
  case (Suc n)
  then obtain p q where q: "avPktQueue s = p # q" by (cases "avPktQueue s") auto
  let ?s = "s\<lparr>avPktQueue := q @ filter kept [p]\<rparr>"
  have "dropStep s = Some ?s" using q Suc.prems by (intro dropStep_kept) simp_all
  moreover have "dropLoop n ?s = Some (?s\<lparr>avPktQueue := drop n (avPktQueue ?s)
      @ filter kept (take n (avPktQueue ?s))\<rparr>)"
    using Suc.prems q by (intro Suc.IH) auto
  ultimately show ?case using Suc.prems q by simp
qed

text \<open>C36: \<open>dropAVPacket\<close> takes the oldest packets from the queue, as many as the capacity less 84,
  and puts back, behind the remaining ones and in their old order, the audio packets, key frames and
  sequence headers among them; metadata and all other frames are gone. It never waits.\<close>

theorem dropAVPacket_filters:
  assumes "avPktQueueSize s - 84 \<le> int (length (avPktQueue s))"
    and "int (length (avPktQueue s)) \<le> avPktQueueSize s - 10"
    and "n = nat (avPktQueueSize s - 84)"
  shows "dropAVPacket s = Some (s\<lparr>avPktQueue := drop n (avPktQueue s)
           @ filter kept (take n (avPktQueue s))\<rparr>)"
  unfolding dropAVPacket_def assms(3) using assms(1,2) by (intro dropLoop_kept) simp_all

section \<open>The queue never blocks its writer\<close>

text \<open>A queue whose writer never waits: every put succeeds and keeps the invariant.\<close>

locale nonblocking_queue =
  fixes put :: "'p \<Rightarrow> 'q \<Rightarrow> 'q option"
    and room :: "'q \<Rightarrow> bool"
  assumes put_ok: "room q \<Longrightarrow> \<exists>q'. put p q = Some q' \<and> room q'"
begin

fun puts :: "'p list \<Rightarrow> 'q \<Rightarrow> 'q option" where
  "puts [] q = Some q"
| "puts (p # ps) q = Option.bind (put p q) (puts ps)"

lemma puts_ok: "room q \<Longrightarrow> \<exists>q'. puts ps q = Some q' \<and> room q'"
proof (induction ps arbitrary: q)
  case Nil
  then show ?case by simp
next
  case (Cons p ps)
  then show ?case using put_ok [OF Cons.prems, of p] by auto
qed

lemma put_some:
  assumes "room q"
  obtains q' where "put p q = Some q'" and "room q'"
  using put_ok [OF assms] by blast

end

definition queue_inv :: "subscriber \<Rightarrow> bool" where
  "queue_inv s \<longleftrightarrow> 24 \<le> avPktQueueSize s \<and> chan_len s \<le> avPktQueueSize s - 23"

lemma length_kept_le: "length (drop n q @ filter kept (take n q)) \<le> length q"
proof -
  have "length (filter kept (take n q)) \<le> length (take n q)" by (rule length_filter_le)
  then show ?thesis by auto
qed

lemma writeAVPacket_ok:
  assumes "queue_inv s"
  shows "\<exists>q. writeAVPacket p s = Some (s\<lparr>avPktQueue := q\<rparr>) \<and> queue_inv (s\<lparr>avPktQueue := q\<rparr>)"
proof (cases "chan_len s > avPktQueueSize s - 24")
  case True
  let ?n = "nat (avPktQueueSize s - 84)"
  let ?q = "drop ?n (avPktQueue s) @ filter kept (take ?n (avPktQueue s))"
  have "dropAVPacket s = Some (s\<lparr>avPktQueue := ?q\<rparr>)"
    unfolding dropAVPacket_def
    using assms True by (intro dropLoop_kept) (auto simp: queue_inv_def chan_len_def)
  moreover have "queue_inv (s\<lparr>avPktQueue := ?q\<rparr>)"
    using assms length_kept_le [of ?n "avPktQueue s"]
    unfolding queue_inv_def chan_len_def by (simp del: length_append)
  ultimately show ?thesis using True by (auto simp: writeAVPacket_def)
next
  case False
  then have "writeAVPacket p s = Some (s\<lparr>avPktQueue := avPktQueue s @ [p]\<rparr>)"
    by (simp add: writeAVPacket_def chan_send_def chan_len_def)
  moreover have "queue_inv (s\<lparr>avPktQueue := avPktQueue s @ [p]\<rparr>)"
    using False assms by (simp add: queue_inv_def chan_len_def)
  ultimately show ?thesis by blast
qed

interpretation avq: nonblocking_queue writeAVPacket queue_inv
  by unfold_locales (use writeAVPacket_ok in blast)

lemma queue_inv_recv: "queue_inv s \<Longrightarrow> chan_recv s = Some (p, s') \<Longrightarrow> queue_inv s'"
  by (auto simp: queue_inv_def chan_recv_def chan_len_def split: list.splits)

text \<open>What the two goroutines do to a queue.\<close>

datatype queue_op = Put packet | Take

fun queue_run :: "queue_op list \<Rightarrow> subscriber \<Rightarrow> subscriber option" where
  "queue_run [] s = Some s"
| "queue_run (Put p # ops) s = Option.bind (writeAVPacket p s) (queue_run ops)"
| "queue_run (Take # ops) s =
     queue_run ops (case chan_recv s of None \<Rightarrow> s | Some (p, s') \<Rightarrow> s')"


section \<open>Sending on an open connection\<close>

text \<open>A subscriber whose connection takes messages.\<close>

definition can_send :: "subscriber \<Rightarrow> bool" where
  "can_send s \<longleftrightarrow> writable (rtmpConn s) \<and> 0 < localChunksize (rtmpConn s)
     \<and> (msgHdrBuf (chunkMsgToSend s) = 0 \<or> 4 \<le> msgHdrBuf (chunkMsgToSend s))"

definition av_packet :: "packet \<Rightarrow> bool" where
  "av_packet p \<longleftrightarrow> (IsVideo p \<or> IsAudio p) \<and> length (Data p) < 2 ^ 24"

lemma recordTimeStamp_frame [simp]:
  "rtmpConn (recordTimeStamp ty ts s) = rtmpConn s"
  "chunkMsgToSend (recordTimeStamp ty ts s) = chunkMsgToSend s"
  "avPktQueue (recordTimeStamp ty ts s) = avPktQueue s"
  "recordTimeStamp ty ts (s\<lparr>rtmpConn := c, chunkMsgToSend := m\<rparr>)
     = (recordTimeStamp ty ts s)\<lparr>rtmpConn := c, chunkMsgToSend := m\<rparr>"
  "recordTimeStamp ty ts (s\<lparr>chunkMsgToSend := m\<rparr>)
     = (recordTimeStamp ty ts s)\<lparr>chunkMsgToSend := m\<rparr>"
  by (auto simp: recordTimeStamp_def Let_def)

lemma recordTimeStamp_base:
  "baseTimeStamp (recordTimeStamp ty ts s)
     = max (lastAudioTimeStamp (recordTimeStamp ty ts s))
           (lastVideoTimeStamp (recordTimeStamp ty ts s))"
  by (auto simp: recordTimeStamp_def Let_def max_def)

lemma fillMessage_sel [simp]:
  "ChunkBody (fillMessage p s) = Data p"
  "MsgLength (fillMessage p s) = of_nat (length (Data p))"
  "MsgStreamID (fillMessage p s) = StreamID p"
  "TimeStamp (fillMessage p s) = PktTimeStamp p + baseTimeStamp s"
  "msgHdrBuf (fillMessage p s) = msgHdrBuf (chunkMsgToSend s)"
  "MsgTypeID (fillMessage p s) =
     (if IsVideo p then 9 else if IsAudio p then 8 else if IsMetaData p then 18
      else MsgTypeID (chunkMsgToSend s))"
  by (simp_all add: fillMessage_def Let_def getBaseTimeStamp_def)

lemma sendable_fillMessage:
  assumes "can_send s" and "av_packet p"
  shows "sendable (fillMessage p s)"
proof -
  have "unat (of_nat (length (Data p)) :: u32) = length (Data p)"
    using assms(2) by (intro unat_of_nat_u32) (simp add: av_packet_def)
  with assms show ?thesis
    by (simp add: sendable_def wf_message_def can_send_def av_packet_def word_le_nat_alt)
qed

abbreviation after_send :: "packet \<Rightarrow> subscriber \<Rightarrow> subscriber" where
  "after_send p s \<equiv>
     (recordTimeStamp (MsgTypeID (fillMessage p s)) (PktTimeStamp p + baseTimeStamp s) s)
       \<lparr>rtmpConn := sent (rtmpConn s)
          (message_wire (unat (localChunksize (rtmpConn s))) (assignCsid (fillMessage p s))),
        chunkMsgToSend :=
          after_write (unat (localChunksize (rtmpConn s))) (assignCsid (fillMessage p s))\<rparr>"

lemma sendAVPacket_open:
  assumes "can_send s" and "av_packet p"
  shows "sendAVPacket reform p s = (Ok (), after_send p s)"
proof -
  have "MsgTypeID (fillMessage p s) = 8 \<or> MsgTypeID (fillMessage p s) = 9"
    using assms(2) by (auto simp: av_packet_def)
  then show ?thesis
    using writeChunkStream_wire [OF _ sendable_fillMessage [OF assms], of "rtmpConn s"] assms(1)
    by (auto simp: sendAVPacket_def Let_def writeAVChunkStream_def sub_writeChunkStream_def
        can_send_def getBaseTimeStamp_def)
qed

lemma can_send_after:
  assumes "can_send s"
  shows "can_send (after_send p s)"
  using assms by (auto simp: can_send_def after_write_def)

text \<open>The bytes of a packet: on an open connection an audio or video packet leaves as one RTMP
  message with the packet's data, stream identifier and type, on chunk stream 4 for audio and 6 for
  video, and with the subscriber's base timestamp added to its timestamp. Sending cannot fail.\<close>

theorem sendAVPacket_sends:
  assumes "can_send s" and "av_packet p"
  shows "\<exists>m s'. sendAVPacket reform p s = (Ok (), s')
    \<and> tx (rtmpConn s') = tx (rtmpConn s) @ message_wire (unat (localChunksize (rtmpConn s))) m
    \<and> ChunkBody m = Data p \<and> MsgStreamID m = StreamID p
    \<and> MsgTypeID m = (if IsVideo p then MsgVideoMessage else MsgAudioMessage)
    \<and> Csid m = (if IsVideo p then 6 else 4)
    \<and> TimeStamp m = PktTimeStamp p + baseTimeStamp s"
proof -
  let ?m = "assignCsid (fillMessage p s)"
  have "IsVideo p \<or> IsAudio p" using assms(2) by (simp add: av_packet_def)
  then have "MsgTypeID ?m = (if IsVideo p then MsgVideoMessage else MsgAudioMessage)"
    and "Csid ?m = (if IsVideo p then 6 else 4)"
    by (auto simp: assignCsid_def)
  then show ?thesis
    using sendAVPacket_open [OF assms, of reform] by (intro exI [of _ ?m] exI conjI) auto
qed

text \<open>Sending a list of packets, as the playing loop does.\<close>

fun sendAll :: "(u8 list \<Rightarrow> u8 list res) \<Rightarrow> packet list \<Rightarrow> (subscriber, unit) go" where
  "sendAll reform [] = go_return ()"
| "sendAll reform (p # ps) = go_bind (sendAVPacket reform p) (\<lambda>_. sendAll reform ps)"

text \<open>Timestamps accumulate. The base timestamp is updated after every packet, not once when
  the subscriber starts, so that after a run of video packets the subscriber's clock stands at
  the sum of all their timestamps (modulo 2^32), not at the last one.\<close>

theorem video_timestamps_accumulate:
  assumes "can_send s" and "lastAudioTimeStamp s = 0" and "baseTimeStamp s = lastVideoTimeStamp s"
    and "list_all (\<lambda>p. av_packet p \<and> IsVideo p) ps" and "ps \<noteq> []"
  shows "\<exists>s'. sendAll reform ps s = (Ok (), s')
    \<and> TimeStamp (chunkMsgToSend s') = baseTimeStamp s + sum_list (map PktTimeStamp ps)"
proof -
  have "ps \<noteq> [] \<Longrightarrow> can_send s \<Longrightarrow> lastAudioTimeStamp s = 0 \<Longrightarrow> baseTimeStamp s = lastVideoTimeStamp s \<Longrightarrow>
      list_all (\<lambda>p. av_packet p \<and> IsVideo p) ps \<Longrightarrow>
      \<exists>s'. sendAll reform ps s = (Ok (), s')
        \<and> TimeStamp (chunkMsgToSend s') = baseTimeStamp s + sum_list (map PktTimeStamp ps)" for s
  proof (induction ps arbitrary: s)
    case Nil
    then show ?case by simp
  next
    case (Cons p ps)
    let ?s = "after_send p s"
    have one: "sendAVPacket reform p s = (Ok (), ?s)"
      using Cons.prems by (intro sendAVPacket_open) simp_all
    have clock: "TimeStamp (chunkMsgToSend ?s) = PktTimeStamp p + baseTimeStamp s"
      by (simp add: after_write_def)
    have base: "lastAudioTimeStamp ?s = 0" "baseTimeStamp ?s = lastVideoTimeStamp ?s"
      "lastVideoTimeStamp ?s = PktTimeStamp p + baseTimeStamp s"
      using Cons.prems by (simp_all add: recordTimeStamp_def Let_def)
    show ?case
    proof (cases "ps = []")
      case True
      with one clock show ?thesis by (simp add: go_bind_def go_return_def add.commute)
    next
      case False
      from Cons.IH [OF this can_send_after [OF Cons.prems(2)] base(1,2)] Cons.prems(5)
      obtain s' where "sendAll reform ps ?s = (Ok (), s')"
        and "TimeStamp (chunkMsgToSend s') = baseTimeStamp ?s + sum_list (map PktTimeStamp ps)"
        by auto
      with one base show ?thesis by (simp add: go_bind_def algebra_simps)
    qed
  qed
  then show ?thesis using assms by blast
qed

section \<open>Examples\<close>

definition demo_audio_packet :: packet where
  "demo_audio_packet = new_Packet\<lparr>IsAudio := True, Data := [0xaf, 1, 2], StreamID := 1, PktTimeStamp := 7\<rparr>"

definition demo_inter_frame :: packet where
  "demo_inter_frame = new_Packet\<lparr>IsVideo := True, Data := [0x27, 1, 0, 0, 0], StreamID := 1,
     PktTimeStamp := 40,
     Header := Some (new_Tag\<lparr>FrameType := 2, codecID := 7, AvcPacketType := 1\<rparr>)\<rparr>"

definition demo_subscriber :: subscriber where
  "demo_subscriber = newSubscriber demo_writer ''10.0.0.1:4000'' 94"

lemma demo_subscriber_ok: "can_send demo_subscriber" "lastAudioTimeStamp demo_subscriber = 0"
  "baseTimeStamp demo_subscriber = lastVideoTimeStamp demo_subscriber"
  "lastVideoTimeStamp demo_subscriber = 0" "rtmpConn demo_subscriber = demo_writer"
  using demo_writer_ok
  by (simp_all add: demo_subscriber_def newSubscriber_def can_send_def newChunkStream_def)

lemma demo_packets_ok: "av_packet demo_audio_packet" "av_packet demo_inter_frame"
  "IsVideo demo_inter_frame" "\<not> IsVideo demo_audio_packet"
  by (simp_all add: av_packet_def demo_audio_packet_def demo_inter_frame_def new_Packet_def)

theorem dropAVPacket_filters_witness:
  "dropAVPacket (demo_subscriber\<lparr>avPktQueue :=
       [demo_audio_packet, demo_inter_frame] @ replicate 8 demo_audio_packet @ [demo_inter_frame]\<rparr>)
   = Some (demo_subscriber\<lparr>avPktQueue := demo_inter_frame # replicate 9 demo_audio_packet\<rparr>)"
proof -
  have "kept demo_audio_packet" "\<not> kept demo_inter_frame"
    by (simp_all add: kept_def is_key_or_seq_def demo_audio_packet_def demo_inter_frame_def
        new_Packet_def new_Tag_def IsSeq_def IsKeyFrame_def)
  moreover have "avPktQueueSize demo_subscriber = 94"
    by (simp add: demo_subscriber_def newSubscriber_def)
  ultimately show ?thesis
    using dropAVPacket_filters [of "demo_subscriber\<lparr>avPktQueue :=
       [demo_audio_packet, demo_inter_frame] @ replicate 8 demo_audio_packet @ [demo_inter_frame]\<rparr>" 10]
    by (simp add: numeral_eq_Suc)
qed


theorem sendAVPacket_sends_witness:
  "\<exists>m s'. sendAVPacket Ok demo_audio_packet demo_subscriber = (Ok (), s')
    \<and> tx (rtmpConn s') = message_wire 2 m \<and> ChunkBody m = [0xaf, 1, 2] \<and> Csid m = 4 \<and> TimeStamp m = 7"
proof -
  have "Data demo_audio_packet = [0xaf, 1, 2]" "PktTimeStamp demo_audio_packet = 7"
    by (simp_all add: demo_audio_packet_def)
  then show ?thesis
    using sendAVPacket_sends [OF demo_subscriber_ok(1) demo_packets_ok(1), of Ok]
    by (auto simp: demo_subscriber_ok demo_writer_ok demo_packets_ok)
qed

text \<open>Three frames at 40, 40 and 40 milliseconds leave the clock at 120.\<close>

theorem video_timestamps_accumulate_witness:
  "\<exists>s'. sendAll Ok [demo_inter_frame, demo_inter_frame, demo_inter_frame] demo_subscriber = (Ok (), s')
    \<and> TimeStamp (chunkMsgToSend s') = 120"
proof -
  have "PktTimeStamp demo_inter_frame = 40" by (simp add: demo_inter_frame_def)
  then show ?thesis
    using video_timestamps_accumulate [OF demo_subscriber_ok(1-3),
        of "[demo_inter_frame, demo_inter_frame, demo_inter_frame]" Ok]
    by (simp add: demo_packets_ok demo_subscriber_ok del: sendAll.simps)
qed

end
