(* ===== verification/StreamSource.thy ===== *)
theory StreamSource
  imports Subscriber
begin

text \<open>
  A stream source (\<^verbatim>\<open>pkg/rtmp/streamSource.go\<close>) and the publisher's loop
  (\<^verbatim>\<open>pkg/rtmp/publisher.go\<close>): messages read from the publisher's connection become packets, the
  packets are cached and put into the queue of every subscriber. The map \<open>subscribers\<close> is an
  association list; its order is the order in which the code's \<open>range\<close> loop visits the map, which Go
  leaves open, so what is proved for every list holds for every order. \<open>sessionID\<close> is never read
  and left out. The mutex \<open>addSubMux\<close> makes each operation atomic. Connections are shared objects; a
  publisher holds the identity of its connection, a number.
\<close>

record publisher =
  pubConn :: nat
  pubStreamKey :: string

record stream_source =
  stopPublish :: nat
  ss_publisher :: "publisher option"
  subscribers :: "(string \<times> subscriber) list"
  subscriberCount :: int
  ss_streamKey :: string
  ss_cache :: av_cache

definition newPublisher :: "nat \<Rightarrow> string \<Rightarrow> publisher" where
  "newPublisher c key = \<lparr> pubConn = c, pubStreamKey = key \<rparr>"

definition newStreamSource :: "publisher option \<Rightarrow> string \<Rightarrow> stream_source" where
  "newStreamSource pub key =
     \<lparr> stopPublish = 0, ss_publisher = pub, subscribers = [], subscriberCount = 0,
       ss_streamKey = key, ss_cache = NewCache \<rparr>"

definition setPublisher :: "publisher \<Rightarrow> stream_source \<Rightarrow> stream_source" where
  "setPublisher pub ss = ss\<lparr>ss_publisher := Some pub\<rparr>"

section \<open>Subscribers\<close>

definition addSubscriber :: "subscriber \<Rightarrow> stream_source \<Rightarrow> bool \<times> stream_source" where
  "addSubscriber sub ss =
     (if map_of (subscribers ss) (remoteAddr sub) \<noteq> None then (False, ss)
      else (True, ss\<lparr>subscribers := (remoteAddr sub, sub) # subscribers ss,
                     subscriberCount := subscriberCount ss + 1\<rparr>))"

definition delSubscriber :: "subscriber \<Rightarrow> stream_source \<Rightarrow> bool \<times> stream_source" where
  "delSubscriber sub ss =
     (True, ss\<lparr>subscribers := filter (\<lambda>(a, s). a \<noteq> remoteAddr sub) (subscribers ss)\<rparr>)"

section \<open>Dispatch\<close>

definition cacheAVMetaPacket :: "packet \<Rightarrow> stream_source \<Rightarrow> stream_source" where
  "cacheAVMetaPacket pkt ss = ss\<lparr>ss_cache := Cache_Write pkt (ss_cache ss)\<rparr>"

definition deliver :: "av_cache \<Rightarrow> packet \<Rightarrow> subscriber \<Rightarrow> subscriber option" where
  "deliver cache pkt s =
     (if stopped s then Some s
      else Option.bind (sendCachePacket cache s) (writeAVPacket pkt))"

fun dispatchLoop :: "av_cache \<Rightarrow> packet \<Rightarrow> (string \<times> subscriber) list
    \<Rightarrow> (string \<times> subscriber) list option" where
  "dispatchLoop cache pkt [] = Some []"
| "dispatchLoop cache pkt ((a, s) # subs) =
     Option.bind (deliver cache pkt s) (\<lambda>s'.
     Option.bind (dispatchLoop cache pkt subs) (\<lambda>subs'. Some ((a, s') # subs')))"

definition dispatchAVPacket :: "packet \<Rightarrow> stream_source \<Rightarrow> stream_source option" where
  "dispatchAVPacket pkt ss =
     map_option (\<lambda>subs. ss\<lparr>subscribers := subs\<rparr>) (dispatchLoop (ss_cache ss) pkt (subscribers ss))"

section \<open>The publishing loop\<close>

definition packet_of :: "chunk_stream \<Rightarrow> packet option" where
  "packet_of cs =
     (let fill = (\<lambda>p. p\<lparr>StreamID := MsgStreamID cs, Data := ChunkBody cs, PktTimeStamp := TimeStamp cs\<rparr>)
      in if MsgTypeID cs = MsgAudioMessage then Some (fill (new_Packet\<lparr>IsAudio := True\<rparr>))
         else if MsgTypeID cs = MsgVideoMessage then Some (fill (new_Packet\<lparr>IsVideo := True\<rparr>))
         else if MsgTypeID cs = MSGAMF0DataMessage \<or> MsgTypeID cs = MsgAMF3DataMessage
         then Some (fill (new_Packet\<lparr>IsMetaData := True\<rparr>))
         else None)"

text \<open>How an iteration of \<open>publishingCycle\<close> ends.\<close>

datatype publish_step = Continue | Return go_error | Crash go_panic | Waits

definition publishOne :: "conn \<Rightarrow> stream_source \<Rightarrow> publish_step \<times> conn \<times> stream_source" where
  "publishOne c ss =
     (case readChunkStream c of
        (Err e, c') \<Rightarrow> (Return e, c', ss)
      | (Panic p, c') \<Rightarrow> (Crash p, c', ss)
      | (Ok cs, c') \<Rightarrow>
          (case packet_of cs of
             None \<Rightarrow> (Continue, c', ss)
           | Some pkt0 \<Rightarrow>
               (case DemuxHdr pkt0 of
                  (Panic p, _) \<Rightarrow> (Crash p, c', ss)
                | (_, pkt) \<Rightarrow>
                    let ss1 = cacheAVMetaPacket pkt ss in
                    case dispatchAVPacket pkt ss1 of
                      None \<Rightarrow> (Waits, c', ss1)
                    | Some ss2 \<Rightarrow> (Continue, c', ss2))))"

lemma publishOne_consumes:
  "publishOne c ss = (Continue, c', ss') \<Longrightarrow> length (rx c') < length (rx c)"
  by (auto simp: publishOne_def Let_def dest!: readChunkStream_consumes
      split: prod.splits res.splits option.splits)

text \<open>
  The whole loop. It ends because the input is finite: with an error (also the end of the input), a
  panic, or a queue that would wait.
\<close>

function publishingCycle :: "conn \<Rightarrow> stream_source \<Rightarrow> publish_step \<times> conn \<times> stream_source" where
  "publishingCycle c ss =
     (case publishOne c ss of
        (Continue, c', ss') \<Rightarrow> publishingCycle c' ss'
      | r \<Rightarrow> r)"
  by pat_completeness auto
termination
  by (relation "measure (\<lambda>(c, ss). length (rx c))")
    (auto dest!: sym [of "(Continue, _)"] publishOne_consumes)

declare publishingCycle.simps [simp del]

section \<open>Dispatch reaches every subscriber\<close>

lemma writeCached_ok:
  assumes "queue_inv s"
  shows "\<exists>q. writeCached c s = Some (s\<lparr>avPktQueue := q\<rparr>) \<and> queue_inv (s\<lparr>avPktQueue := q\<rparr>)"
proof (cases "cache_full c \<and> cache_pkt c \<noteq> None")
  case True
  then show ?thesis using writeAVPacket_ok [OF assms] by (auto simp: writeCached_def)
next
  case False
  then show ?thesis
    using assms
    by (intro exI [of _ "avPktQueue s"]) (auto simp: writeCached_def split: option.splits)
qed

lemma queue_inv_initCache [simp]: "queue_inv (s\<lparr>initCache := b\<rparr>) = queue_inv s"
  by (simp add: queue_inv_def chan_len_def)

lemma sendCachePacket_ok:
  assumes "queue_inv s"
  shows "\<exists>q. sendCachePacket cache s = Some (s\<lparr>avPktQueue := q, initCache := True\<rparr>)
    \<and> queue_inv (s\<lparr>avPktQueue := q\<rparr>)"
proof (cases "initCache s")
  case True
  then have "s = s\<lparr>avPktQueue := avPktQueue s, initCache := True\<rparr>" by (cases s) simp
  with True assms show ?thesis by (auto simp: sendCachePacket_def intro!: exI [of _ "avPktQueue s"])
next
  case False
  obtain q1 where 1: "writeCached (metaData cache) s = Some (s\<lparr>avPktQueue := q1\<rparr>)"
    "queue_inv (s\<lparr>avPktQueue := q1\<rparr>)"
    using writeCached_ok [OF assms] by blast
  obtain q2 where 2: "writeCached (videoSeq cache) (s\<lparr>avPktQueue := q1\<rparr>) = Some (s\<lparr>avPktQueue := q2\<rparr>)"
    "queue_inv (s\<lparr>avPktQueue := q2\<rparr>)"
    using writeCached_ok [OF 1(2)] by auto
  obtain q3 where 3: "writeCached (audioSeq cache) (s\<lparr>avPktQueue := q2\<rparr>) = Some (s\<lparr>avPktQueue := q3\<rparr>)"
    "queue_inv (s\<lparr>avPktQueue := q3\<rparr>)"
    using writeCached_ok [OF 2(2)] by auto
  from False 1 2 3 show ?thesis by (auto simp: sendCachePacket_def)
qed

lemma deliver_ok:
  assumes "queue_inv s"
  shows "\<exists>q. deliver cache pkt s
      = Some (if stopped s then s else s\<lparr>avPktQueue := q, initCache := True\<rparr>)
    \<and> queue_inv (s\<lparr>avPktQueue := q\<rparr>)"
proof (cases "stopped s")
  case True
  then show ?thesis using assms by (auto simp: deliver_def intro!: exI [of _ "avPktQueue s"])
next
  case False
  obtain q where q: "sendCachePacket cache s = Some (s\<lparr>avPktQueue := q, initCache := True\<rparr>)"
    "queue_inv (s\<lparr>avPktQueue := q\<rparr>)"
    using sendCachePacket_ok [OF assms] by blast
  then have "queue_inv (s\<lparr>avPktQueue := q, initCache := True\<rparr>)"
    by (simp add: queue_inv_def chan_len_def)
  from writeAVPacket_ok [OF this, of pkt] obtain r where
    r: "writeAVPacket pkt (s\<lparr>avPktQueue := q, initCache := True\<rparr>)
      = Some (s\<lparr>avPktQueue := q, initCache := True, avPktQueue := r\<rparr>)"
    "queue_inv (s\<lparr>avPktQueue := q, initCache := True, avPktQueue := r\<rparr>)"
    by blast
  have "s\<lparr>avPktQueue := q, initCache := True, avPktQueue := r\<rparr>
      = s\<lparr>avPktQueue := r, initCache := True\<rparr>"
    by (cases s) simp
  note r = r [unfolded this]
  then have "queue_inv (s\<lparr>avPktQueue := r\<rparr>)" by (simp add: queue_inv_def chan_len_def)
  with r(1) q(1) False show ?thesis by (auto simp: deliver_def)
qed

text \<open>What dispatching a packet does to a subscriber.\<close>

definition dispatched :: "av_cache \<Rightarrow> packet \<Rightarrow> string \<times> subscriber \<Rightarrow> string \<times> subscriber \<Rightarrow> bool" where
  "dispatched cache pkt old new \<longleftrightarrow>
     fst new = fst old \<and> deliver cache pkt (snd old) = Some (snd new) \<and> queue_inv (snd new)"

lemma dispatchLoop_ok:
  "list_all (\<lambda>(a, s). queue_inv s) subs \<Longrightarrow>
     \<exists>subs'. dispatchLoop cache pkt subs = Some subs' \<and> list_all2 (dispatched cache pkt) subs subs'"
proof (induction subs)
  case Nil
  then show ?case by simp
next
  case (Cons x subs)
  obtain a s where x: "x = (a, s)" by (cases x)
  with Cons.prems have "queue_inv s" by simp
  from deliver_ok [OF this, of cache pkt] obtain q where
    d: "deliver cache pkt s = Some (if stopped s then s else s\<lparr>avPktQueue := q, initCache := True\<rparr>)"
    and "queue_inv (s\<lparr>avPktQueue := q\<rparr>)"
    by blast
  then have "queue_inv (if stopped s then s else s\<lparr>avPktQueue := q, initCache := True\<rparr>)"
    using \<open>queue_inv s\<close> by (simp add: queue_inv_def chan_len_def)
  with Cons d x show ?case by (auto simp: dispatched_def)
qed

lemma dispatch_ok:
  assumes "list_all (\<lambda>(a, s). queue_inv s) (subscribers ss)"
  obtains subs where "dispatchAVPacket pkt ss = Some (ss\<lparr>subscribers := subs\<rparr>)"
    and "list_all2 (dispatched (ss_cache ss) pkt) (subscribers ss) subs"
  using dispatchLoop_ok [OF assms, of "ss_cache ss" pkt] by (auto simp: dispatchAVPacket_def)

section \<open>Publishing\<close>

lemma DemuxHdr_frame:
  "snd (DemuxHdr p) = p\<lparr>Header := Header (snd (DemuxHdr p))\<rparr>"
  by (auto simp: DemuxHdr_def split: prod.splits res.splits)

lemma DemuxHdr_panic: "fst (DemuxHdr p) = Panic q \<Longrightarrow> q = IndexOutOfRange \<and> length (Data p) < 2"
  by (auto simp: DemuxHdr_def decodeMediaTagHeader_def decodeVideoHeader_def decodeAudioHeader_def
      Let_def split: if_splits)

lemma subs_frame: "list_all2 (dispatched cache pkt) subs subs' \<Longrightarrow>
    map fst subs' = map fst subs \<and> list_all (\<lambda>(a, s). queue_inv s) subs'"
  by (induction rule: list_all2_induct) (auto simp: dispatched_def split_beta)

lemma publishOne_ok:
  assumes "conn_inv c" and "list_all (\<lambda>(a, s). queue_inv s) (subscribers ss)"
    and "publishOne c ss = (r, c', ss')"
  shows "conn_inv c' \<and> r \<noteq> Waits \<and> (\<forall>p. r = Crash p \<longrightarrow> p = IndexOutOfRange)
    \<and> map fst (subscribers ss') = map fst (subscribers ss)
    \<and> list_all (\<lambda>(a, s). queue_inv s) (subscribers ss')"
proof -
  obtain o1 c1 where read: "readChunkStream c = (o1, c1)" by (cases "readChunkStream c")
  note inv = tripleD [OF triple_readChunkStream assms(1), unfolded read]
  show ?thesis
  proof (cases "\<exists>cs p. o1 = Ok cs \<and> packet_of cs = Some p")
    case False
    then show ?thesis
      using assms(2,3) inv
      by (auto simp: publishOne_def read short_control_received_def split: res.splits option.splits)
  next
    case True
    then obtain cs p where p: "o1 = Ok cs" "packet_of cs = Some p" by blast
    obtain d pkt where d: "DemuxHdr p = (d, pkt)" by (cases "DemuxHdr p")
    let ?ss = "cacheAVMetaPacket pkt ss"
    have "subscribers ?ss = subscribers ss" by (simp add: cacheAVMetaPacket_def)
    then obtain subs where s: "dispatchAVPacket pkt ?ss = Some (?ss\<lparr>subscribers := subs\<rparr>)"
      "list_all2 (dispatched (ss_cache ?ss) pkt) (subscribers ss) subs"
      using dispatch_ok [of ?ss pkt] assms(2) by auto
    with subs_frame [OF s(2)] show ?thesis
      using assms(2,3) inv p d DemuxHdr_panic [of p]
      by (auto simp: publishOne_def read Let_def split: res.splits)
  qed
qed


lemma publishingCycle_ok:
  assumes "conn_inv c" and "list_all (\<lambda>(a, s). queue_inv s) (subscribers ss)"
    and "publishingCycle c ss = (r, c', ss')"
  shows "conn_inv c' \<and> r \<noteq> Continue \<and> r \<noteq> Waits \<and> (\<forall>p. r = Crash p \<longrightarrow> p = IndexOutOfRange)
    \<and> map fst (subscribers ss') = map fst (subscribers ss)
    \<and> list_all (\<lambda>(a, s). queue_inv s) (subscribers ss')"
  using assms
proof (induction c ss rule: publishingCycle.induct)
  case (1 c ss)
  obtain r1 c1 ss1 where one: "publishOne c ss = (r1, c1, ss1)" by (metis prod_cases3)
  note ok = publishOne_ok [OF 1(2,3) one]
  show ?case
  proof (cases "r1 = Continue")
    case True
    then have "publishingCycle c1 ss1 = (r, c', ss')"
      using 1(4) one by (subst (asm) publishingCycle.simps) simp
    from 1(1) [OF one [symmetric] _ _ _ _ this] ok True show ?thesis by simp
  next
    case False
    then have "(r, c', ss') = (r1, c1, ss1)"
      using 1(4) one by (subst (asm) publishingCycle.simps) (simp split: publish_step.splits)
    then show ?thesis using ok False by simp
  qed
qed


lemma packet_of_av:
  assumes "MsgTypeID cs = 8 \<or> MsgTypeID cs = 9"
  obtains p where "packet_of cs = Some p" and "IsVideo p = (MsgTypeID cs = 9)"
    and "IsAudio p = (MsgTypeID cs = 8)" and "Data p = ChunkBody cs"
    and "StreamID p = MsgStreamID cs" and "PktTimeStamp p = TimeStamp cs"
  using assms by (cases "MsgTypeID cs = 8") (simp_all add: packet_of_def new_Packet_def)

lemma DemuxHdr_same:
  assumes "DemuxHdr p = (d, pkt)"
  shows "IsVideo pkt = IsVideo p" "IsAudio pkt = IsAudio p" "Data pkt = Data p"
    "StreamID pkt = StreamID p" "PktTimeStamp pkt = PktTimeStamp p"
proof -
  obtain h where "pkt = p\<lparr>Header := h\<rparr>" using DemuxHdr_frame [of p] assms by auto
  then show "IsVideo pkt = IsVideo p" "IsAudio pkt = IsAudio p" "Data pkt = Data p"
    "StreamID pkt = StreamID p" "PktTimeStamp pkt = PktTimeStamp p"
    by simp_all
qed

text \<open>The publisher's half of the relay, and the player's.\<close>

lemma publishOne_relays:
  assumes "reader_ready c" and "deliverable m" and "MsgTypeID m = 8 \<or> MsgTypeID m = 9"
    and "2 \<le> length (ChunkBody m)" and "rx c = message_wire (unat (remoteChunkSize c)) m @ rest"
    and "list_all (\<lambda>(a, s). queue_inv s) (subscribers ss)" and "(a, s) \<in> set (subscribers ss)"
    and "\<not> stopped s" and "initCache s" and "avPktQueue s = []"
  obtains c' ss' pkt where "publishOne c ss = (Continue, c', ss')" and "rx c' = rest"
    and "(a, s\<lparr>avPktQueue := [pkt]\<rparr>) \<in> set (subscribers ss')"
    and "IsVideo pkt = (MsgTypeID m = 9)" and "IsAudio pkt = (MsgTypeID m = 8)" and "Data pkt = ChunkBody m"
    and "StreamID pkt = MsgStreamID m" and "PktTimeStamp pkt = TimeStamp m"
proof -
  have "\<not> sets_parameter m" using assms(3) by (auto simp: sets_parameter_def)
  from read_ready [OF assms(2) this assms(1,5)] obtain got c' where
    read: "readChunkStream c = (Ok got, c')" "rx c' = rest" and got: "same_message got m" by blast
  have same: "TimeStamp got = TimeStamp m" "MsgTypeID got = MsgTypeID m"
    "MsgStreamID got = MsgStreamID m" "ChunkBody got = ChunkBody m"
    using got by (simp_all add: same_message_def)
  obtain p where p: "packet_of got = Some p" "IsVideo p = (MsgTypeID m = 9)"
      "IsAudio p = (MsgTypeID m = 8)" "Data p = ChunkBody m" "StreamID p = MsgStreamID m"
      "PktTimeStamp p = TimeStamp m"
    using packet_of_av [of got] assms(3) unfolding same by metis
  obtain d pkt where d: "DemuxHdr p = (d, pkt)" by (cases "DemuxHdr p")
  have np: "\<forall>q. d \<noteq> Panic q" using DemuxHdr_panic [of p] d p(4) assms(4) by auto
  let ?ss = "cacheAVMetaPacket pkt ss"
  have "subscribers ?ss = subscribers ss" by (simp add: cacheAVMetaPacket_def)
  then obtain subs where subs: "dispatchAVPacket pkt ?ss = Some (?ss\<lparr>subscribers := subs\<rparr>)"
    "list_all2 (dispatched (ss_cache ?ss) pkt) (subscribers ss) subs"
    using dispatch_ok [of ?ss pkt] assms(6) by auto
  then obtain s' where s': "(a, s') \<in> set subs" "deliver (ss_cache ?ss) pkt s = Some s'"
    using assms(7) by (fastforce simp: list_all2_conv_all_nth in_set_conv_nth dispatched_def)
  have "queue_inv s" using assms(6,7) by (auto simp: list_all_iff)
  then have "s' = s\<lparr>avPktQueue := [pkt]\<rparr>"
    using s'(2) assms(8-10)
    by (auto simp: deliver_def sendCachePacket_def writeAVPacket_def chan_send_def chan_len_def
        queue_inv_def)
  moreover have "publishOne c ss = (Continue, c', ?ss\<lparr>subscribers := subs\<rparr>)"
    using read p(1) d subs(1) np by (cases d) (simp_all add: publishOne_def Let_def)
  ultimately show ?thesis
    using that [of c' "?ss\<lparr>subscribers := subs\<rparr>" pkt] read(2) s'(1) DemuxHdr_same [OF d, unfolded p(2-)] by simp
qed

lemma play_single:
  assumes "can_send s" and "av_packet pkt" and "avPktQueue s = []"
  shows "playingCycle reform (s\<lparr>avPktQueue := [pkt]\<rparr>) = (None, after_send pkt s)"
proof -
  have "s\<lparr>avPktQueue := []\<rparr> = s" using assms(3) by (cases s) simp
  then have "playingCycle reform (s\<lparr>avPktQueue := [pkt]\<rparr>) = playingCycle reform (after_send pkt s)"
    using sendAVPacket_open [OF assms(1,2), of reform]
    by (subst playingCycle.simps) (simp add: chan_recv_def)
  also have "\<dots> = (None, after_send pkt s)"
    using assms(3) by (subst playingCycle.simps) (simp add: chan_recv_def)
  finally show ?thesis .
qed

text \<open>C2: the relay, from the bytes of the publisher to the bytes of a player. When an audio or
  video message arrives at a publisher's connection, one iteration of the publisher's loop and the
  player's loop together put on the player's connection one message with the same body, type and
  stream identifier, its timestamp moved by the player's base timestamp, whatever the other
  subscribers are.\<close>

theorem relay_to_player:
  assumes "reader_ready c" and "deliverable m" and "MsgTypeID m = 8 \<or> MsgTypeID m = 9"
    and "2 \<le> length (ChunkBody m)"
    and "rx c = message_wire (unat (remoteChunkSize c)) m @ rest"
    and "list_all (\<lambda>(a, s). queue_inv s) (subscribers ss)" and "(a, s) \<in> set (subscribers ss)"
    and "\<not> stopped s" and "initCache s" and "avPktQueue s = []" and "can_send s"
  shows "\<exists>c' ss' s' s'' m'. publishOne c ss = (Continue, c', ss') \<and> rx c' = rest
    \<and> (a, s') \<in> set (subscribers ss') \<and> playingCycle reform s' = (None, s'')
    \<and> tx (rtmpConn s'') = tx (rtmpConn s) @ message_wire (unat (localChunksize (rtmpConn s))) m'
    \<and> ChunkBody m' = ChunkBody m \<and> MsgTypeID m' = MsgTypeID m \<and> MsgStreamID m' = MsgStreamID m
    \<and> TimeStamp m' = TimeStamp m + baseTimeStamp s"
proof -
  obtain c' ss' pkt where pub: "publishOne c ss = (Continue, c', ss')" "rx c' = rest"
    "(a, s\<lparr>avPktQueue := [pkt]\<rparr>) \<in> set (subscribers ss')"
    and pkt: "IsVideo pkt = (MsgTypeID m = 9)" "IsAudio pkt = (MsgTypeID m = 8)" "Data pkt = ChunkBody m"
      "StreamID pkt = MsgStreamID m" "PktTimeStamp pkt = TimeStamp m"
    by (rule publishOne_relays [OF assms(1-10)])
  have av: "av_packet pkt" using pkt assms(3) deliverableD(6) [OF assms(2)] by (auto simp: av_packet_def)
  note play = play_single [OF assms(11) av assms(10), of reform]
  show ?thesis
    using pub play sendAVPacket_open [OF assms(11) av, of reform] pkt assms(3)
    by (intro exI [of _ c'] exI [of _ ss'] exI [of _ "s\<lparr>avPktQueue := [pkt]\<rparr>"]
        exI [of _ "after_send pkt s"] exI [of _ "assignCsid (fillMessage pkt s)"] conjI) auto
qed

section \<open>Late joiners\<close>

definition opt_list :: "'a option \<Rightarrow> 'a list" where
  "opt_list x = (case x of None \<Rightarrow> [] | Some a \<Rightarrow> [a])"

lemma writeCached_room:
  assumes "chan_len s \<le> avPktQueueSize s - 24"
  shows "writeCached c s = Some (s\<lparr>avPktQueue := avPktQueue s @ opt_list (slot_value c)\<rparr>)"
  using assms
  by (auto simp: writeCached_def writeAVPacket_def chan_send_def chan_len_def slot_value_def
      opt_list_def split: option.splits)

lemma length_opt_list: "length (opt_list x) \<le> 1"
  by (simp add: opt_list_def split: option.splits)

text \<open>C17: a player that joins a running stream gets what it needs to decode first: the last metadata, the
  last video sequence header and the last AAC sequence header published so far, in this order, then
  the packet being dispatched.\<close>

theorem late_joiner_gets_headers:
  assumes "\<not> stopped s" and "\<not> initCache s" and "avPktQueue s = []" and "27 \<le> avPktQueueSize s"
  shows "deliver (fold Cache_Write ps NewCache) pkt s =
    Some (s\<lparr>initCache := True,
            avPktQueue := opt_list (last_such IsMetaData ps) @ opt_list (last_such is_video_seq ps)
                            @ opt_list (last_such is_audio_seq ps) @ [pkt]\<rparr>)"
proof -
  let ?m = "opt_list (last_such IsMetaData ps)" and ?v = "opt_list (last_such is_video_seq ps)"
    and ?a = "opt_list (last_such is_audio_seq ps)" and ?c = "fold Cache_Write ps NewCache"
  have len: "length ?m \<le> 1" "length ?v \<le> 1" "length ?a \<le> 1" by (rule length_opt_list)+
  note slots = meta.slot_fold [of ps] video.slot_fold [of ps] audio.slot_fold [of ps]
  have 1: "writeCached (metaData ?c) s = Some (s\<lparr>avPktQueue := ?m\<rparr>)"
    using writeCached_room [of s "metaData ?c"] assms slots by (simp add: chan_len_def)
  have 2: "writeCached (videoSeq ?c) (s\<lparr>avPktQueue := ?m\<rparr>) = Some (s\<lparr>avPktQueue := ?m @ ?v\<rparr>)"
    using writeCached_room [of "s\<lparr>avPktQueue := ?m\<rparr>" "videoSeq ?c"] assms slots len
    by (simp add: chan_len_def)
  have 3: "writeCached (audioSeq ?c) (s\<lparr>avPktQueue := ?m @ ?v\<rparr>)
      = Some (s\<lparr>avPktQueue := ?m @ ?v @ ?a\<rparr>)"
    using writeCached_room [of "s\<lparr>avPktQueue := ?m @ ?v\<rparr>" "audioSeq ?c"] assms slots len
    by (simp add: chan_len_def)
  have "sendCachePacket ?c s = Some (s\<lparr>avPktQueue := ?m @ ?v @ ?a, initCache := True\<rparr>)"
    using assms(2) 1 2 3 by (simp add: sendCachePacket_def)
  moreover have "writeAVPacket pkt (s\<lparr>avPktQueue := ?m @ ?v @ ?a, initCache := True\<rparr>)
      = Some (s\<lparr>avPktQueue := ?m @ ?v @ ?a @ [pkt], initCache := True\<rparr>)"
    using assms(4) len by (simp add: writeAVPacket_def chan_send_def chan_len_def)
  ultimately show ?thesis using assms(1) by (cases s) (simp add: deliver_def)
qed

section \<open>The registry of subscribers\<close>

lemma map_of_filter_ne:
  "map_of (filter (\<lambda>(a, s). a \<noteq> k) xs) = (map_of xs)(k := None)"
  by (induction xs) (auto simp: fun_eq_iff)

text \<open>Subscribers are registered by their remote address: adding succeeds exactly when the address is
  free and registers the subscriber there; removing frees the address. Removing does not
  take the subscriber off \<open>subscriberCount\<close>: the count is the number of subscribers ever added.\<close>

theorem subscriber_registry:
  "fst (addSubscriber sub ss) = (map_of (subscribers ss) (remoteAddr sub) = None)
   \<and> map_of (subscribers (snd (addSubscriber sub ss)))
       = (if fst (addSubscriber sub ss) then (map_of (subscribers ss))(remoteAddr sub \<mapsto> sub)
          else map_of (subscribers ss))
   \<and> subscriberCount (snd (addSubscriber sub ss))
       = subscriberCount ss + (if fst (addSubscriber sub ss) then 1 else 0)
   \<and> map_of (subscribers (snd (delSubscriber sub ss))) = (map_of (subscribers ss))(remoteAddr sub := None)
   \<and> subscriberCount (snd (delSubscriber sub ss)) = subscriberCount ss"
  by (auto simp: addSubscriber_def delSubscriber_def map_of_filter_ne)

section \<open>Examples\<close>

definition demo_player :: subscriber where
  "demo_player = (newSubscriber demo_writer ''10.0.0.1:4000'' 1024)\<lparr>initCache := True\<rparr>"

definition demo_source :: stream_source where
  "demo_source = (newStreamSource None ''_defaultVhost_/live/a'')
     \<lparr>subscribers := [(''10.0.0.1:4000'', demo_player)], subscriberCount := 1\<rparr>"

lemma demo_player_ok: "queue_inv demo_player" "can_send demo_player" "\<not> stopped demo_player"
  "initCache demo_player" "avPktQueue demo_player = []" "baseTimeStamp demo_player = 0"
  "rtmpConn demo_player = demo_writer"
  using demo_writer_ok
  by (simp_all add: demo_player_def newSubscriber_def can_send_def newChunkStream_def queue_inv_def
      chan_len_def)


theorem relay_to_player_witness:
  "\<exists>c' ss' s' s'' m'. publishOne (demo_reader (demo_audio_wire @ [7])) demo_source = (Continue, c', ss')
    \<and> (''10.0.0.1:4000'', s') \<in> set (subscribers ss') \<and> playingCycle Ok s' = (None, s'')
    \<and> tx (rtmpConn s'') = message_wire 2 m' \<and> ChunkBody m' = [0xaf, 1, 2] \<and> TimeStamp m' = 10"
proof -
  let ?m = "assignCsid demo_audio"
  have subs: "list_all (\<lambda>(a, s). queue_inv s) (subscribers demo_source)"
    "(''10.0.0.1:4000'', demo_player) \<in> set (subscribers demo_source)"
    by (simp_all add: demo_source_def demo_player_ok)
  have m: "MsgTypeID demo_audio = 8" "ChunkBody demo_audio = [0xaf, 1, 2]" "TimeStamp demo_audio = 10"
    by (simp_all add: demo_audio_def newChunkStream_def)
  have wire: "rx (demo_reader (demo_audio_wire @ [7]))
      = message_wire (unat (remoteChunkSize (demo_reader (demo_audio_wire @ [7])))) ?m @ [7]"
    by (simp add: demo_reader_ok demo_wires)
  show ?thesis
    using relay_to_player [OF demo_reader_ok(1) demo_messages_ok(1) _ _ wire subs
        demo_player_ok(3,4,5,2), of Ok]
    by (simp add: m demo_player_ok demo_writer_ok) blast
qed

theorem late_joiner_gets_headers_witness:
  "deliver (fold Cache_Write [demo_inter_frame, new_Packet\<lparr>IsMetaData := True\<rparr>, demo_audio_packet] NewCache)
     demo_inter_frame (newSubscriber demo_writer ''10.0.0.1:4000'' 1024)
   = Some ((newSubscriber demo_writer ''10.0.0.1:4000'' 1024)
       \<lparr>initCache := True, avPktQueue := [new_Packet\<lparr>IsMetaData := True\<rparr>, demo_inter_frame]\<rparr>)"
proof -
  let ?ps = "[demo_inter_frame, new_Packet\<lparr>IsMetaData := True\<rparr>, demo_audio_packet]"
  have "last_such IsMetaData ?ps = Some (new_Packet\<lparr>IsMetaData := True\<rparr>)"
    and "last_such is_video_seq ?ps = None" and "last_such is_audio_seq ?ps = None"
    by (simp_all add: last_such_def is_video_seq_def is_audio_seq_def demo_inter_frame_def
        demo_audio_packet_def new_Packet_def new_Tag_def IsSeq_def IsKeyFrame_def)
  then show ?thesis
    using late_joiner_gets_headers [of "newSubscriber demo_writer ''10.0.0.1:4000'' 1024" ?ps
        demo_inter_frame]
    by (simp add: newSubscriber_def opt_list_def)
qed


end
