(* ===== verification/StreamManager.thy ===== *)
theory StreamManager
  imports StreamSource
begin

text \<open>
  The goroutines of the server around the map of stream sources: \<open>Conn.Serve\<close> after its set-up
  (\<^verbatim>\<open>pkg/rtmp/conn.go\<close>), \<open>delPublisher\<close> with the function it schedules, and the map itself
  (\<^verbatim>\<open>pkg/rtmp/streamSource.go\<close>). The state of the process is a record. Sources and connections are
  shared objects and are named by their position in a list; a goroutine is the program point at which
  it stands. One step of the relation is one access to what the goroutines share: a \<open>Load\<close>, a \<open>Store\<close>
  or a \<open>Delete\<close> of the map, a read or a write of the field \<open>publisher\<close>, one operation under the lock
  of the subscribers, or one message of a loop. A panic in a goroutine ends the process.
\<close>

definition genStreamKey :: "string \<Rightarrow> string \<Rightarrow> string \<Rightarrow> string" where
  "genStreamKey domain app stream = domain @ ''/'' @ app @ ''/'' @ stream"

section \<open>State\<close>

text \<open>The program points of \<open>Serve\<close>; a source that a goroutine holds is part of its point.\<close>

datatype phase =
    Arrived             \<comment> \<open>before the \<open>Load\<close>\<close>
  | Absent              \<comment> \<open>publisher, \<open>Load\<close> found nothing\<close>
  | Loaded nat          \<comment> \<open>publisher, \<open>Load\<close> found a source\<close>
  | Vacant nat          \<comment> \<open>publisher, saw that the source has no publisher\<close>
  | Registered nat      \<comment> \<open>before \<open>ss.doPublishing\<close>\<close>
  | Publishing nat nat  \<comment> \<open>in the loop, with the connection the loop reads\<close>
  | Leaving nat         \<comment> \<open>before the deferred \<open>delPublisher\<close>\<close>
  | Found nat           \<comment> \<open>player, \<open>Load\<close> found a source\<close>
  | Playing nat
  | Stopped nat         \<comment> \<open>before the deferred \<open>delSubscriber\<close>\<close>
  | Gone

text \<open>The program points of the function that \<open>delPublisher\<close> schedules.\<close>

datatype timer_phase =
    Sleeping
  | Checking nat        \<comment> \<open>\<open>Load\<close> found a source\<close>
  | Deleting            \<comment> \<open>saw that it has no publisher\<close>
  | Signalling          \<comment> \<open>before the send on \<open>stopPublish\<close>\<close>
  | Finished

record client =
  cl_conn :: conn
  cl_addr :: string
  cl_phase :: phase

record world =
  sources :: "stream_source list"
  streamMap :: "string \<rightharpoonup> nat"
  timers :: "(nat \<times> timer_phase) list"
  clients :: "client list"
  crashed :: bool

definition newStreamSourceMgr :: "string \<rightharpoonup> nat" where
  "newStreamSourceMgr = Map.empty"

definition start_world :: world where
  "start_world =
     \<lparr> sources = [], streamMap = newStreamSourceMgr, timers = [], clients = [], crashed = False \<rparr>"

definition upd_source :: "nat \<Rightarrow> (stream_source \<Rightarrow> stream_source) \<Rightarrow> world \<Rightarrow> world" where
  "upd_source s f w = w\<lparr>sources := (sources w)[s := f (sources w ! s)]\<rparr>"

definition upd_client :: "nat \<Rightarrow> (client \<Rightarrow> client) \<Rightarrow> world \<Rightarrow> world" where
  "upd_client i f w = w\<lparr>clients := (clients w)[i := f (clients w ! i)]\<rparr>"

abbreviation goto :: "nat \<Rightarrow> phase \<Rightarrow> world \<Rightarrow> world" where
  "goto i ph \<equiv> upd_client i (\<lambda>cl. cl\<lparr>cl_phase := ph\<rparr>)"

abbreviation timer_goto :: "nat \<Rightarrow> timer_phase \<Rightarrow> world \<Rightarrow> world" where
  "timer_goto j ph w \<equiv> w\<lparr>timers := (timers w)[j := (fst (timers w ! j), ph)]\<rparr>"

section \<open>The goroutine of a connection\<close>

text \<open>One iteration of \<open>playingCycle\<close>; \<open>None\<close> while the queue is empty.\<close>

definition playOne :: "(u8 list \<Rightarrow> u8 list res) \<Rightarrow> subscriber \<Rightarrow> (unit res \<times> subscriber) option" where
  "playOne reform s =
     (case chan_recv s of
        None \<Rightarrow> None
      | Some (pkt, s1) \<Rightarrow>
          Some (case sendAVPacket reform pkt s1 of
                  (Err e, s2) \<Rightarrow> (Err e, s2\<lparr>stopped := True\<rparr>)
                | r \<Rightarrow> r))"

definition doPublishing :: "nat \<Rightarrow> nat \<Rightarrow> world \<Rightarrow> world" where
  "doPublishing i s w =
     (case ss_publisher (sources w ! s) of
        None \<Rightarrow> w\<lparr>crashed := True\<rparr>
      | Some p \<Rightarrow> goto i (Publishing s (pubConn p)) w)"

definition publish_message :: "nat \<Rightarrow> nat \<Rightarrow> nat \<Rightarrow> world \<Rightarrow> world option" where
  "publish_message i s k w =
     (case publishOne (cl_conn (clients w ! k)) (sources w ! s) of
        (r, c', ss') \<Rightarrow>
          let w' = upd_client k (\<lambda>cl. cl\<lparr>cl_conn := c'\<rparr>) (upd_source s (\<lambda>_. ss') w)
          in case r of
               Continue \<Rightarrow> Some w'
             | Return e \<Rightarrow> Some (goto i (Leaving s) w')
             | Crash p \<Rightarrow> Some (w'\<lparr>crashed := True\<rparr>)
             | Waits \<Rightarrow> None)"

definition delPublisher :: "nat \<Rightarrow> world \<Rightarrow> world" where
  "delPublisher s w =
     (upd_source s (\<lambda>ss. ss\<lparr>ss_publisher := None\<rparr>) w)\<lparr>timers := timers w @ [(s, Sleeping)]\<rparr>"

definition subscribe :: "nat \<Rightarrow> nat \<Rightarrow> world \<Rightarrow> world" where
  "subscribe i s w =
     (let cl = clients w ! i
      in case addSubscriber (newSubscriber (cl_conn cl) (cl_addr cl) 1024) (sources w ! s) of
           (ok, ss') \<Rightarrow> goto i (if ok then Playing s else Gone) (upd_source s (\<lambda>_. ss') w))"

definition put_subscriber :: "string \<Rightarrow> subscriber \<Rightarrow> stream_source \<Rightarrow> stream_source" where
  "put_subscriber a sub ss =
     ss\<lparr>subscribers := map (\<lambda>(b, s). if b = a then (b, sub) else (b, s)) (subscribers ss)\<rparr>"

definition play_message :: "(u8 list \<Rightarrow> u8 list res) \<Rightarrow> nat \<Rightarrow> nat \<Rightarrow> world \<Rightarrow> world option" where
  "play_message reform i s w =
     (let a = cl_addr (clients w ! i)
      in case Option.bind (map_of (subscribers (sources w ! s)) a) (playOne reform) of
           None \<Rightarrow> None
         | Some (r, sub) \<Rightarrow>
             let w' = upd_source s (put_subscriber a sub) w
             in Some (case r of
                        Ok _ \<Rightarrow> w'
                      | Err e \<Rightarrow> goto i (Stopped s) w'
                      | Panic p \<Rightarrow> w'\<lparr>crashed := True\<rparr>))"

definition unsubscribe :: "nat \<Rightarrow> nat \<Rightarrow> world \<Rightarrow> world" where
  "unsubscribe i s w =
     (let cl = clients w ! i
      in upd_source s (\<lambda>ss. snd (delSubscriber (newSubscriber (cl_conn cl) (cl_addr cl) 1024) ss)) w)"

text \<open>The next step of a connection's goroutine.\<close>

definition serve_step :: "(u8 list \<Rightarrow> u8 list res) \<Rightarrow> nat \<Rightarrow> world \<Rightarrow> world option" where
  "serve_step reform i w =
     (let c = cl_conn (clients w ! i); key = streamKey c
      in case cl_phase (clients w ! i) of
           Arrived \<Rightarrow>
             Some (goto i
               (case streamMap w key of
                  None \<Rightarrow> if isPublisher c then Absent else Gone
                | Some s \<Rightarrow> if isPublisher c then Loaded s else Found s) w)
         | Absent \<Rightarrow>
             let s = length (sources w)
             in Some (goto i (Registered s)
                  (w\<lparr>sources := sources w @ [newStreamSource (Some (newPublisher i key)) key],
                     streamMap := (streamMap w)(key \<mapsto> s)\<rparr>))
         | Loaded s \<Rightarrow>
             Some (goto i (if ss_publisher (sources w ! s) \<noteq> None then Gone else Vacant s) w)
         | Vacant s \<Rightarrow>
             Some (goto i (Registered s) (upd_source s (setPublisher (newPublisher i key)) w))
         | Registered s \<Rightarrow> Some (doPublishing i s w)
         | Publishing s k \<Rightarrow> publish_message i s k w
         | Leaving s \<Rightarrow> Some (goto i Gone (delPublisher s w))
         | Found s \<Rightarrow> Some (subscribe i s w)
         | Playing s \<Rightarrow> play_message reform i s w
         | Stopped s \<Rightarrow> Some (goto i Gone (unsubscribe i s w))
         | Gone \<Rightarrow> None)"

section \<open>The function of a timer\<close>

text \<open>
  One minute after \<open>delPublisher\<close>. Nothing receives from \<open>stopPublish\<close>, which has room for one value.
\<close>

definition timer_step :: "nat \<Rightarrow> world \<Rightarrow> world option" where
  "timer_step j w =
     (case timers w ! j of (s, ph) \<Rightarrow>
        let key = ss_streamKey (sources w ! s)
        in case ph of
             Sleeping \<Rightarrow>
               Some (timer_goto j (case streamMap w key of None \<Rightarrow> Finished | Some s' \<Rightarrow> Checking s') w)
           | Checking s' \<Rightarrow>
               Some (timer_goto j (if ss_publisher (sources w ! s') = None then Deleting else Finished) w)
           | Deleting \<Rightarrow>
               Some (timer_goto j Signalling (w\<lparr>streamMap := (streamMap w)(key := None)\<rparr>))
           | Signalling \<Rightarrow>
               if stopPublish (sources w ! s) < 1
               then Some (timer_goto j Finished (upd_source s (\<lambda>ss. ss\<lparr>stopPublish := stopPublish ss + 1\<rparr>) w))
               else None
           | Finished \<Rightarrow> None)"

section \<open>Steps\<close>

text \<open>
  Any goroutine may take the next step. A new connection brings a remote address that no live
  connection has, and the invariant that its set-up established.
\<close>

definition fresh_addr :: "string \<Rightarrow> world \<Rightarrow> bool" where
  "fresh_addr a w \<longleftrightarrow> list_all (\<lambda>cl. cl_phase cl = Gone \<or> cl_addr cl \<noteq> a) (clients w)"

definition arrive :: "conn \<Rightarrow> string \<Rightarrow> world \<Rightarrow> world" where
  "arrive c a w = w\<lparr>clients := clients w @ [\<lparr> cl_conn = c, cl_addr = a, cl_phase = Arrived \<rparr>]\<rparr>"

inductive step :: "(u8 list \<Rightarrow> u8 list res) \<Rightarrow> world \<Rightarrow> world \<Rightarrow> bool" for reform where
  step_arrive: "\<not> crashed w \<Longrightarrow> conn_inv c \<Longrightarrow> fresh_addr a w \<Longrightarrow> step reform w (arrive c a w)"
| step_serve: "\<not> crashed w \<Longrightarrow> i < length (clients w) \<Longrightarrow> serve_step reform i w = Some w' \<Longrightarrow> step reform w w'"
| step_timer: "\<not> crashed w \<Longrightarrow> j < length (timers w) \<Longrightarrow> timer_step j w = Some w' \<Longrightarrow> step reform w w'"

inductive reachable :: "(u8 list \<Rightarrow> u8 list res) \<Rightarrow> world \<Rightarrow> bool" for reform where
  reach_start: "reachable reform start_world"
| reach_step: "reachable reform w \<Longrightarrow> step reform w w' \<Longrightarrow> reachable reform w'"

inductive_cases step_cases: "step reform w w'"

section \<open>Frames\<close>

lemma upd_source_sel [simp]:
  "length (sources (upd_source s f w)) = length (sources w)"
  "streamMap (upd_source s f w) = streamMap w" "timers (upd_source s f w) = timers w"
  "clients (upd_source s f w) = clients w" "crashed (upd_source s f w) = crashed w"
  by (simp_all add: upd_source_def)

lemma upd_client_sel [simp]:
  "sources (upd_client i f w) = sources w" "streamMap (upd_client i f w) = streamMap w"
  "timers (upd_client i f w) = timers w" "length (clients (upd_client i f w)) = length (clients w)"
  "crashed (upd_client i f w) = crashed w"
  by (simp_all add: upd_client_def)

lemma upd_source_nth [simp]:
  "t < length (sources w) \<Longrightarrow>
     sources (upd_source s f w) ! t = (if t = s then f (sources w ! s) else sources w ! t)"
  by (simp add: upd_source_def)

lemma upd_client_nth [simp]:
  "j < length (clients w) \<Longrightarrow>
     clients (upd_client i f w) ! j = (if j = i then f (clients w ! i) else clients w ! j)"
  by (simp add: upd_client_def)

text \<open>An iteration of the publisher touches the cache and the queues only.\<close>

lemma publishOne_frame:
  assumes "publishOne c ss = (r, c', ss')"
  shows "ss_publisher ss' = ss_publisher ss" "ss_streamKey ss' = ss_streamKey ss"
    "stopPublish ss' = stopPublish ss" "subscriberCount ss' = subscriberCount ss"
  using assms
  by (auto simp: publishOne_def Let_def cacheAVMetaPacket_def dispatchAVPacket_def
      split: prod.splits res.splits option.splits)

section \<open>Well-formed worlds\<close>

text \<open>A source: no queue is full, no address registered twice, the counters within their bounds.\<close>

definition source_ok :: "nat \<Rightarrow> stream_source \<Rightarrow> bool" where
  "source_ok m ss \<longleftrightarrow>
     list_all (\<lambda>(a, s). queue_inv s) (subscribers ss) \<and> distinct (map fst (subscribers ss))
     \<and> int (length (subscribers ss)) \<le> subscriberCount ss \<and> stopPublish ss \<le> 1
     \<and> (\<forall>p. ss_publisher ss = Some p \<longrightarrow> pubConn p < m)"

fun phase_ok :: "nat \<Rightarrow> nat \<Rightarrow> phase \<Rightarrow> bool" where
  "phase_ok n m (Loaded s) = (s < n)"
| "phase_ok n m (Vacant s) = (s < n)"
| "phase_ok n m (Registered s) = (s < n)"
| "phase_ok n m (Publishing s k) = (s < n \<and> k < m)"
| "phase_ok n m (Leaving s) = (s < n)"
| "phase_ok n m (Found s) = (s < n)"
| "phase_ok n m (Playing s) = (s < n)"
| "phase_ok n m (Stopped s) = (s < n)"
| "phase_ok n m _ = True"

fun timer_ok :: "nat \<Rightarrow> nat \<times> timer_phase \<Rightarrow> bool" where
  "timer_ok n (s, Checking s') = (s < n \<and> s' < n)"
| "timer_ok n (s, _) = (s < n)"

definition client_ok :: "nat \<Rightarrow> nat \<Rightarrow> client \<Rightarrow> bool" where
  "client_ok n m cl \<longleftrightarrow> conn_inv (cl_conn cl) \<and> phase_ok n m (cl_phase cl)"

text \<open>Every source that is named exists, and the map leads from a key to a source of that key.\<close>

definition world_ok :: "world \<Rightarrow> bool" where
  "world_ok w \<longleftrightarrow>
     (\<forall>key s. streamMap w key = Some s \<longrightarrow> s < length (sources w) \<and> ss_streamKey (sources w ! s) = key)
     \<and> (\<forall>cl \<in> set (clients w). client_ok (length (sources w)) (length (clients w)) cl)
     \<and> (\<forall>t \<in> set (timers w). timer_ok (length (sources w)) t)
     \<and> (\<forall>ss \<in> set (sources w). source_ok (length (clients w)) ss)"

lemma world_okD:
  assumes "world_ok w"
  shows "streamMap w key = Some s \<Longrightarrow> s < length (sources w)"
    and "streamMap w key = Some s \<Longrightarrow> ss_streamKey (sources w ! s) = key"
    and "i < length (clients w) \<Longrightarrow> conn_inv (cl_conn (clients w ! i))"
    and "i < length (clients w) \<Longrightarrow>
           phase_ok (length (sources w)) (length (clients w)) (cl_phase (clients w ! i))"
    and "j < length (timers w) \<Longrightarrow> timer_ok (length (sources w)) (timers w ! j)"
    and "t < length (sources w) \<Longrightarrow> source_ok (length (clients w)) (sources w ! t)"
  using assms by (auto simp: world_ok_def client_ok_def)

lemma phase_ok_mono: "phase_ok n m ph \<Longrightarrow> n \<le> n' \<Longrightarrow> m \<le> m' \<Longrightarrow> phase_ok n' m' ph"
  by (cases ph) auto

lemma timer_ok_mono: "timer_ok n t \<Longrightarrow> n \<le> n' \<Longrightarrow> timer_ok n' t"
  by (cases "(n, t)" rule: timer_ok.cases) auto

lemma source_ok_mono: "source_ok m ss \<Longrightarrow> m \<le> m' \<Longrightarrow> source_ok m' ss"
  by (auto simp: source_ok_def)

lemma client_ok_mono: "client_ok n m cl \<Longrightarrow> n \<le> n' \<Longrightarrow> m \<le> m' \<Longrightarrow> client_ok n' m' cl"
  by (auto simp: client_ok_def intro: phase_ok_mono)

lemma world_ok_upd_client:
  assumes "world_ok w" and "i < length (clients w)"
    and "client_ok (length (sources w)) (length (clients w)) (f (clients w ! i))"
  shows "world_ok (upd_client i f w)"
  using assms set_update_subset_insert [of "clients w" i "f (clients w ! i)"]
  unfolding world_ok_def by (auto simp: upd_client_def)

lemma world_ok_goto:
  assumes "world_ok w" and "i < length (clients w)" and "phase_ok (length (sources w)) (length (clients w)) ph"
  shows "world_ok (goto i ph w)"
  using assms world_okD(3) [OF assms(1,2)] by (intro world_ok_upd_client) (auto simp: client_ok_def)

lemma world_ok_upd_source:
  assumes "world_ok w" and "s < length (sources w)"
    and "source_ok (length (clients w)) (f (sources w ! s))"
    and "ss_streamKey (f (sources w ! s)) = ss_streamKey (sources w ! s)"
  shows "world_ok (upd_source s f w)"
  using assms set_update_subset_insert [of "sources w" s "f (sources w ! s)"]
  unfolding world_ok_def by (auto simp: upd_source_def nth_list_update)

lemma world_ok_timers:
  assumes "world_ok w" and "j < length (timers w)" and "timer_ok (length (sources w)) (fst (timers w ! j), ph)"
  shows "world_ok (timer_goto j ph w)"
  using assms set_update_subset_insert [of "timers w" j "(fst (timers w ! j), ph)"]
  unfolding world_ok_def by auto

lemma world_ok_new_timer:
  "world_ok w \<Longrightarrow> timer_ok (length (sources w)) t \<Longrightarrow> world_ok (w\<lparr>timers := timers w @ [t]\<rparr>)"
  by (auto simp: world_ok_def)

lemma world_ok_crash [simp]: "world_ok (w\<lparr>crashed := b\<rparr>) = world_ok w"
  by (simp add: world_ok_def)

lemma world_ok_arrive: "world_ok w \<Longrightarrow> conn_inv c \<Longrightarrow> world_ok (arrive c a w)"
  unfolding world_ok_def arrive_def
  by (auto simp: client_ok_def intro: source_ok_mono phase_ok_mono)

lemma queue_inv_new: "queue_inv (newSubscriber c a 1024)"
  by (simp add: queue_inv_def newSubscriber_def chan_len_def)

lemma source_ok_add:
  "source_ok m ss \<Longrightarrow> source_ok m (snd (addSubscriber (newSubscriber c a 1024) ss))
     \<and> ss_streamKey (snd (addSubscriber (newSubscriber c a 1024) ss)) = ss_streamKey ss"
  using queue_inv_new [of c a]
  by (auto simp: source_ok_def addSubscriber_def map_of_eq_None_iff)

lemma source_ok_del:
  "source_ok m ss \<Longrightarrow> source_ok m (snd (delSubscriber sub ss))
     \<and> ss_streamKey (snd (delSubscriber sub ss)) = ss_streamKey ss"
proof -
  assume ok: "source_ok m ss"
  have "int (length (filter (\<lambda>(a, s). a \<noteq> remoteAddr sub) (subscribers ss))) \<le> int (length (subscribers ss))"
    by simp
  also have "\<dots> \<le> subscriberCount ss" using ok by (simp add: source_ok_def)
  finally show ?thesis
    using ok by (auto simp: source_ok_def delSubscriber_def list_all_iff distinct_map_filter)
qed

lemma map_fst_put [simp]: "map fst (subscribers (put_subscriber a sub ss)) = map fst (subscribers ss)"
  by (simp add: put_subscriber_def case_prod_beta o_def if_distrib cong: if_cong)

lemma source_ok_put:
  assumes "source_ok m ss" and "queue_inv sub"
  shows "source_ok m (put_subscriber a sub ss) \<and> ss_streamKey (put_subscriber a sub ss) = ss_streamKey ss"
proof -
  have "list_all (\<lambda>(a, s). queue_inv s) (subscribers (put_subscriber a sub ss))"
    using assms by (auto simp: source_ok_def put_subscriber_def list_all_iff split: if_splits)
  moreover have "length (subscribers (put_subscriber a sub ss)) = length (subscribers ss)"
    by (simp add: put_subscriber_def)
  ultimately show ?thesis
    using assms unfolding source_ok_def map_fst_put by (simp add: put_subscriber_def)
qed

lemma source_ok_publish:
  assumes "source_ok m ss" and "conn_inv c" and "publishOne c ss = (r, c', ss')"
  shows "source_ok m ss' \<and> ss_streamKey ss' = ss_streamKey ss \<and> conn_inv c' \<and> r \<noteq> Waits
    \<and> map fst (subscribers ss') = map fst (subscribers ss)"
proof -
  have q: "list_all (\<lambda>(a, s). queue_inv s) (subscribers ss)" using assms(1) by (simp add: source_ok_def)
  note ok = publishOne_ok [OF assms(2) q assms(3)] and same = publishOne_frame [OF assms(3)]
  from ok have "length (subscribers ss') = length (subscribers ss)" by (metis length_map)
  then show ?thesis using assms(1) ok same by (auto simp: source_ok_def)
qed

lemma avPktQueueSize_send:
  "avPktQueueSize (snd (sub_writeChunkStream s)) = avPktQueueSize s"
  by (simp add: sub_writeChunkStream_def split: prod.splits)

lemma queue_inv_sendAVPacket:
  "queue_inv s \<Longrightarrow> queue_inv (snd (sendAVPacket reform pkt s))"
proof -
  have "avPktQueueSize (snd (sendAVPacket reform pkt s)) = avPktQueueSize s"
    by (simp add: sendAVPacket_def Let_def writeAVChunkStream_def recordTimeStamp_def avPktQueueSize_send
        split: res.splits)
  then show "queue_inv s \<Longrightarrow> queue_inv (snd (sendAVPacket reform pkt s))"
    by (simp add: queue_inv_def chan_len_def)
qed

lemma playOne_queue:
  assumes "queue_inv s" and "playOne reform s = Some (r, s')"
  shows "queue_inv s'"
proof -
  obtain pkt s1 where recv: "chan_recv s = Some (pkt, s1)"
    using assms(2) by (auto simp: playOne_def split: option.splits)
  have q: "queue_inv (snd (sendAVPacket reform pkt s1))"
    by (intro queue_inv_sendAVPacket queue_inv_recv [OF assms(1) recv])
  then have "queue_inv ((snd (sendAVPacket reform pkt s1))\<lparr>stopped := True\<rparr>)"
    by (simp add: queue_inv_def chan_len_def)
  moreover have "s' = snd (sendAVPacket reform pkt s1) \<or> s' = (snd (sendAVPacket reform pkt s1))\<lparr>stopped := True\<rparr>"
    using assms(2) recv by (auto simp: playOne_def split: prod.splits res.splits)
  ultimately show ?thesis using q by blast
qed

section \<open>Every step keeps the world well-formed\<close>

lemma world_ok_publish:
  assumes "world_ok w" and "i < length (clients w)" and "cl_phase (clients w ! i) = Publishing s k"
  shows "\<exists>w'. publish_message i s k w = Some w' \<and> world_ok w'"
proof -
  have s: "s < length (sources w)" and k: "k < length (clients w)"
    using world_okD(4) [OF assms(1,2)] assms(3) by simp_all
  obtain r c' ss' where run: "publishOne (cl_conn (clients w ! k)) (sources w ! s) = (r, c', ss')"
    by (metis prod_cases3)
  note ok = source_ok_publish [OF world_okD(6) [OF assms(1) s] world_okD(3) [OF assms(1) k] run]
  let ?w1 = "upd_source s (\<lambda>_. ss') w"
  let ?w2 = "upd_client k (\<lambda>cl. cl\<lparr>cl_conn := c'\<rparr>) ?w1"
  have 1: "world_ok ?w1" by (rule world_ok_upd_source) (use assms(1) s ok in auto)
  have 2: "world_ok ?w2"
    by (rule world_ok_upd_client) (use 1 k ok world_okD(4) [OF assms(1) k] in \<open>auto simp: client_ok_def\<close>)
  have "world_ok (goto i (Leaving s) ?w2)"
    by (rule world_ok_goto) (use 2 assms(2) s in auto)
  with 2 ok show ?thesis
    by (cases r) (simp_all add: publish_message_def run)
qed

lemma world_ok_play:
  assumes "world_ok w" and "i < length (clients w)" and "cl_phase (clients w ! i) = Playing s"
    and "play_message reform i s w = Some w'"
  shows "world_ok w'"
proof -
  have s: "s < length (sources w)" using world_okD(4) [OF assms(1,2)] assms(3) by simp
  let ?a = "cl_addr (clients w ! i)"
  obtain sub r sub' where sub: "map_of (subscribers (sources w ! s)) ?a = Some sub"
    and play: "playOne reform sub = Some (r, sub')"
    using assms(4) by (auto simp: play_message_def Let_def bind_eq_Some_conv split: option.splits)
  have "queue_inv sub"
    using world_okD(6) [OF assms(1) s] map_of_SomeD [OF sub] by (auto simp: source_ok_def list_all_iff)
  note q = playOne_queue [OF this play]
  let ?w1 = "upd_source s (put_subscriber ?a sub') w"
  have 1: "world_ok ?w1"
    by (rule world_ok_upd_source) (use assms(1) s source_ok_put [OF world_okD(6) [OF assms(1) s] q] in auto)
  have "world_ok (goto i (Stopped s) ?w1)" by (rule world_ok_goto) (use 1 assms(2) s in auto)
  with 1 show ?thesis using assms(4) sub play
    by (cases r) (auto simp: play_message_def Let_def)
qed

lemma world_ok_store:
  assumes "world_ok w" and "i < length (clients w)"
  shows "world_ok (goto i (Registered (length (sources w)))
    (w\<lparr>sources := sources w @ [newStreamSource (Some (newPublisher i key)) key],
       streamMap := (streamMap w)(key \<mapsto> length (sources w))\<rparr>))"
proof -
  let ?w = "w\<lparr>sources := sources w @ [newStreamSource (Some (newPublisher i key)) key],
       streamMap := (streamMap w)(key \<mapsto> length (sources w))\<rparr>"
  have "source_ok (length (clients w)) (newStreamSource (Some (newPublisher i key)) key)"
    using assms(2) by (simp add: source_ok_def newStreamSource_def newPublisher_def)
  moreover have "ss_streamKey (newStreamSource p key) = key" for p by (simp add: newStreamSource_def)
  ultimately have "world_ok ?w"
    using assms(1) unfolding world_ok_def
    by (auto simp: nth_append intro: client_ok_mono timer_ok_mono less_SucI split: if_splits)
  then show ?thesis by (rule world_ok_goto) (use assms(2) in auto)
qed

lemma world_ok_serve:
  assumes ok: "world_ok w" and i: "i < length (clients w)" and run: "serve_step reform i w = Some w'"
  shows "world_ok w'"
proof (cases "cl_phase (clients w ! i)")
  case Arrived
  then show ?thesis using run world_okD(1) [OF ok]
    by (auto simp: serve_step_def Let_def split: option.splits intro!: world_ok_goto [OF ok i])
next
  case Absent
  then show ?thesis using run world_ok_store [OF ok i, of "streamKey (cl_conn (clients w ! i))"]
    by (auto simp: serve_step_def Let_def)
next
  case (Loaded s)
  then show ?thesis using run world_okD(4) [OF ok i]
    by (auto simp: serve_step_def Let_def intro!: world_ok_goto [OF ok i])
next
  case (Vacant s)
  let ?f = "setPublisher (newPublisher i (streamKey (cl_conn (clients w ! i))))"
  have s: "s < length (sources w)" using world_okD(4) [OF ok i] Vacant by simp
  have "world_ok (upd_source s ?f w)"
    by (rule world_ok_upd_source) (use ok s i world_okD(6) [OF ok s] in
      \<open>auto simp: setPublisher_def newPublisher_def source_ok_def\<close>)
  then have "world_ok (goto i (Registered s) (upd_source s ?f w))"
    by (rule world_ok_goto) (use i s in auto)
  then show ?thesis using run Vacant by (simp add: serve_step_def Let_def)
next
  case (Registered s)
  have s: "s < length (sources w)" using world_okD(4) [OF ok i] Registered by simp
  then show ?thesis using run Registered ok world_okD(6) [OF ok s]
    by (auto simp: serve_step_def Let_def doPublishing_def source_ok_def split: option.splits
        intro!: world_ok_goto [OF ok i])
next
  case (Publishing s k)
  then show ?thesis using run world_ok_publish [OF ok i Publishing] by (auto simp: serve_step_def Let_def)
next
  case (Leaving s)
  have s: "s < length (sources w)" using world_okD(4) [OF ok i] Leaving by simp
  have "world_ok (upd_source s (\<lambda>ss. ss\<lparr>ss_publisher := None\<rparr>) w)"
    by (rule world_ok_upd_source) (use ok s world_okD(6) [OF ok s] in \<open>auto simp: source_ok_def\<close>)
  from world_ok_new_timer [OF this, of "(s, Sleeping)"] have "world_ok (delPublisher s w)"
    using s by (simp add: delPublisher_def)
  then have "world_ok (goto i Gone (delPublisher s w))"
    by (rule world_ok_goto) (use i in \<open>auto simp: delPublisher_def\<close>)
  then show ?thesis using run Leaving by (simp add: serve_step_def Let_def)
next
  case (Found s)
  have s: "s < length (sources w)" using world_okD(4) [OF ok i] Found by simp
  let ?cl = "clients w ! i"
  obtain b ss' where add: "addSubscriber (newSubscriber (cl_conn ?cl) (cl_addr ?cl) 1024) (sources w ! s) = (b, ss')"
    by fastforce
  have "world_ok (upd_source s (\<lambda>_. ss') w)"
    by (rule world_ok_upd_source)
      (use ok s source_ok_add [OF world_okD(6) [OF ok s], of "cl_conn ?cl" "cl_addr ?cl"] add in auto)
  then have "world_ok (goto i (if b then Playing s else Gone) (upd_source s (\<lambda>_. ss') w))"
    by (rule world_ok_goto) (use i s in auto)
  then show ?thesis using run Found add by (simp add: serve_step_def Let_def subscribe_def)
next
  case (Playing s)
  then show ?thesis using run world_ok_play [OF ok i Playing] by (simp add: serve_step_def Let_def)
next
  case (Stopped s)
  have s: "s < length (sources w)" using world_okD(4) [OF ok i] Stopped by simp
  have "world_ok (unsubscribe i s w)" unfolding unsubscribe_def Let_def
    by (rule world_ok_upd_source) (use ok s source_ok_del [OF world_okD(6) [OF ok s]] in auto)
  then have "world_ok (goto i Gone (unsubscribe i s w))"
    by (rule world_ok_goto) (use i in \<open>auto simp: unsubscribe_def Let_def\<close>)
  then show ?thesis using run Stopped by (simp add: serve_step_def Let_def)
next
  case Gone
  then show ?thesis using run by (simp add: serve_step_def Let_def)
qed

lemma world_ok_timer:
  assumes ok: "world_ok w" and j: "j < length (timers w)" and run: "timer_step j w = Some w'"
  shows "world_ok w'"
proof -
  obtain s ph where t: "timers w ! j = (s, ph)" by fastforce
  have s: "s < length (sources w)" using world_okD(5) [OF ok j] t by (cases ph) auto
  show ?thesis
  proof (cases ph)
    case Sleeping
    have "world_ok (timer_goto j (case streamMap w (ss_streamKey (sources w ! s)) of
        None \<Rightarrow> Finished | Some s' \<Rightarrow> Checking s') w)"
      by (rule world_ok_timers [OF ok j]) (use s t world_okD(1) [OF ok] in \<open>auto split: option.splits\<close>)
    then show ?thesis using run t Sleeping by (simp add: timer_step_def Let_def)
  next
    case (Checking s')
    have "world_ok (timer_goto j (if ss_publisher (sources w ! s') = None then Deleting else Finished) w)"
      by (rule world_ok_timers [OF ok j]) (use s t in auto)
    then show ?thesis using run t Checking by (simp add: timer_step_def Let_def)
  next
    case Deleting
    let ?w = "w\<lparr>streamMap := (streamMap w)(ss_streamKey (sources w ! s) := None)\<rparr>"
    have "world_ok ?w" using ok by (auto simp: world_ok_def)
    then have "world_ok (timer_goto j Signalling ?w)" by (rule world_ok_timers) (use j s t in auto)
    then show ?thesis using run t Deleting by (simp add: timer_step_def Let_def)
  next
    case Signalling
    let ?w = "upd_source s (\<lambda>ss. ss\<lparr>stopPublish := stopPublish ss + 1\<rparr>) w"
    have g: "stopPublish (sources w ! s) < 1" and w': "w' = timer_goto j Finished ?w"
      using run t Signalling by (auto simp: timer_step_def Let_def split: if_splits)
    have "world_ok ?w"
      by (rule world_ok_upd_source) (use ok s g world_okD(6) [OF ok s] in \<open>auto simp: source_ok_def\<close>)
    then have "world_ok (timer_goto j Finished ?w)" by (rule world_ok_timers) (use j s t in auto)
    then show ?thesis using w' by simp
  next
    case Finished
    then show ?thesis using run t by (simp add: timer_step_def Let_def)
  qed
qed

lemma world_ok_step: "step reform w w' \<Longrightarrow> world_ok w \<Longrightarrow> world_ok w'"
  by (elim step_cases) (auto intro: world_ok_arrive world_ok_serve world_ok_timer)

lemma world_ok_reachable: "reachable reform w \<Longrightarrow> world_ok w"
proof (induction rule: reachable.induct)
  case reach_start
  then show ?case by (simp add: world_ok_def start_world_def newStreamSourceMgr_def)
next
  case (reach_step w w')
  then show ?case by (blast intro: world_ok_step)
qed

end
