(* ===== verification/StreamProps.thy ===== *)
theory StreamProps
  imports StreamManager
begin

text \<open>
  What the goroutines of the server can and cannot do to each other: the registration of players and the
  progress of every goroutine, the races of publishers for a key and their absence under a lock, and the
  life of the function that removes a source.
\<close>

section \<open>Players are registered where they play\<close>

fun plays_at :: "phase \<Rightarrow> nat option" where
  "plays_at (Playing s) = Some s"
| "plays_at (Stopped s) = Some s"
| "plays_at _ = None"

definition registered :: "world \<Rightarrow> nat \<Rightarrow> string set" where
  "registered w s = set (map fst (subscribers (sources w ! s)))"

text \<open>
  Live connections have different addresses, and the addresses registered at a source are those of
  the players that play it.
\<close>

definition players_ok :: "world \<Rightarrow> bool" where
  "players_ok w \<longleftrightarrow>
     (\<forall>i < length (clients w). \<forall>j < length (clients w).
        i \<noteq> j \<longrightarrow> cl_phase (clients w ! i) \<noteq> Gone \<longrightarrow> cl_phase (clients w ! j) \<noteq> Gone \<longrightarrow>
        cl_addr (clients w ! i) \<noteq> cl_addr (clients w ! j))
     \<and> (\<forall>s < length (sources w). \<forall>a.
          a \<in> registered w s \<longleftrightarrow>
          (\<exists>i < length (clients w). cl_addr (clients w ! i) = a \<and> plays_at (cl_phase (clients w ! i)) = Some s))"

text \<open>A step that changes neither addresses nor registrations nor who plays where.\<close>

definition same_players :: "world \<Rightarrow> world \<Rightarrow> bool" where
  "same_players w w' \<longleftrightarrow>
     length (clients w') = length (clients w) \<and> length (sources w) \<le> length (sources w')
     \<and> (\<forall>j < length (clients w). cl_addr (clients w' ! j) = cl_addr (clients w ! j)
          \<and> plays_at (cl_phase (clients w' ! j)) = plays_at (cl_phase (clients w ! j))
          \<and> (cl_phase (clients w ! j) = Gone \<longrightarrow> cl_phase (clients w' ! j) = Gone))
     \<and> (\<forall>s < length (sources w). registered w' s = registered w s)
     \<and> (\<forall>s. length (sources w) \<le> s \<and> s < length (sources w') \<longrightarrow> registered w' s = {})"

lemma plays_at_bound:
  assumes "world_ok w" and "i < length (clients w)" and "plays_at (cl_phase (clients w ! i)) = Some s"
  shows "s < length (sources w)"
  using world_okD(4) [OF assms(1,2)] assms(3) by (cases "cl_phase (clients w ! i)") auto

lemma players_ok_same:
  assumes "players_ok w" and "world_ok w" and "same_players w w'"
  shows "players_ok w'"
proof -
  note same = assms(3) [unfolded same_players_def]
  have live: "cl_phase (clients w ! j) \<noteq> Gone" if "cl_phase (clients w' ! j) \<noteq> Gone" "j < length (clients w)" for j
    using same that by blast
  have addr: "cl_addr (clients w' ! j) = cl_addr (clients w ! j)"
      "plays_at (cl_phase (clients w' ! j)) = plays_at (cl_phase (clients w ! j))" if "j < length (clients w)" for j
    using same that by blast+
  have len: "length (clients w') = length (clients w)" using same by blast
  have 1: "cl_addr (clients w' ! i) \<noteq> cl_addr (clients w' ! j)"
    if "i < length (clients w')" "j < length (clients w')" "i \<noteq> j" "cl_phase (clients w' ! i) \<noteq> Gone"
      "cl_phase (clients w' ! j) \<noteq> Gone" for i j
    using that assms(1) live [of i] live [of j] addr [of i] addr [of j] len by (auto simp: players_ok_def)
  have 2: "a \<in> registered w' s \<longleftrightarrow>
      (\<exists>i < length (clients w'). cl_addr (clients w' ! i) = a \<and> plays_at (cl_phase (clients w' ! i)) = Some s)"
    if "s < length (sources w')" for s a
  proof (cases "s < length (sources w)")
    case True
    have "registered w' s = registered w s" using same True by blast
    moreover have "a \<in> registered w s \<longleftrightarrow>
        (\<exists>i < length (clients w). cl_addr (clients w ! i) = a \<and> plays_at (cl_phase (clients w ! i)) = Some s)"
      using assms(1) True unfolding players_ok_def by blast
    ultimately show ?thesis using addr len by auto
  next
    case False
    then have "registered w' s = {}" using same that by auto
    moreover have "\<not> (\<exists>i < length (clients w'). plays_at (cl_phase (clients w' ! i)) = Some s)"
      using False addr(2) len plays_at_bound [OF assms(2)] by auto
    ultimately show ?thesis by auto
  qed
  show ?thesis unfolding players_ok_def using 1 2 by blast
qed

lemma same_players_trans:
  assumes a: "same_players w w'" and b: "same_players w' w''"
  shows "same_players w w''"
proof -
  note a = a [unfolded same_players_def] and b = b [unfolded same_players_def]
  have "registered w'' s = {}" if "length (sources w) \<le> s" "s < length (sources w'')" for s
  proof (cases "s < length (sources w')")
    case True
    then show ?thesis using a b that by simp
  next
    case False
    then show ?thesis using b that by simp
  qed
  with a b show ?thesis unfolding same_players_def by auto
qed

lemma same_players_goto:
  "i < length (clients w) \<Longrightarrow> plays_at ph = plays_at (cl_phase (clients w ! i)) \<Longrightarrow>
     cl_phase (clients w ! i) \<noteq> Gone \<Longrightarrow> same_players w (goto i ph w)"
  by (auto simp: same_players_def registered_def)

lemma same_players_conn: "same_players w (upd_client k (\<lambda>cl. cl\<lparr>cl_conn := c\<rparr>) w)"
  by (auto simp: same_players_def registered_def)

lemma same_players_source:
  "map fst (subscribers (f (sources w ! s))) = map fst (subscribers (sources w ! s)) \<Longrightarrow>
     same_players w (upd_source s f w)"
  by (auto simp: same_players_def registered_def simp del: set_map)

lemma same_players_other:
  "same_players w (w\<lparr>crashed := b\<rparr>)" "same_players w (w\<lparr>timers := t\<rparr>)"
  "same_players w (w\<lparr>streamMap := m\<rparr>)" "same_players w w"
  by (auto simp: same_players_def registered_def)

lemma same_players_store:
  "same_players w (w\<lparr>sources := sources w @ [newStreamSource p key], streamMap := m\<rparr>)"
  by (auto simp: same_players_def registered_def nth_append newStreamSource_def less_Suc_eq)

text \<open>The two steps that change who plays, and the arrival.\<close>

lemma map_of_registered:
  "map_of (subscribers (sources w ! s)) a = None \<longleftrightarrow> a \<notin> registered w s"
  by (simp add: registered_def map_of_eq_None_iff)

lemma players_okD:
  assumes "players_ok w"
  shows "i < length (clients w) \<Longrightarrow> j < length (clients w) \<Longrightarrow> i \<noteq> j \<Longrightarrow> cl_phase (clients w ! i) \<noteq> Gone \<Longrightarrow>
           cl_phase (clients w ! j) \<noteq> Gone \<Longrightarrow> cl_addr (clients w ! i) \<noteq> cl_addr (clients w ! j)"
    and "s < length (sources w) \<Longrightarrow> a \<in> registered w s \<longleftrightarrow>
          (\<exists>i < length (clients w). cl_addr (clients w ! i) = a \<and> plays_at (cl_phase (clients w ! i)) = Some s)"
  using assms unfolding players_ok_def by blast+

lemma plays_live: "plays_at ph = Some s \<Longrightarrow> ph \<noteq> Gone"
  by auto

text \<open>Client \<open>i\<close> changes its phase to \<open>ph\<close>, and with it, perhaps, where it is registered.\<close>

lemma players_ok_move:
  assumes ok: "players_ok w" and i: "i < length (clients w)" and live: "cl_phase (clients w ! i) \<noteq> Gone"
    and len: "length (clients w') = length (clients w)" "length (sources w') = length (sources w)"
    and other: "\<And>j. j < length (clients w) \<Longrightarrow> j \<noteq> i \<Longrightarrow> clients w' ! j = clients w ! j"
    and self: "cl_addr (clients w' ! i) = cl_addr (clients w ! i)" "cl_phase (clients w' ! i) = ph"
    and reg: "\<And>t. t < length (sources w) \<Longrightarrow> registered w' t
        = {a \<in> registered w t. a \<noteq> cl_addr (clients w ! i)}
          \<union> (if plays_at ph = Some t then {cl_addr (clients w ! i)} else {})"
  shows "players_ok w'"
  unfolding players_ok_def
proof (intro conjI allI impI)
  fix j k assume jk: "j < length (clients w')" "k < length (clients w')" "j \<noteq> k"
    "cl_phase (clients w' ! j) \<noteq> Gone" "cl_phase (clients w' ! k) \<noteq> Gone"
  have "cl_addr (clients w' ! m) = cl_addr (clients w ! m)" "cl_phase (clients w ! m) \<noteq> Gone"
    if "m < length (clients w')" "cl_phase (clients w' ! m) \<noteq> Gone" for m
    using that other [of m] self live len by (cases "m = i", simp_all)+
  from this [OF jk(1,4)] this [OF jk(2,5)] jk(1-3) show "cl_addr (clients w' ! j) \<noteq> cl_addr (clients w' ! k)"
    using players_okD(1) [OF ok, of j k] len by simp
next
  fix t a assume "t < length (sources w')"
  then have t: "t < length (sources w)" using len by simp
  let ?a = "cl_addr (clients w ! i)"
  have "a \<in> registered w t \<and> a \<noteq> ?a \<longleftrightarrow>
      (\<exists>j < length (clients w). j \<noteq> i \<and> cl_addr (clients w ! j) = a \<and> plays_at (cl_phase (clients w ! j)) = Some t)"
  proof
    assume "a \<in> registered w t \<and> a \<noteq> ?a"
    then show "\<exists>j < length (clients w). j \<noteq> i \<and> cl_addr (clients w ! j) = a
        \<and> plays_at (cl_phase (clients w ! j)) = Some t"
      using players_okD(2) [OF ok t] by blast
  next
    assume "\<exists>j < length (clients w). j \<noteq> i \<and> cl_addr (clients w ! j) = a
        \<and> plays_at (cl_phase (clients w ! j)) = Some t"
    then obtain j where j: "j < length (clients w)" "j \<noteq> i" "cl_addr (clients w ! j) = a"
      "plays_at (cl_phase (clients w ! j)) = Some t" by blast
    with players_okD(1) [OF ok j(1) i j(2) plays_live [OF j(4)] live] players_okD(2) [OF ok t]
    show "a \<in> registered w t \<and> a \<noteq> ?a" by blast
  qed
  also have "\<dots> \<longleftrightarrow> (\<exists>j < length (clients w'). j \<noteq> i \<and> cl_addr (clients w' ! j) = a
        \<and> plays_at (cl_phase (clients w' ! j)) = Some t)"
    using other len(1) by auto
  finally show "a \<in> registered w' t \<longleftrightarrow>
      (\<exists>j < length (clients w'). cl_addr (clients w' ! j) = a \<and> plays_at (cl_phase (clients w' ! j)) = Some t)"
    unfolding reg [OF t] using self i len(1) by (auto split: if_splits)
qed

lemma players_ok_subscribe:
  assumes ok: "players_ok w" and i: "i < length (clients w)" and ph: "cl_phase (clients w ! i) = Found s"
    and s: "s < length (sources w)"
  shows "players_ok (subscribe i s w)" and "cl_phase (clients (subscribe i s w) ! i) = Playing s"
proof -
  let ?cl = "clients w ! i"
  let ?sub = "newSubscriber (cl_conn ?cl) (cl_addr ?cl) 1024"
  have out: "cl_addr ?cl \<notin> registered w t" if t: "t < length (sources w)" for t
  proof
    assume "cl_addr ?cl \<in> registered w t"
    then obtain j where j: "j < length (clients w)" "cl_addr (clients w ! j) = cl_addr ?cl"
      "plays_at (cl_phase (clients w ! j)) = Some t"
      using players_okD(2) [OF ok t] by blast
    then have "j \<noteq> i" using ph by auto
    from players_okD(1) [OF ok j(1) i this plays_live [OF j(3)]] j(2) ph show False by simp
  qed
  then have "map_of (subscribers (sources w ! s)) (cl_addr ?cl) = None"
    using map_of_registered s by blast
  then have add: "addSubscriber ?sub (sources w ! s)
      = (True, (sources w ! s)\<lparr>subscribers := (cl_addr ?cl, ?sub) # subscribers (sources w ! s),
                 subscriberCount := subscriberCount (sources w ! s) + 1\<rparr>)"
    by (simp add: addSubscriber_def newSubscriber_def)
  show "cl_phase (clients (subscribe i s w) ! i) = Playing s"
    using i by (simp add: subscribe_def add Let_def)
  show "players_ok (subscribe i s w)"
  proof (rule players_ok_move [OF ok i, where ph = "Playing s"])
    fix t assume t: "t < length (sources w)"
    have "{a \<in> registered w t. a \<noteq> cl_addr ?cl} = registered w t" using out [OF t] by auto
    then show "registered (subscribe i s w) t = {a \<in> registered w t. a \<noteq> cl_addr ?cl}
        \<union> (if plays_at (Playing s) = Some t then {cl_addr ?cl} else {})"
      using t s by (auto simp: subscribe_def add registered_def Let_def)
  qed (use ph i s in \<open>auto simp: subscribe_def add Let_def\<close>)
qed

lemma players_ok_unsubscribe:
  assumes ok: "players_ok w" and i: "i < length (clients w)" and ph: "cl_phase (clients w ! i) = Stopped s"
    and s: "s < length (sources w)"
  shows "players_ok (goto i Gone (unsubscribe i s w))"
proof (rule players_ok_move [OF ok i, where ph = Gone])
  fix t assume t: "t < length (sources w)"
  have "cl_addr (clients w ! i) \<notin> registered w t" if "t \<noteq> s"
  proof
    assume "cl_addr (clients w ! i) \<in> registered w t"
    then obtain j where j: "j < length (clients w)" "cl_addr (clients w ! j) = cl_addr (clients w ! i)"
      "plays_at (cl_phase (clients w ! j)) = Some t"
      using players_okD(2) [OF ok t] by blast
    then have "j \<noteq> i" using ph that by auto
    from players_okD(1) [OF ok j(1) i this plays_live [OF j(3)]] j(2) ph show False by simp
  qed
  then show "registered (goto i Gone (unsubscribe i s w)) t
      = {a \<in> registered w t. a \<noteq> cl_addr (clients w ! i)}
        \<union> (if plays_at Gone = Some t then {cl_addr (clients w ! i)} else {})"
    using t by (auto simp: registered_def unsubscribe_def delSubscriber_def newSubscriber_def image_iff dest!: bspec)
qed (use ph i in \<open>auto simp: unsubscribe_def Let_def\<close>)

lemma players_ok_arrive:
  assumes ok: "players_ok w" and fresh: "fresh_addr a w"
  shows "players_ok (arrive c a w)"
proof -
  have f: "cl_phase (clients w ! j) = Gone \<or> cl_addr (clients w ! j) \<noteq> a" if "j < length (clients w)" for j
    using fresh that by (auto simp: fresh_addr_def list_all_iff)
  have n: "clients (arrive c a w) ! j = clients w ! j" if "j < length (clients w)" for j
    using that by (simp add: arrive_def nth_append)
  have new: "clients (arrive c a w) ! length (clients w) = \<lparr> cl_conn = c, cl_addr = a, cl_phase = Arrived \<rparr>"
    "length (clients (arrive c a w)) = Suc (length (clients w))" "sources (arrive c a w) = sources w"
    by (simp_all add: arrive_def)
  have 1: "cl_addr (clients (arrive c a w) ! i) \<noteq> cl_addr (clients (arrive c a w) ! j)"
    if ij: "i < Suc (length (clients w))" "j < Suc (length (clients w))" "i \<noteq> j"
      "cl_phase (clients (arrive c a w) ! i) \<noteq> Gone" "cl_phase (clients (arrive c a w) ! j) \<noteq> Gone" for i j
  proof -
    consider "i < length (clients w)" "j < length (clients w)" | "i = length (clients w)" "j < length (clients w)"
      | "i < length (clients w)" "j = length (clients w)"
      using ij(1-3) by (auto simp: less_Suc_eq)
    then show ?thesis
    proof cases
      case 1
      then show ?thesis using players_okD(1) [OF ok 1 ij(3)] ij(4,5) n by simp
    next
      case 2
      then show ?thesis using f [of j] ij(5) n new(1) by auto
    next
      case 3
      then show ?thesis using f [of i] ij(4) n new(1) by auto
    qed
  qed
  have 2: "b \<in> registered (arrive c a w) s \<longleftrightarrow> (\<exists>i < Suc (length (clients w)).
      cl_addr (clients (arrive c a w) ! i) = b \<and> plays_at (cl_phase (clients (arrive c a w) ! i)) = Some s)"
    if "s < length (sources w)" for s b
    using players_okD(2) [OF ok that, of b] n new(1) unfolding registered_def new(3)
    by (auto simp: less_Suc_eq)
  show ?thesis unfolding players_ok_def new(2,3) using 1 2 by blast
qed


lemma players_ok_serve:
  assumes ok: "players_ok w" and w: "world_ok w" and i: "i < length (clients w)"
    and run: "serve_step reform i w = Some w'"
  shows "players_ok w'"
proof -
  note same = players_ok_same [OF ok w]
  note bound = world_okD(4) [OF w i]
  note go = same_players_goto [OF i] and trans = same_players_trans
  show ?thesis
  proof (cases "cl_phase (clients w ! i)")
    case Arrived
    have "same_players w w'"
      using run Arrived by (auto simp: serve_step_def Let_def split: option.splits intro!: go)
    then show ?thesis by (rule same)
  next
    case Absent
    let ?w = "w\<lparr>sources := sources w @ [newStreamSource (Some (newPublisher i (streamKey (cl_conn (clients w ! i)))))
        (streamKey (cl_conn (clients w ! i)))],
        streamMap := (streamMap w)(streamKey (cl_conn (clients w ! i)) \<mapsto> length (sources w))\<rparr>"
    have "same_players ?w (goto i (Registered (length (sources w))) ?w)"
      by (rule same_players_goto) (use i Absent in auto)
    from same [OF trans [OF same_players_store this]] show ?thesis
      using run Absent by (simp add: serve_step_def Let_def)
  next
    case (Loaded s)
    have "same_players w w'"
      using run Loaded by (auto simp: serve_step_def Let_def intro!: go)
    then show ?thesis by (rule same)
  next
    case (Vacant s)
    let ?w = "upd_source s (setPublisher (newPublisher i (streamKey (cl_conn (clients w ! i))))) w"
    have 1: "same_players w ?w" by (rule same_players_source) (simp add: setPublisher_def)
    have "same_players ?w (goto i (Registered s) ?w)"
      by (rule same_players_goto) (use i Vacant in auto)
    from same [OF trans [OF 1 this]] show ?thesis using run Vacant by (simp add: serve_step_def Let_def)
  next
    case (Registered s)
    have "same_players w w'"
      using run Registered same_players_other(1) go
      by (auto simp: serve_step_def Let_def doPublishing_def split: option.splits)
    then show ?thesis by (rule same)
  next
    case (Publishing s k)
    obtain r c' ss' where p: "publishOne (cl_conn (clients w ! k)) (sources w ! s) = (r, c', ss')"
      by (metis prod_cases3)
    have sk: "s < length (sources w)" "k < length (clients w)" using bound Publishing by simp_all
    let ?w1 = "upd_source s (\<lambda>_. ss') w"
    let ?w2 = "upd_client k (\<lambda>cl. cl\<lparr>cl_conn := c'\<rparr>) ?w1"
    have "same_players w ?w1"
      by (rule same_players_source)
        (use source_ok_publish [OF world_okD(6) [OF w sk(1)] world_okD(3) [OF w sk(2)] p] in blast)
    then have 2: "same_players w ?w2" by (rule trans) (rule same_players_conn)
    have 3: "same_players ?w2 (goto i (Leaving s) ?w2)"
      by (rule same_players_goto) (use i Publishing in auto)
    have 4: "same_players ?w2 (?w2\<lparr>crashed := True\<rparr>)" by (rule same_players_other)
    show ?thesis using run Publishing same [OF 2] same [OF trans [OF 2 3]] same [OF trans [OF 2 4]]
      by (cases r) (auto simp: serve_step_def Let_def publish_message_def p)
  next
    case (Leaving s)
    let ?w = "upd_source s (\<lambda>ss. ss\<lparr>ss_publisher := None\<rparr>) w"
    have 1: "same_players w ?w" by (rule same_players_source) simp
    have 2: "same_players ?w (delPublisher s w)" unfolding delPublisher_def by (rule same_players_other)
    have "same_players (delPublisher s w) (goto i Gone (delPublisher s w))"
      by (rule same_players_goto) (use i Leaving in \<open>auto simp: delPublisher_def\<close>)
    from same [OF trans [OF trans [OF 1 2] this]] show ?thesis
      using run Leaving by (simp add: serve_step_def Let_def)
  next
    case (Found s)
    then show ?thesis using run players_ok_subscribe(1) [OF ok i Found] bound
      by (simp add: serve_step_def Let_def)
  next
    case (Playing s)
    let ?a = "cl_addr (clients w ! i)"
    obtain r sub' where b: "Option.bind (map_of (subscribers (sources w ! s)) ?a) (playOne reform) = Some (r, sub')"
      using run Playing by (auto simp: serve_step_def Let_def play_message_def split: option.splits)
    then have r: "w' = (let w1 = upd_source s (put_subscriber ?a sub') w
        in case r of Ok _ \<Rightarrow> w1 | Err e \<Rightarrow> goto i (Stopped s) w1 | Panic p \<Rightarrow> w1\<lparr>crashed := True\<rparr>)"
      using run Playing by (simp add: serve_step_def Let_def play_message_def)
    let ?w1 = "upd_source s (put_subscriber ?a sub') w"
    have 1: "same_players w ?w1" by (rule same_players_source) (rule map_fst_put)
    have 2: "same_players ?w1 (goto i (Stopped s) ?w1)" by (rule same_players_goto) (use i Playing in auto)
    have 3: "same_players ?w1 (?w1\<lparr>crashed := True\<rparr>)" by (rule same_players_other)
    show ?thesis using r same [OF 1] same [OF trans [OF 1 2]] same [OF trans [OF 1 3]]
      by (cases r) (simp_all add: Let_def)
  next
    case (Stopped s)
    then show ?thesis using run players_ok_unsubscribe [OF ok i Stopped] bound
      by (simp add: serve_step_def Let_def)
  next
    case Gone
    then show ?thesis using run by (simp add: serve_step_def Let_def)
  qed
qed

lemma players_ok_timer:
  assumes ok: "players_ok w" and w: "world_ok w" and run: "timer_step j w = Some w'"
  shows "players_ok w'"
proof -
  obtain s ph where t: "timers w ! j = (s, ph)" by fastforce
  let ?w = "upd_source s (\<lambda>ss. ss\<lparr>stopPublish := stopPublish ss + 1\<rparr>) w"
  have "same_players w ?w" by (rule same_players_source) simp
  note src = same_players_trans [OF this same_players_other(2)]
  note both = same_players_trans [OF same_players_other(3) same_players_other(2)]
  have "same_players w w'"
    using run src both same_players_other(2)
    by (cases ph) (auto simp: timer_step_def Let_def t split: if_splits)
  then show ?thesis by (rule players_ok_same [OF ok w])
qed

lemma players_ok_step: "step reform w w' \<Longrightarrow> world_ok w \<Longrightarrow> players_ok w \<Longrightarrow> players_ok w'"
  by (elim step_cases) (auto intro: players_ok_arrive players_ok_serve players_ok_timer)

lemma players_ok_reachable: "reachable reform w \<Longrightarrow> players_ok w"
proof (induction rule: reachable.induct)
  case reach_start
  then show ?case by (simp add: players_ok_def start_world_def)
next
  case (reach_step w w')
  then show ?case by (blast intro: players_ok_step world_ok_reachable)
qed

section \<open>Runs\<close>

text \<open>A schedule names who moves next; a run of it fails when the one named cannot move.\<close>

datatype action = Arrive conn string | Serve nat | Timer nat

fun act :: "(u8 list \<Rightarrow> u8 list res) \<Rightarrow> action \<Rightarrow> world \<Rightarrow> world option" where
  "act reform (Arrive c a) w = (if \<not> crashed w \<and> fresh_addr a w then Some (arrive c a w) else None)"
| "act reform (Serve i) w =
     (if \<not> crashed w \<and> i < length (clients w) then serve_step reform i w else None)"
| "act reform (Timer j) w =
     (if \<not> crashed w \<and> j < length (timers w) then timer_step j w else None)"

fun run :: "(u8 list \<Rightarrow> u8 list res) \<Rightarrow> action list \<Rightarrow> world \<Rightarrow> world option" where
  "run reform [] w = Some w"
| "run reform (a # as) w = Option.bind (act reform a w) (run reform as)"

definition arrivals_ok :: "action list \<Rightarrow> bool" where
  "arrivals_ok as \<longleftrightarrow> (\<forall>c a. Arrive c a \<in> set as \<longrightarrow> conn_inv c)"

lemma act_step:
  "act reform a w = Some w' \<Longrightarrow> arrivals_ok [a] \<Longrightarrow> step reform w w'"
  by (cases a) (auto simp: arrivals_ok_def split: if_splits intro: step.intros)

lemma run_reachable:
  "run reform as w = Some w' \<Longrightarrow> arrivals_ok as \<Longrightarrow> reachable reform w \<Longrightarrow> reachable reform w'"
proof (induction as arbitrary: w)
  case Nil
  then show ?case by simp
next
  case (Cons a as)
  then obtain w1 where 1: "act reform a w = Some w1" "run reform as w1 = Some w'"
    by (auto simp: bind_eq_Some_conv)
  have "arrivals_ok [a]" "arrivals_ok as" using Cons.prems(2) by (auto simp: arrivals_ok_def)
  with 1 Cons show ?case by (blast intro: reach_step act_step)
qed

text \<open>Connections after their set-up, whose peer sends nothing more.\<close>

definition demo_client :: "bool \<Rightarrow> conn" where
  "demo_client publishes =
     (Server [] EOF None)\<lparr>basicHdrBuf := 3, isPublisher := publishes,
                         streamKey := genStreamKey ''v'' ''live'' ''a''\<rparr>"

lemma demo_client_ok: "conn_inv (demo_client b)"
  by (simp add: demo_client_def Server_def zero_conn_def conn_inv_def)

text \<open>A publisher starts, a player joins.\<close>

definition demo_join :: "action list" where
  "demo_join = [Arrive (demo_client True) ''p'', Serve 0, Serve 0, Serve 0,
                Arrive (demo_client False) ''q'', Serve 1]"

lemma demo_join_ok: "arrivals_ok demo_join"
  by (simp add: arrivals_ok_def demo_join_def demo_client_ok)

lemma demo_join_run:
  "case run Ok demo_join start_world of
     Some w \<Rightarrow> \<not> crashed w \<and> map cl_phase (clients w) = [Publishing 0 0, Found 0] | None \<Rightarrow> False"
  by code_simp

section \<open>The world stays well-formed\<close>

text \<open>C6: Whatever the goroutines of the server do, in any order: every source named by the map, a
  goroutine or a timer exists, the map leads from a key to a source of that key, no queue is
  overfull, no address is registered twice at a source, the connections keep their invariant, and the
  addresses registered at a source are exactly those of the live connections that play it.\<close>

theorem server_well_formed:
  assumes "reachable reform w"
  shows "world_ok w \<and> players_ok w"
  using world_ok_reachable [OF assms] players_ok_reachable [OF assms] by simp


text \<open>A player that found a source is never refused: its address is not registered yet, so
  \<open>addSubscriber\<close> (streamSource.go) accepts it and it goes on to play. The refusal in \<open>Serve\<close> is
  dead code while remote addresses are unique.\<close>

theorem player_never_refused:
  assumes "reachable reform w" and "i < length (clients w)" and "cl_phase (clients w ! i) = Found s"
  shows "\<exists>w'. serve_step reform i w = Some w' \<and> cl_phase (clients w' ! i) = Playing s"
proof -
  have "s < length (sources w)"
    using world_okD(4) [OF world_ok_reachable [OF assms(1)] assms(2)] assms(3) by simp
  from players_ok_subscribe(2) [OF players_ok_reachable [OF assms(1)] assms(2,3) this]
  show ?thesis using assms(3) by (simp add: serve_step_def Let_def)
qed

lemma run_demo:
  assumes "case run reform as start_world of Some w \<Rightarrow> P w | None \<Rightarrow> False" and "arrivals_ok as"
  obtains w where "reachable reform w" and "P w"
proof -
  obtain w where w: "run reform as start_world = Some w" using assms(1) by (cases "run reform as start_world") auto
  show ?thesis by (rule that [OF run_reachable [OF w assms(2) reach_start]]) (use assms(1) w in simp)
qed

lemma demo_joined:
  obtains w where "reachable Ok w" and "\<not> crashed w" and "length (clients w) = 2"
    and "cl_phase (clients w ! 0) = Publishing 0 0" and "cl_phase (clients w ! 1) = Found 0"
proof -
  obtain w where w: "reachable Ok w" "\<not> crashed w \<and> map cl_phase (clients w) = [Publishing 0 0, Found 0]"
    by (rule run_demo [OF demo_join_run demo_join_ok])
  obtain c d where cd: "clients w = [c, d]" "cl_phase c = Publishing 0 0" "cl_phase d = Found 0"
    using w(2) by (auto simp: map_eq_Cons_conv)
  show ?thesis by (rule that [OF w(1)]) (use w(2) cd in simp_all)
qed

theorem server_well_formed_witness:
  "\<exists>w. cl_phase (clients w ! 1) = Found 0 \<and> world_ok w \<and> players_ok w"
proof -
  obtain w where w: "reachable Ok w" "cl_phase (clients w ! 1) = Found 0" by (rule demo_joined)
  show ?thesis by (rule exI [of _ w], rule conjI [OF w(2) server_well_formed [OF w(1)]])
qed


theorem player_never_refused_witness:
  "\<exists>w w'. cl_phase (clients w ! 1) = Found 0 \<and> serve_step Ok 1 w = Some w'
     \<and> cl_phase (clients w' ! 1) = Playing 0"
proof -
  obtain w where w: "reachable Ok w" "length (clients w) = 2" "cl_phase (clients w ! 1) = Found 0"
    by (rule demo_joined)
  have "\<exists>w'. serve_step Ok 1 w = Some w' \<and> cl_phase (clients w' ! 1) = Playing 0"
    by (rule player_never_refused [OF w(1) _ w(3)]) (simp add: w(2))
  then show ?thesis using w(3) by blast
qed

end
