(* ===== verification/StreamLocked.thy ===== *)
theory StreamLocked
  imports StreamProps
begin

text \<open>
  The server as it would be if the set-up of a publisher and the function of a timer held one lock from
  their \<open>Load\<close> to their last write: a goroutine takes a step between these two points only while no
  other one is between them. Everything else runs freely. Under this discipline a key has one
  publisher, and the races of the code as it is cannot happen.
\<close>

section \<open>The discipline\<close>

fun in_section :: "phase \<Rightarrow> bool" where
  "in_section Absent = True"
| "in_section (Loaded s) = True"
| "in_section (Vacant s) = True"
| "in_section _ = False"

fun timer_in_section :: "timer_phase \<Rightarrow> bool" where
  "timer_in_section (Checking s) = True"
| "timer_in_section Deleting = True"
| "timer_in_section _ = False"

text \<open>The goroutines inside, connections on the left and timers on the right.\<close>

definition inside :: "world \<Rightarrow> (nat + nat) set" where
  "inside w =
     Inl ` {i. i < length (clients w) \<and> in_section (cl_phase (clients w ! i))}
     \<union> Inr ` {j. j < length (timers w) \<and> timer_in_section (snd (timers w ! j))}"

inductive locked_step :: "(u8 list \<Rightarrow> u8 list res) \<Rightarrow> world \<Rightarrow> world \<Rightarrow> bool" for reform where
  locked_arrive:
    "\<not> crashed w \<Longrightarrow> conn_inv c \<Longrightarrow> fresh_addr a w \<Longrightarrow> locked_step reform w (arrive c a w)"
| locked_serve:
    "\<not> crashed w \<Longrightarrow> i < length (clients w) \<Longrightarrow> serve_step reform i w = Some w' \<Longrightarrow>
     (cl_phase (clients w ! i) = Arrived \<or> in_section (cl_phase (clients w ! i)) \<longrightarrow> inside w \<subseteq> {Inl i}) \<Longrightarrow>
     locked_step reform w w'"
| locked_timer:
    "\<not> crashed w \<Longrightarrow> j < length (timers w) \<Longrightarrow> timer_step j w = Some w' \<Longrightarrow>
     (snd (timers w ! j) = Sleeping \<or> timer_in_section (snd (timers w ! j)) \<longrightarrow> inside w \<subseteq> {Inr j}) \<Longrightarrow>
     locked_step reform w w'"

inductive locked_reachable :: "(u8 list \<Rightarrow> u8 list res) \<Rightarrow> world \<Rightarrow> bool" for reform where
  locked_start: "locked_reachable reform start_world"
| locked_more: "locked_reachable reform w \<Longrightarrow> locked_step reform w w' \<Longrightarrow> locked_reachable reform w'"

inductive_cases locked_step_cases: "locked_step reform w w'"

lemma locked_step_step: "locked_step reform w w' \<Longrightarrow> step reform w w'"
  by (erule locked_step_cases) (auto intro: step.intros)

lemma world_ok_locked: "locked_reachable reform w \<Longrightarrow> world_ok w"
proof (induction rule: locked_reachable.induct)
  case locked_start
  then show ?case by (rule world_ok_reachable [OF reach_start])
next
  case (locked_more w w')
  then show ?case by (blast intro: world_ok_step locked_step_step)
qed

section \<open>The invariant\<close>

definition owns :: "world \<Rightarrow> nat \<Rightarrow> nat \<Rightarrow> bool" where
  "owns w i s \<longleftrightarrow>
     (\<exists>p. ss_publisher (sources w ! s) = Some p \<and> pubConn p = i)
     \<and> streamMap w (ss_streamKey (sources w ! s)) = Some s"

definition client_locked :: "world \<Rightarrow> nat \<Rightarrow> bool" where
  "client_locked w i =
     (case cl_phase (clients w ! i) of
        Absent \<Rightarrow> streamMap w (streamKey (cl_conn (clients w ! i))) = None
      | Loaded s \<Rightarrow> streamMap w (ss_streamKey (sources w ! s)) = Some s
      | Vacant s \<Rightarrow> streamMap w (ss_streamKey (sources w ! s)) = Some s \<and> ss_publisher (sources w ! s) = None
      | Registered s \<Rightarrow> owns w i s
      | Publishing s k \<Rightarrow> k = i \<and> owns w i s
      | Leaving s \<Rightarrow> owns w i s
      | _ \<Rightarrow> True)"

definition timer_locked :: "world \<Rightarrow> nat \<times> timer_phase \<Rightarrow> bool" where
  "timer_locked w t =
     (case snd t of
        Checking s' \<Rightarrow> streamMap w (ss_streamKey (sources w ! fst t)) = Some s'
      | Deleting \<Rightarrow>
          (\<exists>s'. streamMap w (ss_streamKey (sources w ! fst t)) = Some s' \<and> ss_publisher (sources w ! s') = None)
      | _ \<Rightarrow> True)"

definition locked_ok :: "world \<Rightarrow> bool" where
  "locked_ok w \<longleftrightarrow>
     (\<forall>i < length (clients w). client_locked w i)
     \<and> (\<forall>j < length (timers w). timer_locked w (timers w ! j))
     \<and> (\<exists>g. inside w \<subseteq> {g})"

lemma locked_okD:
  assumes "locked_ok w"
  shows "i < length (clients w) \<Longrightarrow> client_locked w i"
    and "j < length (timers w) \<Longrightarrow> timer_locked w (timers w ! j)"
  using assms by (auto simp: locked_ok_def)

lemma not_inside:
  "inside w \<subseteq> {g} \<Longrightarrow> j < length (clients w) \<Longrightarrow> Inl j \<noteq> g \<Longrightarrow> \<not> in_section (cl_phase (clients w ! j))"
  "inside w \<subseteq> {g} \<Longrightarrow> j < length (timers w) \<Longrightarrow> Inr j \<noteq> g \<Longrightarrow> \<not> timer_in_section (snd (timers w ! j))"
  by (auto simp: inside_def)

lemma timer_locked_outside: "\<not> timer_in_section (snd t) \<Longrightarrow> timer_locked w t"
  by (cases "snd t") (auto simp: timer_locked_def)

text \<open>A client keeps its part of the invariant when what it relies on stays.\<close>

definition relies :: "world \<Rightarrow> world \<Rightarrow> bool" where
  "relies w w' \<longleftrightarrow> streamMap w' = streamMap w
     \<and> (\<forall>s < length (sources w). ss_streamKey (sources w' ! s) = ss_streamKey (sources w ! s)
          \<and> ss_publisher (sources w' ! s) = ss_publisher (sources w ! s))"

lemma client_locked_relies:
  assumes "relies w w'" and "world_ok w" and "j < length (clients w)" and "client_locked w j"
    and "cl_phase (clients w' ! j) = cl_phase (clients w ! j)"
    and "cl_phase (clients w ! j) = Absent \<Longrightarrow> cl_conn (clients w' ! j) = cl_conn (clients w ! j)"
  shows "client_locked w' j"
  using assms world_okD(4) [OF assms(2,3)]
  by (cases "cl_phase (clients w ! j)") (simp_all add: client_locked_def relies_def owns_def)

lemma timer_locked_relies:
  assumes "relies w w'" and "world_ok w" and "timer_ok (length (sources w)) t" and "timer_locked w t"
  shows "timer_locked w' t"
proof (cases "snd t")
  case (Checking s')
  then show ?thesis using assms by (cases t) (auto simp: timer_locked_def relies_def)
next
  case Deleting
  then obtain s' where s': "streamMap w (ss_streamKey (sources w ! fst t)) = Some s'"
    "ss_publisher (sources w ! s') = None" using assms(4) by (auto simp: timer_locked_def)
  then have "s' < length (sources w)" using world_okD(1) [OF assms(2)] by blast
  then show ?thesis using s' Deleting assms(1,3) by (cases t) (auto simp: timer_locked_def relies_def)
qed (auto simp: timer_locked_def)

section \<open>The steps keep it\<close>

lemma locked_ok_client:
  assumes ok: "locked_ok w" and i: "i < length (clients w)"
    and len: "length (clients w') = length (clients w)" and t: "timers w' = timers w"
    and other: "\<And>j. j < length (clients w) \<Longrightarrow> j \<noteq> i \<Longrightarrow>
        cl_phase (clients w' ! j) = cl_phase (clients w ! j) \<and> client_locked w' j"
    and tstay: "\<And>j. j < length (timers w) \<Longrightarrow> timer_locked w' (timers w ! j)"
    and self: "client_locked w' i"
    and sect: "in_section (cl_phase (clients w' ! i)) \<Longrightarrow> inside w \<subseteq> {Inl i}"
  shows "locked_ok w'"
proof -
  have "client_locked w' j" if "j < length (clients w)" for j
    using that other self by (cases "j = i") auto
  moreover have sub: "inside w' \<subseteq> insert (Inl i) (inside w)"
    using other by (auto simp: inside_def len t)
  have "\<exists>g. inside w' \<subseteq> {g}"
  proof (cases "in_section (cl_phase (clients w' ! i))")
    case True
    with sect sub show ?thesis by blast
  next
    case False
    then have "Inl i \<notin> inside w'" by (auto simp: inside_def)
    with sub have "inside w' \<subseteq> inside w" by blast
    with ok show ?thesis unfolding locked_ok_def by blast
  qed
  ultimately show ?thesis unfolding locked_ok_def len t using tstay by blast
qed

lemma locked_ok_timer:
  assumes ok: "locked_ok w" and j: "j < length (timers w)" and c: "clients w' = clients w"
    and t: "timers w' = (timers w)[j := (s, ph)]"
    and cstay: "\<And>i. i < length (clients w) \<Longrightarrow> client_locked w' i"
    and other: "\<And>k. k < length (timers w) \<Longrightarrow> k \<noteq> j \<Longrightarrow> timer_locked w' (timers w ! k)"
    and self: "timer_locked w' (s, ph)"
    and sect: "timer_in_section ph \<Longrightarrow> inside w \<subseteq> {Inr j}"
  shows "locked_ok w'"
proof -
  have nth: "timers w' ! k = (if k = j then (s, ph) else timers w ! k)" if "k < length (timers w)" for k
    using that j by (simp add: t)
  have len: "length (timers w') = length (timers w)" by (simp add: t)
  have "timer_locked w' (timers w' ! k)" if "k < length (timers w)" for k
    using that other self nth by simp
  moreover have sub: "inside w' \<subseteq> insert (Inr j) (inside w)"
    using nth by (auto simp: inside_def c len split: if_splits)
  have "\<exists>g. inside w' \<subseteq> {g}"
  proof (cases "timer_in_section ph")
    case True
    with sect sub show ?thesis by blast
  next
    case False
    then have "Inr j \<notin> inside w'" using nth [OF j] by (auto simp: inside_def)
    with sub have "inside w' \<subseteq> inside w" by blast
    with ok show ?thesis unfolding locked_ok_def by blast
  qed
  ultimately show ?thesis unfolding locked_ok_def len c using cstay by blast
qed

text \<open>A step of connection \<open>i\<close> that touches neither the map nor a publisher.\<close>

lemma locked_ok_quiet:
  assumes ok: "locked_ok w" and w: "world_ok w" and i: "i < length (clients w)"
    and len: "length (clients w') = length (clients w)" and t: "timers w' = timers w"
    and r: "relies w w'"
    and other: "\<And>j. j < length (clients w) \<Longrightarrow> j \<noteq> i \<Longrightarrow> clients w' ! j = clients w ! j"
    and self: "client_locked w' i"
    and sect: "in_section (cl_phase (clients w' ! i)) \<Longrightarrow> inside w \<subseteq> {Inl i}"
  shows "locked_ok w'"
proof (rule locked_ok_client [OF ok i len t])
  fix j assume "j < length (clients w)" "j \<noteq> i"
  with other [of j] client_locked_relies [OF r w, of j] locked_okD(1) [OF ok, of j]
  show "cl_phase (clients w' ! j) = cl_phase (clients w ! j) \<and> client_locked w' j" by simp
next
  fix j assume "j < length (timers w)"
  then show "timer_locked w' (timers w ! j)"
    using timer_locked_relies [OF r w world_okD(5) [OF w]] locked_okD(2) [OF ok] by blast
qed (use self sect in auto)

text \<open>The owner of a source is the only one.\<close>

lemma owner_unique: "owns w i s \<Longrightarrow> owns w j s \<Longrightarrow> i = j"
  by (auto simp: owns_def)

lemma locked_store:
  assumes ok: "locked_ok w" and w: "world_ok w" and i: "i < length (clients w)"
    and ph: "cl_phase (clients w ! i) = Absent" and lock: "inside w \<subseteq> {Inl i}"
    and key: "key = streamKey (cl_conn (clients w ! i))"
    and w': "w' = goto i (Registered (length (sources w)))
      (w\<lparr>sources := sources w @ [newStreamSource (Some (newPublisher i key)) key],
         streamMap := (streamMap w)(key \<mapsto> length (sources w))\<rparr>)"
  shows "locked_ok w'"
proof (rule locked_ok_client [OF ok i])
  have none: "streamMap w key = None"
    using locked_okD(1) [OF ok i] ph key by (simp add: client_locked_def)
  fix j assume j: "j < length (clients w)" "j \<noteq> i"
  then have "\<not> in_section (cl_phase (clients w ! j))" using not_inside(1) [OF lock] by blast
  then show "cl_phase (clients w' ! j) = cl_phase (clients w ! j) \<and> client_locked w' j"
    using locked_okD(1) [OF ok j(1)] world_okD(4) [OF w j(1)] none j
    by (cases "cl_phase (clients w ! j)") (auto simp: client_locked_def w' owns_def nth_append)
next
  fix j assume "j < length (timers w)"
  then show "timer_locked w' (timers w ! j)"
    using not_inside(2) [OF lock] timer_locked_outside by blast
next
  show "client_locked w' i"
    using i by (simp add: client_locked_def w' owns_def newStreamSource_def newPublisher_def)
qed (use i in \<open>auto simp: w'\<close>)

lemma locked_set:
  assumes ok: "locked_ok w" and w: "world_ok w" and i: "i < length (clients w)"
    and ph: "cl_phase (clients w ! i) = Vacant s" and lock: "inside w \<subseteq> {Inl i}"
    and w': "w' = goto i (Registered s) (upd_source s (setPublisher (newPublisher i key)) w)"
  shows "locked_ok w'"
proof (rule locked_ok_client [OF ok i])
  have s: "s < length (sources w)" using world_okD(4) [OF w i] ph by simp
  have v: "streamMap w (ss_streamKey (sources w ! s)) = Some s" "ss_publisher (sources w ! s) = None"
    using locked_okD(1) [OF ok i] ph by (simp_all add: client_locked_def)
  {
    fix j assume j: "j < length (clients w)" "j \<noteq> i"
    then have "\<not> in_section (cl_phase (clients w ! j))" using not_inside(1) [OF lock] by blast
    then show "cl_phase (clients w' ! j) = cl_phase (clients w ! j) \<and> client_locked w' j"
      using locked_okD(1) [OF ok j(1)] world_okD(4) [OF w j(1)] v j
      by (cases "cl_phase (clients w ! j)") (auto simp: client_locked_def w' owns_def setPublisher_def)
  next
    fix j assume "j < length (timers w)"
    then show "timer_locked w' (timers w ! j)"
      using not_inside(2) [OF lock] timer_locked_outside by blast
  next
    show "client_locked w' i"
      using i s v by (simp add: client_locked_def w' owns_def setPublisher_def newPublisher_def)
  }
qed (use i in \<open>auto simp: w'\<close>)

lemma locked_leave:
  assumes ok: "locked_ok w" and w: "world_ok w" and i: "i < length (clients w)"
    and ph: "cl_phase (clients w ! i) = Leaving s"
  shows "locked_ok (goto i Gone (delPublisher s w))"
proof -
  let ?w1 = "goto i Gone (upd_source s (\<lambda>ss. ss\<lparr>ss_publisher := None\<rparr>) w)"
  have s: "s < length (sources w)" using world_okD(4) [OF w i] ph by simp
  have own: "owns w i s" using locked_okD(1) [OF ok i] ph by (simp add: client_locked_def)
  have 1: "locked_ok ?w1"
  proof (rule locked_ok_client [OF ok i])
    fix j assume j: "j < length (clients w)" "j \<noteq> i"
    then have "\<not> owns w j s" using owner_unique [OF own] by blast
    then show "cl_phase (clients ?w1 ! j) = cl_phase (clients w ! j) \<and> client_locked ?w1 j"
      using locked_okD(1) [OF ok j(1)] world_okD(4) [OF w j(1)] j
      by (cases "cl_phase (clients w ! j)") (auto simp: client_locked_def owns_def)
  next
    fix j assume j: "j < length (timers w)"
    show "timer_locked ?w1 (timers w ! j)"
      using locked_okD(2) [OF ok j] world_okD(5) [OF w j] s world_okD(1) [OF w]
      by (cases "timers w ! j"; cases "snd (timers w ! j)") (fastforce simp: timer_locked_def)+
  qed (use i in \<open>auto simp: client_locked_def\<close>)
  have eq: "goto i Gone (delPublisher s w) = ?w1\<lparr>timers := timers w @ [(s, Sleeping)]\<rparr>"
    by (simp add: delPublisher_def upd_client_def)
  have "inside (goto i Gone (delPublisher s w)) = inside ?w1"
    unfolding eq by (auto simp: inside_def nth_append less_Suc_eq)
  moreover have "client_locked (goto i Gone (delPublisher s w)) = client_locked ?w1"
    "timer_locked (goto i Gone (delPublisher s w)) = timer_locked ?w1"
    unfolding eq by (auto simp: client_locked_def timer_locked_def owns_def fun_eq_iff split: phase.splits timer_phase.splits)
  ultimately show ?thesis
    using 1 unfolding locked_ok_def eq
    by (auto simp: nth_append less_Suc_eq timer_locked_def)
qed

lemma locked_delete:
  assumes ok: "locked_ok w" and w: "world_ok w" and j: "j < length (timers w)"
    and t: "timers w ! j = (s, Deleting)" and lock: "inside w \<subseteq> {Inr j}"
  shows "locked_ok (timer_goto j Signalling (w\<lparr>streamMap := (streamMap w)(ss_streamKey (sources w ! s) := None)\<rparr>))"
    (is "locked_ok ?w")
proof (rule locked_ok_timer [OF ok j])
  obtain s' where s': "streamMap w (ss_streamKey (sources w ! s)) = Some s'" "ss_publisher (sources w ! s') = None"
    using locked_okD(2) [OF ok j] t by (auto simp: timer_locked_def)
  {
    fix i assume i: "i < length (clients w)"
    then have "\<not> in_section (cl_phase (clients w ! i))" using not_inside(1) [OF lock] by blast
    then show "client_locked ?w i"
      using locked_okD(1) [OF ok i] s'
      by (cases "cl_phase (clients w ! i)") (auto simp: client_locked_def owns_def)
  next
    fix k assume "k < length (timers w)" "k \<noteq> j"
    then show "timer_locked ?w (timers w ! k)"
      using not_inside(2) [OF lock] timer_locked_outside by blast
  }
qed (use t in \<open>auto simp: timer_locked_def\<close>)

text \<open>A step of timer \<open>j\<close> that touches neither the map nor a publisher.\<close>

lemma locked_timer_quiet:
  assumes ok: "locked_ok w" and w: "world_ok w" and j: "j < length (timers w)"
    and c: "clients w' = clients w" and t: "timers w' = (timers w)[j := (s, ph)]" and r: "relies w w'"
    and self: "timer_locked w' (s, ph)" and sect: "timer_in_section ph \<Longrightarrow> inside w \<subseteq> {Inr j}"
  shows "locked_ok w'"
proof (rule locked_ok_timer [OF ok j c t])
  fix i assume "i < length (clients w)"
  then show "client_locked w' i"
    using client_locked_relies [OF r w] locked_okD(1) [OF ok] c by simp
next
  fix k assume "k < length (timers w)"
  then show "timer_locked w' (timers w ! k)"
    using timer_locked_relies [OF r w world_okD(5) [OF w]] locked_okD(2) [OF ok] by blast
qed (use self sect in auto)

lemma relies_source:
  "ss_publisher (f (sources w ! s)) = ss_publisher (sources w ! s) \<Longrightarrow>
   ss_streamKey (f (sources w ! s)) = ss_streamKey (sources w ! s) \<Longrightarrow> relies w (upd_source s f w)"
  by (auto simp: relies_def)

lemma locked_serve_step:
  assumes ok: "locked_ok w" and w: "world_ok w" and i: "i < length (clients w)"
    and run: "serve_step reform i w = Some w'"
    and lock: "cl_phase (clients w ! i) = Arrived \<or> in_section (cl_phase (clients w ! i)) \<longrightarrow> inside w \<subseteq> {Inl i}"
  shows "locked_ok w'"
proof (cases "cl_phase (clients w ! i)")
  case Arrived
  have m: "ss_streamKey (sources w ! s) = key" if "streamMap w key = Some s" for key s
    using world_okD(2) [OF w that] .
  show ?thesis
    by (rule locked_ok_quiet [OF ok w i])
      (use run Arrived i lock m in \<open>auto simp: serve_step_def Let_def relies_def client_locked_def split: option.splits\<close>)
next
  case Absent
  then show ?thesis using run lock
    by (intro locked_store [OF ok w i Absent _ refl]) (auto simp: serve_step_def Let_def)
next
  case (Loaded s)
  then show ?thesis using locked_okD(1) [OF ok i]
    by (intro locked_ok_quiet [OF ok w i])
      (use run i lock in \<open>auto simp: serve_step_def Let_def relies_def client_locked_def split: if_splits\<close>)
next
  case (Vacant s)
  then show ?thesis using run lock
    by (intro locked_set [OF ok w i Vacant]) (auto simp: serve_step_def Let_def)
next
  case (Registered s)
  then obtain p where p: "ss_publisher (sources w ! s) = Some p" "pubConn p = i" "owns w i s"
    using locked_okD(1) [OF ok i] by (auto simp: client_locked_def owns_def)
  then have w': "w' = goto i (Publishing s i) w"
    using run Registered by (simp add: serve_step_def Let_def doPublishing_def)
  show ?thesis unfolding w'
    by (rule locked_ok_quiet [OF ok w i]) (use i p(3) in \<open>auto simp: relies_def client_locked_def owns_def\<close>)
next
  case (Publishing s k)
  then have k: "k = i" and own: "owns w i s" using locked_okD(1) [OF ok i] by (simp_all add: client_locked_def)
  obtain r c' ss' where p: "publishOne (cl_conn (clients w ! i)) (sources w ! s) = (r, c', ss')"
    by (metis prod_cases3)
  note f = publishOne_frame [OF p]
  let ?w2 = "upd_client i (\<lambda>cl. cl\<lparr>cl_conn := c'\<rparr>) (upd_source s (\<lambda>_. ss') w)"
  have r1: "relies w (upd_source s (\<lambda>_. ss') w)" by (rule relies_source) (simp_all add: f)
  then have r2: "relies w ?w2" by (simp add: relies_def)
  have s: "s < length (sources w)" using world_okD(4) [OF w i] Publishing by simp
  have "w' = ?w2 \<or> w' = goto i (Leaving s) ?w2 \<or> w' = ?w2\<lparr>crashed := True\<rparr>"
    using run Publishing k by (auto simp: serve_step_def Let_def publish_message_def p split: publish_step.splits)
  moreover have "clients ?w2 ! j = clients w ! j" if "j < length (clients w)" "j \<noteq> i" for j
    using that by simp
  moreover have "client_locked ?w2 i" "client_locked (goto i (Leaving s) ?w2) i"
    "client_locked (?w2\<lparr>crashed := True\<rparr>) i"
    using i own Publishing k s f by (auto simp: client_locked_def owns_def)
  moreover have "relies w (goto i (Leaving s) ?w2)" "relies w (?w2\<lparr>crashed := True\<rparr>)"
    using r2 by (simp_all add: relies_def)
  ultimately show ?thesis
    using Publishing i r2 by (elim disjE) (rule locked_ok_quiet [OF ok w i]; simp)+
next
  case (Leaving s)
  then show ?thesis using run locked_leave [OF ok w i Leaving] by (simp add: serve_step_def Let_def)
next
  case (Found s)
  let ?sub = "newSubscriber (cl_conn (clients w ! i)) (cl_addr (clients w ! i)) 1024"
  obtain b ss' where a: "addSubscriber ?sub (sources w ! s) = (b, ss')" by fastforce
  have "ss_publisher ss' = ss_publisher (sources w ! s)" "ss_streamKey ss' = ss_streamKey (sources w ! s)"
    using a by (auto simp: addSubscriber_def split: if_splits)
  then have r: "relies w (upd_source s (\<lambda>_. ss') w)" by (intro relies_source) simp_all
  have w': "w' = goto i (if b then Playing s else Gone) (upd_source s (\<lambda>_. ss') w)"
    using run Found by (simp add: serve_step_def Let_def subscribe_def a)
  show ?thesis unfolding w'
    by (rule locked_ok_quiet [OF ok w i]) (use i r in \<open>auto simp: relies_def client_locked_def split: if_splits\<close>)
next
  case (Playing s)
  let ?a = "cl_addr (clients w ! i)"
  obtain r sub' where b: "Option.bind (map_of (subscribers (sources w ! s)) ?a) (playOne reform) = Some (r, sub')"
    using run Playing by (auto simp: serve_step_def Let_def play_message_def split: option.splits)
  let ?w1 = "upd_source s (put_subscriber ?a sub') w"
  have "w' = ?w1 \<or> w' = goto i (Stopped s) ?w1 \<or> w' = ?w1\<lparr>crashed := True\<rparr>"
    using run Playing b by (auto simp: serve_step_def Let_def play_message_def split: res.splits)
  moreover have "relies w ?w1" by (rule relies_source) (simp_all add: put_subscriber_def)
  ultimately show ?thesis
    using Playing i by (elim disjE)
      (rule locked_ok_quiet [OF ok w i]; simp add: relies_def client_locked_def)+
next
  case (Stopped s)
  then have "w' = goto i Gone (unsubscribe i s w)" using run by (simp add: serve_step_def Let_def)
  moreover have "relies w (unsubscribe i s w)"
    unfolding unsubscribe_def Let_def by (rule relies_source) (simp_all add: delSubscriber_def)
  ultimately show ?thesis
    using i by (intro locked_ok_quiet [OF ok w i]) (auto simp: relies_def client_locked_def unsubscribe_def Let_def)
next
  case Gone
  then show ?thesis using run by (simp add: serve_step_def Let_def)
qed

lemma locked_timer_step:
  assumes ok: "locked_ok w" and w: "world_ok w" and j: "j < length (timers w)"
    and run: "timer_step j w = Some w'"
    and lock: "snd (timers w ! j) = Sleeping \<or> timer_in_section (snd (timers w ! j)) \<longrightarrow> inside w \<subseteq> {Inr j}"
  shows "locked_ok w'"
proof -
  obtain s ph where t: "timers w ! j = (s, ph)" by fastforce
  have s: "s < length (sources w)" using world_okD(5) [OF w j] t by (cases ph) auto
  show ?thesis
  proof (cases ph)
    case Sleeping
    let ?ph = "case streamMap w (ss_streamKey (sources w ! s)) of None \<Rightarrow> Finished | Some s' \<Rightarrow> Checking s'"
    have w': "w' = timer_goto j ?ph w" using run t Sleeping by (simp add: timer_step_def Let_def)
    show ?thesis unfolding w'
      by (rule locked_timer_quiet [OF ok w j, of _ s ?ph])
        (use t Sleeping lock in \<open>auto simp: relies_def timer_locked_def split: option.splits\<close>)
  next
    case (Checking s')
    let ?ph = "if ss_publisher (sources w ! s') = None then Deleting else Finished"
    have w': "w' = timer_goto j ?ph w" using run t Checking by (simp add: timer_step_def Let_def)
    show ?thesis unfolding w'
      by (rule locked_timer_quiet [OF ok w j, of _ s ?ph])
        (use t Checking lock locked_okD(2) [OF ok j] in \<open>auto simp: relies_def timer_locked_def\<close>)
  next
    case Deleting
    have "inside w \<subseteq> {Inr j}" using lock t Deleting by simp
    from locked_delete [OF ok w j _ this] show ?thesis
      using run t Deleting by (simp add: timer_step_def Let_def)
  next
    case Signalling
    let ?w1 = "upd_source s (\<lambda>ss. ss\<lparr>stopPublish := stopPublish ss + 1\<rparr>) w"
    have w': "w' = timer_goto j Finished ?w1"
      using run t Signalling by (auto simp: timer_step_def Let_def split: if_splits)
    have "relies w ?w1" by (rule relies_source) simp_all
    then show ?thesis unfolding w'
      by (intro locked_timer_quiet [OF ok w j, of _ s Finished]) (use t in \<open>auto simp: relies_def timer_locked_def\<close>)
  next
    case Finished
    then show ?thesis using run t by (simp add: timer_step_def Let_def)
  qed
qed

lemma locked_ok_arrive:
  assumes "locked_ok w"
  shows "locked_ok (arrive c a w)"
proof -
  have "inside (arrive c a w) = inside w"
    by (auto simp: inside_def arrive_def nth_append less_Suc_eq)
  moreover have "client_locked (arrive c a w) i" if "i < Suc (length (clients w))" for i
    using that locked_okD(1) [OF assms, of i]
    by (auto simp: client_locked_def arrive_def nth_append less_Suc_eq owns_def split: phase.splits)
  moreover have "timer_locked (arrive c a w) t = timer_locked w t" for t
    by (auto simp: timer_locked_def arrive_def split: timer_phase.splits)
  ultimately show ?thesis using assms unfolding locked_ok_def by (simp add: arrive_def)
qed

lemma locked_ok_reachable: "locked_reachable reform w \<Longrightarrow> locked_ok w"
proof (induction rule: locked_reachable.induct)
  case locked_start
  then show ?case by (simp add: locked_ok_def inside_def start_world_def)
next
  case (locked_more w w')
  note w = world_ok_locked [OF locked_more.hyps(1)]
  from locked_more.hyps(2) show ?case
    by (rule locked_step_cases)
      (auto intro: locked_ok_arrive locked_serve_step [OF locked_more.IH w] locked_timer_step [OF locked_more.IH w]
        locked_more.IH)
qed

section \<open>One publisher per key\<close>

text \<open>The source at which a connection publishes, from its registration to \<open>delPublisher\<close>.\<close>

fun publishes_at :: "phase \<Rightarrow> nat option" where
  "publishes_at (Registered s) = Some s"
| "publishes_at (Publishing s k) = Some s"
| "publishes_at (Leaving s) = Some s"
| "publishes_at _ = None"

lemma publishes_owns:
  "client_locked w i \<Longrightarrow> publishes_at (cl_phase (clients w ! i)) = Some s \<Longrightarrow> owns w i s"
  by (cases "cl_phase (clients w ! i)") (auto simp: client_locked_def)

text \<open>C7: If the set-up of a publisher and the check-and-delete of a timer ran under one lock, then at
  most one connection would publish a stream key at any time, each would read from its own connection,
  and \<open>doPublishing\<close> would never find the publisher gone.\<close>

theorem locked_one_publisher:
  assumes "locked_reachable reform w" and "i < length (clients w)" and "j < length (clients w)"
    and "publishes_at (cl_phase (clients w ! i)) = Some s" and "publishes_at (cl_phase (clients w ! j)) = Some s'"
    and "ss_streamKey (sources w ! s) = ss_streamKey (sources w ! s')"
  shows "i = j \<and> s = s' \<and> map_option pubConn (ss_publisher (sources w ! s)) = Some i
    \<and> streamMap w (ss_streamKey (sources w ! s)) = Some s"
proof -
  note ok = locked_okD(1) [OF locked_ok_reachable [OF assms(1)]]
  have own: "owns w i s" "owns w j s'"
    using publishes_owns [OF ok [OF assms(2)] assms(4)] publishes_owns [OF ok [OF assms(3)] assms(5)] .
  then have "s = s'" using assms(6) by (auto simp: owns_def)
  then show ?thesis using own owner_unique by (auto simp: owns_def)
qed


section \<open>Timers\<close>

lemma serve_keeps_stop:
  assumes "serve_step reform i w = Some w'" and "s < length (sources w)"
  shows "stopPublish (sources w' ! s) = stopPublish (sources w ! s) \<and> (\<exists>ts. timers w' = timers w @ ts)"
proof (cases "cl_phase (clients w ! i)")
  case (Registered t)
  then show ?thesis using assms by (auto simp: serve_step_def Let_def doPublishing_def split: option.splits)
next
  case (Publishing t k)
  obtain r c' ss' where p: "publishOne (cl_conn (clients w ! k)) (sources w ! t) = (r, c', ss')"
    by (metis prod_cases3)
  show ?thesis using assms Publishing publishOne_frame(3) [OF p]
    by (auto simp: serve_step_def Let_def publish_message_def p split: publish_step.splits)
next
  case (Found t)
  let ?sub = "newSubscriber (cl_conn (clients w ! i)) (cl_addr (clients w ! i)) 1024"
  obtain b ss' where a: "addSubscriber ?sub (sources w ! t) = (b, ss')" by fastforce
  have "stopPublish ss' = stopPublish (sources w ! t)"
    using a by (auto simp: addSubscriber_def split: if_splits)
  then show ?thesis using assms Found by (auto simp: serve_step_def Let_def subscribe_def a)
next
  case (Playing t)
  then show ?thesis using assms
    by (auto simp: serve_step_def Let_def play_message_def put_subscriber_def split: option.splits res.splits)
qed (use assms in \<open>auto simp: serve_step_def Let_def nth_append setPublisher_def delPublisher_def
       unsubscribe_def delSubscriber_def\<close>)

text \<open>A timer that waits to send on a full channel.\<close>

definition blocked :: "world \<Rightarrow> nat \<Rightarrow> bool" where
  "blocked w j \<longleftrightarrow>
     j < length (timers w) \<and> snd (timers w ! j) = Signalling
     \<and> fst (timers w ! j) < length (sources w) \<and> 1 \<le> stopPublish (sources w ! fst (timers w ! j))"

lemma blocked_no_step: "blocked w j \<Longrightarrow> timer_step j w = None"
  by (cases "timers w ! j") (auto simp: blocked_def timer_step_def)

lemma sources_grow:
  "serve_step reform i w = Some w' \<Longrightarrow> length (sources w) \<le> length (sources w')"
  by (auto simp: serve_step_def Let_def doPublishing_def publish_message_def subscribe_def play_message_def
      delPublisher_def unsubscribe_def split: phase.splits option.splits prod.splits publish_step.splits res.splits)

lemma blocked_step:
  assumes "step reform w w'" and "blocked w j"
  shows "blocked w' j"
  using assms(1)
proof (cases rule: step.cases)
  case (step_arrive c a)
  then show ?thesis using assms(2) by (simp add: blocked_def arrive_def)
next
  case (step_serve i)
  have "fst (timers w ! j) < length (sources w)" using assms(2) by (simp add: blocked_def)
  from serve_keeps_stop [OF step_serve(3) this] sources_grow [OF step_serve(3)] assms(2)
  show ?thesis by (auto simp: blocked_def nth_append)
next
  case (step_timer k)
  have "k \<noteq> j" using step_timer(3) blocked_no_step [OF assms(2)] by auto
  then show ?thesis using step_timer(2,3) assms(2)
    by (cases "timers w ! k"; cases "snd (timers w ! k)")
      (auto simp: timer_step_def Let_def blocked_def split: if_splits)
qed

text \<open>C27: The goroutine of \<open>delPublisher\<close> can leak: once the function of a timer waits to send on
  \<open>stopPublish\<close> (streamSource.go) of a source that was already signalled, it waits in every later state
  of the server, whatever happens, since nothing ever receives from that channel.\<close>

theorem timer_blocks_forever:
  assumes "(step reform)\<^sup>*\<^sup>* w w'" and "blocked w j"
  shows "blocked w' j \<and> timer_step j w' = None"
proof -
  have "blocked w' j" using assms by (induction rule: rtranclp_induct) (auto intro: blocked_step)
  then show ?thesis using blocked_no_step by blast
qed

text \<open>The function that \<open>delPublisher\<close> schedules removes an idle source: left to run, it takes the
  key off the map exactly when the source then stored under it has no publisher, and otherwise
  ends without touching the map.\<close>

theorem timer_removes_idle_source:
  assumes "\<not> crashed w" and "j < length (timers w)" and "timers w ! j = (s, Sleeping)"
    and "streamMap w (ss_streamKey (sources w ! s)) = Some s'"
  shows "\<exists>w'. run reform (if ss_publisher (sources w ! s') = None then [Timer j, Timer j, Timer j]
                          else [Timer j, Timer j]) w = Some w'
    \<and> sources w' = sources w \<and> clients w' = clients w
    \<and> streamMap w' = (if ss_publisher (sources w ! s') = None
                      then (streamMap w)(ss_streamKey (sources w ! s) := None) else streamMap w)
    \<and> timers w' ! j = (s, if ss_publisher (sources w ! s') = None then Signalling else Finished)"
  using assms by (simp add: timer_step_def)

section \<open>Examples\<close>

theorem locked_one_publisher_witness:
  "\<exists>w. locked_reachable Ok w \<and> publishes_at (cl_phase (clients w ! 0)) = Some 0
     \<and> map_option pubConn (ss_publisher (sources w ! 0)) = Some 0"
proof -
  let ?w1 = "arrive (demo_client True) ''p'' start_world"
  let ?w2 = "the (serve_step Ok 0 ?w1)"
  let ?w3 = "the (serve_step Ok 0 ?w2)"
  have single: "inside w \<subseteq> {Inl 0}" if "length (clients w) = 1" "timers w = []" for w
    using that by (auto simp: inside_def)
  have 0: "\<not> crashed start_world" "fresh_addr ''p'' start_world" by (simp_all add: start_world_def fresh_addr_def)
  have 1: "\<not> crashed ?w1 \<and> length (clients ?w1) = 1 \<and> timers ?w1 = [] \<and> serve_step Ok 0 ?w1 \<noteq> None"
    by code_simp
  have 2: "\<not> crashed ?w2 \<and> length (clients ?w2) = 1 \<and> timers ?w2 = [] \<and> serve_step Ok 0 ?w2 \<noteq> None"
    by code_simp
  have 3: "length (clients ?w3) = 1 \<and> publishes_at (cl_phase (clients ?w3 ! 0)) = Some 0"
    by code_simp
  have r1: "locked_reachable Ok ?w1"
    by (rule locked_more [OF locked_start locked_arrive [OF 0(1) demo_client_ok 0(2)]])
  have "locked_step Ok ?w1 ?w2" by (rule locked_serve [where i = 0]) (use 1 single [of ?w1] in auto)
  with r1 have r2: "locked_reachable Ok ?w2" by (rule locked_more)
  have "locked_step Ok ?w2 ?w3" by (rule locked_serve [where i = 0]) (use 2 single [of ?w2] in auto)
  with r2 have r3: "locked_reachable Ok ?w3" by (rule locked_more)
  have "map_option pubConn (ss_publisher (sources ?w3 ! 0)) = Some 0"
    using locked_one_publisher [OF r3, of 0 0 0 0] 3 by simp
  with r3 3 show ?thesis by blast
qed

text \<open>
  Two publishers use a source one after the other, the first timer removes it, a third publisher
  starts the stream again and leaves: the second timer removes the new source and blocks.
\<close>

definition demo_leak :: "action list" where
  "demo_leak =
     [Arrive (demo_client True) ''p'', Serve 0, Serve 0, Serve 0, Serve 0, Serve 0,
      Arrive (demo_client True) ''q'', Serve 1, Serve 1, Serve 1, Serve 1, Serve 1, Serve 1,
      Timer 0, Timer 0, Timer 0, Timer 0,
      Arrive (demo_client True) ''r'', Serve 2, Serve 2, Serve 2, Serve 2, Serve 2,
      Timer 1, Timer 1, Timer 1]"

theorem timer_blocks_forever_witness:
  "\<exists>w. reachable Ok w \<and> blocked w 1 \<and> blocked (arrive (demo_client True) ''s'' w) 1"
proof -
  have ok: "arrivals_ok demo_leak" by (auto simp: arrivals_ok_def demo_leak_def demo_client_ok)
  have run: "case run Ok demo_leak start_world of
      Some w \<Rightarrow> \<not> crashed w \<and> fresh_addr ''s'' w \<and> blocked w 1 | None \<Rightarrow> False"
    by code_simp
  obtain w where w: "reachable Ok w" "\<not> crashed w \<and> fresh_addr ''s'' w \<and> blocked w 1"
    by (rule run_demo [OF run ok])
  have "step Ok w (arrive (demo_client True) ''s'' w)"
    using w(2) by (intro step_arrive demo_client_ok) auto
  then have "(step Ok)\<^sup>*\<^sup>* w (arrive (demo_client True) ''s'' w)" by (rule r_into_rtranclp)
  from timer_blocks_forever [OF this, of 1] w show ?thesis by blast
qed

theorem timer_removes_idle_source_witness:
  "\<exists>w w'. reachable Ok w \<and> streamMap w (genStreamKey ''v'' ''live'' ''a'') = Some 0
     \<and> run Ok [Timer 0, Timer 0, Timer 0] w = Some w'
     \<and> streamMap w' (genStreamKey ''v'' ''live'' ''a'') = None"
proof -
  let ?as = "take 6 demo_leak"
  have ok: "arrivals_ok ?as" by (auto simp: arrivals_ok_def demo_leak_def demo_client_ok)
  have run: "case run Ok ?as start_world of
      Some w \<Rightarrow> \<not> crashed w \<and> timers w = [(0, Sleeping)]
        \<and> ss_streamKey (sources w ! 0) = genStreamKey ''v'' ''live'' ''a''
        \<and> streamMap w (genStreamKey ''v'' ''live'' ''a'') = Some 0 \<and> ss_publisher (sources w ! 0) = None
    | None \<Rightarrow> False"
    by code_simp
  obtain w where w: "reachable Ok w" "\<not> crashed w \<and> timers w = [(0, Sleeping)]
        \<and> ss_streamKey (sources w ! 0) = genStreamKey ''v'' ''live'' ''a''
        \<and> streamMap w (genStreamKey ''v'' ''live'' ''a'') = Some 0 \<and> ss_publisher (sources w ! 0) = None"
    by (rule run_demo [OF run ok])
  from timer_removes_idle_source [of w 0 0 0 Ok] w show ?thesis by (auto simp del: run.simps)
qed

end
