(* ===== verification/GoStrings.thy ===== *)
theory GoStrings
  imports Prelude "HOL-Library.Char_ord"
begin

text \<open>
  What the program uses of the packages \<^verbatim>\<open>strconv\<close> and \<^verbatim>\<open>strings\<close>. A Go string is a list of
  bytes, here of characters, which HOL numbers from 0 to 255.
\<close>

section \<open>Numbers in strings\<close>

text \<open>A range of bytes.\<close>

abbreviation within :: "char \<Rightarrow> char \<Rightarrow> char \<Rightarrow> bool" where
  "within lo hi c \<equiv> lo \<le> c \<and> c \<le> hi"

definition digit_value :: "char \<Rightarrow> nat option" where
  "digit_value c =
     (if within (CHR ''0'') (CHR ''9'') c then Some (of_char c - of_char (CHR ''0'')) else None)"

fun parse_digits :: "nat \<Rightarrow> string \<Rightarrow> nat option" where
  "parse_digits n [] = Some n"
| "parse_digits n (c # cs) =
     (case digit_value c of None \<Rightarrow> None | Some d \<Rightarrow> parse_digits (10 * n + d) cs)"

text \<open>
  \<open>strconv.ParseInt(s, 10, 64)\<close>: an optional sign, at least one digit, and a value that fits.
  \<open>strconv.Atoi\<close> accepts the same strings.
\<close>

definition ParseInt :: "string \<Rightarrow> int res" where
  "ParseInt s =
     (let neg = (s \<noteq> [] \<and> hd s = CHR ''-'');
          body = (if s \<noteq> [] \<and> (hd s = CHR ''-'' \<or> hd s = CHR ''+'') then tl s else s)
      in if body = [] then Err (Msg ''invalid syntax'')
         else case parse_digits 0 body of
                None \<Rightarrow> Err (Msg ''invalid syntax'')
              | Some n \<Rightarrow>
                  let v = (if neg then - int n else int n)
                  in if - (2 ^ 63) \<le> v \<and> v < 2 ^ 63 then Ok v
                     else Err (Msg ''value out of range''))"

text \<open>\<open>strconv.Itoa\<close> on the numbers of virtual nodes, which are not negative.\<close>

definition digit :: "nat \<Rightarrow> char" where
  "digit d = char_of (48 + d)"

fun Itoa :: "nat \<Rightarrow> string" where
  "Itoa n = (if n < 10 then [digit n] else Itoa (n div 10) @ [digit (n mod 10)])"

declare Itoa.simps [simp del]

text \<open>\<open>v, _ = strconv.Atoi(s)\<close>: 0 for a string that is no number, the nearest \<open>int\<close> for one that does not
  fit.\<close>

definition Atoi_ignore :: "string \<Rightarrow> int" where
  "Atoi_ignore s =
     (case ParseInt s of
        Ok v \<Rightarrow> v
      | _ \<Rightarrow>
          let neg = (s \<noteq> [] \<and> hd s = CHR ''-'');
              body = (if s \<noteq> [] \<and> (hd s = CHR ''-'' \<or> hd s = CHR ''+'') then tl s else s)
          in if body = [] \<or> parse_digits 0 body = None then 0
             else if neg then - (2 ^ 63) else 2 ^ 63 - 1)"

section \<open>Searching and cutting\<close>

text \<open>\<open>strings.IndexByte\<close> and \<open>strings.LastIndex\<close> of one byte, \<open>None\<close> for -1.\<close>

fun IndexByte :: "char \<Rightarrow> string \<Rightarrow> nat option" where
  "IndexByte c [] = None"
| "IndexByte c (x # xs) = (if x = c then Some 0 else map_option Suc (IndexByte c xs))"

fun LastIndexByte :: "char \<Rightarrow> string \<Rightarrow> nat option" where
  "LastIndexByte c [] = None"
| "LastIndexByte c (x # xs) =
     (case LastIndexByte c xs of
        Some i \<Rightarrow> Some (Suc i)
      | None \<Rightarrow> if x = c then Some 0 else None)"

definition HasPrefix :: "string \<Rightarrow> string \<Rightarrow> bool" where
  "HasPrefix s p \<longleftrightarrow> take (length p) s = p"

text \<open>\<open>strings.Index(s, p)\<close> of a longer pattern.\<close>

fun IndexStr :: "string \<Rightarrow> string \<Rightarrow> nat option" where
  "IndexStr p [] = (if p = [] then Some 0 else None)"
| "IndexStr p (x # xs) =
     (if HasPrefix (x # xs) p then Some 0 else map_option Suc (IndexStr p xs))"

text \<open>\<open>url.split(s, sep, cutc)\<close>.\<close>

definition split_at :: "string \<Rightarrow> char \<Rightarrow> bool \<Rightarrow> string \<times> string" where
  "split_at s sep cutc =
     (case IndexByte sep s of
        None \<Rightarrow> (s, [])
      | Some i \<Rightarrow> (take i s, drop (if cutc then i + 1 else i) s))"

definition ToLower_char :: "char \<Rightarrow> char" where
  "ToLower_char c = (if within (CHR ''A'') (CHR ''Z'') c then char_of (of_char c + 32 :: nat) else c)"

text \<open>\<open>strings.ToLower\<close> on an ASCII string.\<close>

definition ToLower :: "string \<Rightarrow> string" where
  "ToLower = map ToLower_char"

definition TrimByte :: "char \<Rightarrow> string \<Rightarrow> string" where
  "TrimByte c s = rev (dropWhile (\<lambda>x. x = c) (rev (dropWhile (\<lambda>x. x = c) s)))"

lemma digit_value_digit [simp]: "d < 10 \<Longrightarrow> digit_value (digit d) = Some d"
  by (simp add: digit_value_def digit_def less_eq_char_def)

lemma digit_not_sign: "d < 10 \<Longrightarrow> digit d \<noteq> CHR ''-'' \<and> digit d \<noteq> CHR ''+''"
proof -
  assume "d < 10"
  then have "of_char (digit d) = 48 + d" by (simp add: digit_def)
  then have "of_char (digit d) \<ge> (48::nat)" by simp
  then show ?thesis by auto
qed

lemma parse_digits_append:
  "parse_digits n (xs @ ys)
     = (case parse_digits n xs of None \<Rightarrow> None | Some m \<Rightarrow> parse_digits m ys)"
  by (induction xs arbitrary: n) (auto split: option.splits)

lemma parse_digits_Itoa: "parse_digits 0 (Itoa n) = Some n"
proof (induction n rule: Itoa.induct)
  case (1 n)
  then show ?case by (subst Itoa.simps) (auto simp: parse_digits_append)
qed

lemma Itoa_digits: "c \<in> set (Itoa n) \<Longrightarrow> \<exists>d<10. c = digit d"
proof (induction n rule: Itoa.induct)
  case (1 n)
  show ?case
  proof (cases "n < 10")
    case True
    with 1(2) have "c = digit n" by (subst (asm) Itoa.simps) simp
    then show ?thesis using True by blast
  next
    case False
    then have "Itoa n = Itoa (n div 10) @ [digit (n mod 10)]" by (subst Itoa.simps) simp
    with 1(2) have "c \<in> set (Itoa (n div 10)) \<or> c = digit (n mod 10)" by auto
    moreover have "n mod 10 < 10" by simp
    ultimately show ?thesis using 1(1) [OF False] by blast
  qed
qed

lemma Itoa_not_Nil: "Itoa n \<noteq> []"
  by (subst Itoa.simps) simp

lemma ParseInt_Itoa: "n < 2 ^ 63 \<Longrightarrow> ParseInt (Itoa n) = Ok (int n)"
proof -
  assume n: "n < 2 ^ 63"
  obtain x xs where x: "Itoa n = x # xs" using Itoa_not_Nil by (cases "Itoa n") auto
  then obtain d where d: "x = digit d" "d < 10" using Itoa_digits [of x n] by auto
  have "int n < 2 ^ 63" using n by (metis of_nat_less_iff of_nat_numeral of_nat_power)
  then show ?thesis
    using x d digit_not_sign [OF d(2)] parse_digits_Itoa [of n] by (simp add: ParseInt_def Let_def)
qed

lemma Itoa_isdigit: "c \<in> set (Itoa n) \<Longrightarrow> within (CHR ''0'') (CHR ''9'') c"
  by (drule Itoa_digits) (auto simp: digit_def less_eq_char_def)

lemma IndexByte_None [simp]: "IndexByte c s = None \<longleftrightarrow> c \<notin> set s"
  by (induction s) auto

lemma LastIndexByte_None [simp]: "LastIndexByte c s = None \<longleftrightarrow> c \<notin> set s"
  by (induction s) (auto split: option.splits)

lemma IndexByte_append: "c \<notin> set xs \<Longrightarrow> IndexByte c (xs @ c # ys) = Some (length xs)"
  by (induction xs) auto

lemma LastIndexByte_append: "c \<notin> set ys \<Longrightarrow> LastIndexByte c (xs @ c # ys) = Some (length xs)"
  by (induction xs) (auto split: option.splits)

lemma split_at_append:
  "c \<notin> set xs \<Longrightarrow> split_at (xs @ c # ys) c True = (xs, ys)"
  "c \<notin> set xs \<Longrightarrow> split_at (xs @ c # ys) c False = (xs, c # ys)"
  by (simp_all add: split_at_def IndexByte_append)

lemma split_at_none: "c \<notin> set xs \<Longrightarrow> split_at xs c b = (xs, [])"
  by (simp add: split_at_def flip: IndexByte_None)

lemma split_at_concat: "split_at s c False = (a, b) \<Longrightarrow> s = a @ b"
  by (auto simp: split_at_def split: option.splits)

end
