(* ===== verification/Balance.thy ===== *)
theory Balance
  imports GoStrings
begin

text \<open>
  The load balancers of \<^verbatim>\<open>internal/balance\<close> that keep a list of nodes: random, round robin and
  smooth weighted round robin. The contract of the interface \<open>LoadBalance\<close> is the locale
  \<open>load_balance\<close>, which each balancer interprets. \<open>rand.Intn(n)\<close> is a parameter, a function of
  \<open>n\<close> whose result is documented to lie in \<open>[0, n)\<close>. Go's \<open>int\<close> wraps at 64 bits (\<open>i64\<close>) where
  the weighted balancer adds.
\<close>

section \<open>The interface\<close>

text \<open>Consecutive calls of \<open>Get\<close>.\<close>

fun picks :: "nat \<Rightarrow> ('s, string) go \<Rightarrow> ('s, string list) go" where
  "picks 0 get = go_return []"
| "picks (Suc n) get =
     go_bind get (\<lambda>x. go_bind (picks n get) (\<lambda>xs. go_return (x # xs)))"

locale load_balance =
  fixes nodes :: "'s \<Rightarrow> string list"
    and inv :: "'s \<Rightarrow> bool"
    and get :: "('s, string) go"
  assumes get_ok: "inv s \<Longrightarrow> nodes s \<noteq> [] \<Longrightarrow>
      \<exists>x s'. get s = (Ok x, s') \<and> x \<in> set (nodes s) \<and> nodes s' = nodes s \<and> inv s'"
begin

lemma picks_ok: "inv s \<Longrightarrow> nodes s \<noteq> [] \<Longrightarrow>
    \<exists>xs s'. picks k get s = (Ok xs, s') \<and> length xs = k \<and> set xs \<subseteq> set (nodes s)
      \<and> nodes s' = nodes s \<and> inv s'"
proof (induction k arbitrary: s)
  case 0
  then show ?case by (simp add: go_return_def)
next
  case (Suc k)
  obtain x s1 where 1: "get s = (Ok x, s1)" "x \<in> set (nodes s)" "nodes s1 = nodes s" "inv s1"
    using get_ok [OF Suc.prems] by blast
  from Suc.IH [OF this(4)] this(3) Suc.prems(2) obtain xs s2 where
    "picks k get s1 = (Ok xs, s2)" "length xs = k" "set xs \<subseteq> set (nodes s1)"
    "nodes s2 = nodes s1" "inv s2" by auto
  with 1 show ?case by (auto simp: go_bind_def go_return_def)
qed

end

text \<open>
  A balancer that also answers on an empty list of nodes, with an error. The consistent hash ring does
  not: it promises the first part only.
\<close>

locale guarded_balance = load_balance nodes inv get
  for nodes :: "'s \<Rightarrow> string list" and inv :: "'s \<Rightarrow> bool" and get :: "('s, string) go" +
  assumes get_none: "inv s \<Longrightarrow> nodes s = [] \<Longrightarrow> \<exists>e s'. get s = (Err e, s') \<and> nodes s' = [] \<and> inv s'"
begin

lemma get_never_panics: "inv s \<Longrightarrow> get s \<noteq> (Panic p, s')"
  using get_ok [of s] get_none [of s] by (cases "nodes s = []") auto

end

section \<open>Random\<close>

record random_balance =
  rnd_curIdx :: nat
  rnd_allNodes :: "string list"

definition Random_new :: random_balance where
  "Random_new = \<lparr> rnd_curIdx = 0, rnd_allNodes = [] \<rparr>"

definition Random_Add :: "string list \<Rightarrow> (random_balance, unit) go" where
  "Random_Add params r =
     (case params of
        [] \<Rightarrow> (Err (Msg ''param len 1 at least''), r)
      | p # _ \<Rightarrow> (Ok (), r\<lparr>rnd_allNodes := rnd_allNodes r @ [p]\<rparr>))"

definition Random_Get :: "(nat \<Rightarrow> nat) \<Rightarrow> (random_balance, string) go" where
  "Random_Get Intn r =
     (if rnd_allNodes r = [] then (Err (Msg ''alloNodes is empty''), r)
      else
        let r = r\<lparr>rnd_curIdx := Intn (length (rnd_allNodes r))\<rparr>
        in if rnd_curIdx r < length (rnd_allNodes r)
           then (Ok (rnd_allNodes r ! rnd_curIdx r), r) else (Panic IndexOutOfRange, r))"

text \<open>The documented range of \<open>rand.Intn\<close>.\<close>

definition in_range :: "(nat \<Rightarrow> nat) \<Rightarrow> bool" where
  "in_range Intn \<longleftrightarrow> (\<forall>n. 0 < n \<longrightarrow> Intn n < n)"

section \<open>Round robin\<close>

record round_robin =
  rr_curIdx :: nat
  rr_allNodes :: "string list"

definition RoundRobin_new :: round_robin where
  "RoundRobin_new = \<lparr> rr_curIdx = 0, rr_allNodes = [] \<rparr>"

definition RoundRobin_Add :: "string list \<Rightarrow> (round_robin, unit) go" where
  "RoundRobin_Add params r =
     (case params of
        [] \<Rightarrow> (Panic IndexOutOfRange, r)
      | p # _ \<Rightarrow> (Ok (), r\<lparr>rr_allNodes := rr_allNodes r @ [p]\<rparr>))"

definition RoundRobin_Get :: "(round_robin, string) go" where
  "RoundRobin_Get r =
     (if rr_allNodes r = [] then (Err (Msg ''list is empty''), r)
      else
        let lens = length (rr_allNodes r);
            r = (if rr_curIdx r \<ge> lens then r\<lparr>rr_curIdx := 0\<rparr> else r)
        in (Ok (rr_allNodes r ! rr_curIdx r), r\<lparr>rr_curIdx := rr_curIdx r + 1\<rparr>))"

interpretation rr: guarded_balance rr_allNodes "\<lambda>_. True" RoundRobin_Get
  by unfold_locales (auto simp: RoundRobin_Get_def Let_def)

lemma random_guarded_balance:
  "in_range Intn \<Longrightarrow> guarded_balance rnd_allNodes (\<lambda>_. True) (Random_Get Intn)"
  by unfold_locales (auto simp: Random_Get_def Let_def in_range_def)

text \<open>The instance in which \<open>rand.Intn\<close> gives the middle of its range.\<close>

interpretation rnd: guarded_balance rnd_allNodes "\<lambda>_. True" "Random_Get (\<lambda>n. n div 2)"
  by (rule random_guarded_balance) (simp add: in_range_def)

text \<open>The node at a position of the cycle.\<close>

definition cycle :: "'a list \<Rightarrow> nat \<Rightarrow> nat \<Rightarrow> 'a list" where
  "cycle xs from k = map (\<lambda>i. xs ! ((from + i) mod length xs)) [0..<k]"

lemma cycle_0 [simp]: "cycle xs from 0 = []"
  by (simp add: cycle_def)

lemma cycle_Suc: "cycle xs from (Suc k) = xs ! (from mod length xs) # cycle xs (Suc from) k"
  by (simp add: cycle_def map_upt_Suc del: upt_Suc)

lemma rr_step:
  assumes "rr_allNodes r \<noteq> []" and "rr_curIdx r \<le> length (rr_allNodes r)"
  shows "\<exists>r'. RoundRobin_Get r = (Ok (rr_allNodes r ! (rr_curIdx r mod length (rr_allNodes r))), r')
    \<and> rr_allNodes r' = rr_allNodes r \<and> rr_curIdx r' \<le> length (rr_allNodes r)
    \<and> rr_curIdx r' mod length (rr_allNodes r) = Suc (rr_curIdx r) mod length (rr_allNodes r)"
proof (cases "rr_curIdx r = length (rr_allNodes r)")
  case True
  have "0 < length (rr_allNodes r)" using assms(1) by simp
  then have "Suc (length (rr_allNodes r)) mod length (rr_allNodes r) = 1 mod length (rr_allNodes r)"
    by (metis Suc_eq_plus1 mod_add_self1)
  then show ?thesis
    using True assms by (simp add: RoundRobin_Get_def Let_def Suc_le_eq)
next
  case False
  then show ?thesis using assms by (simp add: RoundRobin_Get_def Let_def Suc_le_eq)
qed

lemma cycle_mod: "from mod length xs = from' mod length xs \<Longrightarrow> cycle xs from k = cycle xs from' k"
  by (simp add: cycle_def) (metis mod_add_left_eq)

text \<open>Round robin hands out the nodes in the order in which they were added, again and again: the
  first \<open>k\<close> calls of \<open>Get\<close> on a balancer with nodes return the first \<open>k\<close> elements of the
  repeated list.\<close>

theorem round_robin_cycles:
  assumes "rr_allNodes r \<noteq> []" and "rr_curIdx r \<le> length (rr_allNodes r)"
  shows "\<exists>r'. picks k RoundRobin_Get r = (Ok (cycle (rr_allNodes r) (rr_curIdx r) k), r')"
proof -
  have "rr_allNodes r \<noteq> [] \<Longrightarrow> rr_curIdx r \<le> length (rr_allNodes r) \<Longrightarrow>
      \<exists>r'. picks k RoundRobin_Get r = (Ok (cycle (rr_allNodes r) (rr_curIdx r) k), r')" for r
  proof (induction k arbitrary: r)
    case 0
    then show ?case by (simp add: go_return_def)
  next
    case (Suc k)
    obtain r1 where 1: "RoundRobin_Get r
        = (Ok (rr_allNodes r ! (rr_curIdx r mod length (rr_allNodes r))), r1)"
      "rr_allNodes r1 = rr_allNodes r" "rr_curIdx r1 \<le> length (rr_allNodes r)"
      "rr_curIdx r1 mod length (rr_allNodes r) = Suc (rr_curIdx r) mod length (rr_allNodes r)"
      using rr_step [OF Suc.prems] by blast
    from Suc.IH [of r1] 1(2,3) Suc.prems(1) obtain r2 where
      "picks k RoundRobin_Get r1 = (Ok (cycle (rr_allNodes r) (rr_curIdx r1) k), r2)" by auto
    moreover have "cycle (rr_allNodes r) (rr_curIdx r1) k = cycle (rr_allNodes r) (Suc (rr_curIdx r)) k"
      by (rule cycle_mod) (rule 1(4))
    ultimately show ?case using 1(1) by (simp add: go_bind_def go_return_def cycle_Suc)
  qed
  then show ?thesis using assms by blast
qed

section \<open>Smooth weighted round robin\<close>

record weight_node =
  wn_node :: string
  wn_weight :: int
  wn_currentWeight :: int

definition WRR_Add :: "string list \<Rightarrow> (weight_node list, unit) go" where
  "WRR_Add params ns =
     (if length params \<noteq> 2 then (Err (Msg ''param len need 2''), ns)
      else
        case ParseInt (params ! 1) of
          Ok n \<Rightarrow> (Ok (), ns @ [\<lparr> wn_node = params ! 0, wn_weight = n, wn_currentWeight = 0 \<rparr>])
        | Err e \<Rightarrow> (Err e, ns)
        | Panic p \<Rightarrow> (Panic p, ns))"

text \<open>
  The loop of \<open>Get\<close>. The nodes are shared by pointers, so that the updates of the loop are seen when
  \<open>bestNode\<close>, represented by its index, is compared again.
\<close>

function wrr_loop :: "nat \<Rightarrow> int \<Rightarrow> nat option \<Rightarrow> weight_node list
    \<Rightarrow> int \<times> nat option \<times> weight_node list" where
  "wrr_loop i tot best ns =
     (if i < length ns then
        let cur = ns ! i;
            tot = i64 (tot + wn_weight cur);
            cur = cur\<lparr>wn_currentWeight := i64 (wn_currentWeight cur + wn_weight cur)\<rparr>;
            ns = ns[i := cur];
            best = (case best of
                      None \<Rightarrow> Some i
                    | Some b \<Rightarrow> if wn_currentWeight cur > wn_currentWeight (ns ! b)
                                then Some i else Some b)
        in wrr_loop (i + 1) tot best ns
      else (tot, best, ns))"
  by pat_completeness auto
termination
  by (relation "measure (\<lambda>(i, tot, best, ns). length ns - i)") (auto simp: Let_def)

declare wrr_loop.simps [simp del]

definition WRR_Get :: "(weight_node list, string) go" where
  "WRR_Get ns =
     (case wrr_loop 0 0 None ns of
        (tot, None, ns') \<Rightarrow> (Err (Msg ''get error''), ns')
      | (tot, Some b, ns') \<Rightarrow>
          (Ok (wn_node (ns' ! b)),
           ns'[b := (ns' ! b)\<lparr>wn_currentWeight := i64 (wn_currentWeight (ns' ! b) - tot)\<rparr>]))"

text \<open>The step without machine integers: all weights are added, the node \<open>b\<close> is charged the total.\<close>

definition add_weight :: "weight_node \<Rightarrow> weight_node" where
  "add_weight n = n\<lparr>wn_currentWeight := wn_currentWeight n + wn_weight n\<rparr>"

definition total_weight :: "weight_node list \<Rightarrow> int" where
  "total_weight ns = sum_list (map wn_weight ns)"

lemma wrr_loop_spec:
  assumes "\<forall>n \<in> set ns0. i64 (wn_currentWeight n + wn_weight n) = wn_currentWeight n + wn_weight n"
    and "\<forall>i \<le> length ns0. i64 (total_weight (take i ns0)) = total_weight (take i ns0)"
    and "i \<le> length ns0" and "ns = map add_weight (take i ns0) @ drop i ns0"
    and "case best of None \<Rightarrow> i = 0
         | Some b \<Rightarrow> b < i \<and> (\<forall>j < i. wn_currentWeight (ns ! j) \<le> wn_currentWeight (ns ! b))"
  shows "\<exists>best'. wrr_loop i (total_weight (take i ns0)) best ns
      = (total_weight ns0, best', map add_weight ns0)
    \<and> (case best' of None \<Rightarrow> ns0 = []
       | Some b \<Rightarrow> b < length ns0 \<and> (\<forall>j < length ns0.
           wn_currentWeight (map add_weight ns0 ! j) \<le> wn_currentWeight (map add_weight ns0 ! b)))"
  using assms(3-5)
proof (induction "length ns0 - i" arbitrary: i best ns)
  case 0
  then show ?case by (subst wrr_loop.simps) (auto split: option.splits)
next
  case (Suc d)
  then have i: "i < length ns0" "d = length ns0 - Suc i" by simp_all
  have cur: "ns ! i = ns0 ! i" and len: "length ns = length ns0"
    using i Suc.prems by (simp_all add: nth_append)
  let ?ns = "ns[i := add_weight (ns0 ! i)]"
  let ?best = "case best of None \<Rightarrow> Some i
    | Some b \<Rightarrow> if wn_currentWeight (add_weight (ns0 ! i)) > wn_currentWeight (?ns ! b)
                then Some i else Some b"
  have ns: "?ns = map add_weight (take (Suc i) ns0) @ drop (Suc i) ns0"
    using i Suc.prems(2)
    by (simp add: list_update_append take_Suc_conv_app_nth Cons_nth_drop_Suc [symmetric])
  have tot: "total_weight (take i ns0) + wn_weight (ns0 ! i) = total_weight (take (Suc i) ns0)"
    using i by (simp add: total_weight_def take_Suc_conv_app_nth)
  have upd: "(ns0 ! i)\<lparr>wn_currentWeight := i64 (wn_currentWeight (ns0 ! i) + wn_weight (ns0 ! i))\<rparr>
      = add_weight (ns0 ! i)"
    using assms(1) i by (simp add: add_weight_def)
  have best: "case ?best of None \<Rightarrow> Suc i = 0
      | Some b \<Rightarrow> b < Suc i \<and> (\<forall>j < Suc i. wn_currentWeight (?ns ! j) \<le> wn_currentWeight (?ns ! b))"
    using Suc.prems(3) i len by (auto simp: less_Suc_eq nth_list_update split: option.splits)
  have "i64 (total_weight (take (Suc i) ns0)) = total_weight (take (Suc i) ns0)"
    using assms(2) i by simp
  then have "wrr_loop i (total_weight (take i ns0)) best ns
      = wrr_loop (Suc i) (total_weight (take (Suc i) ns0)) ?best ?ns"
    using i len tot upd
    by (subst wrr_loop.simps) (simp only: Let_def cur upd if_True Suc_eq_plus1)
  with Suc.hyps(1) [OF i(2) _ ns best] i show ?case by simp
qed

section \<open>Every node gets its share\<close>

text \<open>
  The state of the balancer between calls: weights that are not negative and not all zero, current
  weights that add up to zero and stay above the negated total, and no overflow.
\<close>

definition wrr_inv :: "weight_node list \<Rightarrow> bool" where
  "wrr_inv ns \<longleftrightarrow>
     (\<forall>n \<in> set ns. 0 \<le> wn_weight n \<and> - total_weight ns < wn_currentWeight n)
     \<and> 0 < total_weight ns \<and> sum_list (map wn_currentWeight ns) = 0
     \<and> int (length ns) * total_weight ns < 2 ^ 63"

lemma sum_list_upper:
  "x \<in> set xs \<Longrightarrow> \<forall>y \<in> set xs. - W \<le> (y :: int) \<Longrightarrow> 0 \<le> W \<Longrightarrow>
     x + W \<le> sum_list xs + int (length xs) * W"
proof (induction xs)
  case Nil
  then show ?case by simp
next
  case (Cons a xs)
  have low: "\<forall>y \<in> set ys. - W \<le> y \<Longrightarrow> 0 \<le> sum_list ys + int (length ys) * W" for ys
    by (induction ys) (auto simp: algebra_simps)
  show ?case
  proof (cases "x \<in> set xs")
    case True
    with Cons show ?thesis by (simp add: algebra_simps)
  next
    case False
    with Cons low [of xs] show ?thesis by (simp add: algebra_simps)
  qed
qed

lemma total_take:
  assumes "\<forall>n \<in> set ns. 0 \<le> wn_weight n"
  shows "0 \<le> total_weight (take i ns) \<and> total_weight (take i ns) \<le> total_weight ns"
proof -
  have nonneg: "0 \<le> total_weight ms" if "\<forall>n \<in> set ms. 0 \<le> wn_weight n" for ms
    unfolding total_weight_def by (rule sum_list_nonneg) (use that in auto)
  have "total_weight ns = total_weight (take i ns) + total_weight (drop i ns)"
    unfolding total_weight_def by (metis append_take_drop_id map_append sum_list.append)
  moreover have "0 \<le> total_weight (take i ns)" "0 \<le> total_weight (drop i ns)"
    using assms by (auto intro!: nonneg dest: in_set_takeD in_set_dropD)
  ultimately show ?thesis by simp
qed

lemma add_weight_sel [simp]:
  "wn_node (add_weight n) = wn_node n" "wn_weight (add_weight n) = wn_weight n"
  "wn_currentWeight (add_weight n) = wn_currentWeight n + wn_weight n"
  by (simp_all add: add_weight_def)

text \<open>What a call does to the node at each position.\<close>

definition charged :: "nat \<Rightarrow> weight_node list \<Rightarrow> weight_node list" where
  "charged b ns =
     (map add_weight ns)[b := (add_weight (ns ! b))
        \<lparr>wn_currentWeight := wn_currentWeight (ns ! b) + wn_weight (ns ! b) - total_weight ns\<rparr>]"

lemma wrr_step:
  assumes inv: "wrr_inv ns"
  shows "\<exists>b < length ns. WRR_Get ns = (Ok (wn_node (ns ! b)), charged b ns)
    \<and> (\<forall>j < length ns. wn_currentWeight (ns ! j) + wn_weight (ns ! j)
           \<le> wn_currentWeight (ns ! b) + wn_weight (ns ! b))
    \<and> 0 < wn_currentWeight (ns ! b) + wn_weight (ns ! b)"
proof -
  let ?W = "total_weight ns" and ?cw = "map wn_currentWeight ns"
  have w: "\<forall>n \<in> set ns. 0 \<le> wn_weight n" and W: "0 < ?W" and sum: "sum_list ?cw = 0"
    and low: "\<forall>n \<in> set ns. - ?W < wn_currentWeight n"
    and small: "int (length ns) * ?W < 2 ^ 63"
    using inv by (auto simp: wrr_inv_def)
  have ne: "ns \<noteq> []" using W by (auto simp: total_weight_def)
  have wmax: "wn_weight n \<le> ?W" if "n \<in> set ns" for n
  proof -
    have "wn_weight n \<le> sum_list (map wn_weight ns)"
      by (rule member_le_sum_list) (use that w in auto)
    then show ?thesis by (simp only: total_weight_def)
  qed
  have up: "wn_currentWeight n + ?W \<le> int (length ns) * ?W" if "n \<in> set ns" for n
  proof -
    have "wn_currentWeight n \<in> set ?cw" using that by simp
    moreover have "\<forall>y \<in> set ?cw. - ?W \<le> y" using low less_imp_le by auto
    ultimately have "wn_currentWeight n + ?W \<le> sum_list ?cw + int (length ?cw) * ?W"
      using W by (intro sum_list_upper) simp_all
    then show ?thesis using sum by simp
  qed
  have "?W \<le> int (length ns) * ?W"
    using ne W by (simp add: mult_le_cancel_right1 Suc_le_eq)
  then have W63: "?W < 2 ^ 63" using small by simp
  have noflow: "\<forall>n \<in> set ns. i64 (wn_currentWeight n + wn_weight n) = wn_currentWeight n + wn_weight n"
  proof
    fix n assume n: "n \<in> set ns"
    have "wn_currentWeight n + wn_weight n < 2 ^ 63" using up [OF n] wmax [OF n] small by linarith
    moreover have "- (2 ^ 63) \<le> wn_currentWeight n + wn_weight n"
    proof -
      have "- ?W < wn_currentWeight n" "0 \<le> wn_weight n" using low w n by auto
      then show ?thesis using W63 by linarith
    qed
    ultimately show "i64 (wn_currentWeight n + wn_weight n) = wn_currentWeight n + wn_weight n"
      by (intro i64_id)
  qed
  have prefix: "\<forall>i \<le> length ns. i64 (total_weight (take i ns)) = total_weight (take i ns)"
  proof (intro allI impI i64_id)
    fix i
    show "- (2 ^ 63) \<le> total_weight (take i ns)" "total_weight (take i ns) < 2 ^ 63"
      using total_take [OF w, of i] W63 by linarith+
  qed
  obtain b where b: "wrr_loop 0 0 None ns = (?W, Some b, map add_weight ns)" "b < length ns"
    "\<forall>j < length ns. wn_currentWeight (ns ! j) + wn_weight (ns ! j)
       \<le> wn_currentWeight (ns ! b) + wn_weight (ns ! b)"
    using wrr_loop_spec [OF noflow prefix, of 0 ns None] ne
    by (auto simp: total_weight_def split: option.splits)
  have pos: "0 < wn_currentWeight (ns ! b) + wn_weight (ns ! b)"
  proof (rule ccontr)
    assume "\<not> ?thesis"
    then have "\<forall>j < length ns. wn_currentWeight (ns ! j) + wn_weight (ns ! j) \<le> 0"
      using b(3) by (auto intro: order.trans)
    then have "\<forall>n \<in> set ns. wn_currentWeight n + wn_weight n \<le> 0"
      unfolding all_set_conv_all_nth .
    then have "sum_list (map (\<lambda>n. wn_currentWeight n + wn_weight n) ns) \<le> 0"
      by (intro sum_list_nonpos) auto
    then show False using sum W by (simp add: sum_list_addf total_weight_def)
  qed
  have "ns ! b \<in> set ns" using b(2) by simp
  then have "i64 (wn_currentWeight (ns ! b) + wn_weight (ns ! b) - ?W)
      = wn_currentWeight (ns ! b) + wn_weight (ns ! b) - ?W"
    using pos up [of "ns ! b"] wmax [of "ns ! b"] W W63 small by (intro i64_id) linarith+
  then have "WRR_Get ns = (Ok (wn_node (ns ! b)), charged b ns)"
    using b(1,2) by (simp add: WRR_Get_def charged_def)
  with b(2,3) pos show ?thesis by blast
qed

lemma charged_nth:
  assumes "j < length ns" and "b < length ns"
  shows "wn_node (charged b ns ! j) = wn_node (ns ! j)"
    and "wn_weight (charged b ns ! j) = wn_weight (ns ! j)"
    and "wn_currentWeight (charged b ns ! j) = wn_currentWeight (ns ! j) + wn_weight (ns ! j)
           - (if j = b then total_weight ns else 0)"
  using assms by (auto simp: charged_def nth_list_update)

lemma length_charged [simp]: "length (charged b ns) = length ns"
  by (simp add: charged_def)

lemma total_charged: "b < length ns \<Longrightarrow> total_weight (charged b ns) = total_weight ns"
  unfolding total_weight_def
  by (rule arg_cong [where f = sum_list]) (auto simp: list_eq_iff_nth_eq charged_nth)

lemma sum_charged:
  assumes "b < length ns"
  shows "sum_list (map wn_currentWeight (charged b ns)) = sum_list (map wn_currentWeight ns)"
proof -
  have eq: "map wn_currentWeight (charged b ns)
      = (map (\<lambda>n. wn_currentWeight n + wn_weight n) ns)
          [b := wn_currentWeight (ns ! b) + wn_weight (ns ! b) - total_weight ns]"
    using assms by (auto simp: list_eq_iff_nth_eq charged_nth nth_list_update)
  have upd: "sum_list (xs[k := v]) = sum_list xs + v - xs ! k" if "k < length xs" for xs :: "int list" and k v
    using that by (induction xs arbitrary: k) (auto split: nat.splits)
  show ?thesis
    using assms unfolding eq by (simp add: upd sum_list_addf total_weight_def)
qed

lemma wrr_inv_charged:
  assumes inv: "wrr_inv ns" and b: "b < length ns" "0 < wn_currentWeight (ns ! b) + wn_weight (ns ! b)"
  shows "wrr_inv (charged b ns)"
proof -
  have all: "\<forall>j < length ns. 0 \<le> wn_weight (ns ! j) \<and> - total_weight ns < wn_currentWeight (ns ! j)"
    using inv by (simp add: wrr_inv_def)
  have "\<forall>j < length ns. 0 \<le> wn_weight (charged b ns ! j)
      \<and> - total_weight ns < wn_currentWeight (charged b ns ! j)"
  proof (intro allI impI)
    fix j assume j: "j < length ns"
    with all have "0 \<le> wn_weight (ns ! j)" "- total_weight ns < wn_currentWeight (ns ! j)" by auto
    then show "0 \<le> wn_weight (charged b ns ! j)
        \<and> - total_weight ns < wn_currentWeight (charged b ns ! j)"
      using charged_nth [OF j b(1)] b(2) by (cases "j = b") auto
  qed
  then have "\<forall>n \<in> set (charged b ns). 0 \<le> wn_weight n \<and> - total_weight (charged b ns) < wn_currentWeight n"
    by (simp add: all_set_conv_all_nth total_charged [OF b(1)])
  then show ?thesis
    using inv b(1) by (simp add: wrr_inv_def total_charged sum_charged)
qed

text \<open>A run of calls: the positions picked, and what each node has been given and charged.\<close>

lemma wrr_run:
  "wrr_inv ns \<Longrightarrow>
     \<exists>bs ns'. picks k WRR_Get ns = (Ok (map (\<lambda>b. wn_node (ns ! b)) bs), ns')
       \<and> length bs = k \<and> set bs \<subseteq> {..<length ns} \<and> wrr_inv ns' \<and> length ns' = length ns
       \<and> total_weight ns' = total_weight ns
       \<and> (\<forall>j < length ns. wn_node (ns' ! j) = wn_node (ns ! j) \<and> wn_weight (ns' ! j) = wn_weight (ns ! j)
            \<and> wn_currentWeight (ns' ! j) = wn_currentWeight (ns ! j) + int k * wn_weight (ns ! j)
                - total_weight ns * int (count_list bs j))"
proof (induction k arbitrary: ns)
  case 0
  then show ?case by (intro exI [of _ "[]"] exI [of _ ns]) (simp add: go_return_def)
next
  case (Suc k)
  obtain b where b: "b < length ns" "WRR_Get ns = (Ok (wn_node (ns ! b)), charged b ns)"
    "0 < wn_currentWeight (ns ! b) + wn_weight (ns ! b)"
    using wrr_step [OF Suc.prems] by blast
  let ?ns = "charged b ns"
  obtain bs ns' where run: "picks k WRR_Get ?ns = (Ok (map (\<lambda>b. wn_node (?ns ! b)) bs), ns')"
      "length bs = k" "set bs \<subseteq> {..<length ns}" "wrr_inv ns'" "length ns' = length ns"
      "total_weight ns' = total_weight ns"
    and each: "\<forall>j < length ns. wn_node (ns' ! j) = wn_node (?ns ! j) \<and> wn_weight (ns' ! j) = wn_weight (?ns ! j)
            \<and> wn_currentWeight (ns' ! j) = wn_currentWeight (?ns ! j) + int k * wn_weight (?ns ! j)
                - total_weight ns * int (count_list bs j)"
    using Suc.IH [OF wrr_inv_charged [OF Suc.prems b(1,3)]] total_charged [OF b(1)] by auto
  have names: "map (\<lambda>b. wn_node (?ns ! b)) bs = map (\<lambda>b. wn_node (ns ! b)) bs"
    using run(3) charged_nth(1) [OF _ b(1)] by auto
  have "picks (Suc k) WRR_Get ns = (Ok (map (\<lambda>b. wn_node (ns ! b)) (b # bs)), ns')"
    using b(2) run(1) names by (simp add: go_bind_def go_return_def)
  moreover have "\<forall>j < length ns. wn_node (ns' ! j) = wn_node (ns ! j) \<and> wn_weight (ns' ! j) = wn_weight (ns ! j)
      \<and> wn_currentWeight (ns' ! j) = wn_currentWeight (ns ! j) + int (Suc k) * wn_weight (ns ! j)
          - total_weight ns * int (count_list (b # bs) j)"
    using each charged_nth [OF _ b(1)] by (auto simp: algebra_simps)
  ultimately show ?case
    using run b(1) by (intro exI [of _ "b # bs"] exI [of _ ns']) auto
qed

lemma count_list_map_inj:
  assumes "set xs \<subseteq> A" and "inj_on f A" and "y \<in> A"
  shows "count_list (map f xs) (f y) = count_list xs y"
  using assms by (induction xs) (auto simp: inj_on_eq_iff)

lemma sum_count_list: "set xs \<subseteq> {..<n::nat} \<Longrightarrow> (\<Sum>j < n. count_list xs j) = length xs"
proof (induction xs)
  case Nil
  then show ?case by simp
next
  case (Cons x xs)
  have "(\<Sum>j < n. count_list (x # xs) j) = (\<Sum>j < n. (if x = j then 1 else 0) + count_list xs j)"
    by (rule sum.cong) auto
  with Cons show ?case by (simp add: sum.distrib)
qed

text \<open>C8: smooth weighted round robin is exactly fair: in every period of as many calls as the
  weights add up to, each node is returned exactly as often as its weight says, and the balancer is back
  in the state in which it started. No sum overflows on the way.\<close>

theorem weighted_round_robin_exact:
  assumes "\<forall>n \<in> set ns. 0 \<le> wn_weight n \<and> wn_currentWeight n = 0"
    and "distinct (map wn_node ns)" and "0 < total_weight ns"
    and "int (length ns) * total_weight ns < 2 ^ 63"
  shows "\<exists>xs. picks (nat (total_weight ns)) WRR_Get ns = (Ok xs, ns)
    \<and> (\<forall>n \<in> set ns. int (count_list xs (wn_node n)) = wn_weight n)"
proof -
  let ?W = "total_weight ns" and ?n = "length ns"
  have "sum_list (map wn_currentWeight ns) = 0"
    using assms(1) by (induction ns) auto
  then have "wrr_inv ns" using assms by (auto simp: wrr_inv_def)
  from wrr_run [OF this, of "nat ?W"] obtain bs ns' where
    run: "picks (nat ?W) WRR_Get ns = (Ok (map (\<lambda>b. wn_node (ns ! b)) bs), ns')" "length bs = nat ?W"
      "set bs \<subseteq> {..<?n}" "wrr_inv ns'" "length ns' = ?n" "total_weight ns' = ?W"
    and each: "\<forall>j < ?n. wn_node (ns' ! j) = wn_node (ns ! j) \<and> wn_weight (ns' ! j) = wn_weight (ns ! j)
            \<and> wn_currentWeight (ns' ! j) = wn_currentWeight (ns ! j) + int (nat ?W) * wn_weight (ns ! j)
                - ?W * int (count_list bs j)"
    by blast
  let ?w = "\<lambda>j. wn_weight (ns ! j)" and ?c = "\<lambda>j. int (count_list bs j)"
  have cw: "wn_currentWeight (ns' ! j) = ?W * (?w j - ?c j)" if "j < ?n" for j
    using each that assms(1,3) by (simp add: algebra_simps)
  have le: "?c j \<le> ?w j" if "j < ?n" for j
  proof -
    have "- ?W < wn_currentWeight (ns' ! j)"
      using run(4-6) that by (auto simp: wrr_inv_def)
    then have "?W * - 1 < ?W * (?w j - ?c j)" using cw [OF that] by simp
    then have "- 1 < ?w j - ?c j" using assms(3) by (simp only: mult_less_cancel_left_pos)
    then show ?thesis by simp
  qed
  have "(\<Sum>j < ?n. ?w j - ?c j) = 0"
  proof -
    have "(\<Sum>j < ?n. ?w j) = ?W"
      by (simp add: total_weight_def sum_list_sum_nth atLeast0LessThan)
    moreover have "(\<Sum>j < ?n. ?c j) = ?W"
      using sum_count_list [OF run(3)] run(2) assms(3) by (simp flip: of_nat_sum)
    ultimately show ?thesis by (simp add: sum_subtractf)
  qed
  then have eq: "?c j = ?w j" if "j < ?n" for j
    using that le by (subst (asm) sum_nonneg_eq_0_iff) auto
  have "ns' = ns"
    using each run(5) cw eq assms(1)
    by (intro nth_equalityI) (auto intro!: weight_node.equality)
  moreover have "int (count_list (map (\<lambda>b. wn_node (ns ! b)) bs) (wn_node m)) = wn_weight m"
    if m: "m \<in> set ns" for m
  proof -
    obtain j where j: "j < ?n" "m = ns ! j" using m by (auto simp: in_set_conv_nth)
    have "inj_on (\<lambda>b. wn_node (ns ! b)) {..<?n}"
      using assms(2) by (auto simp: inj_on_def distinct_conv_nth)
    from count_list_map_inj [OF run(3) this, of j] j eq show ?thesis by simp
  qed
  ultimately show ?thesis using run(1) by blast
qed

lemma map_wn_node_charged: "b < length ns \<Longrightarrow> map wn_node (charged b ns) = map wn_node ns"
  by (rule nth_equalityI) (auto simp: charged_nth)

interpretation wrr: guarded_balance "map wn_node" "\<lambda>ns. ns = [] \<or> wrr_inv ns" WRR_Get
proof unfold_locales
  fix ns assume inv: "ns = [] \<or> wrr_inv ns" and ne: "map wn_node ns \<noteq> []"
  then have "wrr_inv ns" by auto
  from wrr_step [OF this] obtain b where b: "b < length ns" "WRR_Get ns = (Ok (wn_node (ns ! b)), charged b ns)"
    "0 < wn_currentWeight (ns ! b) + wn_weight (ns ! b)" by blast
  with wrr_inv_charged [OF \<open>wrr_inv ns\<close> b(1,3)] map_wn_node_charged [OF b(1)]
  show "\<exists>x s'. WRR_Get ns = (Ok x, s') \<and> x \<in> set (map wn_node ns) \<and> map wn_node s' = map wn_node ns
      \<and> (s' = [] \<or> wrr_inv s')" by auto
next
  fix ns assume "ns = [] \<or> wrr_inv ns" and "map wn_node ns = []"
  then show "\<exists>e s'. WRR_Get ns = (Err e, s') \<and> map wn_node s' = [] \<and> (s' = [] \<or> wrr_inv s')"
    by (simp add: WRR_Get_def wrr_loop.simps)
qed

section \<open>Concrete runs\<close>

lemma round_robin_cycles_witness:
  "\<exists>r'. picks 5 RoundRobin_Get \<lparr> rr_curIdx = 3, rr_allNodes = [''a'', ''b'', ''c''] \<rparr>
     = (Ok [''a'', ''b'', ''c'', ''a'', ''b''], r')"
  using round_robin_cycles [of "\<lparr> rr_curIdx = 3, rr_allNodes = [''a'', ''b'', ''c''] \<rparr>" 5]
  by (simp add: cycle_def upt_rec)

lemma weighted_round_robin_exact_witness:
  "\<exists>ns xs. map wn_weight ns = [3, 1] \<and> picks 4 WRR_Get ns = (Ok xs, ns)
     \<and> count_list xs ''a'' = 3 \<and> count_list xs ''b'' = 1"
proof -
  let ?ns = "[\<lparr> wn_node = ''a'', wn_weight = 3, wn_currentWeight = 0 \<rparr>,
      \<lparr> wn_node = ''b'', wn_weight = 1, wn_currentWeight = 0 \<rparr>]"
  have "\<exists>xs. picks (nat (total_weight ?ns)) WRR_Get ?ns = (Ok xs, ?ns)
      \<and> (\<forall>n \<in> set ?ns. int (count_list xs (wn_node n)) = wn_weight n)"
    by (rule weighted_round_robin_exact) (simp_all add: total_weight_def)
  then show ?thesis by (intro exI [of _ ?ns]) (auto simp: total_weight_def)
qed

end
