(* ===== verification/ConsistentHash.thy ===== *)
theory ConsistentHash
  imports Balance
begin

text \<open>
  The consistent hash ring of \<^verbatim>\<open>internal/balance/consitenthash\<close>. The hash function is a field of the
  balancer; the default is CRC-32 as in the standard library. \<open>append(ring[:idx], ring[idx+1:]...)\<close>
  works in place on the array that the surrounding \<open>range\<close> loop goes on reading, so the loop of
  \<open>Delete\<close> is modelled on the array and the current length of the slice.
\<close>

section \<open>Standard library\<close>

text \<open>\<open>crc32.ChecksumIEEE\<close>, bit by bit, with the reversed polynomial.\<close>

fun crc_bits :: "nat \<Rightarrow> u32 \<Rightarrow> u32" where
  "crc_bits 0 c = c"
| "crc_bits (Suc n) c =
     crc_bits n (if c AND 1 = 1 then drop_bit 1 c XOR 0xEDB88320 else drop_bit 1 c)"

definition ChecksumIEEE :: "string \<Rightarrow> u32" where
  "ChecksumIEEE s =
     NOT (foldl (\<lambda>c b. crc_bits 8 (c XOR word_of_nat (of_char b))) (NOT 0) s)"

text \<open>
  \<open>sort.Search(n, f)\<close>: binary search on \<open>[i, j)\<close>. The condition \<open>f\<close> reads the ring, which may panic.
\<close>

function Search_loop :: "(nat \<Rightarrow> bool res) \<Rightarrow> nat \<Rightarrow> nat \<Rightarrow> nat res" where
  "Search_loop f i j =
     (if i < j then
        let h = (i + j) div 2
        in case f h of
             Ok b \<Rightarrow> if b then Search_loop f i h else Search_loop f (h + 1) j
           | Err e \<Rightarrow> Err e
           | Panic p \<Rightarrow> Panic p
      else Ok i)"
  by pat_completeness auto
termination
  by (relation "measure (\<lambda>(f, i, j). j - i)") auto

declare Search_loop.simps [simp del]

definition Search :: "int \<Rightarrow> (nat \<Rightarrow> bool res) \<Rightarrow> nat res" where
  "Search n f = Search_loop f 0 (nat n)"

section \<open>The ring\<close>

record consistent_hash =
  hashFunc :: "string \<Rightarrow> u32"
  hashRing :: "u32 list"
  hashRingSize :: int
  nodeMapNum :: "string \<rightharpoonup> int"
  vNodeMapNode :: "u32 \<rightharpoonup> string"

definition NewConsistentHash :: "(string \<Rightarrow> u32) option \<Rightarrow> consistent_hash" where
  "NewConsistentHash hash =
     \<lparr> hashFunc = (case hash of None \<Rightarrow> ChecksumIEEE | Some h \<Rightarrow> h),
       hashRing = [], hashRingSize = 0, nodeMapNum = Map.empty, vNodeMapNode = Map.empty \<rparr>"

text \<open>The name and the key of a virtual node.\<close>

definition vnode_key :: "consistent_hash \<Rightarrow> string \<Rightarrow> nat \<Rightarrow> u32" where
  "vnode_key ch node i = hashFunc ch (node @ ''_'' @ Itoa i)"

definition Add_vnode :: "string \<Rightarrow> nat \<Rightarrow> consistent_hash \<Rightarrow> consistent_hash" where
  "Add_vnode node i ch =
     (let key = vnode_key ch node i
      in ch\<lparr>vNodeMapNode := (vNodeMapNode ch)(key \<mapsto> node),
            hashRing := hashRing ch @ [key],
            hashRingSize := hashRingSize ch + 1\<rparr>)"

definition CH_Add :: "string list \<Rightarrow> (consistent_hash, unit) go" where
  "CH_Add params ch =
     (if length params < 2 then (Err (Msg ''params at least 2 elements''), ch)
      else
        let node = params ! 0
        in case ParseInt (params ! 1) of
             Ok vnodeNum \<Rightarrow>
               let ch = ch\<lparr>nodeMapNum := (nodeMapNum ch)(node \<mapsto> vnodeNum)\<rparr>;
                   ch = fold (Add_vnode node) [0..<nat vnodeNum] ch
               in (Ok (), ch\<lparr>hashRing := sort (hashRing ch)\<rparr>)
           | _ \<Rightarrow> (Err (Msg ''invalid vnode_num input''), ch))"

text \<open>
  The loop \<open>for idx, v := range ch.hashRing\<close> of \<open>Delete\<close>: \<open>arr\<close> are the first \<open>n\<close> cells of the array,
  of which the first \<open>len\<close> are the ring now.
\<close>

function delete_scan :: "u32 \<Rightarrow> nat \<Rightarrow> nat \<Rightarrow> u32 list \<Rightarrow> nat \<Rightarrow> unit res \<times> u32 list" where
  "delete_scan key idx n arr len =
     (if idx < n then
        if arr ! idx = key then
          if idx + 1 > len then (Panic SliceOutOfRange, take len arr)
          else delete_scan key (idx + 1) n
                 (take idx arr @ drop (idx + 1) (take len arr) @ drop (len - 1) arr) (len - 1)
        else delete_scan key (idx + 1) n arr len
      else (Ok (), take len arr))"
  by pat_completeness auto
termination
  by (relation "measure (\<lambda>(key, idx, n, arr, len). n - idx)") auto

declare delete_scan.simps [simp del]

definition Delete_vnode :: "string \<Rightarrow> nat \<Rightarrow> (consistent_hash, unit) go" where
  "Delete_vnode node i ch =
     (let key = vnode_key ch node i;
          (r, ring) = delete_scan key 0 (length (hashRing ch)) (hashRing ch) (length (hashRing ch));
          ch = ch\<lparr>hashRing := ring\<rparr>
      in case r of
           Ok _ \<Rightarrow> (Ok (), ch\<lparr>vNodeMapNode := (vNodeMapNode ch)(key := None),
                              hashRingSize := hashRingSize ch - 1\<rparr>)
         | Err e \<Rightarrow> (Err e, ch)
         | Panic p \<Rightarrow> (Panic p, ch))"

fun Delete_vnodes :: "string \<Rightarrow> nat list \<Rightarrow> (consistent_hash, unit) go" where
  "Delete_vnodes node [] = go_return ()"
| "Delete_vnodes node (i # is) = go_bind (Delete_vnode node i) (\<lambda>_. Delete_vnodes node is)"

definition CH_Delete :: "string list \<Rightarrow> (consistent_hash, unit) go" where
  "CH_Delete params ch =
     (case params of
        [] \<Rightarrow> (Panic IndexOutOfRange, ch)
      | node # _ \<Rightarrow>
          (case nodeMapNum ch node of
             None \<Rightarrow> (Err (Msg ''node not exist''), ch)
           | Some vnodeNum \<Rightarrow>
               go_bind (Delete_vnodes node [0..<nat vnodeNum])
                 (\<lambda>_. go_modify (\<lambda>ch. ch\<lparr>nodeMapNum := (nodeMapNum ch)(node := None)\<rparr>)) ch))"

definition ring_ge :: "u32 list \<Rightarrow> u32 \<Rightarrow> nat \<Rightarrow> bool res" where
  "ring_ge ring key i = (if i < length ring then Ok (key \<le> ring ! i) else Panic IndexOutOfRange)"

definition CH_Get :: "string list \<Rightarrow> (consistent_hash, string) go" where
  "CH_Get params ch =
     (case params of
        [] \<Rightarrow> (Panic IndexOutOfRange, ch)
      | p # _ \<Rightarrow>
          let key = hashFunc ch p
          in case Search (hashRingSize ch) (ring_ge (hashRing ch) key) of
               Ok idx \<Rightarrow>
                 let idx = (if int idx = hashRingSize ch then 0 else idx)
                 in if idx < length (hashRing ch)
                    then (Ok (case vNodeMapNode ch (hashRing ch ! idx) of
                                None \<Rightarrow> '''' | Some node \<Rightarrow> node), ch)
                    else (Panic IndexOutOfRange, ch)
             | Err e \<Rightarrow> (Err e, ch)
             | Panic q \<Rightarrow> (Panic q, ch))"

definition GetHashRingSize :: "consistent_hash \<Rightarrow> int" where
  "GetHashRingSize ch = hashRingSize ch"

section \<open>Lookup\<close>

text \<open>\<open>sort.Search\<close> finds the first index at which a monotone condition holds.\<close>

lemma Search_loop_first:
  assumes "\<And>a b. a \<le> b \<Longrightarrow> b < n \<Longrightarrow> p a \<Longrightarrow> p b"
    and "\<And>k. k < n \<Longrightarrow> f k = Ok (p k)"
    and "i \<le> j" and "j \<le> n" and "\<forall>k < i. \<not> p k" and "\<forall>k. j \<le> k \<and> k < n \<longrightarrow> p k"
  shows "\<exists>r. Search_loop f i j = Ok r \<and> r \<le> n \<and> (\<forall>k < r. \<not> p k) \<and> (\<forall>k. r \<le> k \<and> k < n \<longrightarrow> p k)"
  using assms(3-6)
proof (induction "j - i" arbitrary: i j rule: less_induct)
  case less
  show ?case
  proof (cases "i < j")
    case False
    with less.prems show ?thesis by (subst Search_loop.simps) auto
  next
    case True
    let ?h = "(i + j) div 2"
    have h: "i \<le> ?h" "?h < j" using True by auto
    show ?thesis
    proof (cases "p ?h")
      case True
      then have "\<forall>k. ?h \<le> k \<and> k < n \<longrightarrow> p k" using assms(1) by blast
      then have "\<exists>r. Search_loop f i ?h = Ok r \<and> r \<le> n \<and> (\<forall>k < r. \<not> p k)
          \<and> (\<forall>k. r \<le> k \<and> k < n \<longrightarrow> p k)"
        by (intro less.hyps) (use h less.prems in auto)
      moreover have "Search_loop f i j = Search_loop f i ?h"
        using True h less.prems(2) assms(2) by (subst Search_loop.simps) (simp add: Let_def)
      ultimately show ?thesis by auto
    next
      case False
      then have "\<forall>k < Suc ?h. \<not> p k"
        using assms(1) h less.prems(2) by (metis less_Suc_eq_le less_le_trans)
      then have "\<exists>r. Search_loop f (Suc ?h) j = Ok r \<and> r \<le> n \<and> (\<forall>k < r. \<not> p k)
          \<and> (\<forall>k. r \<le> k \<and> k < n \<longrightarrow> p k)"
        by (intro less.hyps) (use h less.prems in auto)
      moreover have "Search_loop f i j = Search_loop f (Suc ?h) j"
        using False h less.prems(2) assms(2) by (subst Search_loop.simps) (simp add: Let_def)
      ultimately show ?thesis by auto
    qed
  qed
qed

text \<open>The key clockwise of \<open>h\<close> on the ring: the least key from \<open>h\<close> on, or the least of all.\<close>

definition successor :: "u32 set \<Rightarrow> u32 \<Rightarrow> u32" where
  "successor S h = (let A = {k \<in> S. h \<le> k} in if A = {} then Min S else Min A)"

definition ring_inv :: "consistent_hash \<Rightarrow> bool" where
  "ring_inv ch \<longleftrightarrow> sorted (hashRing ch) \<and> hashRingSize ch = int (length (hashRing ch))
     \<and> (\<forall>k \<in> set (hashRing ch). vNodeMapNode ch k \<noteq> None)"

definition owner :: "consistent_hash \<Rightarrow> u32 \<Rightarrow> string" where
  "owner ch h = the (vNodeMapNode ch (successor (set (hashRing ch)) h))"

lemma successor_in: "finite S \<Longrightarrow> S \<noteq> {} \<Longrightarrow> successor S h \<in> S"
  unfolding successor_def Let_def
  using Min_in [of "{k \<in> S. h \<le> k}"] Min_in [of S] by auto

lemma successor_single [simp]: "successor {a} h = a"
proof -
  have "{k \<in> {a}. h \<le> k} = (if h \<le> a then {a} else {})" by auto
  then show ?thesis by (simp add: successor_def)
qed

lemma successor_sorted:
  assumes "sorted xs" and "r \<le> length xs" and "xs \<noteq> []"
    and "\<forall>k < r. \<not> h \<le> xs ! k" and "\<forall>k. r \<le> k \<and> k < length xs \<longrightarrow> h \<le> xs ! k"
  shows "successor (set xs) h = xs ! (if r = length xs then 0 else r)"
proof (cases "r = length xs")
  case True
  then have "{k \<in> set xs. h \<le> k} = {}" using assms(4) by (auto simp: in_set_conv_nth)
  moreover have "Min (set xs) = xs ! 0"
    using assms(1,3) by (intro Min_eqI) (auto simp: in_set_conv_nth sorted_nth_mono)
  ultimately show ?thesis using True by (simp add: successor_def)
next
  case False
  then have r: "r < length xs" using assms(2) by simp
  have "Min {k \<in> set xs. h \<le> k} = xs ! r"
  proof (rule Min_eqI)
    fix y assume "y \<in> {k \<in> set xs. h \<le> k}"
    then obtain j where j: "j < length xs" "y = xs ! j" "h \<le> y" by (auto simp: in_set_conv_nth)
    then have "r \<le> j" using assms(4) not_less by blast
    then show "xs ! r \<le> y" using j assms(1) by (simp add: sorted_nth_mono)
  qed (use r assms(5) in auto)
  moreover have "{k \<in> set xs. h \<le> k} \<noteq> {}" using r assms(5) nth_mem by blast
  ultimately show ?thesis using False by (simp only: successor_def Let_def if_False)
qed

lemma CH_Get_owner:
  assumes "ring_inv ch" and "hashRing ch \<noteq> []"
  shows "CH_Get (p # ps) ch = (Ok (owner ch (hashFunc ch p)), ch)"
proof -
  let ?xs = "hashRing ch" and ?h = "hashFunc ch p"
  have inv: "sorted ?xs" "hashRingSize ch = int (length ?xs)" "\<forall>k \<in> set ?xs. vNodeMapNode ch k \<noteq> None"
    using assms(1) by (auto simp: ring_inv_def)
  have "\<exists>r. Search_loop (ring_ge ?xs ?h) 0 (length ?xs) = Ok r \<and> r \<le> length ?xs
      \<and> (\<forall>k < r. \<not> ?h \<le> ?xs ! k) \<and> (\<forall>k. r \<le> k \<and> k < length ?xs \<longrightarrow> ?h \<le> ?xs ! k)"
    by (rule Search_loop_first)
      (use inv(1) in \<open>auto simp: ring_ge_def dest: order_trans sorted_nth_mono\<close>)
  then obtain r where r: "Search_loop (ring_ge ?xs ?h) 0 (length ?xs) = Ok r" "r \<le> length ?xs"
    "\<forall>k < r. \<not> ?h \<le> ?xs ! k" "\<forall>k. r \<le> k \<and> k < length ?xs \<longrightarrow> ?h \<le> ?xs ! k"
    by blast
  note s = successor_sorted [OF inv(1) r(2) assms(2) r(3,4)]
  let ?idx = "if r = length ?xs then 0 else r"
  have idx: "?idx < length ?xs" using r(2) assms(2) by auto
  then obtain n where "vNodeMapNode ch (?xs ! ?idx) = Some n"
    using inv(3) nth_mem by blast
  then show ?thesis
    using r(1) s idx inv(2) by (simp add: CH_Get_def Search_def owner_def Let_def del: not_le)
qed

lemma owner_in:
  assumes "ring_inv ch" and "hashRing ch \<noteq> []"
  shows "owner ch h \<in> set (map (the \<circ> vNodeMapNode ch) (hashRing ch))"
  using successor_in [of "set (hashRing ch)"] assms(2) by (auto simp: owner_def)

text \<open>The ring serves as a load balancer, but not a guarded one: an empty ring panics.\<close>

interpretation ring: load_balance "\<lambda>ch. map (the \<circ> vNodeMapNode ch) (hashRing ch)" ring_inv
    "CH_Get [p]" for p
  by unfold_locales (use CH_Get_owner owner_in in auto)

lemma CH_Get_empty: "hashRing ch = [] \<Longrightarrow> hashRingSize ch = 0 \<Longrightarrow> CH_Get (p # ps) ch = (Panic IndexOutOfRange, ch)"
  by (simp add: CH_Get_def Search_def Search_loop.simps)

section \<open>Adding a node\<close>

text \<open>The keys of the virtual nodes of a node.\<close>

definition vnode_keys :: "(string \<Rightarrow> u32) \<Rightarrow> string \<Rightarrow> int \<Rightarrow> u32 list" where
  "vnode_keys h node num = map (\<lambda>i. h (node @ ''_'' @ Itoa i)) [0..<nat num]"

lemma length_vnode_keys [simp]: "length (vnode_keys h node num) = nat num"
  by (simp add: vnode_keys_def)

lemma fold_Add_vnode:
  "fold (Add_vnode node) is ch = ch\<lparr>
     hashRing := hashRing ch @ map (vnode_key ch node) is,
     hashRingSize := hashRingSize ch + int (length is),
     vNodeMapNode := (\<lambda>k. if k \<in> vnode_key ch node ` set is then Some node else vNodeMapNode ch k)\<rparr>"
proof (induction "is" arbitrary: ch)
  case Nil
  then show ?case by simp
next
  case (Cons i "is")
  have "vnode_key (Add_vnode node i ch) node = vnode_key ch node"
    by (rule ext) (simp add: vnode_key_def Add_vnode_def Let_def)
  with Cons show ?case
    by (cases ch) (auto simp: Add_vnode_def Let_def fun_eq_iff)
qed

lemma CH_Add_eq:
  assumes "ParseInt s = Ok num"
  shows "CH_Add (node # s # ps) ch = (Ok (), ch\<lparr>
     hashRing := sort (hashRing ch @ vnode_keys (hashFunc ch) node num),
     hashRingSize := hashRingSize ch + int (nat num),
     nodeMapNum := (nodeMapNum ch)(node \<mapsto> num),
     vNodeMapNode := (\<lambda>k. if k \<in> set (vnode_keys (hashFunc ch) node num) then Some node
                          else vNodeMapNode ch k)\<rparr>)"
  using assms
  by (simp add: CH_Add_def Let_def fold_Add_vnode vnode_key_def [abs_def] vnode_keys_def cong del: if_weak_cong)

lemma CH_Add_ring_inv:
  assumes "ring_inv ch" and "CH_Add params ch = (r, ch')"
  shows "ring_inv ch'"
proof (cases "length params \<ge> 2 \<and> (\<exists>num. ParseInt (params ! 1) = Ok num)")
  case True
  then obtain node s ps num where "params = node # s # ps" "ParseInt s = Ok num"
    by (auto simp: Suc_le_length_iff numeral_2_eq_2)
  with assms show ?thesis by (auto simp: CH_Add_eq ring_inv_def)
next
  case False
  with assms show ?thesis by (auto simp: CH_Add_def Let_def split: res.splits if_splits)
qed

lemma successor_Un:
  assumes "finite S" and "finite K" and "S \<noteq> {}" and "successor (S \<union> K) h \<notin> K"
  shows "successor (S \<union> K) h = successor S h"
proof -
  let ?A = "{k \<in> S. h \<le> k}" and ?B = "{k \<in> S \<union> K. h \<le> k}"
  show ?thesis
  proof (cases "?B = {}")
    case True
    then have "?A = {}" by auto
    have m: "successor (S \<union> K) h = Min (S \<union> K)" using True by (simp add: successor_def)
    then have "Min (S \<union> K) \<in> S" using assms Min_in [of "S \<union> K"] by auto
    then have "Min (S \<union> K) = Min S"
      using assms(1,2) by (intro Min_eqI [symmetric]) auto
    with m \<open>?A = {}\<close> show ?thesis by (simp add: successor_def)
  next
    case False
    have m: "successor (S \<union> K) h = Min ?B" using False by (simp only: successor_def Let_def if_False)
    then have "Min ?B \<in> ?A" using assms False Min_in [of ?B] by auto
    moreover from this have "Min ?B = Min ?A"
      using assms(1,2) by (intro Min_eqI [symmetric]) auto
    ultimately show ?thesis using m by (auto simp: successor_def Let_def)
  qed
qed

text \<open>Lookup on the ring. On every reachable ring that has nodes, \<open>Get\<close> returns the node of the
  first virtual node clockwise of the hash of its argument, and changes nothing; the invariant it
  needs holds of a new balancer and is kept by \<open>Add\<close>.\<close>

theorem ring_lookup:
  assumes "ring_inv ch" and "hashRing ch \<noteq> []"
  shows "CH_Get (p # ps) ch
      = (Ok (the (vNodeMapNode ch (successor (set (hashRing ch)) (hashFunc ch p)))), ch)
    \<and> ring_inv (NewConsistentHash h)
    \<and> ring_inv (snd (CH_Add params ch))"
  using CH_Get_owner [OF assms] CH_Add_ring_inv [OF assms(1), of params]
  by (cases "CH_Add params ch") (simp add: owner_def ring_inv_def NewConsistentHash_def)

text \<open>C20: consistency. Adding a node moves keys to the new node only: every key is served by the same
  node as before or by the new one, whatever the hash function, collisions included.\<close>

theorem add_moves_keys_to_new_node:
  assumes "ring_inv ch" and "hashRing ch \<noteq> []"
    and "CH_Add (node # s # ps) ch = (Ok (), ch')"
    and "CH_Get (p # qs) ch = (Ok before, ch)" and "CH_Get (p # qs) ch' = (Ok after, ch'')"
  shows "after = before \<or> after = node"
proof -
  obtain num where num: "ParseInt s = Ok num"
    using assms(3) by (auto simp: CH_Add_def Let_def split: res.splits)
  let ?K = "set (vnode_keys (hashFunc ch) node num)" and ?S = "set (hashRing ch)"
  let ?h = "hashFunc ch p"
  have ch': "set (hashRing ch') = ?S \<union> ?K" "hashFunc ch' = hashFunc ch"
    "vNodeMapNode ch' = (\<lambda>k. if k \<in> ?K then Some node else vNodeMapNode ch k)"
    using assms(3) CH_Add_eq [OF num, of node ps ch] by auto
  have "hashRing ch' \<noteq> []" using ch'(1) assms(2) by (metis Un_empty set_empty)
  from CH_Get_owner [OF CH_Add_ring_inv [OF assms(1,3)] this, of p qs]
  have after: "after = owner ch' ?h" using assms(5) ch'(2) by (metis prod.inject res.inject(1))
  have before: "before = owner ch ?h" using CH_Get_owner [OF assms(1,2)] assms(4) by simp
  show ?thesis
  proof (cases "successor (?S \<union> ?K) ?h \<in> ?K")
    case True
    then show ?thesis using after ch' by (simp add: owner_def)
  next
    case False
    with successor_Un [of ?S ?K ?h] assms(2) show ?thesis
      using after before ch' by (simp add: owner_def)
  qed
qed

section \<open>Deleting a node\<close>

lemma delete_scan_none:
  "\<forall>j. idx \<le> j \<and> j < n \<longrightarrow> arr ! j \<noteq> key \<Longrightarrow> delete_scan key idx n arr len = (Ok (), take len arr)"
  by (induction key idx n arr len rule: delete_scan.induct) (subst delete_scan.simps, auto)

lemma delete_scan_hit:
  assumes "distinct xs" and "h < length xs" and "key = xs ! h"
  shows "delete_scan key h (length xs) xs (length xs) = (Ok (), take h xs @ drop (Suc h) xs)"
proof -
  let ?n = "length xs"
  let ?arr = "take h xs @ drop (h + 1) (take ?n xs) @ drop (?n - 1) xs"
  have "?arr ! j \<noteq> key" if j: "h + 1 \<le> j" "j < ?n" for j
  proof -
    have "?arr ! j = xs ! (if j < ?n - 1 then Suc j else j)"
      using j assms(2) by (auto simp: nth_append min_def intro!: arg_cong [where f = "(!) xs"])
    moreover have "(if j < ?n - 1 then Suc j else j) \<noteq> h" "(if j < ?n - 1 then Suc j else j) < ?n"
      using j by auto
    ultimately show ?thesis using assms by (simp add: nth_eq_iff_index_eq)
  qed
  then have "delete_scan key (h + 1) ?n ?arr (?n - 1) = (Ok (), take (?n - 1) ?arr)"
    by (intro delete_scan_none) auto
  moreover have "take (?n - 1) ?arr = take h xs @ drop (Suc h) xs"
    using assms(2) by (auto simp: min_def intro!: arg_cong [where f = "\<lambda>n. take n xs"])
  ultimately show ?thesis using assms(2,3) by (subst delete_scan.simps) simp
qed

lemma delete_scan_once:
  assumes "distinct xs" and "key \<in> set xs"
  shows "delete_scan key 0 (length xs) xs (length xs) = (Ok (), remove1 key xs)"
proof -
  obtain h where h: "h < length xs" "xs ! h = key" using assms(2) by (auto simp: in_set_conv_nth)
  have "delete_scan key i (length xs) xs (length xs) = delete_scan key h (length xs) xs (length xs)"
    if "i \<le> h" for i
    using that
  proof (induction "h - i" arbitrary: i)
    case (Suc d)
    then have "xs ! i \<noteq> key" using h assms(1) by (auto simp: nth_eq_iff_index_eq)
    moreover have "delete_scan key (i + 1) (length xs) xs (length xs) = delete_scan key h (length xs) xs (length xs)"
      using Suc by simp
    ultimately show ?case using Suc h(1) by (subst delete_scan.simps) simp
  qed simp
  from this [of 0] have "delete_scan key 0 (length xs) xs (length xs)
      = (Ok (), take h xs @ drop (Suc h) xs)"
    using delete_scan_hit [OF assms(1) h(1) h(2) [symmetric]] by simp
  moreover have "key \<notin> set (take h xs)"
    using h assms(1) by (auto simp: in_set_conv_nth nth_eq_iff_index_eq)
  then have "remove1 key xs = take h xs @ drop (Suc h) xs"
    using h by (subst id_take_nth_drop [OF h(1)]) (simp add: remove1_append)
  ultimately show ?thesis by simp
qed

lemma Delete_vnodes_eq:
  assumes "distinct (hashRing ch)" and "distinct (map (vnode_key ch node) is)"
    and "vnode_key ch node ` set is \<subseteq> set (hashRing ch)"
  shows "Delete_vnodes node is ch = (Ok (), ch\<lparr>
     hashRing := filter (\<lambda>k. k \<notin> vnode_key ch node ` set is) (hashRing ch),
     hashRingSize := hashRingSize ch - int (length is),
     vNodeMapNode := (\<lambda>k. if k \<in> vnode_key ch node ` set is then None else vNodeMapNode ch k)\<rparr>)"
  using assms
proof (induction "is" arbitrary: ch)
  case Nil
  then show ?case by (simp add: go_return_def)
next
  case (Cons i "is")
  let ?k = "vnode_key ch node i"
  let ?ch = "ch\<lparr>hashRing := remove1 ?k (hashRing ch), vNodeMapNode := (vNodeMapNode ch)(?k := None),
                hashRingSize := hashRingSize ch - 1\<rparr>"
  have key: "vnode_key ?ch node = vnode_key ch node" by (rule ext) (simp add: vnode_key_def)
  have step: "Delete_vnode node i ch = (Ok (), ?ch)"
    using delete_scan_once [of "hashRing ch" ?k] Cons.prems by (simp add: Delete_vnode_def Let_def)
  have "Delete_vnodes node is ?ch = (Ok (), ?ch\<lparr>
     hashRing := filter (\<lambda>k. k \<notin> vnode_key ch node ` set is) (hashRing ?ch),
     hashRingSize := hashRingSize ?ch - int (length is),
     vNodeMapNode := (\<lambda>k. if k \<in> vnode_key ch node ` set is then None else vNodeMapNode ?ch k)\<rparr>)"
    using Cons.IH [of ?ch, unfolded key] Cons.prems by (auto simp: in_set_remove1)
  moreover have "filter (\<lambda>k. k \<notin> vnode_key ch node ` set is) (remove1 ?k (hashRing ch))
      = filter (\<lambda>k. k \<notin> vnode_key ch node ` set (i # is)) (hashRing ch)"
    using Cons.prems(1) by (auto simp: distinct_remove1_removeAll removeAll_filter_not_eq intro: filter_cong)
  ultimately show ?case
    using step by (auto simp: go_bind_def fun_eq_iff intro!: consistent_hash.equality)
qed

lemma CH_Delete_eq:
  assumes "nodeMapNum ch node = Some num" and "distinct (hashRing ch)"
    and "distinct (vnode_keys (hashFunc ch) node num)"
    and "set (vnode_keys (hashFunc ch) node num) \<subseteq> set (hashRing ch)"
  shows "CH_Delete (node # ps) ch = (Ok (), ch\<lparr>
     hashRing := filter (\<lambda>k. k \<notin> set (vnode_keys (hashFunc ch) node num)) (hashRing ch),
     hashRingSize := hashRingSize ch - int (nat num),
     nodeMapNum := (nodeMapNum ch)(node := None),
     vNodeMapNode := (\<lambda>k. if k \<in> set (vnode_keys (hashFunc ch) node num) then None
                          else vNodeMapNode ch k)\<rparr>)"
proof -
  have k: "vnode_keys (hashFunc ch) node num = map (vnode_key ch node) [0..<nat num]"
    by (simp add: vnode_keys_def vnode_key_def)
  show ?thesis
    using Delete_vnodes_eq [of ch node "[0..<nat num]"] assms
    unfolding k by (simp add: CH_Delete_def go_bind_def go_modify_def)
qed

section \<open>The invariant of a ring without collisions\<close>

definition ch_ok :: "consistent_hash \<Rightarrow> bool" where
  "ch_ok ch \<longleftrightarrow> ring_inv ch \<and> distinct (hashRing ch)
     \<and> (\<forall>node num. nodeMapNum ch node = Some num \<longrightarrow>
           distinct (vnode_keys (hashFunc ch) node num)
         \<and> set (vnode_keys (hashFunc ch) node num) \<subseteq> set (hashRing ch))
     \<and> (\<forall>k node. vNodeMapNode ch k = Some node \<longrightarrow> k \<in> set (hashRing ch)
         \<and> (\<exists>num. nodeMapNum ch node = Some num \<and> k \<in> set (vnode_keys (hashFunc ch) node num)))
     \<and> (\<forall>node num k. nodeMapNum ch node = Some num \<and> k \<in> set (vnode_keys (hashFunc ch) node num)
         \<longrightarrow> vNodeMapNode ch k = Some node)"

text \<open>The virtual nodes of a node that is to be added collide neither among themselves nor with the
  ring.\<close>

definition collision_free :: "consistent_hash \<Rightarrow> string \<Rightarrow> int \<Rightarrow> bool" where
  "collision_free ch node num \<longleftrightarrow> distinct (vnode_keys (hashFunc ch) node num)
     \<and> (\<forall>k \<in> set (vnode_keys (hashFunc ch) node num). vNodeMapNode ch k = None)"

lemma collision_free_ring:
  "ring_inv ch \<Longrightarrow> collision_free ch node num
    \<Longrightarrow> set (vnode_keys (hashFunc ch) node num) \<inter> set (hashRing ch) = {}"
  by (auto simp: ring_inv_def collision_free_def)

lemma ch_ok_new: "ch_ok (NewConsistentHash h)"
  by (simp add: ch_ok_def ring_inv_def NewConsistentHash_def)

lemma ch_ok_Add:
  assumes "ch_ok ch" and "ParseInt s = Ok num" and "nodeMapNum ch node = None"
    and "collision_free ch node num"
  shows "ch_ok (snd (CH_Add (node # s # ps) ch))"
proof -
  have "ring_inv (snd (CH_Add (node # s # ps) ch))"
    using CH_Add_ring_inv assms(1) by (metis ch_ok_def prod.collapse)
  moreover have "set (vnode_keys (hashFunc ch) node num) \<inter> set (hashRing ch) = {}"
    using collision_free_ring assms(1,4) by (auto simp: ch_ok_def)
  ultimately show ?thesis
    using assms unfolding ch_ok_def collision_free_def
    by (simp add: CH_Add_eq) (intro conjI allI impI; fastforce)
qed

lemma length_filter_keys:
  assumes "distinct xs" and "distinct ks" and "set ks \<subseteq> set xs"
  shows "int (length (filter (\<lambda>k. k \<notin> set ks) xs)) = int (length xs) - int (length ks)"
proof -
  have "length (filter (\<lambda>k. k \<in> set ks) xs) = length ks"
    using assms by (simp add: distinct_length_filter Int_absorb2 distinct_card)
  moreover have "length xs = length (filter (\<lambda>k. k \<in> set ks) xs) + length (filter (\<lambda>k. k \<notin> set ks) xs)"
    by (rule sum_length_filter_compl [symmetric])
  ultimately show ?thesis by linarith
qed

lemma ch_okD:
  assumes "ch_ok ch"
  shows "nodeMapNum ch n = Some m \<Longrightarrow> distinct (vnode_keys (hashFunc ch) n m)"
    and "nodeMapNum ch n = Some m \<Longrightarrow> k \<in> set (vnode_keys (hashFunc ch) n m)
      \<Longrightarrow> k \<in> set (hashRing ch) \<and> vNodeMapNode ch k = Some n"
    and "vNodeMapNode ch k = Some n \<Longrightarrow> k \<in> set (hashRing ch)
      \<and> (\<exists>m. nodeMapNum ch n = Some m \<and> k \<in> set (vnode_keys (hashFunc ch) n m))"
  using assms unfolding ch_ok_def by blast+

lemma CH_Delete_ok:
  assumes "ch_ok ch" and "nodeMapNum ch node = Some num" and "CH_Delete (node # ps) ch = (r, ch')"
  shows "r = Ok ()" and "hashFunc ch' = hashFunc ch" and "distinct (hashRing ch')" and "ring_inv ch'"
    and "nodeMapNum ch' = (nodeMapNum ch)(node := None)"
    and "vNodeMapNode ch' k = (if vNodeMapNode ch k = Some node then None else vNodeMapNode ch k)"
    and "k \<in> set (hashRing ch') \<longleftrightarrow> k \<in> set (hashRing ch) \<and> vNodeMapNode ch k \<noteq> Some node"
proof -
  let ?K = "vnode_keys (hashFunc ch) node num"
  have K: "distinct ?K" "set ?K \<subseteq> set (hashRing ch)" "distinct (hashRing ch)"
    using assms(1,2) by (auto simp: ch_ok_def)
  have own: "k \<in> set ?K \<longleftrightarrow> vNodeMapNode ch k = Some node" for k
    using assms(1,2) unfolding ch_ok_def by fastforce
  from CH_Delete_eq [OF assms(2) K(3,1,2), of ps]
  have r: "r = Ok ()" and ch': "ch' = ch\<lparr>
     hashRing := filter (\<lambda>k. k \<notin> set ?K) (hashRing ch), hashRingSize := hashRingSize ch - int (nat num),
     nodeMapNum := (nodeMapNum ch)(node := None),
     vNodeMapNode := (\<lambda>k. if k \<in> set ?K then None else vNodeMapNode ch k)\<rparr>"
    using assms(3) by (simp_all only: prod.inject res.inject)
  show "r = Ok ()" by (fact r)
  show "hashFunc ch' = hashFunc ch" "distinct (hashRing ch')"
    "nodeMapNum ch' = (nodeMapNum ch)(node := None)"
    using K(3) unfolding ch' by simp_all
  show "vNodeMapNode ch' k = (if vNodeMapNode ch k = Some node then None else vNodeMapNode ch k)"
    "k \<in> set (hashRing ch') \<longleftrightarrow> k \<in> set (hashRing ch) \<and> vNodeMapNode ch k \<noteq> Some node"
    unfolding ch' own [symmetric] by simp_all
  show "ring_inv ch'"
    using assms(1) length_filter_keys [OF K(3,1,2)] unfolding ch'
    by (simp add: ch_ok_def ring_inv_def sorted_filter [where f = "\<lambda>x. x", simplified])
qed

lemma ch_ok_Delete:
  assumes "ch_ok ch" and "CH_Delete (node # ps) ch = (r, ch')"
  shows "ch_ok ch' \<and> r = (if nodeMapNum ch node = None then Err (Msg ''node not exist'') else Ok ())
    \<and> set (hashRing ch') = {k \<in> set (hashRing ch). vNodeMapNode ch k \<noteq> Some node}"
proof (cases "nodeMapNum ch node")
  case None
  then have "vNodeMapNode ch k \<noteq> Some node" for k
    using assms(1) unfolding ch_ok_def by fastforce
  with None assms show ?thesis by (auto simp: CH_Delete_def)
next
  case (Some num)
  note f = CH_Delete_ok [OF assms(1) Some assms(2)]
  have old: "n \<noteq> node \<and> nodeMapNum ch n = Some m" if "nodeMapNum ch' n = Some m" for n m
    using that f(5) by (auto split: if_splits)
  have "distinct (vnode_keys (hashFunc ch) n m) \<and> set (vnode_keys (hashFunc ch) n m) \<subseteq> set (hashRing ch')"
    if "nodeMapNum ch' n = Some m" for n m
    using old [OF that] ch_okD(1,2) [OF assms(1)] f(7) by fastforce
  moreover have "k \<in> set (hashRing ch')
      \<and> (\<exists>m. nodeMapNum ch' n = Some m \<and> k \<in> set (vnode_keys (hashFunc ch) n m))"
    if "vNodeMapNode ch' k = Some n" for k n
    using that ch_okD(3) [OF assms(1), of k n] unfolding f(5-7) by (auto split: if_splits)
  moreover have "vNodeMapNode ch' k = Some n"
    if "nodeMapNum ch' n = Some m" "k \<in> set (vnode_keys (hashFunc ch) n m)" for n m k
    using old [OF that(1)] ch_okD(2) [OF assms(1) _ that(2)] unfolding f(6) by auto
  ultimately have "ch_ok ch'" using f(3,4) unfolding ch_ok_def f(2) by simp
  with f(1,7) Some show ?thesis by auto
qed

text \<open>C21: the invariant of a ring whose hashes do not collide. It holds of a new balancer; adding an
  absent node keeps it; and from there \<open>Delete\<close> never panics, refuses an absent node, keeps the
  invariant and takes exactly the virtual nodes of its node off the ring.\<close>

theorem ring_operations_keep_inv:
  assumes "ch_ok ch"
  shows "ch_ok (NewConsistentHash h)
    \<and> (\<forall>s num. ParseInt s = Ok num \<and> nodeMapNum ch node = None \<and> collision_free ch node num
         \<longrightarrow> ch_ok (snd (CH_Add (node # s # ps) ch)))
    \<and> ch_ok (snd (CH_Delete (node # ps) ch))
    \<and> fst (CH_Delete (node # ps) ch)
        = (if nodeMapNum ch node = None then Err (Msg ''node not exist'') else Ok ())
    \<and> set (hashRing (snd (CH_Delete (node # ps) ch)))
        = {k \<in> set (hashRing ch). vNodeMapNode ch k \<noteq> Some node}"
  using ch_ok_Add [OF assms] ch_ok_Delete [OF assms, of node ps]
  by (cases "CH_Delete (node # ps) ch") (auto simp: ch_ok_new)

text \<open>\<open>Delete\<close> undoes \<open>Add\<close>: on a ring without duplicates, adding an absent node whose virtual nodes
  do not collide and deleting it again gives back the same balancer, field by field.\<close>

theorem delete_undoes_add:
  assumes "ring_inv ch" and "distinct (hashRing ch)" and "ParseInt s = Ok num"
    and "nodeMapNum ch node = None" and "collision_free ch node num"
    and "CH_Add (node # s # ps) ch = (r, ch')"
  shows "r = Ok () \<and> CH_Delete (node # qs) ch' = (Ok (), ch)"
proof -
  let ?K = "vnode_keys (hashFunc ch) node num"
  have K: "distinct ?K" "set ?K \<inter> set (hashRing ch) = {}" "\<forall>k \<in> set ?K. vNodeMapNode ch k = None"
    using assms(5) collision_free_ring [OF assms(1,5)] by (auto simp: collision_free_def)
  have ch': "r = Ok ()" "ch' = ch\<lparr>
     hashRing := sort (hashRing ch @ ?K), hashRingSize := hashRingSize ch + int (nat num),
     nodeMapNum := (nodeMapNum ch)(node \<mapsto> num),
     vNodeMapNode := (\<lambda>k. if k \<in> set ?K then Some node else vNodeMapNode ch k)\<rparr>"
    using assms(6) CH_Add_eq [OF assms(3), of node ps ch] by simp_all
  have "filter (\<lambda>k. k \<notin> set ?K) (sort (hashRing ch @ ?K)) = hashRing ch"
  proof -
    have "filter (\<lambda>k. k \<notin> set ?K) (hashRing ch) = hashRing ch" using K(2) by (auto intro!: filter_True)
    moreover have "filter (\<lambda>k. k \<notin> set ?K) ?K = []" by simp
    ultimately have "filter (\<lambda>k. k \<notin> set ?K) (sort (hashRing ch @ ?K)) = sort (hashRing ch)"
      by (simp only: filter_sort filter_append append_Nil2)
    then show ?thesis using assms(1) by (simp add: ring_inv_def sorted_sort_id)
  qed
  moreover have "CH_Delete (node # qs) ch' = (Ok (), ch'\<lparr>
     hashRing := filter (\<lambda>k. k \<notin> set ?K) (hashRing ch'), hashRingSize := hashRingSize ch' - int (nat num),
     nodeMapNum := (nodeMapNum ch')(node := None),
     vNodeMapNode := (\<lambda>k. if k \<in> set ?K then None else vNodeMapNode ch' k)\<rparr>)"
    using CH_Delete_eq [of ch' node num qs] K assms(2) unfolding ch'(2) by (simp add: Int_commute)
  moreover have "(\<lambda>k. if k \<in> set ?K then None else vNodeMapNode ch' k) = vNodeMapNode ch"
    using K(3) unfolding ch'(2) by auto
  ultimately show ?thesis
    using ch' assms(4) by (simp add: fun_upd_idem)
qed

text \<open>Adding a node twice breaks the ring: whatever the hash function, after one virtual node was added
  twice to a new balancer, deleting the node panics with a slice out of range.\<close>

theorem readd_then_delete_panics:
  "fst (CH_Delete [node]
     (snd (CH_Add [node, ''1''] (snd (CH_Add [node, ''1''] (NewConsistentHash h))))))
   = Panic SliceOutOfRange"
proof -
  let ?h = "hashFunc (NewConsistentHash h)"
  let ?k = "?h (node @ ''_'' @ Itoa 0)"
  have "ParseInt ''1'' = Ok 1" by code_simp
  then have ch: "snd (CH_Add [node, ''1''] (snd (CH_Add [node, ''1''] (NewConsistentHash h))))
      = \<lparr> hashFunc = ?h, hashRing = [?k, ?k], hashRingSize = 2, nodeMapNum = [node \<mapsto> 1],
          vNodeMapNode = [?k \<mapsto> node] \<rparr>"
    by (auto simp: CH_Add_eq vnode_keys_def NewConsistentHash_def)
  have "fst (delete_scan ?k 0 2 [?k, ?k] 2) = Panic SliceOutOfRange"
    by (simp add: delete_scan.simps)
  then show ?thesis
    unfolding ch
    by (simp add: CH_Delete_def Delete_vnode_def vnode_key_def Let_def go_bind_def split_beta
        numeral_2_eq_2)
qed

section \<open>A concrete ring\<close>

text \<open>A hash for the examples: the sum of the characters.\<close>

definition demo_hash :: "string \<Rightarrow> u32" where
  "demo_hash s = sum_list (map (\<lambda>c. word_of_nat (of_char c)) s)"

definition demo_ring :: consistent_hash where
  "demo_ring = snd (CH_Add [''a'', ''1''] (NewConsistentHash (Some demo_hash)))"

lemma demo_ring_eq:
  "demo_ring = \<lparr> hashFunc = demo_hash, hashRing = [240], hashRingSize = 1,
     nodeMapNum = [''a'' \<mapsto> 1], vNodeMapNode = [240 \<mapsto> ''a''] \<rparr>"
proof -
  have "ParseInt ''1'' = Ok 1" and "demo_hash (''a'' @ ''_'' @ Itoa 0) = 240" by code_simp+
  then show ?thesis
    by (auto simp: demo_ring_def CH_Add_eq vnode_keys_def NewConsistentHash_def fun_eq_iff)
qed

lemma demo_ring_ok: "ch_ok demo_ring" and demo_ring_inv: "ring_inv demo_ring"
    and demo_ring_ring: "hashRing demo_ring = [240]" "hashFunc demo_ring = demo_hash"
      "vNodeMapNode demo_ring = [240 \<mapsto> ''a'']" "nodeMapNum demo_ring = [''a'' \<mapsto> 1]"
proof -
  have "vnode_keys demo_hash ''a'' 1 = [240]" by code_simp
  then show "ch_ok demo_ring" by (auto simp: ch_ok_def ring_inv_def demo_ring_eq split: if_splits)
  then show "ring_inv demo_ring" by (simp add: ch_ok_def)
qed (simp_all add: demo_ring_eq)

text \<open>A second node, whose virtual nodes are at 241 and 242.\<close>

lemma demo_second: "ParseInt ''2'' = Ok 2" "vnode_keys demo_hash ''b'' 2 = [241, 242]"
  by code_simp+

lemma demo_collision_free: "collision_free demo_ring ''b'' 2"
  by (simp add: collision_free_def demo_ring_ring demo_second)

lemma ring_lookup_witness:
  "CH_Get [''x''] demo_ring = (Ok ''a'', demo_ring)"
  using ring_lookup [of demo_ring "''x''" "[]"] by (simp add: demo_ring_inv demo_ring_ring)

lemma add_moves_keys_to_new_node_witness:
  "\<exists>n. fst (CH_Get [''x''] (snd (CH_Add [''b'', ''2''] demo_ring))) = Ok n \<and> (n = ''a'' \<or> n = ''b'')"
proof -
  let ?ch = "snd (CH_Add [''b'', ''2''] demo_ring)"
  have add: "CH_Add [''b'', ''2''] demo_ring = (Ok (), ?ch)"
    using CH_Add_eq [OF demo_second(1), of "''b''" "[]" demo_ring] by simp
  have old: "CH_Get [''x''] demo_ring = (Ok (owner demo_ring (demo_hash ''x'')), demo_ring)"
    using CH_Get_owner [OF demo_ring_inv] by (simp add: demo_ring_ring)
  have "hashRing ?ch \<noteq> []"
    using CH_Add_eq [OF demo_second(1), of "''b''" "[]" demo_ring] by (simp add: demo_ring_ring)
  then have new: "CH_Get [''x''] ?ch = (Ok (owner ?ch (hashFunc ?ch ''x'')), ?ch)"
    by (intro CH_Get_owner CH_Add_ring_inv [OF demo_ring_inv add])
  have "owner demo_ring (demo_hash ''x'') = ''a''"
    by (simp add: owner_def demo_ring_ring)
  with add_moves_keys_to_new_node [OF demo_ring_inv _ add old new] new
  show ?thesis by (simp add: demo_ring_ring)
qed

lemma ring_operations_keep_inv_witness:
  "ch_ok (snd (CH_Add [''b'', ''2''] demo_ring))
   \<and> fst (CH_Delete [''a''] demo_ring) = Ok ()
   \<and> fst (CH_Delete [''b''] demo_ring) = Err (Msg ''node not exist'')"
proof -
  have "ch_ok (snd (CH_Add [''b'', ''2''] demo_ring))"
    using ring_operations_keep_inv [OF demo_ring_ok, of None "''b''" "[]"]
      demo_collision_free demo_second(1) by (simp add: demo_ring_ring)
  moreover have "fst (CH_Delete [''a''] demo_ring) = Ok ()"
    and "fst (CH_Delete [''b''] demo_ring) = Err (Msg ''node not exist'')"
    using ring_operations_keep_inv [OF demo_ring_ok, of None "''a''" "[]"]
      ring_operations_keep_inv [OF demo_ring_ok, of None "''b''" "[]"]
    by (simp_all add: demo_ring_ring)
  ultimately show ?thesis by simp
qed

lemma delete_undoes_add_witness:
  "CH_Delete [''b''] (snd (CH_Add [''b'', ''2''] demo_ring)) = (Ok (), demo_ring)"
  using delete_undoes_add [OF demo_ring_inv _ demo_second(1) _ demo_collision_free, of "[]"
      "fst (CH_Add [''b'', ''2''] demo_ring)" "snd (CH_Add [''b'', ''2''] demo_ring)" "[]"]
  by (simp add: demo_ring_ring)

end
