(* ===== verification/LoadBalance.thy ===== *)
theory LoadBalance
  imports ConsistentHash
begin

text \<open>
  The interface \<open>LoadBalance\<close> and the factory \<open>NewLoadBalance\<close> (\<^verbatim>\<open>internal/balance/loadbalance.go\<close>).
  A value of the interface is one of the four balancers. \<open>Intn\<close> is the parameter of the random one.
\<close>

datatype balancer =
    LB_Random random_balance
  | LB_RoundRobin round_robin
  | LB_WeightRoundRobin "weight_node list"
  | LB_ConsistentHash consistent_hash

definition NewLoadBalance :: "int \<Rightarrow> balancer" where
  "NewLoadBalance lbType =
     (if lbType = 0 then LB_Random Random_new
      else if lbType = 1 then LB_RoundRobin RoundRobin_new
      else if lbType = 2 then LB_WeightRoundRobin []
      else if lbType = 3 then LB_ConsistentHash (NewConsistentHash None)
      else LB_RoundRobin RoundRobin_new)"

text \<open>A method call on the interface runs the method of the value inside.\<close>

definition dispatch :: "('s \<Rightarrow> balancer) \<Rightarrow> ('s, 'a) go \<Rightarrow> 's \<Rightarrow> 'a res \<times> balancer" where
  "dispatch wrap m s = (case m s of (r, s') \<Rightarrow> (r, wrap s'))"

definition LB_Add :: "string list \<Rightarrow> (balancer, unit) go" where
  "LB_Add params b =
     (case b of
        LB_Random r \<Rightarrow> dispatch LB_Random (Random_Add params) r
      | LB_RoundRobin r \<Rightarrow> dispatch LB_RoundRobin (RoundRobin_Add params) r
      | LB_WeightRoundRobin ns \<Rightarrow> dispatch LB_WeightRoundRobin (WRR_Add params) ns
      | LB_ConsistentHash ch \<Rightarrow> dispatch LB_ConsistentHash (CH_Add params) ch)"

definition LB_Get :: "(nat \<Rightarrow> nat) \<Rightarrow> string list \<Rightarrow> (balancer, string) go" where
  "LB_Get Intn params b =
     (case b of
        LB_Random r \<Rightarrow> dispatch LB_Random (Random_Get Intn) r
      | LB_RoundRobin r \<Rightarrow> dispatch LB_RoundRobin RoundRobin_Get r
      | LB_WeightRoundRobin ns \<Rightarrow> dispatch LB_WeightRoundRobin WRR_Get ns
      | LB_ConsistentHash ch \<Rightarrow> dispatch LB_ConsistentHash (CH_Get params) ch)"

section \<open>The contract of the interface\<close>

fun lb_nodes :: "balancer \<Rightarrow> string list" where
  "lb_nodes (LB_Random r) = rnd_allNodes r"
| "lb_nodes (LB_RoundRobin r) = rr_allNodes r"
| "lb_nodes (LB_WeightRoundRobin ns) = map wn_node ns"
| "lb_nodes (LB_ConsistentHash ch) = map (the \<circ> vNodeMapNode ch) (hashRing ch)"

fun lb_inv :: "balancer \<Rightarrow> bool" where
  "lb_inv (LB_WeightRoundRobin ns) = (ns = [] \<or> wrr_inv ns)"
| "lb_inv (LB_ConsistentHash ch) = ring_inv ch"
| "lb_inv _ = True"

lemma lb_load_balance:
  assumes "in_range Intn"
  shows "load_balance lb_nodes lb_inv (LB_Get Intn (p # ps))"
proof
  fix b assume inv: "lb_inv b" and ne: "lb_nodes b \<noteq> []"
  note rnd_ok = load_balance.get_ok [OF guarded_balance.axioms(1) [OF random_guarded_balance [OF assms]]]
  show "\<exists>x b'. LB_Get Intn (p # ps) b = (Ok x, b') \<and> x \<in> set (lb_nodes b) \<and> lb_nodes b' = lb_nodes b \<and> lb_inv b'"
  proof (cases b)
    case (LB_Random r)
    then show ?thesis using rnd_ok [of r] ne by (auto simp: LB_Get_def dispatch_def)
  next
    case (LB_RoundRobin r)
    then show ?thesis using rr.get_ok [of r] ne by (auto simp: LB_Get_def dispatch_def)
  next
    case (LB_WeightRoundRobin ns)
    then obtain x ns' where "WRR_Get ns = (Ok x, ns')" "x \<in> set (map wn_node ns)"
      "map wn_node ns' = map wn_node ns" "ns' = [] \<or> wrr_inv ns'"
      using wrr.get_ok [of ns] inv ne by auto
    then show ?thesis using LB_WeightRoundRobin by (simp add: LB_Get_def dispatch_def)
  next
    case (LB_ConsistentHash ch)
    then have "ring_inv ch" "hashRing ch \<noteq> []" using inv ne by auto
    from CH_Get_owner [OF this, of p ps] owner_in [OF this] show ?thesis
      using LB_ConsistentHash \<open>ring_inv ch\<close> by (simp add: LB_Get_def dispatch_def)
  qed
qed

interpretation lb: load_balance lb_nodes lb_inv "LB_Get (\<lambda>n. n div 2) (p # ps)" for p ps
  by (rule lb_load_balance) (simp add: in_range_def)

section \<open>A balancer with one node\<close>

lemma new_get:
  "fst (LB_Get Intn (p # ps) (NewLoadBalance t))
     = (if t = 3 then Panic IndexOutOfRange
        else if t = 0 then Err (Msg ''alloNodes is empty'')
        else if t = 2 then Err (Msg ''get error'') else Err (Msg ''list is empty''))"
  by (simp add: NewLoadBalance_def LB_Get_def dispatch_def Random_new_def Random_Get_def RoundRobin_new_def
      RoundRobin_Get_def WRR_Get_def wrr_loop.simps NewConsistentHash_def CH_Get_empty split: prod.split)

lemma new_add:
  assumes "0 < w" and "w < 2 ^ 31"
  shows "\<exists>b. LB_Add [node, Itoa w] (NewLoadBalance t) = (Ok (), b) \<and> lb_inv b \<and> lb_nodes b \<noteq> []
    \<and> set (lb_nodes b) = {node}"
proof -
  have parse: "ParseInt (Itoa w) = Ok (int w)" by (rule ParseInt_Itoa) (use assms in simp)
  have "int w < 2 ^ 31" using assms(2) by (metis of_nat_less_iff of_nat_numeral of_nat_power)
  then have wrr: "wrr_inv [\<lparr> wn_node = node, wn_weight = int w, wn_currentWeight = 0 \<rparr>]"
    using assms(1) by (simp add: wrr_inv_def total_weight_def)
  let ?ch = "NewConsistentHash None"
  let ?keys = "vnode_keys (hashFunc ?ch) node (int w)"
  obtain ch where ch: "CH_Add [node, Itoa w] ?ch = (Ok (), ch)" "ring_inv ch"
    "hashRing ch = sort ?keys" "\<forall>k \<in> set ?keys. vNodeMapNode ch k = Some node"
    using CH_Add_eq [OF parse, of node "[]" ?ch] CH_Add_ring_inv [of ?ch "[node, Itoa w]" "Ok ()"]
    by (auto simp: ring_inv_def NewConsistentHash_def)
  have keys: "?keys \<noteq> []" using assms(1) by (simp add: vnode_keys_def)
  have "(the \<circ> vNodeMapNode ch) ` set ?keys = (\<lambda>_. node) ` set ?keys"
    by (rule image_cong) (use ch(4) in auto)
  also have "\<dots> = {node}" using keys by (simp add: image_constant_conv)
  finally have "set (map (the \<circ> vNodeMapNode ch) (hashRing ch)) = {node}" using ch(3) by simp
  moreover have "hashRing ch \<noteq> []" using ch(3) keys by (metis set_empty set_sort)
  ultimately show ?thesis
    using ch(1,2) wrr parse
    by (auto simp: NewLoadBalance_def LB_Add_def dispatch_def Random_new_def Random_Add_def RoundRobin_new_def
        RoundRobin_Add_def WRR_Add_def)
qed

text \<open>C35: The four kinds of balancer behind \<open>NewLoadBalance\<close> (loadbalance.go) agree on a single
  node: whatever the kind asked for (an unknown one gives round robin), \<open>Add\<close> of a node with a positive weight
  succeeds and every later \<open>Get\<close> returns that node. On an empty balancer \<open>Get\<close> returns an error,
  except for consistent hashing, where it panics.\<close>

theorem new_balancer_single_node:
  assumes "in_range Intn" and "0 < w" and "w < 2 ^ 31"
  shows "(case fst (LB_Get Intn (p # ps) (NewLoadBalance t)) of
            Panic e \<Rightarrow> t = 3 \<and> e = IndexOutOfRange | Err _ \<Rightarrow> t \<noteq> 3 | Ok _ \<Rightarrow> False)
    \<and> (\<exists>b b'. LB_Add [node, Itoa w] (NewLoadBalance t) = (Ok (), b)
         \<and> picks k (LB_Get Intn (p # ps)) b = (Ok (replicate k node), b'))"
proof -
  obtain b where b: "LB_Add [node, Itoa w] (NewLoadBalance t) = (Ok (), b)" "lb_inv b" "lb_nodes b \<noteq> []"
    "set (lb_nodes b) = {node}"
    using new_add [OF assms(2,3)] by blast
  have "\<exists>xs b'. picks k (LB_Get Intn (p # ps)) b = (Ok xs, b') \<and> length xs = k \<and> set xs \<subseteq> set (lb_nodes b)
      \<and> lb_nodes b' = lb_nodes b \<and> lb_inv b'"
    by (rule load_balance.picks_ok [OF lb_load_balance [OF assms(1)] b(2,3)])
  then obtain xs b' where xs: "picks k (LB_Get Intn (p # ps)) b = (Ok xs, b')" "length xs = k" "set xs \<subseteq> set (lb_nodes b)"
    by (elim exE conjE)
  have "xs = replicate k node"
    by (rule replicate_eqI) (use xs(2,3) b(4) in auto)
  then have "\<exists>b b'. LB_Add [node, Itoa w] (NewLoadBalance t) = (Ok (), b)
      \<and> picks k (LB_Get Intn (p # ps)) b = (Ok (replicate k node), b')"
    using xs(1) b(1) by (intro exI [of _ b] exI [of _ b'] conjI) simp_all
  moreover have "case fst (LB_Get Intn (p # ps) (NewLoadBalance t)) of
      Panic e \<Rightarrow> t = 3 \<and> e = IndexOutOfRange | Err _ \<Rightarrow> t \<noteq> 3 | Ok _ \<Rightarrow> False"
    unfolding new_get by simp
  ultimately show ?thesis by (rule conjI [rotated])
qed

theorem new_balancer_single_node_witness:
  "\<exists>b b'. LB_Add [''10.0.0.1'', Itoa 4] (NewLoadBalance 3) = (Ok (), b)
     \<and> picks 3 (LB_Get (\<lambda>n. 0) [''key'']) b = (Ok [''10.0.0.1'', ''10.0.0.1'', ''10.0.0.1''], b')"
  using new_balancer_single_node [where Intn = "\<lambda>n. 0" and w = 4 and p = "''key''" and ps = "[]" and t = 3
      and node = "''10.0.0.1''" and k = 3]
  by (simp add: in_range_def numeral_3_eq_3)

end
