(* ===== verification/Lru.thy ===== *)
theory Lru
  imports Prelude "HOL-Library.AList" "HOL-Library.Multiset"
begin

text \<open>
  The least recently used cache of \<^verbatim>\<open>internal/lru\<close>. The elements of \<open>container/list\<close> are shared
  between the list and the map by pointers, so they are addresses of a store \<open>heap\<close>: \<open>ll\<close> is the list
  of addresses, front first, and \<open>cache\<close> maps keys to addresses. \<open>None\<close> stands for \<open>nil\<close>, which both
  are in the zero value and after \<open>Clear\<close>. The callback \<open>OnEvicted\<close> records its calls in
  \<open>evictions\<close>. \<open>Clear\<close> visits the map in an order that Go leaves open: the parameter \<open>visit\<close>.
\<close>

record ('k, 'v) lru =
  MaxEntries :: int
  ll :: "nat list option"
  cache :: "('k \<times> nat) list option"
  OnEvicted :: bool
  heap :: "nat \<rightharpoonup> 'k \<times> 'v"
  nextElem :: nat
  evictions :: "('k \<times> 'v) list"

definition lru_New :: "int \<Rightarrow> ('k, 'v) lru" where
  "lru_New maxEntries =
     \<lparr> MaxEntries = maxEntries, ll = Some [], cache = Some [], OnEvicted = False,
       heap = Map.empty, nextElem = 0, evictions = [] \<rparr>"

section \<open>Operations\<close>

definition MoveToFront :: "nat \<Rightarrow> nat list \<Rightarrow> nat list" where
  "MoveToFront e l = (if e \<in> set l then e # remove1 e l else l)"

definition removeElement :: "nat \<Rightarrow> (('k, 'v) lru, unit) go" where
  "removeElement e c =
     (case ll c of
        None \<Rightarrow> (Panic NilDereference, c)
      | Some l \<Rightarrow>
          let c = c\<lparr>ll := Some (remove1 e l)\<rparr>
          in case heap c e of
               None \<Rightarrow> (Panic NilDereference, c)
             | Some (k, v) \<Rightarrow>
                 let c = c\<lparr>cache := map_option (AList.delete k) (cache c)\<rparr>
                 in (Ok (), if OnEvicted c then c\<lparr>evictions := evictions c @ [(k, v)]\<rparr> else c))"

definition RemoveOldest :: "(('k, 'v) lru, unit) go" where
  "RemoveOldest c =
     (if cache c = None then (Ok (), c)
      else case ll c of
             None \<Rightarrow> (Panic NilDereference, c)
           | Some l \<Rightarrow> if l = [] then (Ok (), c) else removeElement (last l) c)"

definition lru_Add :: "'k \<Rightarrow> 'v \<Rightarrow> (('k, 'v) lru, unit) go" where
  "lru_Add key value c0 =
     (let c = (if cache c0 = None then c0\<lparr>cache := Some [], ll := Some []\<rparr> else c0);
          m = (case cache c of None \<Rightarrow> [] | Some m \<Rightarrow> m)
      in case ll c of
           None \<Rightarrow> (Panic NilDereference, c)
         | Some l \<Rightarrow>
             (case map_of m key of
                Some e \<Rightarrow>
                  let c = c\<lparr>ll := Some (MoveToFront e l)\<rparr>
                  in (case heap c e of
                        None \<Rightarrow> (Panic NilDereference, c)
                      | Some (k, _) \<Rightarrow> (Ok (), c\<lparr>heap := (heap c)(e \<mapsto> (k, value))\<rparr>))
              | None \<Rightarrow>
                  let e = nextElem c;
                      c = c\<lparr>heap := (heap c)(e \<mapsto> (key, value)), nextElem := e + 1,
                            ll := Some (e # l), cache := Some (AList.update key e m)\<rparr>
                  in if MaxEntries c \<noteq> 0 \<and> int (length (e # l)) > MaxEntries c
                     then RemoveOldest c else (Ok (), c)))"

definition lru_Get :: "'k \<Rightarrow> (('k, 'v) lru, 'v option) go" where
  "lru_Get key c =
     (case cache c of
        None \<Rightarrow> (Ok None, c)
      | Some m \<Rightarrow>
          (case map_of m key of
             None \<Rightarrow> (Ok None, c)
           | Some e \<Rightarrow>
               (case ll c of
                  None \<Rightarrow> (Panic NilDereference, c)
                | Some l \<Rightarrow>
                    let c = c\<lparr>ll := Some (MoveToFront e l)\<rparr>
                    in case heap c e of
                         None \<Rightarrow> (Panic NilDereference, c)
                       | Some (k, v) \<Rightarrow> (Ok (Some v), c))))"

definition lru_Remove :: "'k \<Rightarrow> (('k, 'v) lru, unit) go" where
  "lru_Remove key c =
     (case cache c of
        None \<Rightarrow> (Ok (), c)
      | Some m \<Rightarrow>
          (case map_of m key of None \<Rightarrow> (Ok (), c) | Some e \<Rightarrow> removeElement e c))"

definition lru_Len :: "(('k, 'v) lru, nat) go" where
  "lru_Len c =
     (if cache c = None then (Ok 0, c)
      else case ll c of None \<Rightarrow> (Panic NilDereference, c) | Some l \<Rightarrow> (Ok (length l), c))"

fun evict_all :: "nat list \<Rightarrow> (('k, 'v) lru, unit) go" where
  "evict_all [] c = (Ok (), c)"
| "evict_all (e # es) c =
     (case heap c e of
        None \<Rightarrow> (Panic NilDereference, c)
      | Some kv \<Rightarrow> evict_all es (c\<lparr>evictions := evictions c @ [kv]\<rparr>))"

definition lru_Clear :: "(nat list \<Rightarrow> nat list) \<Rightarrow> (('k, 'v) lru, unit) go" where
  "lru_Clear visit c =
     go_bind (if OnEvicted c
              then evict_all (visit (case cache c of None \<Rightarrow> [] | Some m \<Rightarrow> map snd m))
              else go_return ())
       (\<lambda>_. go_modify (\<lambda>c. c\<lparr>ll := None, cache := None\<rparr>)) c"

section \<open>Specification\<close>

text \<open>
  The contract, on the list of entries with the most recently used first and the multiset of evicted
  entries.
\<close>

datatype ('k, 'v) lru_op =
  OpAdd 'k 'v | OpGet 'k | OpRemove 'k | OpLen | OpRemoveOldest | OpClear

datatype 'v lru_result = Done | Value "'v option" | Length nat

type_synonym ('k, 'v) lru_spec = "('k \<times> 'v) list \<times> ('k \<times> 'v) multiset"

definition without :: "'k \<Rightarrow> ('k \<times> 'v) list \<Rightarrow> ('k \<times> 'v) list" where
  "without k = filter (\<lambda>e. fst e \<noteq> k)"

definition evict :: "bool \<Rightarrow> ('k \<times> 'v) multiset \<Rightarrow> ('k, 'v) lru_spec \<Rightarrow> ('k \<times> 'v) multiset" where
  "evict cb gone s = (if cb then snd s + gone else snd s)"

definition drop_oldest :: "bool \<Rightarrow> ('k, 'v) lru_spec \<Rightarrow> ('k, 'v) lru_spec" where
  "drop_oldest cb s =
     (if fst s = [] then s else (butlast (fst s), evict cb {# last (fst s) #} s))"

fun spec_step :: "int \<Rightarrow> bool \<Rightarrow> ('k, 'v) lru_op \<Rightarrow> ('k, 'v) lru_spec \<Rightarrow> 'v lru_result \<times> ('k, 'v) lru_spec"
where
  "spec_step cap cb (OpAdd k v) s =
     (Done,
      case map_of (fst s) k of
        Some _ \<Rightarrow> ((k, v) # without k (fst s), snd s)
      | None \<Rightarrow>
          let s' = ((k, v) # fst s, snd s)
          in if cap \<noteq> 0 \<and> int (length (fst s')) > cap then drop_oldest cb s' else s')"
| "spec_step cap cb (OpGet k) s =
     (case map_of (fst s) k of
        None \<Rightarrow> (Value None, s)
      | Some v \<Rightarrow> (Value (Some v), ((k, v) # without k (fst s), snd s)))"
| "spec_step cap cb (OpRemove k) s =
     (Done,
      case map_of (fst s) k of
        None \<Rightarrow> s
      | Some v \<Rightarrow> (without k (fst s), evict cb {# (k, v) #} s))"
| "spec_step cap cb OpLen s = (Length (length (fst s)), s)"
| "spec_step cap cb OpRemoveOldest s = (Done, drop_oldest cb s)"
| "spec_step cap cb OpClear s = (Done, ([], evict cb (mset (fst s)) s))"

text \<open>The operations of the code, with their results as values of one type.\<close>

fun lru_step :: "(nat list \<Rightarrow> nat list) \<Rightarrow> ('k, 'v) lru_op \<Rightarrow> (('k, 'v) lru, 'v lru_result) go" where
  "lru_step visit (OpAdd k v) = go_bind (lru_Add k v) (\<lambda>_. go_return Done)"
| "lru_step visit (OpGet k) = go_bind (lru_Get k) (\<lambda>v. go_return (Value v))"
| "lru_step visit (OpRemove k) = go_bind (lru_Remove k) (\<lambda>_. go_return Done)"
| "lru_step visit OpLen = go_bind lru_Len (\<lambda>n. go_return (Length n))"
| "lru_step visit OpRemoveOldest = go_bind RemoveOldest (\<lambda>_. go_return Done)"
| "lru_step visit OpClear = go_bind (lru_Clear visit) (\<lambda>_. go_return Done)"

section \<open>Invariant and abstraction\<close>

definition entries :: "('k, 'v) lru \<Rightarrow> nat list" where
  "entries c = (case ll c of None \<Rightarrow> [] | Some l \<Rightarrow> l)"

definition lru_inv :: "('k, 'v) lru \<Rightarrow> bool" where
  "lru_inv c \<longleftrightarrow>
     (case (ll c, cache c) of
        (None, None) \<Rightarrow> True
      | (Some l, Some m) \<Rightarrow>
          distinct l \<and> distinct (map fst m)
          \<and> (\<forall>e \<in> set l. e < nextElem c \<and> heap c e \<noteq> None)
          \<and> (\<forall>k e. (k, e) \<in> set m \<longleftrightarrow> e \<in> set l \<and> (\<exists>v. heap c e = Some (k, v)))
      | _ \<Rightarrow> False)"

definition recency :: "('k, 'v) lru \<Rightarrow> ('k \<times> 'v) list" where
  "recency c = map (\<lambda>e. the (heap c e)) (entries c)"

definition lru_abs :: "('k, 'v) lru \<Rightarrow> ('k, 'v) lru_spec" where
  "lru_abs c = (recency c, mset (evictions c))"

definition config :: "('k, 'v) lru \<Rightarrow> int \<times> bool" where
  "config c = (MaxEntries c, OnEvicted c)"

lemma without_map:
  assumes "\<And>x. x \<in> set l \<Longrightarrow> fst (f x) = k \<longleftrightarrow> x = e" and "distinct l"
  shows "without k (map f l) = map f (remove1 e l)"
proof -
  have "filter (\<lambda>x. fst (f x) \<noteq> k) l = filter (\<lambda>x. x \<noteq> e) l"
    using assms(1) by (intro filter_cong) auto
  then show ?thesis
    using assms(2) by (simp add: without_def filter_map comp_def distinct_remove1_removeAll removeAll_filter_not_eq eq_commute)
qed

lemma without_last:
  assumes "distinct (map fst xs)" and "xs \<noteq> []"
  shows "without (fst (last xs)) xs = butlast xs"
  using assms by (cases xs rule: rev_cases) (auto simp: without_def image_iff intro!: filter_True)

text \<open>What the invariant says of a cache whose map is there.\<close>

lemma lru_inv_Some:
  assumes "lru_inv c" and "cache c = Some m"
  shows "ll c = Some (entries c)" and "distinct (entries c)" and "distinct (map fst m)"
    and "e \<in> set (entries c) \<Longrightarrow> e < nextElem c"
    and "e \<in> set (entries c) \<Longrightarrow> \<exists>k v. heap c e = Some (k, v) \<and> map_of m k = Some e"
    and "map_of m k = Some e \<longleftrightarrow> e \<in> set (entries c) \<and> (\<exists>v. heap c e = Some (k, v))"
    and "(k, e) \<in> set m \<longleftrightarrow> e \<in> set (entries c) \<and> (\<exists>v. heap c e = Some (k, v))"
proof -
  show l: "ll c = Some (entries c)"
    using assms by (auto simp: lru_inv_def entries_def split: option.splits)
  show inv: "distinct (entries c)" "distinct (map fst m)" "e \<in> set (entries c) \<Longrightarrow> e < nextElem c"
    "(k, e) \<in> set m \<longleftrightarrow> e \<in> set (entries c) \<and> (\<exists>v. heap c e = Some (k, v))" for k e
    using assms l by (auto simp: lru_inv_def)
  then show of: "map_of m k = Some e \<longleftrightarrow> e \<in> set (entries c) \<and> (\<exists>v. heap c e = Some (k, v))" for k e
    by (simp only: map_of_eq_Some_iff)
  show "\<exists>k v. heap c e = Some (k, v) \<and> map_of m k = Some e" if "e \<in> set (entries c)"
    using that assms l unfolding of by (auto simp: lru_inv_def)
qed

lemma entries_Some: "ll c = Some l \<Longrightarrow> entries c = l"
  by (simp add: entries_def)

lemma lru_invI:
  assumes "ll c = Some l" and "cache c = Some m" and "distinct l" and "distinct (map fst m)"
    and "\<And>e. e \<in> set l \<Longrightarrow> e < nextElem c" and "\<And>e. e \<in> set l \<Longrightarrow> heap c e \<noteq> None"
    and "\<And>k e. (k, e) \<in> set m \<longleftrightarrow> e \<in> set l \<and> (\<exists>v. heap c e = Some (k, v))"
  shows "lru_inv c"
  using assms by (simp add: lru_inv_def)

lemma lru_inv_None: "lru_inv c \<Longrightarrow> cache c = None \<Longrightarrow> ll c = None"
  by (auto simp: lru_inv_def split: option.splits)

lemma recency_nil: "ll c = None \<Longrightarrow> recency c = []"
  by (simp add: recency_def entries_def)

lemma recency_None: "lru_inv c \<Longrightarrow> cache c = None \<Longrightarrow> recency c = []"
  by (simp add: recency_def entries_def lru_inv_None)

lemma recency_map_of:
  assumes "lru_inv c" and "cache c = Some m"
  shows "map_of (recency c) k = (case map_of m k of None \<Rightarrow> None | Some e \<Rightarrow> map_option snd (heap c e))"
    and "distinct (map fst (recency c))"
    and "map_of m k = Some e \<Longrightarrow> without k (recency c) = map (\<lambda>e. the (heap c e)) (remove1 e (entries c))"
proof -
  note l = lru_inv_Some [OF assms]
  let ?f = "\<lambda>e. the (heap c e)"
  have inj: "map_of m (fst (?f e)) = Some e" if "e \<in> set (entries c)" for e
    using l(5) [OF that] by auto
  show dist: "distinct (map fst (recency c))"
    using l(2) inj by (auto simp: recency_def distinct_map inj_on_def) (metis option.inject)
  show "without k (recency c) = map ?f (remove1 e (entries c))" if "map_of m k = Some e"
    unfolding recency_def
  proof (rule without_map [OF _ l(2)])
    fix x assume "x \<in> set (entries c)"
    with inj [of x] inj [of e] that l(6) show "fst (?f x) = k \<longleftrightarrow> x = e"
      by (metis fst_conv option.inject option.sel)
  qed
  show "map_of (recency c) k = (case map_of m k of None \<Rightarrow> None | Some e \<Rightarrow> map_option snd (heap c e))"
  proof (cases "map_of m k")
    case None
    then have "k \<notin> fst ` set (recency c)"
      using inj by (auto simp: recency_def)
    then have "map_of (recency c) k = None" by (simp only: map_of_eq_None_iff not_False_eq_True)
    then show ?thesis by (simp only: None option.case)
  next
    case (Some e)
    then obtain v where "e \<in> set (entries c)" "heap c e = Some (k, v)" using l(6) by blast
    then have "(k, v) \<in> set (recency c)" by (force simp: recency_def)
    then have "map_of (recency c) k = Some v" using dist by simp
    with Some \<open>heap c e = Some (k, v)\<close> show ?thesis by simp
  qed
qed

lemma AList_delete_in: "(k', e) \<in> set (AList.delete k m) \<longleftrightarrow> k' \<noteq> k \<and> (k', e) \<in> set m"
  by (auto simp: AList.delete_eq)

lemma removeElement_ok:
  assumes "lru_inv c" and "cache c = Some m" and "map_of m k = Some e" and "heap c e = Some (k, v)"
  shows "\<exists>c'. removeElement e c = (Ok (), c') \<and> lru_inv c' \<and> config c' = config c
    \<and> lru_abs c' = (without k (recency c), evict (OnEvicted c) {# (k, v) #} (lru_abs c))"
proof -
  note l = lru_inv_Some [OF assms(1,2)]
  let ?c = "c\<lparr>ll := Some (remove1 e (entries c)), cache := Some (AList.delete k m)\<rparr>"
  let ?c' = "if OnEvicted c then ?c\<lparr>evictions := evictions c @ [(k, v)]\<rparr> else ?c"
  have "removeElement e c = (Ok (), ?c')"
    using l(1) assms by (simp add: removeElement_def)
  moreover have "lru_inv ?c'"
  proof -
    have only: "x = e" if "(k, x) \<in> set m" for x
      using that assms(3) l(3) by simp
    have "(k', x) \<in> set (AList.delete k m) \<longleftrightarrow> x \<in> set (remove1 e (entries c)) \<and> (\<exists>v. heap c x = Some (k', v))" for k' x
    proof -
      have "(k', x) \<in> set (AList.delete k m) \<longleftrightarrow> k' \<noteq> k \<and> x \<in> set (entries c) \<and> (\<exists>v. heap c x = Some (k', v))"
        by (simp only: AList_delete_in l(7))
      also have "\<dots> \<longleftrightarrow> x \<noteq> e \<and> x \<in> set (entries c) \<and> (\<exists>v. heap c x = Some (k', v))"
        using only [of x] assms(4) l(7) [of k x] by auto
      finally show ?thesis using l(2) by auto
    qed
    moreover have "distinct (map fst (AList.delete k m))" by (rule distinct_delete [OF l(3)])
    moreover have "\<forall>x \<in> set (remove1 e (entries c)). x < nextElem c \<and> heap c x \<noteq> None"
      using l(4,5) set_remove1_subset [of e "entries c"] by fastforce
    ultimately show ?thesis using l(2) by (simp add: lru_inv_def)
  qed
  moreover have "lru_abs ?c' = (without k (recency c), evict (OnEvicted c) {# (k, v) #} (lru_abs c))"
    using recency_map_of(3) [OF assms(1-3)]
    by (simp add: lru_abs_def recency_def entries_Some evict_def)
  ultimately show ?thesis by (auto simp: config_def)
qed

lemma update_new: "k \<notin> fst ` set m \<Longrightarrow> AList.update k e m = m @ [(k, e)]"
  by (induction m) auto

lemma move_ok:
  assumes "lru_inv c" and "cache c = Some m" and "map_of m k = Some e"
    and "c' = c\<lparr>ll := Some (MoveToFront e (entries c)), heap := (heap c)(e \<mapsto> (k, v))\<rparr>"
  shows "lru_inv c'" and "recency c' = (k, v) # without k (recency c)"
proof -
  note l = lru_inv_Some [OF assms(1,2)]
  have e: "e \<in> set (entries c)" "\<exists>v. heap c e = Some (k, v)" using l(6) assms(3) by blast+
  have set: "set (MoveToFront e (entries c)) = set (entries c)"
    using e l(2) by (auto simp: MoveToFront_def)
  have "distinct (MoveToFront e (entries c))"
    using l(2) by (auto simp: MoveToFront_def)
  then show "lru_inv c'"
  proof (rule lru_invI [where m = m, rotated 2])
    fix k' x
    show "(k', x) \<in> set m \<longleftrightarrow> x \<in> set (MoveToFront e (entries c)) \<and> (\<exists>w. heap c' x = Some (k', w))"
      using l(7) [of k' x] e unfolding assms(4) by (auto simp: set)
    show "x \<in> set (MoveToFront e (entries c)) \<Longrightarrow> heap c' x \<noteq> None"
      using l(5) [of x] unfolding assms(4) by (auto simp: set)
  qed (use l(3,4) assms(2) in \<open>simp_all add: assms(4) set\<close>)
  have "map (\<lambda>x. the (((heap c)(e \<mapsto> (k, v))) x)) (remove1 e (entries c)) = without k (recency c)"
    using recency_map_of(3) [OF assms(1-3)] l(2) by simp
  then show "recency c' = (k, v) # without k (recency c)"
    using e by (simp add: assms(4) recency_def entries_Some MoveToFront_def)
qed

lemma push_ok:
  assumes "lru_inv c" and "cache c = Some m" and "map_of m k = None"
    and "c' = c\<lparr>heap := (heap c)(nextElem c \<mapsto> (k, v)), nextElem := nextElem c + 1,
                  ll := Some (nextElem c # entries c), cache := Some (AList.update k (nextElem c) m)\<rparr>"
  shows "lru_inv c'" and "recency c' = (k, v) # recency c"
proof -
  note l = lru_inv_Some [OF assms(1,2)]
  let ?e = "nextElem c"
  have new: "?e \<notin> set (entries c)" using l(4) by blast
  have k: "k \<notin> fst ` set m" using assms(3) by (simp add: map_of_eq_None_iff)
  have "distinct (map fst (AList.update k ?e m))" using l(3) by (rule distinct_update)
  then show "lru_inv c'"
  proof (rule lru_invI [where l = "?e # entries c", rotated 3])
    fix k' x
    show "(k', x) \<in> set (AList.update k ?e m)
        \<longleftrightarrow> x \<in> set (?e # entries c) \<and> (\<exists>w. heap c' x = Some (k', w))"
      using l(7) [of k' x] new unfolding assms(4) update_new [OF k] by auto
    show "x \<in> set (?e # entries c) \<Longrightarrow> heap c' x \<noteq> None"
      using l(5) [of x] unfolding assms(4) by auto
    show "x \<in> set (?e # entries c) \<Longrightarrow> x < nextElem c'"
      using l(4) [of x] unfolding assms(4) by auto
  qed (use l(2) new in \<open>simp_all add: assms(4)\<close>)
  have "map (\<lambda>x. the (((heap c)(?e \<mapsto> (k, v))) x)) (entries c) = recency c"
    using new by (auto simp: recency_def)
  then show "recency c' = (k, v) # recency c"
    by (simp add: assms(4) recency_def entries_Some)
qed

lemma RemoveOldest_ok:
  assumes "lru_inv c"
  shows "\<exists>c'. RemoveOldest c = (Ok (), c') \<and> lru_inv c' \<and> config c' = config c
    \<and> lru_abs c' = drop_oldest (OnEvicted c) (lru_abs c)"
proof (cases "cache c")
  case None
  then show ?thesis
    using assms by (simp add: RemoveOldest_def lru_abs_def drop_oldest_def recency_None)
next
  case (Some m)
  note l = lru_inv_Some [OF assms Some]
  show ?thesis
  proof (cases "entries c = []")
    case True
    then show ?thesis
      using assms Some l(1) by (simp add: RemoveOldest_def lru_abs_def drop_oldest_def recency_def)
  next
    case False
    let ?e = "last (entries c)"
    obtain k v where kv: "heap c ?e = Some (k, v)" "map_of m k = Some ?e"
      using l(5) False last_in_set by blast
    then have last: "last (recency c) = (k, v)" using False by (simp add: recency_def last_map)
    have "recency c \<noteq> []" using False by (simp add: recency_def)
    with without_last [OF recency_map_of(2) [OF assms Some]] last
    have "without k (recency c) = butlast (recency c)" by simp
    moreover have "RemoveOldest c = removeElement ?e c"
      using Some l(1) False by (simp add: RemoveOldest_def)
    ultimately show ?thesis
      using removeElement_ok [OF assms Some kv(2,1)] last \<open>recency c \<noteq> []\<close>
      by (simp add: drop_oldest_def lru_abs_def)
  qed
qed

lemma evict_all_ok:
  "\<forall>e \<in> set es. heap c e \<noteq> None \<Longrightarrow>
     evict_all es c = (Ok (), c\<lparr>evictions := evictions c @ map (\<lambda>e. the (heap c e)) es\<rparr>)"
  by (induction es arbitrary: c) auto

lemma elements_of_map:
  assumes "lru_inv c" and "cache c = Some m"
  shows "mset (map snd m) = mset (entries c)"
proof -
  note l = lru_inv_Some [OF assms]
  have "inj_on snd (set m)"
  proof (rule inj_onI)
    fix x y assume "x \<in> set m" "y \<in> set m" "snd x = snd y"
    moreover obtain a b e where "x = (a, e)" "y = (b, e)"
      using \<open>snd x = snd y\<close> by (cases x, cases y) simp
    ultimately show "x = y" using l(7) [of a e] l(7) [of b e] by auto
  qed
  then have "distinct (map snd m)" using l(3) by (simp add: distinct_map)
  moreover have "set (map snd m) = set (entries c)"
  proof (intro set_eqI iffI)
    fix e assume "e \<in> set (map snd m)"
    then obtain k where "(k, e) \<in> set m" by auto
    then show "e \<in> set (entries c)" by (simp only: l(7))
  next
    fix e assume "e \<in> set (entries c)"
    then obtain k where "map_of m k = Some e" using l(5) by blast
    from imageI [OF map_of_SomeD [OF this], of snd] show "e \<in> set (map snd m)" by simp
  qed
  ultimately show ?thesis
    using l(2) set_eq_iff_mset_eq_distinct [of "map snd m" "entries c"] by blast
qed

text \<open>Any order in which a \<open>range\<close> loop may visit the map.\<close>

definition visits_all :: "(nat list \<Rightarrow> nat list) \<Rightarrow> bool" where
  "visits_all visit \<longleftrightarrow> (\<forall>xs. mset (visit xs) = mset xs)"

lemma lru_Clear_ok:
  assumes "lru_inv c" and "visits_all visit"
  shows "\<exists>c'. lru_Clear visit c = (Ok (), c') \<and> lru_inv c' \<and> config c' = config c
    \<and> lru_abs c' = ([], evict (OnEvicted c) (mset (recency c)) (lru_abs c))"
proof -
  let ?es = "visit (case cache c of None \<Rightarrow> [] | Some m \<Rightarrow> map snd m)"
  have es: "mset ?es = mset (entries c)"
  proof (cases "cache c")
    case None
    with lru_inv_None [OF assms(1)] assms(2) show ?thesis by (simp add: entries_def visits_all_def)
  next
    case (Some m)
    with elements_of_map [OF assms(1) Some] assms(2) show ?thesis by (simp add: visits_all_def)
  qed
  have "\<forall>e \<in> set (entries c). heap c e \<noteq> None"
  proof (cases "cache c")
    case None
    then show ?thesis using lru_inv_None [OF assms(1)] by (simp add: entries_def)
  next
    case (Some m)
    then show ?thesis using lru_inv_Some(5) [OF assms(1)] by fastforce
  qed
  then have "\<forall>e \<in> set ?es. heap c e \<noteq> None" using es mset_eq_setD by metis
  note ev = evict_all_ok [OF this]
  have "mset (map (\<lambda>e. the (heap c e)) ?es) = mset (recency c)"
    using es by (simp add: recency_def)
  then show ?thesis
    by (simp add: lru_Clear_def ev go_bind_def go_return_def go_modify_def lru_inv_def config_def lru_abs_def
        recency_nil evict_def)
qed

lemma lru_Add_ok:
  assumes "lru_inv c"
  shows "\<exists>c'. lru_Add k v c = (Ok (), c') \<and> lru_inv c' \<and> config c' = config c
    \<and> lru_abs c' = snd (spec_step (MaxEntries c) (OnEvicted c) (OpAdd k v) (lru_abs c))"
proof -
  define c0 where "c0 = (if cache c = None then c\<lparr>cache := Some [], ll := Some []\<rparr> else c)"
  have c0: "lru_inv c0" "config c0 = config c" "lru_abs c0 = lru_abs c"
    using assms recency_None [OF assms] lru_inv_None [OF assms]
    by (auto simp: c0_def lru_inv_def config_def lru_abs_def recency_def entries_def)
  obtain m where m: "cache c0 = Some m" by (cases "cache c") (auto simp: c0_def)
  note l = lru_inv_Some [OF c0(1) m]
  have cap: "MaxEntries c0 = MaxEntries c" "OnEvicted c0 = OnEvicted c"
    using c0(2) by (auto simp: config_def)
  have abs: "recency c0 = fst (lru_abs c)" "mset (evictions c0) = snd (lru_abs c)"
    using c0(3) by (simp_all add: lru_abs_def)
  note look = recency_map_of(1) [OF c0(1) m, of k, unfolded abs]
  show ?thesis
  proof (cases "map_of m k")
    case (Some e)
    then obtain w where w: "heap c0 e = Some (k, w)" using l(6) by blast
    let ?c = "c0\<lparr>ll := Some (MoveToFront e (entries c0)), heap := (heap c0)(e \<mapsto> (k, v))\<rparr>"
    have "lru_Add k v c = (Ok (), ?c)"
      using m l(1) Some w by (simp add: lru_Add_def Let_def flip: c0_def)
    moreover have "lru_abs ?c = snd (spec_step (MaxEntries c) (OnEvicted c) (OpAdd k v) (lru_abs c))"
      using move_ok(2) [OF c0(1) m Some refl, of v] look Some w abs
      by (simp add: lru_abs_def [of ?c])
    ultimately show ?thesis
      using move_ok(1) [OF c0(1) m Some refl, of v] c0(2) by (auto simp: config_def)
  next
    case None
    let ?c = "c0\<lparr>heap := (heap c0)(nextElem c0 \<mapsto> (k, v)), nextElem := nextElem c0 + 1,
        ll := Some (nextElem c0 # entries c0), cache := Some (AList.update k (nextElem c0) m)\<rparr>"
    have inv: "lru_inv ?c" and rec: "recency ?c = (k, v) # recency c0"
      using push_ok [OF c0(1) m None refl, of v] by blast+
    have len: "length (entries c0) = length (fst (lru_abs c))"
      using abs(1) by (metis length_map recency_def)
    have step: "lru_Add k v c = (if MaxEntries c \<noteq> 0 \<and> int (Suc (length (fst (lru_abs c)))) > MaxEntries c
        then RemoveOldest ?c else (Ok (), ?c))"
      using m l(1) None cap len by (simp add: lru_Add_def Let_def flip: c0_def)
    have "lru_abs ?c = (recency ?c, mset (evictions c0))"
      unfolding lru_abs_def by simp
    then have "lru_abs ?c = ((k, v) # fst (lru_abs c), snd (lru_abs c))"
      by (simp only: rec abs)
    with RemoveOldest_ok [OF inv] step look None cap inv show ?thesis
      by (auto simp: config_def Let_def)
  qed
qed

lemma lru_Get_ok:
  assumes "lru_inv c"
  shows "\<exists>c' v. lru_Get k c = (Ok v, c') \<and> lru_inv c' \<and> config c' = config c
    \<and> spec_step (MaxEntries c) (OnEvicted c) (OpGet k) (lru_abs c) = (Value v, lru_abs c')"
proof (cases "cache c")
  case None
  then show ?thesis using assms by (simp add: lru_Get_def lru_abs_def recency_None)
next
  case (Some m)
  note look = recency_map_of(1) [OF assms Some, of k] and l = lru_inv_Some [OF assms Some]
  show ?thesis
  proof (cases "map_of m k")
    case None
    then show ?thesis using assms Some look by (simp add: lru_Get_def lru_abs_def)
  next
    case e: (Some e)
    then obtain v where v: "heap c e = Some (k, v)" using l(6) by blast
    then have same: "(heap c)(e \<mapsto> (k, v)) = heap c" by (simp add: fun_upd_idem)
    note mv = move_ok [OF assms Some e refl, of v, unfolded same]
    have id: "c\<lparr>ll := Some (MoveToFront e (entries c)), heap := heap c\<rparr>
        = c\<lparr>ll := Some (MoveToFront e (entries c))\<rparr>" by simp
    show ?thesis
      using mv look l(1) Some e v unfolding id
      by (simp add: lru_Get_def lru_abs_def config_def)
  qed
qed

lemma lru_Remove_ok:
  assumes "lru_inv c"
  shows "\<exists>c'. lru_Remove k c = (Ok (), c') \<and> lru_inv c' \<and> config c' = config c
    \<and> lru_abs c' = snd (spec_step (MaxEntries c) (OnEvicted c) (OpRemove k) (lru_abs c))"
proof (cases "cache c")
  case None
  then show ?thesis using assms by (simp add: lru_Remove_def lru_abs_def recency_None)
next
  case (Some m)
  note look = recency_map_of(1) [OF assms Some, of k] and l = lru_inv_Some [OF assms Some]
  show ?thesis
  proof (cases "map_of m k")
    case None
    then show ?thesis using assms Some look by (simp add: lru_Remove_def lru_abs_def)
  next
    case e: (Some e)
    then obtain v where v: "heap c e = Some (k, v)" using l(6) by blast
    with removeElement_ok [OF assms Some e v] Some e look show ?thesis
      by (simp add: lru_Remove_def lru_abs_def)
  qed
qed

lemma lru_Len_ok:
  "lru_inv c \<Longrightarrow> lru_Len c = (Ok (length (recency c)), c)"
  using lru_inv_Some(1) [of c] recency_None [of c]
  by (cases "cache c") (auto simp: lru_Len_def recency_def)

section \<open>Refinement\<close>

lemma lru_step_refines:
  assumes "lru_inv c" and "visits_all visit"
  shows "\<exists>r c'. lru_step visit op c = (Ok r, c') \<and> lru_inv c' \<and> config c' = config c
    \<and> spec_step (MaxEntries c) (OnEvicted c) op (lru_abs c) = (r, lru_abs c')"
proof (cases op)
  case (OpAdd k v)
  with lru_Add_ok [OF assms(1), of k v] show ?thesis
    by (auto simp: go_bind_def go_return_def simp del: spec_step.simps) (simp add: spec_step.simps(1))
next
  case (OpGet k)
  with lru_Get_ok [OF assms(1), of k] show ?thesis
    by (auto simp: go_bind_def go_return_def simp del: spec_step.simps)
next
  case (OpRemove k)
  with lru_Remove_ok [OF assms(1), of k] show ?thesis by (auto simp: go_bind_def go_return_def)
next
  case OpLen
  with lru_Len_ok [OF assms(1)] assms(1) show ?thesis
    by (simp add: go_bind_def go_return_def lru_abs_def)
next
  case OpRemoveOldest
  with RemoveOldest_ok [OF assms(1)] show ?thesis by (auto simp: go_bind_def go_return_def)
next
  case OpClear
  with lru_Clear_ok [OF assms] show ?thesis by (auto simp: go_bind_def go_return_def lru_abs_def)
qed

text \<open>A history of operations, on a state of the code and on its specification.\<close>

fun runs :: "('op \<Rightarrow> ('s, 'r) go) \<Rightarrow> 'op list \<Rightarrow> ('s, 'r list) go" where
  "runs step [] = go_return []"
| "runs step (op # ops) =
     go_bind (step op) (\<lambda>r. go_bind (runs step ops) (\<lambda>rs. go_return (r # rs)))"

fun spec_runs :: "('op \<Rightarrow> 'a \<Rightarrow> 'r \<times> 'a) \<Rightarrow> 'op list \<Rightarrow> 'a \<Rightarrow> 'r list \<times> 'a" where
  "spec_runs spec [] a = ([], a)"
| "spec_runs spec (op # ops) a =
     (let (r, b) = spec op a; (rs, c) = spec_runs spec ops b in (r # rs, c))"

locale refined =
  fixes step :: "'op \<Rightarrow> ('s, 'r) go"
    and inv :: "'s \<Rightarrow> bool"
    and abs :: "'s \<Rightarrow> 'a"
    and spec :: "'op \<Rightarrow> 'a \<Rightarrow> 'r \<times> 'a"
  assumes step_refines: "inv s \<Longrightarrow>
    \<exists>r s'. step op s = (Ok r, s') \<and> inv s' \<and> spec op (abs s) = (r, abs s')"
begin

lemma runs_refine:
  "inv s \<Longrightarrow>
     \<exists>rs s'. runs step ops s = (Ok rs, s') \<and> inv s' \<and> spec_runs spec ops (abs s) = (rs, abs s')"
proof (induction ops arbitrary: s)
  case Nil
  then show ?case by (simp add: go_return_def)
next
  case (Cons op ops)
  obtain r s1 where 1: "step op s = (Ok r, s1)" "inv s1" "spec op (abs s) = (r, abs s1)"
    using step_refines [OF Cons.prems] by blast
  with Cons.IH [OF 1(2)] show ?case by (auto simp: go_bind_def go_return_def)
qed

end

lemma lru_refined:
  "visits_all visit \<Longrightarrow>
     refined (lru_step visit) (\<lambda>c. lru_inv c \<and> config c = (cap, cb)) lru_abs (spec_step cap cb)"
proof unfold_locales
  fix c :: "('a, 'b) lru" and op
  assume v: "visits_all visit" and "lru_inv c \<and> config c = (cap, cb)"
  then show "\<exists>r c'. lru_step visit op c = (Ok r, c') \<and> (lru_inv c' \<and> config c' = (cap, cb))
      \<and> spec_step cap cb op (lru_abs c) = (r, lru_abs c')"
    using lru_step_refines [OF _ v, of c op] by (auto simp: config_def)
qed

text \<open>The instance whose \<open>range\<close> loops visit a map from its oldest entry on.\<close>

interpretation lru: refined "lru_step rev" "\<lambda>c. lru_inv c \<and> config c = (cap, cb)" lru_abs
    "spec_step cap cb" for cap cb
  by (rule lru_refined) (simp add: visits_all_def)

section \<open>What the specification guarantees\<close>

text \<open>The operations that may happen between a use of \<open>k\<close> and the next, and the keys they use.\<close>

fun spares :: "'k \<Rightarrow> ('k, 'v) lru_op \<Rightarrow> bool" where
  "spares k (OpAdd k' v) \<longleftrightarrow> k' \<noteq> k"
| "spares k (OpGet k') \<longleftrightarrow> k' \<noteq> k"
| "spares k (OpRemove k') \<longleftrightarrow> k' \<noteq> k"
| "spares k OpLen \<longleftrightarrow> True"
| "spares k OpRemoveOldest \<longleftrightarrow> False"
| "spares k OpClear \<longleftrightarrow> False"

fun touched :: "('k, 'v) lru_op \<Rightarrow> 'k list" where
  "touched (OpAdd k v) = [k]"
| "touched (OpGet k) = [k]"
| "touched _ = []"

lemma without_split:
  "k' \<noteq> k \<Longrightarrow> without k' (xs @ (k, v) # ys) = without k' xs @ (k, v) # without k' ys"
  by (simp add: without_def)

lemma set_without: "set (without k xs) = {e \<in> set xs. fst e \<noteq> k}"
  by (auto simp: without_def)

lemma distinct_without: "distinct (map fst xs) \<Longrightarrow> distinct (map fst (without k xs))"
  by (simp add: without_def distinct_map_filter)

text \<open>The entry of \<open>k\<close> stays behind at most the keys used since.\<close>

definition kept_at :: "'k \<Rightarrow> 'v \<Rightarrow> 'k set \<Rightarrow> ('k \<times> 'v) list \<Rightarrow> bool" where
  "kept_at k v T es \<longleftrightarrow> distinct (map fst es)
     \<and> (\<exists>xs ys. es = xs @ (k, v) # ys \<and> fst ` set xs \<subseteq> T)"

lemma kept_at_touch:
  assumes "kept_at k v T es" and "k' \<noteq> k"
  shows "kept_at k v (insert k' T) ((k', w) # without k' es)"
proof -
  obtain xs ys where "es = xs @ (k, v) # ys" "fst ` set xs \<subseteq> T" "distinct (map fst es)"
    using assms(1) by (auto simp: kept_at_def)
  then have "(k', w) # without k' es = ((k', w) # without k' xs) @ (k, v) # without k' ys"
    "fst ` set ((k', w) # without k' xs) \<subseteq> insert k' T"
    using assms(2) by (auto simp: without_split set_without)
  moreover have "distinct (map fst ((k', w) # without k' es))"
    using distinct_without [OF \<open>distinct (map fst es)\<close>] by (auto simp: set_without)
  ultimately show ?thesis unfolding kept_at_def by blast
qed

lemma kept_at_without:
  assumes "kept_at k v T es" and "k' \<noteq> k"
  shows "kept_at k v T (without k' es)"
proof -
  obtain xs ys where "es = xs @ (k, v) # ys" "fst ` set xs \<subseteq> T" "distinct (map fst es)"
    using assms(1) by (auto simp: kept_at_def)
  then have "without k' es = without k' xs @ (k, v) # without k' ys" "fst ` set (without k' xs) \<subseteq> T"
    using assms(2) by (auto simp: without_split set_without)
  with distinct_without [OF \<open>distinct (map fst es)\<close>] show ?thesis unfolding kept_at_def by blast
qed

lemma kept_at_drop:
  assumes "kept_at k v T es" and "finite T" and "Suc (card T) < length es"
  shows "kept_at k v T (butlast es)"
proof -
  obtain xs ys where es: "es = xs @ (k, v) # ys" "fst ` set xs \<subseteq> T" "distinct (map fst es)"
    using assms(1) by (auto simp: kept_at_def)
  have "length xs = card (fst ` set xs)"
    using es(1,3) distinct_card [of "map fst xs"] by simp
  also have "\<dots> \<le> card T" using assms(2) es(2) by (rule card_mono)
  finally have len: "length xs \<le> card T" .
  then have "ys \<noteq> []" using es(1) assms(3) by auto
  then have "butlast es = xs @ (k, v) # butlast ys" using es(1) by (simp add: butlast_append)
  moreover have "distinct (map fst (butlast es))"
    using es(3) by (simp add: map_butlast distinct_butlast)
  ultimately show ?thesis using es(2) unfolding kept_at_def by blast
qed

lemma kept_at_step:
  assumes "kept_at k v T (fst s)" and "spares k op" and "finite T"
    and "card (T \<union> set (touched op)) < nat cap" and "0 < cap"
  shows "kept_at k v (T \<union> set (touched op)) (fst (snd (spec_step cap cb op s)))"
proof (cases op)
  case (OpAdd k' w)
  then have k': "k' \<noteq> k" using assms(2) by simp
  show ?thesis
  proof (cases "map_of (fst s) k'")
    case (Some u)
    with kept_at_touch [OF assms(1) k'] OpAdd show ?thesis by simp
  next
    case None
    then have "without k' (fst s) = fst s"
      by (auto simp: without_def map_of_eq_None_iff image_iff intro!: filter_True)
    with kept_at_touch [OF assms(1) k', of w]
    have new: "kept_at k v (insert k' T) ((k', w) # fst s)" by simp
    have "kept_at k v (insert k' T) (butlast ((k', w) # fst s))" if "cap < int (Suc (length (fst s)))"
      using that assms(3,4) OpAdd by (intro kept_at_drop [OF new]) auto
    with new None OpAdd show ?thesis by (auto simp: Let_def drop_oldest_def)
  qed
next
  case (OpGet k')
  then have k': "k' \<noteq> k" using assms(2) by simp
  have more: "kept_at k v (insert k' T) (fst s)" using assms(1) by (auto simp: kept_at_def)
  with kept_at_touch [OF assms(1) k'] OpGet show ?thesis
    by (cases "map_of (fst s) k'") auto
next
  case (OpRemove k')
  then have k': "k' \<noteq> k" using assms(2) by simp
  with kept_at_without [OF assms(1) k'] assms(1) OpRemove show ?thesis
    by (cases "map_of (fst s) k'") auto
qed (use assms(1,2) in auto)

lemma kept_at_runs:
  "kept_at k v T (fst s) \<Longrightarrow> list_all (spares k) ops \<Longrightarrow> finite T \<Longrightarrow> 0 < cap
    \<Longrightarrow> card (T \<union> set (concat (map touched ops))) < nat cap
    \<Longrightarrow> kept_at k v (T \<union> set (concat (map touched ops))) (fst (snd (spec_runs (spec_step cap cb) ops s)))"
proof (induction ops arbitrary: T s)
  case Nil
  then show ?case by simp
next
  case (Cons op ops)
  obtain r s1 where 1: "spec_step cap cb op s = (r, s1)" by (cases "spec_step cap cb op s")
  have fin: "finite (T \<union> set (touched op) \<union> set (concat (map touched ops)))" using Cons.prems(3) by simp
  have "card (T \<union> set (touched op)) \<le> card (T \<union> set (touched op) \<union> set (concat (map touched ops)))"
    by (rule card_mono [OF fin]) blast
  with Cons.prems(5) have "card (T \<union> set (touched op)) < nat cap" by (simp add: Un_assoc)
  then have "kept_at k v (T \<union> set (touched op)) (fst s1)"
    using kept_at_step [OF Cons.prems(1) _ Cons.prems(3) _ Cons.prems(4), of op cb] Cons.prems(2) 1 by simp
  from Cons.IH [OF this] Cons.prems 1 show ?case
    by (simp add: Un_assoc split_beta Let_def)
qed

lemma spec_runs_append:
  "spec_runs spec (xs @ ys) s =
     (let (rs, t) = spec_runs spec xs s; (rs', u) = spec_runs spec ys t in (rs @ rs', u))"
  by (induction xs arbitrary: s) (auto simp: Let_def split_beta)

lemma spec_Add_front: "0 < cap \<Longrightarrow> \<exists>ys. fst (snd (spec_step cap cb (OpAdd k v) s)) = (k, v) # ys"
  by (cases "map_of (fst s) k") (auto simp: Let_def drop_oldest_def)

lemma recency_distinct: "lru_inv c \<Longrightarrow> distinct (map fst (recency c))"
  using recency_map_of(2) [of c] recency_None [of c] by (cases "cache c") auto

text \<open>The length stays within the capacity.\<close>

lemma spec_step_bounded:
  "0 < cap \<Longrightarrow> int (length (fst s)) \<le> cap \<Longrightarrow> int (length (fst (snd (spec_step cap cb op s)))) \<le> cap"
proof (induction cap cb op s rule: spec_step.induct)
  case (1 cap cb k v s)
  have "length (without k (fst s)) < length (fst s)" if "map_of (fst s) k = Some w" for w
    using map_of_SomeD [OF that] unfolding without_def by (intro length_filter_less) auto
  with 1 show ?case by (auto simp: drop_oldest_def Let_def split: option.splits)
next
  case (2 cap cb k s)
  have "length (without k (fst s)) < length (fst s)" if "map_of (fst s) k = Some w" for w
    using map_of_SomeD [OF that] unfolding without_def by (intro length_filter_less) auto
  with 2 show ?case by (auto split: option.splits)
next
  case (3 cap cb k s)
  have "length (without k (fst s)) \<le> length (fst s)" by (simp add: without_def)
  with 3 show ?case by (auto split: option.splits)
qed (auto simp: drop_oldest_def)

lemma spec_runs_bounded:
  "0 < cap \<Longrightarrow> int (length (fst s)) \<le> cap
    \<Longrightarrow> int (length (fst (snd (spec_runs (spec_step cap cb) ops s)))) \<le> cap"
proof (induction ops arbitrary: s)
  case (Cons op ops)
  from Cons.IH [OF Cons.prems(1) spec_step_bounded [OF Cons.prems]] show ?case
    by (simp add: Let_def split_beta)
qed simp

section \<open>Properties\<close>

lemma lru_New_ok:
  "lru_inv ((lru_New cap)\<lparr>OnEvicted := cb\<rparr>)" "config ((lru_New cap)\<lparr>OnEvicted := cb\<rparr>) = (cap, cb)"
  "lru_abs ((lru_New cap)\<lparr>OnEvicted := cb\<rparr>) = ([], {#})"
  by (simp_all add: lru_New_def lru_inv_def config_def lru_abs_def recency_def entries_def)

text \<open>C19: the cache refines a list of entries in order of use. Whatever the history of operations on a
  new cache, with or without a callback, and whatever the order of the loop of \<open>Clear\<close>, no operation
  panics, every result is the one of the specification, and so are the entries, their order and the
  entries given to the callback; the number of entries never exceeds a positive capacity.\<close>

theorem lru_refines_recency_list:
  assumes "visits_all visit"
  shows "\<exists>c'. runs (lru_step visit) ops ((lru_New cap)\<lparr>OnEvicted := cb\<rparr>)
        = (Ok (fst (spec_runs (spec_step cap cb) ops ([], {#}))), c')
    \<and> (recency c', mset (evictions c')) = snd (spec_runs (spec_step cap cb) ops ([], {#}))
    \<and> (0 < cap \<longrightarrow> int (length (recency c')) \<le> cap)"
proof -
  note run = refined.runs_refine [OF lru_refined [OF assms], of "(lru_New cap)\<lparr>OnEvicted := cb\<rparr>" cap cb ops]
  then obtain rs c' where "runs (lru_step visit) ops ((lru_New cap)\<lparr>OnEvicted := cb\<rparr>) = (Ok rs, c')"
    "spec_runs (spec_step cap cb) ops ([], {#}) = (rs, lru_abs c')"
    using lru_New_ok by metis
  then show ?thesis
    using spec_runs_bounded [of cap "([], {#})" cb ops] by (auto simp: lru_abs_def)
qed

text \<open>C28: the guarantee behind the name. After a key was stored in a cache of positive capacity, it is
  still there, with its value, as long as fewer other keys than the capacity were used since.\<close>

theorem lru_keeps_recently_used:
  assumes "lru_inv c" and "visits_all visit" and "0 < MaxEntries c"
    and "list_all (spares k) ops" and "card (set (concat (map touched ops))) < nat (MaxEntries c)"
  shows "\<exists>rs c'. runs (lru_step visit) (OpAdd k v # ops @ [OpGet k]) c = (Ok (rs @ [Value (Some v)]), c')"
proof -
  let ?cap = "MaxEntries c" and ?cb = "OnEvicted c"
  let ?spec = "spec_step ?cap ?cb"
  let ?s = "snd (?spec (OpAdd k v) (lru_abs c))"
  let ?t = "snd (spec_runs ?spec ops ?s)"
  have inv: "lru_inv c \<and> config c = (?cap, ?cb)" using assms(1) by (simp add: config_def)
  obtain rs c' where run: "runs (lru_step visit) (OpAdd k v # ops @ [OpGet k]) c = (Ok rs, c')"
    "spec_runs ?spec (OpAdd k v # ops @ [OpGet k]) (lru_abs c) = (rs, lru_abs c')"
    using refined.runs_refine [OF lru_refined [OF assms(2)] inv] by blast
  obtain ys where "fst ?s = (k, v) # ys" using spec_Add_front [OF assms(3), of ?cb k v "lru_abs c"] by blast
  moreover obtain c1 where "lru_inv c1" "lru_abs c1 = ?s"
    using lru_Add_ok [OF assms(1), of k v] by blast
  then have "distinct (map fst (fst ?s))" using recency_distinct by (metis fst_conv lru_abs_def)
  ultimately have "kept_at k v {} (fst ?s)" by (auto simp: kept_at_def intro: exI [of _ "[]"])
  from kept_at_runs [OF this assms(4) finite.emptyI assms(3), of ?cb] assms(5)
  have "kept_at k v (set (concat (map touched ops))) (fst ?t)" by simp
  then have "map_of (fst ?t) k = Some v"
    by (auto simp: kept_at_def)
  then have "fst (?spec (OpGet k) ?t) = Value (Some v)" by simp
  with run show ?thesis
    by (auto simp: spec_runs_append Let_def split_beta)
qed

text \<open>Adding a new key to a full cache evicts exactly the entry that was used least recently, and
  hands it to the callback.\<close>

theorem lru_evicts_least_recently_used:
  assumes "lru_inv c" and "0 < MaxEntries c" and "int (length (recency c)) = MaxEntries c"
    and "k \<notin> fst ` set (recency c)" and "OnEvicted c"
  shows "\<exists>c'. lru_Add k v c = (Ok (), c') \<and> recency c' = (k, v) # butlast (recency c)
    \<and> mset (evictions c') = add_mset (last (recency c)) (mset (evictions c))"
proof -
  have "map_of (recency c) k = None" using assms(4) by (simp add: map_of_eq_None_iff)
  moreover have "recency c \<noteq> []" using assms(2,3) by auto
  ultimately show ?thesis
    using lru_Add_ok [OF assms(1), of k v] assms(2,3,5)
    by (auto simp: lru_abs_def drop_oldest_def evict_def Let_def)
qed

section \<open>A concrete cache\<close>

definition demo_lru :: "(string, nat) lru" where
  "demo_lru = snd (runs (lru_step rev) [OpAdd ''a'' 1, OpAdd ''b'' 2] ((lru_New 2)\<lparr>OnEvicted := True\<rparr>))"

lemma demo_lru_ok:
  "lru_inv demo_lru" "MaxEntries demo_lru = 2" "OnEvicted demo_lru"
  "recency demo_lru = [(''b'', 2), (''a'', 1)]"
proof -
  let ?c = "(lru_New 2)\<lparr>OnEvicted := True\<rparr> :: (string, nat) lru"
  have "lru_inv ?c \<and> config ?c = (2, True)" by (simp add: lru_New_ok)
  from lru.runs_refine [OF this, of "[OpAdd ''a'' 1, OpAdd ''b'' 2]"]
  show "lru_inv demo_lru" "MaxEntries demo_lru = 2" "OnEvicted demo_lru"
    "recency demo_lru = [(''b'', 2), (''a'', 1)]"
    unfolding lru_New_ok demo_lru_def by (auto simp: config_def lru_abs_def)
qed

lemma lru_refines_recency_list_witness:
  "\<exists>c'. runs (lru_step rev) [OpAdd ''a'' 1, OpAdd ''b'' (2 :: nat), OpGet ''a'', OpAdd ''c'' 3, OpGet ''b'', OpLen]
      ((lru_New 2)\<lparr>OnEvicted := True\<rparr>)
    = (Ok [Done, Done, Value (Some 1), Done, Value None, Length 2], c')
    \<and> recency c' = [(''c'', 3), (''a'', 1)] \<and> evictions c' = [(''b'', 2)]"
proof -
  have "visits_all rev" by (simp add: visits_all_def)
  from lru_refines_recency_list [OF this, where cap = 2 and cb = True and ops =
      "[OpAdd ''a'' 1, OpAdd ''b'' (2 :: nat), OpGet ''a'', OpAdd ''c'' 3, OpGet ''b'', OpLen]"]
  show ?thesis
    by (auto simp: Let_def without_def drop_oldest_def evict_def mset_single_iff)
qed

lemma lru_keeps_recently_used_witness:
  "\<exists>rs c'. runs (lru_step rev) [OpAdd ''k'' 7, OpAdd ''x'' 1, OpRemove ''b'', OpGet ''x'', OpGet ''k''] demo_lru
     = (Ok (rs @ [Value (Some 7)]), c')"
  using lru_keeps_recently_used [OF demo_lru_ok(1), of rev "''k''" "[OpAdd ''x'' 1, OpRemove ''b'', OpGet ''x'']" 7]
  by (simp add: demo_lru_ok visits_all_def)

lemma lru_evicts_least_recently_used_witness:
  "\<exists>c'. lru_Add ''c'' 3 demo_lru = (Ok (), c') \<and> recency c' = [(''c'', 3), (''b'', 2)]
     \<and> mset (evictions c') = add_mset (''a'', 1) (mset (evictions demo_lru))"
  using lru_evicts_least_recently_used [OF demo_lru_ok(1), of "''c''" 3]
  by (auto simp: demo_lru_ok)

end
