(* ===== verification/Commands.thy ===== *)
theory Commands
  imports ChunkProps
begin

text \<open>
  The command phase of a connection (\<^verbatim>\<open>pkg/rtmp/conn.go\<close>): the AMF command messages a client
  sends after the handshake, the replies of the server, and the loop that ends with \<open>publish\<close> or
  \<open>play\<close>. The AMF library is third party: its batch decoder, its encoder and the conversion of a
  \<open>float64\<close> to an \<open>int\<close> are the fields of a record of functions. The type \<open>'f\<close> stands for
  \<open>float64\<close>. An \<open>amf.Object\<close> is an association list; the order in which the encoder visits it is
  the encoder's own.
\<close>

section \<open>AMF values and the library\<close>

datatype 'f amf =
    AmfString string
  | AmfNumber 'f
  | AmfInt int
  | AmfNil
  | AmfObject "(string \<times> 'f amf) list"
  | AmfOther

record 'f amf_lib =
  DecodeBatch :: "u8 list \<Rightarrow> 'f amf list \<times> go_error option"
  Encode :: "'f amf \<Rightarrow> u8 list + go_error"
  float_int :: "'f \<Rightarrow> int"

section \<open>Replies\<close>

fun encodeAll :: "'f amf_lib \<Rightarrow> 'f amf list \<Rightarrow> u8 list res" where
  "encodeAll L [] = Ok []"
| "encodeAll L (v # vs) =
     (case Encode L v of
        Inr e \<Rightarrow> Err e
      | Inl b \<Rightarrow> (case encodeAll L vs of Ok bs \<Rightarrow> Ok (b @ bs) | r \<Rightarrow> r))"

definition commandMessage :: "u32 \<Rightarrow> u32 \<Rightarrow> u8 list \<Rightarrow> chunk_stream" where
  "commandMessage csid streamID body =
     setMessageHeaderBuffer 11
       ((setMessageHeader 0 (of_nat (length body)) MsgAMF0CommandMessage streamID
           (setBasicHeader 0 csid newChunkStream))\<lparr>ChunkBody := body\<rparr>)"

definition writeCommandMessage :: "'f amf_lib \<Rightarrow> u32 \<Rightarrow> u32 \<Rightarrow> 'f amf list \<Rightarrow> (conn, unit) go" where
  "writeCommandMessage L csid streamID args c =
     (case encodeAll L args of
        Err e \<Rightarrow> (Err e, c)
      | Panic p \<Rightarrow> (Panic p, c)
      | Ok body \<Rightarrow> writeMessage (commandMessage csid streamID body) c)"

text \<open>A message made by a constructor that may panic, sent.\<close>

definition writeMade :: "chunk_stream res \<Rightarrow> (conn, unit) go" where
  "writeMade r =
     (case r of Ok cs \<Rightarrow> writeMessage cs | Err e \<Rightarrow> go_err e | Panic p \<Rightarrow> go_panic p)"

definition peerBandwidth :: "chunk_stream res" where
  "peerBandwidth =
     (case NewProtolControlMessage MsgSetPeerBandwidth 5 2500000 of
        Ok cs \<Rightarrow> if 4 < length (ChunkBody cs) then Ok (cs\<lparr>ChunkBody := (ChunkBody cs)[4 := 2]\<rparr>)
                 else Panic IndexOutOfRange
      | r \<Rightarrow> r)"

definition respConnectCmdMessage :: "'f amf_lib \<Rightarrow> chunk_stream \<Rightarrow> (conn, unit) go" where
  "respConnectCmdMessage L cs =
     go_bind (\<lambda>c. writeMade (NewProtolControlMessage MsgWindowAcknowledgementSize 4 (localWindowAckSize c)) c)
       (\<lambda>_. go_bind (writeMade peerBandwidth)
       (\<lambda>_. go_bind (\<lambda>c. writeMade (NewProtolControlMessage MsgSetChunkSize 4 (localChunksize c)) c)
       (\<lambda>_ c.
          let resp = AmfObject [(''fmsVer'', AmfString ''FMS/3,0,1,123''), (''capabilities'', AmfInt 31)];
              event = AmfObject [(''level'', AmfString ''status''),
                (''code'', AmfString ''NetConnection.Connect.Success''),
                (''description'', AmfString ''Connection succeeded.''),
                (''objectEncoding'', AmfInt (objectEncoding c))]
          in writeCommandMessage L (Csid cs) (MsgStreamID cs)
               [AmfString ''_result'', AmfInt (transactionID c), resp, event] c)))"

definition respCreateStreamCmdMessage :: "'f amf_lib \<Rightarrow> chunk_stream \<Rightarrow> (conn, unit) go" where
  "respCreateStreamCmdMessage L cs c =
     writeCommandMessage L (Csid cs) (MsgStreamID cs)
       [AmfString ''_result'', AmfInt (transactionID c), AmfNil, AmfInt 1] c"

definition statusEvent :: "string \<Rightarrow> string \<Rightarrow> 'f amf" where
  "statusEvent code description =
     AmfObject [(''level'', AmfString ''status''), (''code'', AmfString code),
       (''description'', AmfString description)]"

definition writeStatus :: "'f amf_lib \<Rightarrow> chunk_stream \<Rightarrow> string \<Rightarrow> string \<Rightarrow> (conn, unit) go" where
  "writeStatus L cs code description =
     writeCommandMessage L (Csid cs) (MsgStreamID cs)
       [AmfString ''onStatus'', AmfInt 0, AmfNil, statusEvent code description]"

definition respPulishCmdMessage :: "'f amf_lib \<Rightarrow> chunk_stream \<Rightarrow> (conn, unit) go" where
  "respPulishCmdMessage L cs = writeStatus L cs ''NetStream.Publish.Start'' ''Start publising.''"

text \<open>The user control messages of \<open>play\<close>: the stream identifier 1 in the bytes 2 to 5.\<close>

definition streamIsRecorded :: u32 where "streamIsRecorded = 4"
definition streamBegin :: u32 where "streamBegin = 0"

definition userControl :: "u32 \<Rightarrow> chunk_stream res" where
  "userControl event =
     (case NewUserControlMessage event 4 of
        Ok cs \<Rightarrow>
          if 6 \<le> length (ChunkBody cs)
          then Ok (cs\<lparr>ChunkBody := fold (\<lambda>i b. b[i + 2 := drop_bit ((3 - i) * 8) (1 :: u8) AND 0xff])
                        [0..<4] (ChunkBody cs)\<rparr>)
          else Panic IndexOutOfRange
      | r \<Rightarrow> r)"

definition respPlayCmdMessage :: "'f amf_lib \<Rightarrow> chunk_stream \<Rightarrow> (conn, unit) go" where
  "respPlayCmdMessage L cs =
     go_bind (go_wrap ''send user control message streamIsRecorded'' (writeMade (userControl streamIsRecorded)))
       (\<lambda>_. go_bind (go_wrap ''send user control message streamBegin'' (writeMade (userControl streamBegin)))
       (\<lambda>_. go_bind (go_wrap ''send NetStream.Play.Reset message''
              (writeStatus L cs ''NetStream.Play.Reset'' ''Playing and resetting stream.''))
       (\<lambda>_. go_bind (go_wrap ''send NetStream.Play.Start message''
              (writeStatus L cs ''NetStream.Play.Start'' ''Started playing stream.''))
       (\<lambda>_. go_bind (go_wrap ''send NetStream.Data.Start message''
              (writeStatus L cs ''NetStream.Data.Start'' ''Started playing stream.''))
       (\<lambda>_. go_wrap ''send NetStream.Play.PublishNotify message''
              (writeStatus L cs ''NetStream.Play.PublishNotify'' ''Started playing notify.''))))))"

section \<open>Commands of the client\<close>

text \<open>A field of the command object that must be a string if it is there.\<close>

definition stringField :: "string \<Rightarrow> (string \<Rightarrow> conn \<Rightarrow> conn) \<Rightarrow> (string \<times> 'f amf) list \<Rightarrow> (conn, unit) go" where
  "stringField key upd obj =
     (case map_of obj key of
        None \<Rightarrow> go_return ()
      | Some (AmfString s) \<Rightarrow> go_modify (upd s)
      | Some _ \<Rightarrow> go_panic TypeAssertion)"

definition numberField :: "'f amf_lib \<Rightarrow> string \<Rightarrow> (int \<Rightarrow> conn \<Rightarrow> conn) \<Rightarrow> (string \<times> 'f amf) list \<Rightarrow> (conn, unit) go" where
  "numberField L key upd obj =
     (case map_of obj key of
        None \<Rightarrow> go_return ()
      | Some (AmfNumber x) \<Rightarrow> go_modify (upd (float_int L x))
      | Some _ \<Rightarrow> go_panic TypeAssertion)"

definition connectObject :: "'f amf_lib \<Rightarrow> (string \<times> 'f amf) list \<Rightarrow> (conn, unit) go" where
  "connectObject L obj =
     go_bind (stringField ''app'' (\<lambda>s c. c\<lparr>appName := s\<rparr>) obj)
       (\<lambda>_. go_bind (stringField ''flashVer'' (\<lambda>s c. c\<lparr>flashVer := s\<rparr>) obj)
       (\<lambda>_. go_bind (stringField ''swfUrl'' (\<lambda>s c. c\<lparr>swfUrl := s\<rparr>) obj)
       (\<lambda>_. go_bind (stringField ''tcUrl'' (\<lambda>s c. c\<lparr>tcUrl := s\<rparr>) obj)
       (\<lambda>_. numberField L ''objectEncoding'' (\<lambda>n c. c\<lparr>objectEncoding := n\<rparr>) obj))))"

fun decodeConnectCmdMessage :: "'f amf_lib \<Rightarrow> 'f amf list \<Rightarrow> (conn, unit) go" where
  "decodeConnectCmdMessage L [] = go_return ()"
| "decodeConnectCmdMessage L (v # vs) =
     go_bind
       (case v of
          AmfNumber x \<Rightarrow>
            if float_int L x \<noteq> 1 then go_err (Msg ''req error: id not 1 while connect'')
            else go_modify (\<lambda>c. c\<lparr>transactionID := float_int L x\<rparr>)
        | AmfObject obj \<Rightarrow> connectObject L obj
        | _ \<Rightarrow> go_return ())
       (\<lambda>_. decodeConnectCmdMessage L vs)"

fun decodeCreateStreamCmdMessage :: "'f amf_lib \<Rightarrow> 'f amf list \<Rightarrow> (conn, unit) go" where
  "decodeCreateStreamCmdMessage L [] = go_return ()"
| "decodeCreateStreamCmdMessage L (v # vs) =
     go_bind
       (case v of
          AmfNumber x \<Rightarrow> go_modify (\<lambda>c. c\<lparr>transactionID := float_int L x\<rparr>)
        | _ \<Rightarrow> go_return ())
       (\<lambda>_. decodeCreateStreamCmdMessage L vs)"

text \<open>\<open>publishOrPlay\<close>, from the value at position \<open>k\<close> on.\<close>

fun publishOrPlay_from :: "'f amf_lib \<Rightarrow> nat \<Rightarrow> 'f amf list \<Rightarrow> conn \<Rightarrow> conn" where
  "publishOrPlay_from L k [] c = c"
| "publishOrPlay_from L k (v # vs) c =
     publishOrPlay_from L (k + 1) vs
       (case v of
          AmfString s \<Rightarrow>
            if k = 2 then c\<lparr>streamName := s\<rparr>
            else if k = 3 then (if appName c = [] then c\<lparr>appName := s\<rparr> else c)
            else c
        | AmfNumber x \<Rightarrow> c\<lparr>transactionID := float_int L x\<rparr>
        | _ \<Rightarrow> c)"

definition publishOrPlay :: "'f amf_lib \<Rightarrow> 'f amf list \<Rightarrow> (conn, unit) go" where
  "publishOrPlay L vs = go_modify (publishOrPlay_from L 0 vs)"

definition decodePulishCmdMessage :: "'f amf_lib \<Rightarrow> 'f amf list \<Rightarrow> (conn, unit) go" where
  "decodePulishCmdMessage = publishOrPlay"

definition decodePlayCmdMessage :: "'f amf_lib \<Rightarrow> 'f amf list \<Rightarrow> (conn, unit) go" where
  "decodePlayCmdMessage = publishOrPlay"

definition decodeFcPublishCmdMessage :: "'f amf list \<Rightarrow> (conn, unit) go" where
  "decodeFcPublishCmdMessage vs = go_return ()"

definition decodeReleaseStreamCmdMessage :: "'f amf list \<Rightarrow> (conn, unit) go" where
  "decodeReleaseStreamCmdMessage vs = go_return ()"

definition cmdConnect :: string where [simp]: "cmdConnect = ''connect''"
definition cmdFcpublish :: string where [simp]: "cmdFcpublish = ''FCPublish''"
definition cmdReleaseStream :: string where [simp]: "cmdReleaseStream = ''releaseStream''"
definition cmdCreateStream :: string where [simp]: "cmdCreateStream = ''createStream''"
definition cmdPublish :: string where [simp]: "cmdPublish = ''publish''"
definition cmdPlay :: string where [simp]: "cmdPlay = ''play''"

text \<open>
  The dispatch on the name of a command. The commands \<open>FCUnpublish\<close> and \<open>deleteStream\<close> do nothing, like
  every unknown one.
\<close>

definition runCommand :: "'f amf_lib \<Rightarrow> chunk_stream \<Rightarrow> string \<Rightarrow> 'f amf list \<Rightarrow> (conn, unit) go" where
  "runCommand L cs cmd vs =
     (if cmd = cmdConnect then
        go_bind (decodeConnectCmdMessage L vs) (\<lambda>_. respConnectCmdMessage L cs)
      else if cmd = cmdReleaseStream then go_ignore () (decodeReleaseStreamCmdMessage vs)
      else if cmd = cmdFcpublish then go_ignore () (decodeFcPublishCmdMessage vs)
      else if cmd = cmdCreateStream then
        go_bind (decodeCreateStreamCmdMessage L vs) (\<lambda>_. respCreateStreamCmdMessage L cs)
      else if cmd = cmdPublish then
        go_bind (decodePulishCmdMessage L vs) (\<lambda>_.
        go_bind (respPulishCmdMessage L cs) (\<lambda>_.
        go_modify (\<lambda>c. c\<lparr>handleCommandMessageDone := True, isPublisher := True\<rparr>)))
      else if cmd = cmdPlay then
        go_bind (decodePlayCmdMessage L vs) (\<lambda>_.
        go_bind (respPlayCmdMessage L cs) (\<lambda>_.
        go_modify (\<lambda>c. c\<lparr>handleCommandMessageDone := True, isPublisher := False\<rparr>)))
      else go_return ())"

text \<open>
  \<open>cs.ChunkBody[1:]\<close> shortens the body of a completed chunk stream, which the reader replaces before
  it stores again, so the stream kept in the connection is left as it is.
\<close>

definition decodeCommandMessage :: "'f amf_lib \<Rightarrow> chunk_stream \<Rightarrow> (conn, unit) go" where
  "decodeCommandMessage L cs =
     (if MsgTypeID cs = MsgAMF3CommandMessage \<and> ChunkBody cs = [] then go_panic SliceOutOfRange
      else
        let body = (if MsgTypeID cs = MsgAMF3CommandMessage then tl (ChunkBody cs) else ChunkBody cs)
        in case DecodeBatch L body of
             (vs, err) \<Rightarrow>
               if err \<noteq> None \<and> err \<noteq> Some EOF then go_err (the err)
               else (case vs of
                       [] \<Rightarrow> go_panic IndexOutOfRange
                     | AmfString cmd # args \<Rightarrow> runCommand L cs cmd args
                     | _ \<Rightarrow> go_return ()))"

text \<open>One iteration of \<open>handleCommandMessage\<close>, and the loop.\<close>

definition handleOne :: "'f amf_lib \<Rightarrow> (conn, unit) go" where
  "handleOne L =
     go_bind (go_wrap ''read chunk stream'' readChunkStream) (\<lambda>cs.
       if MsgTypeID cs = MsgAMF0CommandMessage \<or> MsgTypeID cs = MsgAMF3CommandMessage
       then go_wrap ''decode command message'' (decodeCommandMessage L cs)
       else go_return ())"

text \<open>No command gives input back, so every iteration consumes some.\<close>

lemma rx_modify: "(\<And>c. rx (f c) = rx c) \<Longrightarrow> keeps (rx_atmost n) (go_modify f)"
  by (simp add: keeps_def go_modify_def)

lemma rx_writeMade [keepsI]: "keeps (rx_atmost n) (writeMade r)"
  unfolding writeMade_def by (auto split: res.splits intro!: keepsI)

lemma keeps_of: "(\<And>s. keeps P (m s)) \<Longrightarrow> keeps P (\<lambda>s. m s s)"
  by (simp add: keeps_def)

lemma rx_writeMade_of: "keeps (rx_atmost n) (\<lambda>c. writeMade (r c) c)"
  by (rule keeps_of) (rule rx_writeMade)

lemma rx_writeCommandMessage [keepsI]: "keeps (rx_atmost n) (writeCommandMessage L csid sid args)"
  unfolding keeps_def writeCommandMessage_def
  by (auto split: res.splits intro!: keepsD' [where I = "rx_atmost n"] keepsI)

lemma rx_writeCommandMessage_of: "keeps (rx_atmost n) (\<lambda>c. writeCommandMessage L csid sid (args c) c)"
  by (rule keeps_of) (rule rx_writeCommandMessage)

lemma rx_connectObject [keepsI]: "keeps (rx_atmost n) (connectObject L obj)"
proof -
  have "keeps (rx_atmost n) (stringField key f obj)" if "\<And>s c. rx (f s c) = rx c" for key f
    using that unfolding stringField_def
    by (auto split: option.splits amf.splits intro!: keepsI rx_modify)
  moreover have "keeps (rx_atmost n) (numberField L key f obj)" if "\<And>s c. rx (f s c) = rx c" for key f
    using that unfolding numberField_def
    by (auto split: option.splits amf.splits intro!: keepsI rx_modify)
  ultimately show ?thesis unfolding connectObject_def by (intro keepsI) simp_all
qed

lemma rx_decodeConnect [keepsI]: "keeps (rx_atmost n) (decodeConnectCmdMessage L vs)"
  by (induction vs) (auto split: amf.splits intro!: keepsI rx_modify)

lemma rx_decodeCreateStream [keepsI]: "keeps (rx_atmost n) (decodeCreateStreamCmdMessage L vs)"
  by (induction vs) (auto split: amf.splits intro!: keepsI rx_modify)

lemma publishOrPlay_rx [simp]: "rx (publishOrPlay_from L k vs c) = rx c"
  by (induction L k vs c rule: publishOrPlay_from.induct) (auto split: amf.splits)

lemma rx_publishOrPlay [keepsI]: "keeps (rx_atmost n) (publishOrPlay L vs)"
  unfolding publishOrPlay_def by (intro rx_modify) simp

lemma rx_respConnect [keepsI]: "keeps (rx_atmost n) (respConnectCmdMessage L cs)"
  unfolding respConnectCmdMessage_def Let_def
  by (intro keeps_bind rx_writeMade rx_writeMade_of rx_writeCommandMessage_of)

lemma rx_respCreateStream [keepsI]: "keeps (rx_atmost n) (respCreateStreamCmdMessage L cs)"
  unfolding respCreateStreamCmdMessage_def [abs_def] by (rule rx_writeCommandMessage_of)

lemma rx_writeStatus [keepsI]: "keeps (rx_atmost n) (writeStatus L cs code d)"
  unfolding writeStatus_def by (rule rx_writeCommandMessage)

lemma rx_runCommand [keepsI]: "keeps (rx_atmost n) (runCommand L cs cmd vs)"
  unfolding runCommand_def respPulishCmdMessage_def respPlayCmdMessage_def decodePulishCmdMessage_def
    decodePlayCmdMessage_def decodeFcPublishCmdMessage_def decodeReleaseStreamCmdMessage_def
  by (intro keepsI rx_modify) simp_all

lemma rx_decodeCommandMessage [keepsI]: "keeps (rx_atmost n) (decodeCommandMessage L cs)"
  unfolding decodeCommandMessage_def Let_def
  by (auto split: prod.splits list.splits amf.splits intro!: keepsI)

lemma handleOne_consumes:
  assumes "handleOne L c = (Ok r, c')"
  shows "length (rx c') < length (rx c)"
proof -
  obtain cs c1 where read: "readChunkStream c = (Ok cs, c1)"
    and rest: "(if MsgTypeID cs = MsgAMF0CommandMessage \<or> MsgTypeID cs = MsgAMF3CommandMessage
       then go_wrap ''decode command message'' (decodeCommandMessage L cs)
       else go_return ()) c1 = (Ok r, c')"
    using assms by (auto simp: handleOne_def go_bind_def go_wrap_def split: prod.splits res.splits)
  have "keeps (rx_atmost (length (rx c1)))
      (if MsgTypeID cs = MsgAMF0CommandMessage \<or> MsgTypeID cs = MsgAMF3CommandMessage
       then go_wrap ''decode command message'' (decodeCommandMessage L cs) else go_return ())"
    by (intro keepsI)
  from keepsD' [OF this, of c1] rest have "length (rx c') \<le> length (rx c1)" by simp
  with readChunkStream_consumes [OF read] show ?thesis by simp
qed

function handleCommandMessage :: "'f amf_lib \<Rightarrow> (conn, unit) go" where
  "handleCommandMessage L c =
     (case handleOne L c of
        (Ok _, c') \<Rightarrow> if handleCommandMessageDone c' then (Ok (), c') else handleCommandMessage L c'
      | (Err e, c') \<Rightarrow> (Err e, c')
      | (Panic p, c') \<Rightarrow> (Panic p, c'))"
  by pat_completeness auto
termination
  by (relation "measure (\<lambda>(L, c). length (rx c))")
    (auto dest!: sym [of "(Ok _, _)"] handleOne_consumes)

declare handleCommandMessage.simps [simp del]

section \<open>Safety\<close>

text \<open>The replies the server may send, and a library that encodes them in fewer than 16 MB.\<close>

definition reply_values :: "'f amf list set" where
  "reply_values =
     {[AmfString ''_result'', AmfInt i,
        AmfObject [(''fmsVer'', AmfString ''FMS/3,0,1,123''), (''capabilities'', AmfInt 31)],
        AmfObject [(''level'', AmfString ''status''), (''code'', AmfString ''NetConnection.Connect.Success''),
          (''description'', AmfString ''Connection succeeded.''), (''objectEncoding'', AmfInt j)]] |i j. True}
   \<union> {[AmfString ''_result'', AmfInt i, AmfNil, AmfInt 1] |i. True}
   \<union> {[AmfString ''onStatus'', AmfInt 0, AmfNil, statusEvent code d] |code d.
        length code \<le> 32 \<and> length d \<le> 32}"

definition small_replies :: "'f amf_lib \<Rightarrow> bool" where
  "small_replies L \<longleftrightarrow>
     (\<forall>vs \<in> reply_values. \<forall>body. encodeAll L vs = Ok body \<longrightarrow> length body \<le> 0xffffff)"

text \<open>The panics a client can cause in this phase.\<close>

definition command_panic :: "go_panic \<Rightarrow> conn \<Rightarrow> bool" where
  "command_panic p c \<longleftrightarrow> p = IndexOutOfRange \<or> p = SliceOutOfRange \<or> p = TypeAssertion"

abbreviation safe :: "(conn, 'a) go \<Rightarrow> bool" where
  "safe m \<equiv> triple conn_inv m (\<lambda>_. conn_inv) conn_inv command_panic"

lemma safe_writeMessage: "sendable cs \<Longrightarrow> safe (writeMessage cs)"
proof (rule triple_apply)
  fix c assume cs: "sendable cs" and "conn_inv c"
  then obtain n where n: "0 < n" "can_write n conn_inv c"
    using conn_inv_can_write by blast
  show "triple (\<lambda>s. s = c) (writeMessage cs) (\<lambda>_. conn_inv) conn_inv command_panic"
    using tripleD [OF triple_writeMessage [OF tx_frame_conn_inv cs n(1)] n(2)]
    by (cases "writeMessage cs c") (auto simp: triple_def can_write_def split: res.splits)
qed

lemma sendable_commandMessage:
  "length body \<le> 0xffffff \<Longrightarrow> sendable (commandMessage csid sid body)"
  by (simp add: sendable_def wf_message_def commandMessage_def chunk_make_defs word_le_nat_alt
      unat_of_nat_u32)

lemma safe_writeCommandMessage:
  assumes "small_replies L" and "args \<in> reply_values"
  shows "safe (writeCommandMessage L csid sid args)"
proof -
  have "\<forall>p. encodeAll L vs \<noteq> Panic p" for vs :: "'a amf list"
    by (induction vs) (auto split: sum.splits res.splits)
  moreover have "safe (writeMessage (commandMessage csid sid body))" if "encodeAll L args = Ok body" for body
    using assms that by (intro safe_writeMessage sendable_commandMessage) (simp add: small_replies_def)
  ultimately show ?thesis
    by (cases "encodeAll L args") (auto simp: writeCommandMessage_def triple_def)
qed

lemma safe_of: "(\<And>s. safe (m s)) \<Longrightarrow> safe (\<lambda>s. m s s)"
  by (simp add: triple_def)

lemma safe_modify: "(\<And>c. conn_inv (f c) = conn_inv c) \<Longrightarrow> safe (go_modify f)"
  by (intro triple_modify) simp

lemma safe_return: "safe (go_return x)"
  by (simp add: triple_return)

lemma safe_err: "safe (go_err e)"
  by (simp add: triple_err)

lemma safe_panic: "p \<in> {IndexOutOfRange, SliceOutOfRange, TypeAssertion} \<Longrightarrow> safe (go_panic p)"
  by (auto simp: triple_def go_panic_def command_panic_def)

lemma conn_inv_session [simp]:
  "conn_inv (c\<lparr>transactionID := i\<rparr>) = conn_inv c" "conn_inv (c\<lparr>appName := s\<rparr>) = conn_inv c"
  "conn_inv (c\<lparr>flashVer := s\<rparr>) = conn_inv c" "conn_inv (c\<lparr>swfUrl := s\<rparr>) = conn_inv c"
  "conn_inv (c\<lparr>tcUrl := s\<rparr>) = conn_inv c" "conn_inv (c\<lparr>objectEncoding := i\<rparr>) = conn_inv c"
  "conn_inv (c\<lparr>streamName := s\<rparr>) = conn_inv c"
  "conn_inv (c\<lparr>handleCommandMessageDone := b, isPublisher := d\<rparr>) = conn_inv c"
  by (simp_all add: conn_inv_def)

lemma safe_connectObject: "safe (connectObject L obj)"
proof -
  have "safe (stringField key f obj)" if "\<And>s c. conn_inv (f s c) = conn_inv c" for key f
    using that unfolding stringField_def
    by (auto split: option.splits amf.splits intro!: safe_modify safe_return safe_panic)
  moreover have "safe (numberField L key f obj)" if "\<And>s c. conn_inv (f s c) = conn_inv c" for key f
    using that unfolding numberField_def
    by (auto split: option.splits amf.splits intro!: safe_modify safe_return safe_panic)
  ultimately show ?thesis unfolding connectObject_def by (intro triple_seq) simp_all
qed

lemma safe_decodeConnect: "safe (decodeConnectCmdMessage L vs)"
proof (induction vs)
  case Nil
  then show ?case by (simp add: safe_return)
next
  case (Cons v vs)
  show ?case
    unfolding decodeConnectCmdMessage.simps
    by (rule triple_seq [OF _ Cons])
      (auto split: amf.splits intro: safe_return safe_err safe_modify safe_connectObject)
qed

lemma safe_decodeCreateStream: "safe (decodeCreateStreamCmdMessage L vs)"
proof (induction vs)
  case Nil
  then show ?case by (simp add: safe_return)
next
  case (Cons v vs)
  show ?case
    unfolding decodeCreateStreamCmdMessage.simps
    by (rule triple_seq [OF _ Cons]) (auto split: amf.splits intro: safe_return safe_modify)
qed

lemma safe_publishOrPlay: "safe (publishOrPlay L vs)"
proof -
  have "conn_inv (publishOrPlay_from L k vs c) = conn_inv c" for k vs c
    by (induction L k vs c rule: publishOrPlay_from.induct) (auto split: amf.splits)
  then show ?thesis unfolding publishOrPlay_def by (intro safe_modify) simp
qed

lemma safe_writeMade: "r = Ok cs \<Longrightarrow> sendable cs \<Longrightarrow> safe (writeMade r)"
  by (simp add: writeMade_def safe_writeMessage)

lemma sendable_control: "NewProtolControlMessage t 4 v = Ok cs \<Longrightarrow> sendable cs"
  using NewProtolControlMessage_4 [of t v] by (auto simp: sendable_def wf_message_def)

lemma safe_control: "safe (writeMade (NewProtolControlMessage t 4 v))"
  using NewProtolControlMessage_4 [of t v] sendable_control safe_writeMade by metis

lemma safe_control_of: "safe (\<lambda>c. writeMade (NewProtolControlMessage t 4 (v c)) c)"
  by (rule safe_of) (rule safe_control)

lemma safe_writeCommandMessage_of:
  "small_replies L \<Longrightarrow> (\<And>c. args c \<in> reply_values) \<Longrightarrow> safe (\<lambda>c. writeCommandMessage L csid sid (args c) c)"
  by (rule safe_of) (rule safe_writeCommandMessage)

lemma peerBandwidth_eq:
  "peerBandwidth = Ok (newChunkStream\<lparr>Csid := 2, MsgLength := 5, MsgTypeID := 6,
     ChunkBody := [0, 0x26, 0x25, 0xa0, 2]\<rparr>)"
  by code_simp

lemma userControl_eq:
  "userControl streamIsRecorded = Ok (newChunkStream\<lparr>Csid := 2, MsgLength := 6, MsgTypeID := 4,
     MsgStreamID := 1, ChunkBody := [0, 4, 0, 0, 0, 1]\<rparr>)"
  "userControl streamBegin = Ok (newChunkStream\<lparr>Csid := 2, MsgLength := 6, MsgTypeID := 4,
     MsgStreamID := 1, ChunkBody := [0, 0, 0, 0, 0, 1]\<rparr>)"
  by code_simp+

lemma safe_runCommand:
  assumes "small_replies L"
  shows "safe (runCommand L cs cmd vs)"
proof -
  have "safe (writeStatus L cs code d)" if "length code \<le> 32" "length d \<le> 32" for code d
    using that unfolding writeStatus_def
    by (intro safe_writeCommandMessage [OF assms]) (auto simp: reply_values_def)
  note status = this
  have created: "safe (respCreateStreamCmdMessage L cs)"
    unfolding respCreateStreamCmdMessage_def [abs_def]
    by (intro safe_writeCommandMessage_of [OF assms]) (auto simp: reply_values_def)
  have connected: "safe (respConnectCmdMessage L cs)"
    unfolding respConnectCmdMessage_def Let_def
    by (intro triple_seq safe_control_of safe_writeMade [OF peerBandwidth_eq]
        safe_writeCommandMessage_of [OF assms])
      (auto simp: reply_values_def sendable_def wf_message_def chunk_make_defs)
  have played: "safe (respPlayCmdMessage L cs)"
    unfolding respPlayCmdMessage_def
    by (intro triple_seq triple_wrap status safe_writeMade [OF userControl_eq(1)] safe_writeMade [OF userControl_eq(2)])
      (auto simp: sendable_def wf_message_def chunk_make_defs)
  show ?thesis
    unfolding runCommand_def respPulishCmdMessage_def decodePulishCmdMessage_def decodePlayCmdMessage_def
      decodeFcPublishCmdMessage_def decodeReleaseStreamCmdMessage_def
    by (intro triple_if triple_seq triple_ignore safe_decodeConnect connected safe_decodeCreateStream created
        safe_publishOrPlay status played safe_modify safe_return) simp_all
qed

lemma safe_decodeCommandMessage:
  assumes "small_replies L"
  shows "safe (decodeCommandMessage L cs)"
  unfolding decodeCommandMessage_def Let_def
  using safe_runCommand [OF assms]
  by (auto split: prod.splits list.splits amf.splits intro!: safe_return safe_err safe_panic)

lemma safe_handleOne:
  assumes "small_replies L"
  shows "safe (handleOne L)"
  unfolding handleOne_def
proof (rule triple_bind)
  show "triple conn_inv (go_wrap ''read chunk stream'' readChunkStream) (\<lambda>_. conn_inv) conn_inv command_panic"
    by (rule triple_wrap, rule triple_conseq [OF triple_readChunkStream])
      (auto simp: short_control_received_def command_panic_def)
qed (intro triple_if triple_wrap safe_decodeCommandMessage [OF assms] safe_return)

lemma command_phase_ok:
  assumes "small_replies L" and "conn_inv c" and "handleCommandMessage L c = (r, c')"
  shows "(case r of
       Ok _ \<Rightarrow> conn_inv c' \<and> handleCommandMessageDone c' \<and> length (rx c') < length (rx c)
     | Err e \<Rightarrow> conn_inv c'
     | Panic p \<Rightarrow> p \<in> {IndexOutOfRange, SliceOutOfRange, TypeAssertion})"
  using assms
proof (induction L c rule: handleCommandMessage.induct)
  case (1 L c)
  obtain o1 c1 where one: "handleOne L c = (o1, c1)" by (cases "handleOne L c")
  show ?case
  proof (cases o1)
    case (Ok u)
    have c1: "conn_inv c1" using tripleD [OF safe_handleOne 1(3), of L] 1(2) one Ok by simp
    note less = handleOne_consumes [OF one [unfolded Ok]]
    show ?thesis
    proof (cases "handleCommandMessageDone c1")
      case True
      with 1(4) one Ok c1 less show ?thesis by (subst (asm) handleCommandMessage.simps) auto
    next
      case False
      then have "handleCommandMessage L c1 = (r, c')"
        using 1(4) one Ok by (subst (asm) handleCommandMessage.simps) simp
      with 1(1) [OF one [symmetric] Ok False 1(2) c1] less show ?thesis by (auto split: res.splits)
    qed
  next
    case (Err e)
    with tripleD [OF safe_handleOne [OF 1(2)] 1(3)] 1(4) one show ?thesis
      by (subst (asm) handleCommandMessage.simps) auto
  next
    case (Panic p)
    with tripleD [OF safe_handleOne [OF 1(2)] 1(3)] 1(4) one show ?thesis
      by (subst (asm) handleCommandMessage.simps) (auto simp: command_panic_def)
  qed
qed


end
