(* ===== verification/Session.thy ===== *)
theory Session
  imports Commands
begin

text \<open>
  The command phase of a connection whose socket is open: what the server sends in reply, the run of a
  client's session from the bytes of its messages to the role of the connection, and examples on a
  concrete AMF library.
\<close>

section \<open>An open connection\<close>

text \<open>What moving messages changes of a connection: the two byte sequences, the chunk streams and the
  counters of the acknowledgements.\<close>

definition transported :: "conn \<Rightarrow> conn \<Rightarrow> bool" where
  "transported c d \<longleftrightarrow>
     d = c\<lparr>rx := rx d, tx := tx d, chunks := chunks d, bytesRecv := bytesRecv d,
           bytesRecvReset := bytesRecvReset d, ackSeqNumber := ackSeqNumber d\<rparr>"

lemma transported_refl [simp]: "transported c c"
  by (simp add: transported_def)

lemma transported_trans: "transported c d \<Longrightarrow> transported d e \<Longrightarrow> transported c e"
  unfolding transported_def by (cases c; cases d; cases e) simp

lemma transported_sent [simp]: "transported c (sent c b)"
  by (simp add: transported_def)

lemma transportedD:
  assumes "transported c d"
  shows "appName d = appName c" "tcUrl d = tcUrl c" "streamName d = streamName c"
    "isPublisher d = isPublisher c" "handleCommandMessageDone d = handleCommandMessageDone c"
    "transactionID d = transactionID c" "objectEncoding d = objectEncoding c"
    "localChunksize d = localChunksize c" "remoteChunkSize d = remoteChunkSize c"
    "localWindowAckSize d = localWindowAckSize c" "writable d = writable c"
  using assms unfolding transported_def by (cases c; cases d; simp add: writable_def tx_open_def)+

lemma writeMessage_open:
  assumes "writable c" and "sendable m" and "0 < localChunksize c"
  shows "writeMessage m c = (Ok (), sent c (message_wire (unat (localChunksize c)) (assignCsid m)))"
  using writeChunkStream_wire [OF assms] by (simp add: writeMessage_def)

lemma ack_open:
  assumes "writable c" and "0 < localChunksize c"
  shows "\<exists>d. ack sz c = (Ok (), d) \<and> transported c d \<and> rx d = rx c \<and> chunks d = chunks c"
proof -
  define c2 where "c2 = (let c1 = c\<lparr>bytesRecv := bytesRecv c + sz\<rparr> in
    if bytesRecv c1 \<ge> 0xffffffff
    then c1\<lparr>bytesRecv := 0, bytesRecvReset := bytesRecvReset c1 + 1\<rparr> else c1)"
  define c3 where "c3 = c2\<lparr>ackSeqNumber := ackSeqNumber c2 + sz\<rparr>"
  have c3: "transported c c3" "rx c3 = rx c" "chunks c3 = chunks c"
    by (simp_all add: c3_def c2_def Let_def transported_def)
  obtain m where m: "NewProtolControlMessage MsgAcknowledgement 4 (ackSeqNumber c3) = Ok m"
    using NewProtolControlMessage_4 by blast
  have "writable c3" "0 < localChunksize c3" using c3(1) assms by (simp_all add: transportedD)
  note w = writeMessage_open [OF this(1) sendable_control [OF m] this(2)]
  have "ack sz c = (if ackSeqNumber c3 \<ge> remoteWindowAckSize c3 then
      go_bind (go_ignore () (writeMessage m)) (\<lambda>_. go_modify (\<lambda>c. c\<lparr>ackSeqNumber := 0\<rparr>)) c3
    else (Ok (), c3))"
    using m by (simp add: ack_def Let_def c3_def c2_def)
  moreover have "transported c ((sent c3 b)\<lparr>ackSeqNumber := 0\<rparr>)" for b
    using c3(1) unfolding transported_def by (cases c; cases c3) simp
  ultimately show ?thesis
    using c3 w by (auto simp: go_bind_def go_ignore_def go_modify_def)
qed

text \<open>Reading one message on an open connection.\<close>

lemma read_open:
  assumes m: "deliverable m" "\<not> sets_parameter m" and c: "reader_ready c" "writable c"
    and rx: "rx c = message_wire (unat (remoteChunkSize c)) m @ rest"
  shows "\<exists>got d. readChunkStream c = (Ok got, d) \<and> same_message got m \<and> transported c d
    \<and> rx d = rest \<and> reader_ready d"
proof -
  let ?cs = "\<lambda>hs. receiving m (length (ChunkBody m)) hs (chunkFor 0 (Csid m) c)"
  have n: "0 < unat (remoteChunkSize c)"
    using c(1) by (auto simp: reader_ready_def unat_gt_0)
  obtain hs where run: "readChunkStream c = finish_message (?cs hs)
      (c\<lparr>rx := rest, chunks := (chunks c)(Csid m \<mapsto> ?cs hs)\<rparr>)"
    using read_message [OF m(1) ready_fresh [OF c(1)] refl n rx] .
  let ?c = "c\<lparr>rx := rest, chunks := (chunks c)(Csid m \<mapsto> ?cs hs)\<rparr>"
  have ready: "reader_ready ?c"
    using c(1) fresh_chunkFor [OF ready_fresh [OF c(1), of "Csid m"]] by (simp add: ready_chunk)
  have t: "transported c ?c" by (simp add: transported_def)
  then have "writable ?c" "0 < localChunksize ?c"
    using c by (simp_all add: transportedD reader_ready_def)
  from ack_open [OF this, of "MsgLength (?cs hs)"] obtain d where
    d: "ack (MsgLength (?cs hs)) ?c = (Ok (), d)" "transported ?c d" "rx d = rx ?c" "chunks d = chunks ?c"
    by blast
  have "\<not> sets_parameter (?cs hs)" using m(2) by (simp add: sets_parameter_def)
  then have "finish_message (?cs hs) ?c = (Ok (?cs hs), d)"
    using d(1) by (simp add: finish_message_def onReadChunkStreamSucc_def sets_parameter_def go_bind_def
        go_return_def)
  moreover have "reader_ready d"
    using ready d(2,4) transportedD(8,9) [OF d(2)] d(2)
    unfolding reader_ready_def transported_def by (cases d) simp
  ultimately show ?thesis
    using run receiving_same transported_trans [OF t d(2)] d(3) by auto
qed

text \<open>A library that encodes every reply, in a body that fits a message.\<close>

definition encodes_replies :: "'f amf_lib \<Rightarrow> bool" where
  "encodes_replies L \<longleftrightarrow>
     (\<forall>vs \<in> reply_values. \<exists>body. encodeAll L vs = Ok body \<and> length body \<le> 0xffffff)"

text \<open>A connection that can receive and send, and the calls that only send on it.\<close>

definition ready :: "conn \<Rightarrow> bool" where
  "ready c \<longleftrightarrow> reader_ready c \<and> writable c"

lemma ready_sent [simp]: "ready (sent c b) = ready c"
  by (simp add: ready_def reader_ready_def)

definition sends :: "(conn, unit) go \<Rightarrow> bool" where
  "sends m \<longleftrightarrow> (\<forall>c. ready c \<longrightarrow> (\<exists>b. m c = (Ok (), sent c b)))"

lemma sendsD: "sends m \<Longrightarrow> ready c \<Longrightarrow> \<exists>b. m c = (Ok (), sent c b)"
  by (simp add: sends_def)

lemma sends_bind:
  assumes "sends m" and "\<And>u. sends (k u)"
  shows "sends (go_bind m k)"
  unfolding sends_def
proof (intro allI impI)
  fix c assume c: "ready c"
  obtain b where b: "m c = (Ok (), sent c b)" using sendsD [OF assms(1) c] by blast
  obtain d where "k () (sent c b) = (Ok (), sent (sent c b) d)"
    using sendsD [OF assms(2), of "sent c b"] c by auto
  with b show "\<exists>b. go_bind m k c = (Ok (), sent c b)" by (auto simp: go_bind_def)
qed

lemma sends_wrap: "sends m \<Longrightarrow> sends (go_wrap msg m)"
  unfolding sends_def go_wrap_def by fastforce

lemma sends_of: "(\<And>s. sends (m s)) \<Longrightarrow> sends (\<lambda>s. m s s)"
  unfolding sends_def by blast

lemma sends_writeMade: "r = Ok m \<Longrightarrow> sendable m \<Longrightarrow> sends (writeMade r)"
  unfolding sends_def writeMade_def ready_def reader_ready_def
  using writeMessage_open by fastforce

lemma sends_control: "sends (writeMade (NewProtolControlMessage t 4 v))"
  using NewProtolControlMessage_4 [of t v] sendable_control sends_writeMade by metis

lemma sends_writeCommandMessage:
  assumes "encodes_replies L" and "args \<in> reply_values"
  shows "sends (writeCommandMessage L csid sid args)"
proof -
  obtain body where "encodeAll L args = Ok body" "length body \<le> 0xffffff"
    using assms by (auto simp: encodes_replies_def)
  with sends_writeMade [OF refl sendable_commandMessage [of body csid sid]] show ?thesis
    by (simp add: sends_def writeCommandMessage_def writeMade_def)
qed

lemma sends_writeStatus:
  "encodes_replies L \<Longrightarrow> length code \<le> 32 \<Longrightarrow> length d \<le> 32 \<Longrightarrow> sends (writeStatus L cs code d)"
  unfolding writeStatus_def by (intro sends_writeCommandMessage) (auto simp: reply_values_def)

lemma sends_respCreateStream: "encodes_replies L \<Longrightarrow> sends (respCreateStreamCmdMessage L cs)"
  unfolding respCreateStreamCmdMessage_def [abs_def]
  by (rule sends_of, rule sends_writeCommandMessage) (auto simp: reply_values_def)

lemma sends_respPublish: "encodes_replies L \<Longrightarrow> sends (respPulishCmdMessage L cs)"
  unfolding respPulishCmdMessage_def by (simp add: sends_writeStatus)

lemma sends_respPlay: "encodes_replies L \<Longrightarrow> sends (respPlayCmdMessage L cs)"
  unfolding respPlayCmdMessage_def
  by (intro sends_bind sends_wrap sends_writeStatus sends_writeMade [OF userControl_eq(1)]
      sends_writeMade [OF userControl_eq(2)])
    (auto simp: sendable_def wf_message_def chunk_make_defs)

lemma sends_respConnect:
  assumes "encodes_replies L"
  shows "sends (respConnectCmdMessage L cs)"
proof -
  have control: "sends (\<lambda>c. writeMade (NewProtolControlMessage t 4 (v c)) c)" for t v
    by (rule sends_of) (rule sends_control)
  have reply: "sends (\<lambda>c. writeCommandMessage L a b (args c) c)" if "\<And>c. args c \<in> reply_values" for a b args
    by (rule sends_of) (rule sends_writeCommandMessage [OF assms that])
  show ?thesis
    unfolding respConnectCmdMessage_def Let_def
    by (intro sends_bind control reply sends_writeMade [OF peerBandwidth_eq])
      (auto simp: reply_values_def sendable_def wf_message_def chunk_make_defs)
qed

text \<open>One command message, from its bytes to the command.\<close>

definition commands :: "'f amf_lib \<Rightarrow> chunk_stream \<Rightarrow> string \<Rightarrow> 'f amf list \<Rightarrow> bool" where
  "commands L m cmd args \<longleftrightarrow>
     deliverable m \<and> MsgTypeID m = MsgAMF0CommandMessage
     \<and> (DecodeBatch L (ChunkBody m) = (AmfString cmd # args, None)
        \<or> DecodeBatch L (ChunkBody m) = (AmfString cmd # args, Some EOF))"

lemma handleOne_command:
  assumes "commands L m cmd args" and "ready c"
    and "rx c = message_wire (unat (remoteChunkSize c)) m @ rest"
  shows "\<exists>got d. handleOne L c = go_wrap ''decode command message'' (runCommand L got cmd args) d
    \<and> transported c d \<and> ready d \<and> rx d = rest"
proof -
  have m: "deliverable m" "\<not> sets_parameter m" "MsgTypeID m = 20"
    using assms(1) by (auto simp: commands_def sets_parameter_def)
  obtain got d where d: "readChunkStream c = (Ok got, d)" "same_message got m" "transported c d"
    "rx d = rest" "reader_ready d"
    using read_open [OF m(1,2) _ _ assms(3)] assms(2) by (auto simp: ready_def)
  have "decodeCommandMessage L got = runCommand L got cmd args"
    using assms(1) m(3) d(2)
    by (auto simp: decodeCommandMessage_def commands_def same_message_def)
  then have "handleOne L c = go_wrap ''decode command message'' (runCommand L got cmd args) d"
    using d(1,2) m(3) by (simp add: handleOne_def go_bind_def go_wrap_def same_message_def)
  moreover have "ready d" using d(3,5) assms(2) by (simp add: ready_def transportedD)
  ultimately show ?thesis using d by blast
qed

lemma handleCommandMessage_more:
  "handleOne L c = (Ok (), d) \<Longrightarrow> \<not> handleCommandMessageDone d
    \<Longrightarrow> handleCommandMessage L c = handleCommandMessage L d"
  by (simp add: handleCommandMessage.simps [of L c])

lemma handleCommandMessage_last:
  "handleOne L c = (Ok (), d) \<Longrightarrow> handleCommandMessageDone d \<Longrightarrow> handleCommandMessage L c = (Ok (), d)"
  by (simp add: handleCommandMessage.simps [of L c])

text \<open>The object of \<open>connect\<close>: the fields that are there have the right types.\<close>

definition connect_object :: "(string \<times> 'f amf) list \<Rightarrow> string \<Rightarrow> string \<Rightarrow> bool" where
  "connect_object obj app url \<longleftrightarrow>
     map_of obj ''app'' = Some (AmfString app) \<and> map_of obj ''tcUrl'' = Some (AmfString url)
     \<and> (\<forall>key \<in> {''flashVer'', ''swfUrl''}. map_of obj key = None \<or> (\<exists>s. map_of obj key = Some (AmfString s)))
     \<and> (map_of obj ''objectEncoding'' = None \<or> (\<exists>x. map_of obj ''objectEncoding'' = Some (AmfNumber x)))"

lemma connectObject_ok:
  assumes "connect_object obj app url"
  shows "\<exists>v w n. connectObject L obj c
    = (Ok (), c\<lparr>appName := app, flashVer := v, swfUrl := w, tcUrl := url, objectEncoding := n\<rparr>)"
proof -
  have f: "\<exists>v. stringField ''flashVer'' (\<lambda>s c. c\<lparr>flashVer := s\<rparr>) obj d = (Ok (), d\<lparr>flashVer := v\<rparr>)" for d :: conn
    using assms by (cases d) (auto simp: connect_object_def stringField_def go_return_def go_modify_def)
  have w: "\<exists>v. stringField ''swfUrl'' (\<lambda>s c. c\<lparr>swfUrl := s\<rparr>) obj d = (Ok (), d\<lparr>swfUrl := v\<rparr>)" for d :: conn
    using assms by (cases d) (auto simp: connect_object_def stringField_def go_return_def go_modify_def)
  have n: "\<exists>v. numberField L ''objectEncoding'' (\<lambda>s c. c\<lparr>objectEncoding := s\<rparr>) obj d
      = (Ok (), d\<lparr>objectEncoding := v\<rparr>)" for d :: conn
    using assms by (cases d) (auto simp: connect_object_def numberField_def go_return_def go_modify_def)
  have a: "stringField ''app'' (\<lambda>s c. c\<lparr>appName := s\<rparr>) obj d = (Ok (), d\<lparr>appName := app\<rparr>)"
    "stringField ''tcUrl'' (\<lambda>s c. c\<lparr>tcUrl := s\<rparr>) obj d = (Ok (), d\<lparr>tcUrl := url\<rparr>)" for d :: conn
    using assms by (auto simp: connect_object_def stringField_def go_modify_def)
  obtain v1 where 1: "stringField ''flashVer'' (\<lambda>s c. c\<lparr>flashVer := s\<rparr>) obj (c\<lparr>appName := app\<rparr>)
      = (Ok (), c\<lparr>appName := app, flashVer := v1\<rparr>)" using f by blast
  obtain v2 where 2: "stringField ''swfUrl'' (\<lambda>s c. c\<lparr>swfUrl := s\<rparr>) obj (c\<lparr>appName := app, flashVer := v1\<rparr>)
      = (Ok (), c\<lparr>appName := app, flashVer := v1, swfUrl := v2\<rparr>)" using w by blast
  obtain v3 where 3: "numberField L ''objectEncoding'' (\<lambda>s c. c\<lparr>objectEncoding := s\<rparr>) obj
      (c\<lparr>appName := app, flashVer := v1, swfUrl := v2, tcUrl := url\<rparr>)
      = (Ok (), c\<lparr>appName := app, flashVer := v1, swfUrl := v2, tcUrl := url, objectEncoding := v3\<rparr>)"
    using n by blast
  show ?thesis
    by (auto simp: connectObject_def go_bind_def a 1 2 3)
qed

lemma ready_fields [simp]:
  "ready (c\<lparr>tx := t\<rparr>) = ready c"
  "ready (c\<lparr>transactionID := i\<rparr>) = ready c" "ready (c\<lparr>appName := a\<rparr>) = ready c"
  "ready (c\<lparr>streamName := a\<rparr>) = ready c" "ready (c\<lparr>flashVer := a\<rparr>) = ready c"
  "ready (c\<lparr>swfUrl := a\<rparr>) = ready c" "ready (c\<lparr>tcUrl := a\<rparr>) = ready c"
  "ready (c\<lparr>objectEncoding := i\<rparr>) = ready c"
  "ready (c\<lparr>handleCommandMessageDone := b, isPublisher := p\<rparr>) = ready c"
  by (simp_all add: ready_def reader_ready_def writable_def tx_open_def)

text \<open>The three commands of a publisher, or of a player.\<close>

lemma connect_command:
  assumes L: "encodes_replies L" and m: "commands L m ''connect'' [AmfNumber x, AmfObject obj]"
    and x: "float_int L x = 1" and obj: "connect_object obj app url" and c: "ready c"
    and rx: "rx c = message_wire (unat (remoteChunkSize c)) m @ rest"
  shows "\<exists>d. handleOne L c = (Ok (), d) \<and> ready d \<and> rx d = rest \<and> appName d = app \<and> tcUrl d = url
    \<and> remoteChunkSize d = remoteChunkSize c \<and> handleCommandMessageDone d = handleCommandMessageDone c"
proof -
  obtain got d where d: "handleOne L c = go_wrap ''decode command message''
      (runCommand L got ''connect'' [AmfNumber x, AmfObject obj]) d" "transported c d" "ready d" "rx d = rest"
    using handleOne_command [OF m c rx] by blast
  let ?d1 = "d\<lparr>transactionID := 1\<rparr>"
  obtain v w n where o1: "connectObject L obj ?d1
      = (Ok (), ?d1\<lparr>appName := app, flashVer := v, swfUrl := w, tcUrl := url, objectEncoding := n\<rparr>)"
    using connectObject_ok [OF obj] by blast
  let ?d2 = "?d1\<lparr>appName := app, flashVer := v, swfUrl := w, tcUrl := url, objectEncoding := n\<rparr>"
  obtain b where "respConnectCmdMessage L got ?d2 = (Ok (), sent ?d2 b)"
    using sendsD [OF sends_respConnect [OF L], of ?d2] d(3) by auto
  then have "handleOne L c = (Ok (), sent ?d2 b)"
    using d(1) x o1 by (simp add: runCommand_def go_bind_def go_wrap_def go_modify_def go_return_def)
  then show ?thesis using d by (auto simp: transportedD)
qed

lemma createStream_command:
  assumes L: "encodes_replies L" and m: "commands L m ''createStream'' args" and c: "ready c"
    and rx: "rx c = message_wire (unat (remoteChunkSize c)) m @ rest"
  shows "\<exists>d. handleOne L c = (Ok (), d) \<and> ready d \<and> rx d = rest \<and> appName d = appName c \<and> tcUrl d = tcUrl c
    \<and> remoteChunkSize d = remoteChunkSize c \<and> handleCommandMessageDone d = handleCommandMessageDone c"
proof -
  obtain got d where d: "handleOne L c = go_wrap ''decode command message''
      (runCommand L got ''createStream'' args) d" "transported c d" "ready d" "rx d = rest"
    using handleOne_command [OF m c rx] by blast
  have "\<exists>i. decodeCreateStreamCmdMessage L args e = (Ok (), e\<lparr>transactionID := i\<rparr>)" for e :: conn
  proof (induction args arbitrary: e)
    case Nil
    show ?case by (cases e) (simp add: go_return_def)
  next
    case (Cons v vs)
    obtain i where "(case v of AmfNumber x \<Rightarrow> go_modify (\<lambda>c. c\<lparr>transactionID := float_int L x\<rparr>)
        | _ \<Rightarrow> go_return ()) e = (Ok (), e\<lparr>transactionID := i\<rparr>)"
      by (cases e; cases v) (auto simp: go_modify_def go_return_def)
    moreover obtain j where "decodeCreateStreamCmdMessage L vs (e\<lparr>transactionID := i\<rparr>)
        = (Ok (), (e\<lparr>transactionID := i\<rparr>)\<lparr>transactionID := j\<rparr>)"
      using Cons.IH by blast
    ultimately have "decodeCreateStreamCmdMessage L (v # vs) e = (Ok (), e\<lparr>transactionID := j\<rparr>)"
      by (simp add: go_bind_def)
    then show ?case ..
  qed
  then obtain i where dec: "decodeCreateStreamCmdMessage L args d = (Ok (), d\<lparr>transactionID := i\<rparr>)" by blast
  obtain b where "respCreateStreamCmdMessage L got (d\<lparr>transactionID := i\<rparr>)
      = (Ok (), sent (d\<lparr>transactionID := i\<rparr>) b)"
    using sendsD [OF sends_respCreateStream [OF L], of "d\<lparr>transactionID := i\<rparr>"] d(3) by auto
  then have "handleOne L c = (Ok (), sent (d\<lparr>transactionID := i\<rparr>) b)"
    using d(1) dec by (simp add: runCommand_def go_bind_def go_wrap_def)
  then show ?thesis using d by (auto simp: transportedD)
qed

lemma start_command:
  assumes L: "encodes_replies L" and cmd: "cmd = ''publish'' \<or> cmd = ''play''"
    and m: "commands L m cmd (AmfNumber x # AmfNil # AmfString name # args)" and c: "ready c"
    and args: "args = [] \<or> (\<exists>kind. args = [AmfString kind])" and app: "appName c \<noteq> []"
    and rx: "rx c = message_wire (unat (remoteChunkSize c)) m @ rest"
  shows "\<exists>d. handleOne L c = (Ok (), d) \<and> ready d \<and> rx d = rest \<and> appName d = appName c \<and> tcUrl d = tcUrl c
    \<and> handleCommandMessageDone d \<and> streamName d = name \<and> isPublisher d = (cmd = ''publish'')"
proof -
  let ?vs = "AmfNumber x # AmfNil # AmfString name # args"
  obtain got d where d: "handleOne L c = go_wrap ''decode command message''
      (runCommand L got cmd ?vs) d" "transported c d" "ready d" "rx d = rest"
    using handleOne_command [OF m c rx] by blast
  let ?d1 = "d\<lparr>transactionID := float_int L x, streamName := name\<rparr>"
  have "publishOrPlay L ?vs d = (Ok (), ?d1)"
    using args app d(2) by (auto simp: publishOrPlay_def go_modify_def transportedD)
  moreover obtain b where "respPulishCmdMessage L got ?d1 = (Ok (), sent ?d1 b)"
    using sendsD [OF sends_respPublish [OF L], of ?d1] d(3) by auto
  moreover obtain b' where "respPlayCmdMessage L got ?d1 = (Ok (), sent ?d1 b')"
    using sendsD [OF sends_respPlay [OF L], of ?d1] d(3) by auto
  ultimately have "handleOne L c = (Ok (), (sent ?d1 (if cmd = ''publish'' then b else b'))
      \<lparr>handleCommandMessageDone := True, isPublisher := (cmd = ''publish'')\<rparr>)"
    using d(1) cmd by (auto simp: runCommand_def decodePulishCmdMessage_def decodePlayCmdMessage_def
        go_bind_def go_wrap_def go_modify_def)
  then show ?thesis using d by (auto simp: transportedD)
qed

text \<open>A client's session, from its bytes to the role of the connection. On an open connection the
  messages \<open>connect\<close>, \<open>createStream\<close> and \<open>publish\<close> or \<open>play\<close>, one after the other, take the loop to its
  end: every command is answered, the application, the URL and the stream name are the client's, the
  connection is a publisher exactly after \<open>publish\<close>, and the bytes that follow are left for the stream.\<close>

theorem client_session:
  assumes "encodes_replies L" and "ready c" and "\<not> handleCommandMessageDone c"
    and "commands L m1 ''connect'' [AmfNumber x, AmfObject obj]" and "float_int L x = 1"
    and "connect_object obj app url" and "app \<noteq> []"
    and "commands L m2 ''createStream'' args"
    and "commands L m3 cmd (AmfNumber y # AmfNil # AmfString name # kind)"
    and "kind = [] \<or> (\<exists>k. kind = [AmfString k])" and "cmd = ''publish'' \<or> cmd = ''play''"
    and "rx c = concat (map (message_wire (unat (remoteChunkSize c))) [m1, m2, m3]) @ rest"
  shows "\<exists>d. handleCommandMessage L c = (Ok (), d) \<and> appName d = app \<and> tcUrl d = url
    \<and> streamName d = name \<and> isPublisher d = (cmd = ''publish'') \<and> rx d = rest \<and> ready d"
proof -
  have rx: "rx c = message_wire (unat (remoteChunkSize c)) m1
      @ (message_wire (unat (remoteChunkSize c)) m2 @ message_wire (unat (remoteChunkSize c)) m3 @ rest)"
    using assms(12) by simp
  obtain d1 where 1: "handleOne L c = (Ok (), d1)" "ready d1" "appName d1 = app" "tcUrl d1 = url"
    "remoteChunkSize d1 = remoteChunkSize c" "\<not> handleCommandMessageDone d1"
    "rx d1 = message_wire (unat (remoteChunkSize d1)) m2 @ message_wire (unat (remoteChunkSize c)) m3 @ rest"
    using connect_command [OF assms(1,4,5,6,2) rx] assms(3) by auto
  obtain d2 where 2: "handleOne L d1 = (Ok (), d2)" "ready d2" "appName d2 = app" "tcUrl d2 = url"
    "\<not> handleCommandMessageDone d2" "rx d2 = message_wire (unat (remoteChunkSize d2)) m3 @ rest"
    using createStream_command [OF assms(1,8) 1(2,7)] 1(3-6) by auto
  have app: "appName d2 \<noteq> []" using 2(3) assms(7) by simp
  from start_command [OF assms(1,11,9) 2(2) assms(10) app 2(6)] obtain d3 where
    3: "handleOne L d2 = (Ok (), d3)" "ready d3" "rx d3 = rest" "appName d3 = app" "tcUrl d3 = url"
    "handleCommandMessageDone d3" "streamName d3 = name" "isPublisher d3 = (cmd = ''publish'')"
    using 2 by auto
  show ?thesis
    using 3 handleCommandMessage_more [OF 1(1,6)] handleCommandMessage_more [OF 2(1,5)]
      handleCommandMessage_last [OF 3(1,6)] by simp
qed

text \<open>The reply to \<open>connect\<close>, byte for byte: WindowAcknowledgementSize with the local window,
  SetPeerBandwidth 2500000 with limit type 2, SetChunkSize with the local chunk size, and the result as
  an AMF0 command message on the chunk stream of the request.\<close>

theorem connect_reply:
  assumes "writable c" and "6 \<le> unat (localChunksize c)"
    and "encodeAll L [AmfString ''_result'', AmfInt (transactionID c),
        AmfObject [(''fmsVer'', AmfString ''FMS/3,0,1,123''), (''capabilities'', AmfInt 31)],
        AmfObject [(''level'', AmfString ''status''), (''code'', AmfString ''NetConnection.Connect.Success''),
          (''description'', AmfString ''Connection succeeded.''),
          (''objectEncoding'', AmfInt (objectEncoding c))]] = Ok body"
    and "length body \<le> 0xffffff"
  shows "respConnectCmdMessage L cs c = (Ok (), sent c (
      [2, 0, 0, 0, 0, 0, 4, 5, 0, 0, 0, 0] @ uintAsbyteSlice (localWindowAckSize c) 4 True
    @ [2, 0, 0, 0, 0, 0, 5, 6, 0, 0, 0, 0, 0, 0x26, 0x25, 0xa0, 2]
    @ [2, 0, 0, 0, 0, 0, 4, 1, 0, 0, 0, 0] @ uintAsbyteSlice (localChunksize c) 4 True
    @ message_wire (unat (localChunksize c)) (commandMessage (Csid cs) (MsgStreamID cs) body)))"
proof -
  let ?n = "unat (localChunksize c)"
  have n: "0 < localChunksize c" "4 \<le> ?n" using assms(2) by (auto simp: word_less_nat_alt)
  have control: "writeMade (NewProtolControlMessage t 4 v) (sent c b)
      = (Ok (), sent c (b @ [2, 0, 0, 0, 0, 0, 4, ucast t, 0, 0, 0, 0] @ uintAsbyteSlice v 4 True))"
    if "t < 7" for t v b
  proof -
    obtain m where m: "NewProtolControlMessage t 4 v = Ok m" using NewProtolControlMessage_4 by blast
    have "writable (sent c b)" "0 < localChunksize (sent c b)" using assms(1) n by simp_all
    from writeMessage_open [OF this(1) sendable_control [OF m] this(2)] control_message_wire [OF m n(2) that]
    show ?thesis using m by (simp add: writeMade_def)
  qed
  have band: "writeMade peerBandwidth (sent c b)
      = (Ok (), sent c (b @ [2, 0, 0, 0, 0, 0, 5, 6, 0, 0, 0, 0, 0, 0x26, 0x25, 0xa0, 2]))" for b
  proof -
    let ?m = "newChunkStream\<lparr>Csid := 2, MsgLength := 5, MsgTypeID := 6, ChunkBody := [0, 0x26, 0x25, 0xa0, 2]\<rparr>"
    have "sendable ?m" by (simp add: sendable_def wf_message_def chunk_make_defs)
    moreover have "message_wire ?n (assignCsid ?m) = [2, 0, 0, 0, 0, 0, 5, 6, 0, 0, 0, 0, 0, 0x26, 0x25, 0xa0, 2]"
    proof -
      have "uintAsbyteSlice 0 3 True = [0, 0, 0]" "uintAsbyteSlice 5 3 True = [0, 0, 5]"
        "uintAsbyteSlice 0 4 False = [0, 0, 0, 0]" "uintAsbyteSlice 2 1 False = [2]"
        "uintAsbyteSlice 6 1 True = [6]"
        by code_simp+
      then show ?thesis
        using assms(2) by (simp add: assignCsid_def message_wire_def basic_header_def message_header_def
            Let_def chunk_make_defs)
    qed
    ultimately show ?thesis
      using writeMessage_open [of "sent c b" ?m] assms(1) n(1) by (simp add: writeMade_def peerBandwidth_eq)
  qed
  have cmd: "assignCsid (commandMessage i j body) = commandMessage i j body" for i j
    by (simp add: assignCsid_def commandMessage_def chunk_make_defs)
  have c0: "sent c [] = c" by simp
  show ?thesis
    using control [where b = "[]" and t = 5 and v = "localWindowAckSize c", unfolded c0] assms(1,3)
      writeMessage_open [OF _ sendable_commandMessage [OF assms(4)], of "sent c b" for b] n(1)
    by (simp add: respConnectCmdMessage_def go_bind_def Let_def writeCommandMessage_def band control cmd
        del: encodeAll.simps)
qed

text \<open>An AMF3 command message with an empty body crashes the server: the slice \<open>ChunkBody[1:]\<close> of a
  client's twelve bytes panics, whatever the AMF library does.\<close>

theorem empty_amf3_command_panics:
  "fst (handleCommandMessage L
     ((Server [3, 0, 0, 0, 0, 0, 0, 17, 0, 0, 0, 0] EOF None)\<lparr>basicHdrBuf := 3\<rparr>)) = Panic SliceOutOfRange"
proof -
  let ?c = "(Server [3, 0, 0, 0, 0, 0, 0, 17, 0, 0, 0, 0] EOF None)\<lparr>basicHdrBuf := 3\<rparr>"
  have "case readChunkStream ?c of (Ok cs, c) \<Rightarrow> MsgTypeID cs = 17 \<and> ChunkBody cs = [] | _ \<Rightarrow> False"
    by code_simp
  then obtain cs c1 where "readChunkStream ?c = (Ok cs, c1)" "MsgTypeID cs = 17" "ChunkBody cs = []"
    by (auto split: prod.splits res.splits)
  then have "handleOne L ?c = (Panic SliceOutOfRange, c1)"
    by (simp add: handleOne_def go_bind_def go_wrap_def decodeCommandMessage_def go_panic_def)
  then show ?thesis by (subst handleCommandMessage.simps) simp
qed

section \<open>A concrete session\<close>

text \<open>A library for the examples, whose numbers are integers: three bodies of one byte stand for the three
  commands, and every value is encoded as one byte.\<close>

definition demo_amf :: "int amf_lib" where
  "demo_amf = \<lparr>
     DecodeBatch = (\<lambda>b.
       if b = [1] then ([AmfString ''connect'', AmfNumber 1,
           AmfObject [(''app'', AmfString ''live''), (''tcUrl'', AmfString ''rtmp://host/live'')]], Some EOF)
       else if b = [2] then ([AmfString ''createStream'', AmfNumber 2, AmfNil], Some EOF)
       else if b = [3] then ([AmfString ''publish'', AmfNumber 3, AmfNil, AmfString ''cam'', AmfString ''live''], None)
       else ([], Some EOF)),
     Encode = (\<lambda>_. Inl [0]),
     float_int = id \<rparr>"

lemma demo_amf_encodes: "encodes_replies demo_amf"
proof -
  have "encodeAll demo_amf vs = Ok (replicate (length vs) 0)" for vs
    by (induction vs) (simp_all add: demo_amf_def)
  then show ?thesis by (auto simp: encodes_replies_def reply_values_def)
qed

lemma encodes_small: "encodes_replies L \<Longrightarrow> small_replies L"
  unfolding encodes_replies_def small_replies_def by fastforce

definition demo_command :: "u8 \<Rightarrow> chunk_stream" where
  "demo_command b = commandMessage 3 1 [b]"

lemma demo_commands:
  "commands demo_amf (demo_command 1) ''connect'' [AmfNumber 1,
     AmfObject [(''app'', AmfString ''live''), (''tcUrl'', AmfString ''rtmp://host/live'')]]"
  "commands demo_amf (demo_command 2) ''createStream'' [AmfNumber 2, AmfNil]"
  "commands demo_amf (demo_command 3) ''publish''
     (AmfNumber 3 # AmfNil # AmfString ''cam'' # [AmfString ''live''])"
  by (simp_all add: commands_def demo_command_def demo_amf_def commandMessage_def deliverable_def
      sendable_def wf_message_def chunk_make_defs valid_csid_def)

definition demo_conn :: "u8 list \<Rightarrow> conn" where
  "demo_conn inp = (Server inp EOF None)\<lparr>basicHdrBuf := 3\<rparr>"

lemma demo_conn_ready:
  "ready (demo_conn inp)" "conn_inv (demo_conn inp)" "\<not> handleCommandMessageDone (demo_conn inp)"
  "remoteChunkSize (demo_conn inp) = 128" "rx (demo_conn inp) = inp" "writable (demo_conn inp)"
  "localChunksize (demo_conn inp) = 60000" "localWindowAckSize (demo_conn inp) = 2500000"
  "tx (demo_conn inp) = []" "transactionID (demo_conn inp) = 0" "objectEncoding (demo_conn inp) = 0"
  by (simp_all add: demo_conn_def Server_def zero_conn_def ready_def reader_ready_def writable_def
      tx_open_def conn_inv_def)

theorem client_session_witness:
  "\<exists>d. handleCommandMessage demo_amf
         (demo_conn (concat (map (message_wire 128) [demo_command 1, demo_command 2, demo_command 3]) @ [0xff]))
       = (Ok (), d)
     \<and> appName d = ''live'' \<and> streamName d = ''cam'' \<and> isPublisher d \<and> rx d = [0xff]"
proof -
  let ?inp = "concat (map (message_wire 128) [demo_command 1, demo_command 2, demo_command 3]) @ [0xff]"
  have obj: "connect_object [(''app'', AmfString ''live''), (''tcUrl'', AmfString ''rtmp://host/live'')]
      ''live'' ''rtmp://host/live''" by (simp add: connect_object_def)
  have "\<exists>d. handleCommandMessage demo_amf (demo_conn ?inp) = (Ok (), d) \<and> appName d = ''live''
      \<and> tcUrl d = ''rtmp://host/live'' \<and> streamName d = ''cam'' \<and> isPublisher d = (''publish'' = ''publish'')
      \<and> rx d = [0xff] \<and> ready d"
    by (rule client_session [OF demo_amf_encodes demo_conn_ready(1,3) demo_commands(1) _ obj _ demo_commands(2,3)])
      (simp_all add: demo_conn_ready demo_amf_def)
  then show ?thesis by auto
qed


theorem connect_reply_witness:
  "\<exists>body. fst (respConnectCmdMessage demo_amf (demo_command 1) (demo_conn [])) = Ok ()
     \<and> drop 49 (tx (snd (respConnectCmdMessage demo_amf (demo_command 1) (demo_conn []))))
        = message_wire 60000 (commandMessage 3 1 body)
     \<and> length body = 4"
proof -
  have enc: "encodeAll demo_amf [AmfString ''_result'', AmfInt (transactionID (demo_conn [])),
        AmfObject [(''fmsVer'', AmfString ''FMS/3,0,1,123''), (''capabilities'', AmfInt 31)],
        AmfObject [(''level'', AmfString ''status''), (''code'', AmfString ''NetConnection.Connect.Success''),
          (''description'', AmfString ''Connection succeeded.''),
          (''objectEncoding'', AmfInt (objectEncoding (demo_conn [])))]] = Ok [0, 0, 0, 0]"
    by (simp add: demo_amf_def)
  have "6 \<le> unat (localChunksize (demo_conn []))" by (simp add: demo_conn_ready)
  from connect_reply [OF demo_conn_ready(6) this enc, of "demo_command 1"] show ?thesis
    by (intro exI [of _ "[0, 0, 0, 0]"])
      (simp add: demo_conn_ready, simp add: demo_command_def commandMessage_def chunk_make_defs)
qed

end
