(* ===== verification/TcUrl.thy ===== *)
theory TcUrl
  imports Conn GoStrings
begin

text \<open>
  Finding the virtual host (\<open>discoverTcUrl\<close> in \<^verbatim>\<open>pkg/rtmp/conn.go\<close>). It rests on \<^verbatim>\<open>net/url\<close> and
  \<^verbatim>\<open>net.SplitHostPort\<close> of the standard library (Go 1.15, the version of the module), which are
  modelled as far as their results are used: scheme, host, path and query of a URL, and every error. The local
  address of the socket is the parameter \<open>laddr\<close>.
\<close>

section \<open>Percent encoding\<close>

datatype encoding = encodePath | encodeHost | encodeZone | encodeUserPassword
  | encodeQueryComponent | encodeFragment

definition is_alnum :: "char \<Rightarrow> bool" where
  "is_alnum c \<longleftrightarrow> within (CHR ''a'') (CHR ''z'') c \<or> within (CHR ''A'') (CHR ''Z'') c
     \<or> within (CHR ''0'') (CHR ''9'') c"

definition unhex :: "char \<Rightarrow> nat option" where
  "unhex c =
     (if within (CHR ''0'') (CHR ''9'') c then Some (of_char c - 48)
      else if within (CHR ''a'') (CHR ''f'') c then Some (of_char c - 97 + 10)
      else if within (CHR ''A'') (CHR ''F'') c then Some (of_char c - 65 + 10)
      else None)"

text \<open>\<open>shouldEscape\<close> in the modes of a host.\<close>

definition shouldEscape_host :: "char \<Rightarrow> bool" where
  "shouldEscape_host c \<longleftrightarrow>
     \<not> (is_alnum c \<or> c \<in> set ''!$&()*+,;=:[]<>-_.~'' \<or> c = CHR 0x27 \<or> c = CHR 0x22)"

fun unescape :: "encoding \<Rightarrow> string \<Rightarrow> string option" where
  "unescape mode [] = Some []"
| "unescape mode (c # s) =
     (if c = CHR ''%'' then
        (case s of
           a # b # s' \<Rightarrow>
             (case (unhex a, unhex b) of
                (Some x, Some y) \<Rightarrow>
                  if mode = encodeHost \<and> x < 8 \<and> [a, b] \<noteq> ''25'' then None
                  else if mode = encodeZone \<and> [a, b] \<noteq> ''25'' \<and> x * 16 + y \<noteq> 32
                          \<and> shouldEscape_host (char_of (x * 16 + y)) then None
                  else map_option ((#) (char_of (x * 16 + y))) (unescape mode s')
              | _ \<Rightarrow> None)
         | _ \<Rightarrow> None)
      else if c = CHR ''+'' then
        map_option ((#) (if mode = encodeQueryComponent then CHR '' '' else c)) (unescape mode s)
      else if (mode = encodeHost \<or> mode = encodeZone) \<and> of_char c < (128 :: nat) \<and> shouldEscape_host c
      then None
      else map_option ((#) c) (unescape mode s))"

section \<open>URLs\<close>

record url =
  Scheme :: string
  Host :: string
  Path :: string
  RawQuery :: string

fun getscheme_from :: "bool \<Rightarrow> string \<Rightarrow> string \<Rightarrow> (string \<times> string) option" where
  "getscheme_from start acc [] = Some ([], rev acc)"
| "getscheme_from start acc (c # s) =
     (if within (CHR ''a'') (CHR ''z'') c \<or> within (CHR ''A'') (CHR ''Z'') c
      then getscheme_from False (c # acc) s
      else if within (CHR ''0'') (CHR ''9'') c \<or> c \<in> set ''+-.''
      then (if start then Some ([], c # s) else getscheme_from False (c # acc) s)
      else if c = CHR '':'' then (if start then None else Some (rev acc, s))
      else Some ([], rev acc @ c # s))"

definition getscheme :: "string \<Rightarrow> (string \<times> string) option" where
  "getscheme rawurl = getscheme_from True [] rawurl"

definition validOptionalPort :: "string \<Rightarrow> bool" where
  "validOptionalPort p \<longleftrightarrow>
     (case p of
        [] \<Rightarrow> True
      | c # cs \<Rightarrow> c = CHR '':'' \<and> list_all (\<lambda>d. within (CHR ''0'') (CHR ''9'') d) cs)"

definition validUserinfo :: "string \<Rightarrow> bool" where
  "validUserinfo s \<longleftrightarrow>
     list_all (\<lambda>c. is_alnum c \<or> c \<in> set ''-._:~!$&()*+,;=%@'' \<or> c = CHR 0x27) s"

definition parseHost :: "string \<Rightarrow> string option" where
  "parseHost hp =
     (if HasPrefix hp ''['' then
        (case LastIndexByte (CHR '']'') hp of
           None \<Rightarrow> None
         | Some i \<Rightarrow>
             if \<not> validOptionalPort (drop (i + 1) hp) then None
             else
               (case IndexStr ''%25'' (take i hp) of
                  Some zone \<Rightarrow>
                    (case (unescape encodeHost (take zone hp),
                           unescape encodeZone (drop zone (take i hp)),
                           unescape encodeHost (drop i hp)) of
                       (Some h1, Some h2, Some h3) \<Rightarrow> Some (h1 @ h2 @ h3)
                     | _ \<Rightarrow> None)
                | None \<Rightarrow> unescape encodeHost hp))
      else
        (case LastIndexByte (CHR '':'') hp of
           Some i \<Rightarrow> if validOptionalPort (drop i hp) then unescape encodeHost hp else None
         | None \<Rightarrow> unescape encodeHost hp))"

definition parseAuthority :: "string \<Rightarrow> string option" where
  "parseAuthority authority =
     (case LastIndexByte (CHR ''@'') authority of
        None \<Rightarrow> parseHost authority
      | Some i \<Rightarrow>
          (case parseHost (drop (i + 1) authority) of
             None \<Rightarrow> None
           | Some h \<Rightarrow>
               let userinfo = take i authority; (name, password) = split_at userinfo (CHR '':'') True
               in if \<not> validUserinfo userinfo then None
                  else if CHR '':'' \<notin> set userinfo
                  then (if unescape encodeUserPassword userinfo = None then None else Some h)
                  else (if unescape encodeUserPassword name = None
                           \<or> unescape encodeUserPassword password = None then None else Some h)))"

text \<open>\<open>url.parse(rawurl, false)\<close>.\<close>

definition parse_url :: "string \<Rightarrow> url option" where
  "parse_url rawurl =
     (if list_ex (\<lambda>c. of_char c < (32 :: nat) \<or> of_char c = (127 :: nat)) rawurl then None
      else if rawurl = ''*'' then Some \<lparr> Scheme = [], Host = [], Path = ''*'', RawQuery = [] \<rparr>
      else
        (case getscheme rawurl of
           None \<Rightarrow> None
         | Some (scheme0, rest0) \<Rightarrow>
             let scheme = ToLower scheme0;
                 (rest, query) =
                   (if rest0 \<noteq> [] \<and> last rest0 = CHR ''?'' \<and> count_list rest0 (CHR ''?'') = 1
                    then (butlast rest0, []) else split_at rest0 (CHR ''?'') True)
             in if \<not> HasPrefix rest ''/'' \<and> scheme \<noteq> []
                then Some \<lparr> Scheme = scheme, Host = [], Path = [], RawQuery = query \<rparr>
                else if \<not> HasPrefix rest ''/''
                        \<and> (case IndexByte (CHR '':'') rest of
                             None \<Rightarrow> False
                           | Some colon \<Rightarrow>
                               (case IndexByte (CHR ''/'') rest of
                                  None \<Rightarrow> True | Some slash \<Rightarrow> colon < slash))
                then None
                else
                  let authority =
                        (if (scheme \<noteq> [] \<or> \<not> HasPrefix rest ''///'') \<and> HasPrefix rest ''//''
                         then Some (split_at (drop 2 rest) (CHR ''/'') False) else None);
                      hostport = (case authority of None \<Rightarrow> Some [] | Some (a, _) \<Rightarrow> parseAuthority a);
                      path = (case authority of None \<Rightarrow> rest | Some (_, p) \<Rightarrow> p)
                  in (case hostport of
                        None \<Rightarrow> None
                      | Some h \<Rightarrow>
                          (case unescape encodePath path of
                             None \<Rightarrow> None
                           | Some p \<Rightarrow> Some \<lparr> Scheme = scheme, Host = h, Path = p, RawQuery = query \<rparr>))))"

definition url_Parse :: "string \<Rightarrow> url option" where
  "url_Parse rawurl =
     (let (u, frag) = split_at rawurl (CHR ''#'') True
      in case parse_url u of
           None \<Rightarrow> None
         | Some url \<Rightarrow>
             if frag \<noteq> [] \<and> unescape encodeFragment frag = None then None else Some url)"

section \<open>Queries and addresses\<close>

fun query_parts :: "string \<Rightarrow> string \<Rightarrow> string list" where
  "query_parts acc [] = [rev acc]"
| "query_parts acc (c # s) =
     (if c = CHR ''&'' \<or> c = CHR '';'' then rev acc # query_parts [] s else query_parts (c # acc) s)"

definition add_query :: "string \<Rightarrow> (string \<rightharpoonup> string list) \<Rightarrow> (string \<rightharpoonup> string list)" where
  "add_query part m =
     (if part = [] then m
      else
        let (key, value) = split_at part (CHR ''='') True
        in case (unescape encodeQueryComponent key, unescape encodeQueryComponent value) of
             (Some k, Some v) \<Rightarrow> m(k \<mapsto> (case m k of None \<Rightarrow> [] | Some vs \<Rightarrow> vs) @ [v])
           | _ \<Rightarrow> m)"

text \<open>\<open>v, _ := url.ParseQuery(query)\<close>.\<close>

definition ParseQuery :: "string \<Rightarrow> (string \<rightharpoonup> string list)" where
  "ParseQuery query = fold add_query (query_parts [] query) Map.empty"

definition SplitHostPort :: "string \<Rightarrow> (string \<times> string) option" where
  "SplitHostPort hp =
     (case LastIndexByte (CHR '':'') hp of
        None \<Rightarrow> None
      | Some i \<Rightarrow>
          if HasPrefix hp ''['' then
            (case IndexByte (CHR '']'') hp of
               None \<Rightarrow> None
             | Some e \<Rightarrow>
                 if e + 1 \<noteq> i then None
                 else if CHR ''['' \<in> set (drop 1 hp) \<or> CHR '']'' \<in> set (drop (e + 1) hp) then None
                 else Some (take (e - 1) (drop 1 hp), drop (i + 1) hp))
          else if CHR '':'' \<in> set (take i hp) \<or> CHR ''['' \<in> set hp \<or> CHR '']'' \<in> set hp then None
          else Some (take i hp, drop (i + 1) hp))"

section \<open>Finding the virtual host\<close>

definition parseVhost :: "(conn, unit) go" where
  "parseVhost c =
     (case urlValues c ''vhost'' of
        None \<Rightarrow> (Ok (), c)
      | Some [] \<Rightarrow> (Panic IndexOutOfRange, c)
      | Some (v # _) \<Rightarrow> (Ok (), c\<lparr>vhost := v\<rparr>))"

definition default_vhost :: "(conn, unit) go" where
  "default_vhost c =
     (Ok (), c\<lparr>vhost := (if vhost c = [] then ''_defaultVhost_'' else vhost c)\<rparr>)"

definition cut_name :: "string \<Rightarrow> string" where
  "cut_name s =
     (case IndexByte (CHR ''?'') s of
        Some idx \<Rightarrow> if idx > 0 then TrimByte (CHR '' '') (take idx s) else s
      | None \<Rightarrow> s)"

definition cut_appName :: "(conn, unit) go" where
  "cut_appName c = (Ok (), c\<lparr>appName := cut_name (appName c)\<rparr>)"

text \<open>Host, port and virtual host, from the URL and the local address.\<close>

definition host_port :: "string \<Rightarrow> url \<Rightarrow> (conn, unit) go" where
  "host_port laddr u =
     (if CHR '':'' \<in> set (Host u) then
        (case SplitHostPort (Host u) of
           None \<Rightarrow> go_err (Wrap (Msg ''address'') ''split host port'')
         | Some (h, p) \<Rightarrow>
             go_bind (go_modify (\<lambda>c. c\<lparr>host := h, port := Atoi_ignore p\<rparr>)) (\<lambda>_.
             if Host u = laddr then parseVhost
             else go_modify (\<lambda>c. c\<lparr>vhost := h\<rparr>)))
      else
        (let (lIp, lPort) = (case SplitHostPort laddr of None \<Rightarrow> ([], []) | Some hp \<Rightarrow> hp)
         in go_bind (go_modify (\<lambda>c. c\<lparr>host := Host u\<rparr>)) (\<lambda>_.
            go_bind (if Host u = lIp then parseVhost
                     else go_modify (\<lambda>c. c\<lparr>vhost := Host u\<rparr>)) (\<lambda>_.
            go_modify (\<lambda>c. c\<lparr>port := Atoi_ignore lPort\<rparr>)))))"

definition discoverTcUrl :: "string \<Rightarrow> (conn, unit) go" where
  "discoverTcUrl laddr c =
     (case url_Parse (tcUrl c) of
        None \<Rightarrow> (Err (Msg ''url parse''), c)
      | Some u \<Rightarrow>
          if ToLower (Scheme u) \<noteq> ''rtmp'' then (Err (Msg ''not rtmp scheme''), c)
          else
            go_bind (go_modify (\<lambda>c. c\<lparr>rawQuery := RawQuery u, urlValues := ParseQuery (RawQuery u)\<rparr>)) (\<lambda>_.
            go_bind (host_port laddr u) (\<lambda>_.
            go_bind default_vhost (\<lambda>_. cut_appName))) c)"

section \<open>Every tcUrl\<close>

text \<open>The fields that the search may set, and those a result agrees with the start on.\<close>

definition tcurl_frame :: "conn \<Rightarrow> conn \<Rightarrow> bool" where
  "tcurl_frame c c' \<longleftrightarrow>
     c' = c\<lparr>host := host c', port := port c', vhost := vhost c', rawQuery := rawQuery c',
             urlValues := urlValues c', appName := appName c'\<rparr>"

definition filled :: "(string \<rightharpoonup> string list) \<Rightarrow> bool" where
  "filled m \<longleftrightarrow> (\<forall>k. m k \<noteq> Some [])"

lemma filled_add_query: "filled m \<Longrightarrow> filled (add_query part m)"
  by (auto simp: add_query_def filled_def split: option.splits prod.splits)

lemma filled_fold: "filled m \<Longrightarrow> filled (fold add_query parts m)"
  by (induction parts arbitrary: m) (simp_all add: filled_add_query)

lemma ParseQuery_filled: "filled (ParseQuery q)"
  unfolding ParseQuery_def by (rule filled_fold) (simp add: filled_def)

lemma parseVhost_filled:
  assumes "filled (urlValues c)"
  shows "\<exists>v. parseVhost c = (Ok (), c\<lparr>vhost := v\<rparr>)"
proof (cases "urlValues c ''vhost''")
  case None
  show ?thesis by (rule exI [of _ "vhost c"]) (simp add: parseVhost_def None)
next
  case (Some vs)
  then show ?thesis using assms by (cases vs) (auto simp: parseVhost_def filled_def)
qed

lemma host_port_filled:
  assumes "filled (urlValues c)"
  shows "(\<exists>e. host_port laddr u c = (Err e, c))
     \<or> (\<exists>h p v. host_port laddr u c = (Ok (), c\<lparr>host := h, port := p, vhost := v\<rparr>))"
proof (cases "CHR '':'' \<in> set (Host u)")
  case True
  show ?thesis
  proof (cases "SplitHostPort (Host u)")
    case None
    then show ?thesis using True by (simp add: host_port_def go_err_def)
  next
    case (Some hp)
    obtain h p where hp: "hp = (h, p)" by fastforce
    let ?c = "c\<lparr>host := h, port := Atoi_ignore p\<rparr>"
    obtain v where "parseVhost ?c = (Ok (), ?c\<lparr>vhost := v\<rparr>)"
      using parseVhost_filled [of ?c] assms by auto
    then show ?thesis using True Some hp
      by (simp add: host_port_def go_bind_def go_modify_def) blast
  qed
next
  case False
  obtain lIp lPort where l: "(case SplitHostPort laddr of None \<Rightarrow> ([], []) | Some hp \<Rightarrow> hp) = (lIp, lPort)"
    by fastforce
  let ?c = "c\<lparr>host := Host u\<rparr>"
  obtain v where v: "parseVhost ?c = (Ok (), ?c\<lparr>vhost := v\<rparr>)"
    using parseVhost_filled [of ?c] assms by auto
  have "host_port laddr u c
          = (Ok (), c\<lparr>host := Host u, port := Atoi_ignore lPort,
                      vhost := (if Host u = lIp then v else Host u)\<rparr>)"
    using False l v by (cases "Host u = lIp") (auto simp: host_port_def go_bind_def go_modify_def Let_def)
  then show ?thesis by blast
qed

lemmas tcurl_steps = go_bind_def go_modify_def go_err_def default_vhost_def cut_appName_def Let_def

lemma discoverTcUrl_cases:
  "discoverTcUrl laddr c = (r, c') \<Longrightarrow>
     (\<exists>e. r = Err e) \<and> tcurl_frame c c' \<or> r = Ok () \<and> tcurl_frame c c' \<and> vhost c' \<noteq> []"
proof -
  assume run: "discoverTcUrl laddr c = (r, c')"
  show ?thesis
  proof (cases "url_Parse (tcUrl c)")
    case None
    then show ?thesis using run by (auto simp: discoverTcUrl_def tcurl_frame_def)
  next
    case (Some u)
    let ?c = "c\<lparr>rawQuery := RawQuery u, urlValues := ParseQuery (RawQuery u)\<rparr>"
    have "filled (urlValues ?c)" by (simp add: ParseQuery_filled)
    from host_port_filled [OF this, of laddr u] show ?thesis
    proof (elim disjE exE)
      fix e assume "host_port laddr u ?c = (Err e, ?c)"
      then show ?thesis using run Some
        by (auto simp: discoverTcUrl_def tcurl_frame_def tcurl_steps split: if_splits)
    next
      fix h p v assume "host_port laddr u ?c = (Ok (), ?c\<lparr>host := h, port := p, vhost := v\<rparr>)"
      then show ?thesis using run Some
        by (auto simp: discoverTcUrl_def tcurl_frame_def tcurl_steps split: if_splits)
    qed
  qed
qed

text \<open>C32: \<open>discoverTcUrl\<close> (conn.go) deals with every \<open>tcUrl\<close> that a client may send: it never panics,
  it changes nothing but the host, port, virtual host, query and application name, and when it succeeds
  the virtual host is not empty.\<close>

theorem discoverTcUrl_safe:
  "case discoverTcUrl laddr c of
     (r, c') \<Rightarrow> tcurl_frame c c' \<and> (case r of Ok _ \<Rightarrow> vhost c' \<noteq> [] | Err _ \<Rightarrow> True | Panic _ \<Rightarrow> False)"
proof -
  obtain r c' where run: "discoverTcUrl laddr c = (r, c')" by fastforce
  from discoverTcUrl_cases [OF this] show ?thesis using run by auto
qed

section \<open>Building a tcUrl\<close>

text \<open>
  The URLs a client would build: names of letters, digits, \<open>-\<close>, \<open>.\<close> and \<open>_\<close>, a port, a path and
  query parameters.
\<close>

definition plain_char :: "char \<Rightarrow> bool" where
  "plain_char c \<longleftrightarrow> is_alnum c \<or> c \<in> set ''-._''"


fun query_of :: "(string \<times> string) list \<Rightarrow> string" where
  "query_of [] = []"
| "query_of [(k, v)] = k @ ''='' @ v"
| "query_of ((k, v) # kv # kvs) = k @ ''='' @ v @ ''&'' @ query_of (kv # kvs)"

definition tcurl_of :: "string \<Rightarrow> nat \<Rightarrow> string \<Rightarrow> (string \<times> string) list \<Rightarrow> string" where
  "tcurl_of h p path kvs =
     ''rtmp://'' @ h @ '':'' @ Itoa p @ ''/'' @ path @ ''?'' @ query_of kvs"

definition plain :: "string \<Rightarrow> bool" where
  "plain s \<longleftrightarrow> list_all plain_char s"

lemma plain_neq:
  "plain_char c \<Longrightarrow> c \<notin> {CHR ''%'', CHR ''+'', CHR '':'', CHR ''/'', CHR ''?'', CHR ''#'', CHR ''&'',
      CHR '';'', CHR ''='', CHR ''@'', CHR ''['', CHR '']''}"
  by (auto simp: plain_char_def is_alnum_def less_eq_char_def)

lemma plain_printable: "plain_char c \<Longrightarrow> 32 \<le> (of_char c :: nat) \<and> of_char c < (127 :: nat)"
  by (auto simp: plain_char_def is_alnum_def less_eq_char_def)

lemma plain_hostchar: "plain_char c \<Longrightarrow> \<not> shouldEscape_host c"
  by (auto simp: plain_char_def shouldEscape_host_def)

lemma unescape_id:
  "(\<And>c. c \<in> set s \<Longrightarrow> c \<noteq> CHR ''%'' \<and> c \<noteq> CHR ''+'' \<and> \<not> shouldEscape_host c) \<Longrightarrow>
     unescape mode s = Some s"
  by (induction s) auto

lemma unescape_plain: "plain s \<Longrightarrow> unescape mode s = Some s"
  by (rule unescape_id) (auto simp: plain_def list_all_iff dest: plain_neq plain_hostchar)

lemma plain_notin:
  assumes "plain s"
  shows "CHR ''%'' \<notin> set s" "CHR ''+'' \<notin> set s" "CHR '':'' \<notin> set s" "CHR ''/'' \<notin> set s"
    "CHR ''?'' \<notin> set s" "CHR ''#'' \<notin> set s" "CHR ''&'' \<notin> set s" "CHR '';'' \<notin> set s"
    "CHR ''='' \<notin> set s" "CHR ''@'' \<notin> set s" "CHR ''['' \<notin> set s" "CHR '']'' \<notin> set s"
proof -
  have "\<forall>c \<in> set s. plain_char c" using assms by (simp add: plain_def list_all_iff)
  note p = this [THEN bspec, THEN plain_neq]
  show "CHR ''%'' \<notin> set s" "CHR ''+'' \<notin> set s" "CHR '':'' \<notin> set s" "CHR ''/'' \<notin> set s"
    "CHR ''?'' \<notin> set s" "CHR ''#'' \<notin> set s" "CHR ''&'' \<notin> set s" "CHR '';'' \<notin> set s"
    "CHR ''='' \<notin> set s" "CHR ''@'' \<notin> set s" "CHR ''['' \<notin> set s" "CHR '']'' \<notin> set s"
    by (rule notI, drule p, simp)+
qed

lemma plain_Itoa: "plain (Itoa n)"
  by (auto simp: plain_def list_all_iff plain_char_def is_alnum_def dest: Itoa_isdigit)

lemma query_parts_none:
  "CHR ''&'' \<notin> set s \<Longrightarrow> CHR '';'' \<notin> set s \<Longrightarrow> query_parts acc s = [rev acc @ s]"
  by (induction s arbitrary: acc) auto

lemma query_parts_amp:
  "CHR ''&'' \<notin> set s \<Longrightarrow> CHR '';'' \<notin> set s \<Longrightarrow>
     query_parts acc (s @ CHR ''&'' # t) = (rev acc @ s) # query_parts [] t"
  by (induction s arbitrary: acc) auto

definition plain_kvs :: "(string \<times> string) list \<Rightarrow> bool" where
  "plain_kvs kvs \<longleftrightarrow> list_all (\<lambda>(k, v). plain k \<and> plain v) kvs"

lemma query_parts_query_of:
  "plain_kvs kvs \<Longrightarrow> kvs \<noteq> [] \<Longrightarrow>
     query_parts [] (query_of kvs) = map (\<lambda>(k, v). k @ CHR ''='' # v) kvs"
proof (induction kvs rule: query_of.induct)
  case 1 then show ?case by simp
next
  case (2 k v)
  then have "CHR ''&'' \<notin> set (k @ ''='' @ v)" "CHR '';'' \<notin> set (k @ ''='' @ v)"
    by (simp_all add: plain_kvs_def plain_notin)
  then show ?case using query_parts_none [of "k @ ''='' @ v" "[]"] by simp
next
  case (3 k v kv kvs)
  then have "CHR ''&'' \<notin> set (k @ ''='' @ v)" "CHR '';'' \<notin> set (k @ ''='' @ v)"
    by (simp_all add: plain_kvs_def plain_notin)
  then show ?case
    using 3 query_parts_amp [of "k @ ''='' @ v" "[]" "query_of (kv # kvs)"]
    by (simp add: plain_kvs_def)
qed

definition values_of :: "string \<Rightarrow> (string \<times> string) list \<Rightarrow> string list" where
  "values_of k kvs = map snd (filter (\<lambda>kv. fst kv = k) kvs)"

lemma add_query_pair:
  assumes "plain k" "plain v"
  shows "add_query (k @ CHR ''='' # v) m = m(k \<mapsto> (case m k of None \<Rightarrow> [] | Some vs \<Rightarrow> vs) @ [v])"
proof -
  have "split_at (k @ CHR ''='' # v) (CHR ''='') True = (k, v)"
    by (intro split_at_append(1) plain_notin assms)
  then show ?thesis by (simp add: add_query_def unescape_plain assms)
qed

lemma fold_add_query:
  "plain_kvs kvs \<Longrightarrow>
     fold add_query (map (\<lambda>(k, v). k @ CHR ''='' # v) kvs) m
       = (\<lambda>k. if values_of k kvs = [] then m k
              else Some ((case m k of None \<Rightarrow> [] | Some vs \<Rightarrow> vs) @ values_of k kvs))"
proof (induction kvs arbitrary: m)
  case Nil then show ?case by (simp add: values_of_def)
next
  case (Cons kv kvs)
  obtain k v where kv: "kv = (k, v)" by fastforce
  with Cons.prems have p: "plain k" "plain v" "plain_kvs kvs" by (simp_all add: plain_kvs_def)
  have "fold add_query (map (\<lambda>(k, v). k @ CHR ''='' # v) (kv # kvs)) m
      = fold add_query (map (\<lambda>(k, v). k @ CHR ''='' # v) kvs)
          (m(k \<mapsto> (case m k of None \<Rightarrow> [] | Some vs \<Rightarrow> vs) @ [v]))"
    by (simp add: kv add_query_pair p)
  then show ?case unfolding Cons.IH [OF p(3)] by (auto simp: kv values_of_def)
qed

lemma ParseQuery_query_of:
  "plain_kvs kvs \<Longrightarrow> kvs \<noteq> [] \<Longrightarrow>
     ParseQuery (query_of kvs) k = (if values_of k kvs = [] then None else Some (values_of k kvs))"
  by (simp add: ParseQuery_def query_parts_query_of fold_add_query del: append.simps)

lemma query_of_chars:
  "plain_kvs kvs \<Longrightarrow> c \<in> set (query_of kvs) \<Longrightarrow> plain_char c \<or> c = CHR ''='' \<or> c = CHR ''&''"
  by (induction kvs rule: query_of.induct) (auto simp: plain_kvs_def plain_def list_all_iff)

lemma query_of_notin:
  assumes k: "plain_kvs kvs"
  shows "CHR ''?'' \<notin> set (query_of kvs)" "CHR ''#'' \<notin> set (query_of kvs)"
proof -
  note c = query_of_chars [OF k] and n = plain_neq
  show "CHR ''?'' \<notin> set (query_of kvs)"
    by (rule notI, drule c, elim disjE, drule n, simp_all)
  show "CHR ''#'' \<notin> set (query_of kvs)"
    by (rule notI, drule c, elim disjE, drule n, simp_all)
qed

definition plain_path :: "string \<Rightarrow> bool" where
  "plain_path s \<longleftrightarrow> list_all (\<lambda>c. plain_char c \<or> c = CHR ''/'') s"

lemma plain_path_notin:
  "plain_path s \<Longrightarrow> CHR ''?'' \<notin> set s" "plain_path s \<Longrightarrow> CHR ''#'' \<notin> set s"
  by (auto simp: plain_path_def list_all_iff dest!: bspec dest: plain_neq)

lemma unescape_path: "plain_path s \<Longrightarrow> unescape encodePath s = Some s"
  by (induction s) (auto simp: plain_path_def dest: plain_neq)

lemma SplitHostPort_plain:
  "plain h \<Longrightarrow> plain p \<Longrightarrow> SplitHostPort (h @ CHR '':'' # p) = Some (h, p)"
proof -
  assume h: "plain h" and p: "plain p"
  have "LastIndexByte (CHR '':'') (h @ CHR '':'' # p) = Some (length h)"
    by (rule LastIndexByte_append) (rule plain_notin [OF p])
  moreover have "\<not> HasPrefix (h @ CHR '':'' # p) ''[''"
    using plain_notin(11) [OF h] by (cases h) (auto simp: HasPrefix_def)
  ultimately show ?thesis
    using plain_notin [OF h] plain_notin [OF p] by (simp add: SplitHostPort_def)
qed

lemma hostport_char:
  "plain_char c \<or> c = CHR '':'' \<Longrightarrow> c \<noteq> CHR ''%'' \<and> c \<noteq> CHR ''+'' \<and> \<not> shouldEscape_host c"
  by (auto dest: plain_neq plain_hostchar simp: shouldEscape_host_def)

lemma unescape_hostport:
  "plain h \<Longrightarrow> plain p \<Longrightarrow> unescape mode (h @ CHR '':'' # p) = Some (h @ CHR '':'' # p)"
  by (rule unescape_id, rule hostport_char) (auto simp: plain_def list_all_iff)

lemma parseAuthority_plain:
  "plain h \<Longrightarrow> parseAuthority (h @ CHR '':'' # Itoa p) = Some (h @ CHR '':'' # Itoa p)"
proof -
  assume h: "plain h"
  let ?s = "h @ CHR '':'' # Itoa p"
  have "LastIndexByte (CHR ''@'') ?s = None"
    using plain_notin(10) [OF h] plain_notin(10) [OF plain_Itoa] by simp
  moreover have "\<not> HasPrefix ?s ''[''"
    using plain_notin(11) [OF h] by (cases h) (auto simp: HasPrefix_def)
  moreover have "LastIndexByte (CHR '':'') ?s = Some (length h)"
    by (rule LastIndexByte_append) (rule plain_notin [OF plain_Itoa])
  moreover have "validOptionalPort (CHR '':'' # Itoa p)"
    by (auto simp: validOptionalPort_def list_all_iff dest: Itoa_isdigit)
  ultimately show ?thesis
    by (simp add: parseAuthority_def parseHost_def unescape_hostport h plain_Itoa del: LastIndexByte_None)
qed

lemma cut_query:
  assumes "CHR ''?'' \<notin> set pre" "CHR ''?'' \<notin> set q"
  shows "(if pre @ CHR ''?'' # q \<noteq> [] \<and> last (pre @ CHR ''?'' # q) = CHR ''?''
             \<and> count_list (pre @ CHR ''?'' # q) (CHR ''?'') = 1
          then (butlast (pre @ CHR ''?'' # q), []) else split_at (pre @ CHR ''?'' # q) (CHR ''?'') True)
         = (pre, q)"
proof (cases "q = []")
  case True
  then show ?thesis using assms by (simp add: split_at_append)
next
  case False
  then have "last (pre @ CHR ''?'' # q) \<noteq> CHR ''?''" using assms(2) last_in_set by fastforce
  then show ?thesis using assms by (simp add: split_at_append)
qed

lemma getscheme_rtmp: "getscheme (''rtmp:'' @ s) = Some (''rtmp'', s)"
  by (simp add: getscheme_def less_eq_char_def)

lemma ToLower_rtmp: "ToLower ''rtmp'' = ''rtmp''"
  by (simp add: ToLower_def ToLower_char_def less_eq_char_def)

lemma tcurl_printable:
  assumes "plain h" "plain_path path" "plain_kvs kvs"
  shows "list_ex (\<lambda>c. of_char c < (32 :: nat) \<or> of_char c = (127 :: nat)) (tcurl_of h p path kvs) = False"
proof -
  let ?s = "set ''rtmp://?=&''"
  have "plain_char c \<or> c \<in> ?s" if c: "c \<in> set (tcurl_of h p path kvs)" for c
  proof -
    have *: "plain_char c" if "c \<in> set h \<or> c \<in> set (Itoa p)"
      using that assms(1) plain_Itoa [of p] by (auto simp only: plain_def list_all_iff)
    have **: "plain_char c \<or> c = CHR ''/''" if "c \<in> set path"
      using that assms(2) by (simp only: plain_path_def list_all_iff)
    have "set (tcurl_of h p path kvs)
        \<subseteq> ?s \<union> set h \<union> set (Itoa p) \<union> set path \<union> set (query_of kvs)"
      by (simp add: tcurl_of_def) blast
    then consider "c \<in> ?s" | "c \<in> set h \<or> c \<in> set (Itoa p)" | "c \<in> set path" | "c \<in> set (query_of kvs)"
      using c by blast
    then show ?thesis
    proof cases
      case 3
      from ** [OF this] show ?thesis by (elim disjE) simp_all
    next
      case 4
      from query_of_chars [OF assms(3) this] show ?thesis by (elim disjE) simp_all
    qed (use * in simp_all)
  qed
  moreover have "\<not> (of_char c < (32 :: nat) \<or> of_char c = (127 :: nat))" if "plain_char c" for c
    using plain_printable [OF that] by simp
  moreover have "\<not> (of_char c < (32 :: nat) \<or> of_char c = (127 :: nat))" if "c \<in> ?s" for c
    using that by auto
  ultimately show ?thesis unfolding list_ex_iff by blast
qed

lemma url_Parse_tcurl:
  assumes "plain h" "plain_path path" "plain_kvs kvs"
  shows "url_Parse (tcurl_of h p path kvs)
           = Some \<lparr> Scheme = ''rtmp'', Host = h @ CHR '':'' # Itoa p, Path = CHR ''/'' # path, RawQuery = query_of kvs \<rparr>"
proof -
  let ?hp = "h @ CHR '':'' # Itoa p"
  let ?pre = "''//'' @ ?hp @ CHR ''/'' # path"
  let ?u = "tcurl_of h p path kvs"
  have u: "?u = ''rtmp:'' @ ?pre @ CHR ''?'' # query_of kvs"
    by (simp add: tcurl_of_def)
  have "CHR ''#'' \<notin> set ?u"
    using plain_notin(6) [OF assms(1)] plain_notin(6) [OF plain_Itoa, of p] plain_path_notin(2) [OF assms(2)]
      query_of_notin(2) [OF assms(3)] by (simp add: u)
  then have s: "split_at ?u (CHR ''#'') True = (?u, [])"
    by (rule split_at_none)
  have q: "CHR ''?'' \<notin> set ?pre"
    using plain_notin(5) [OF assms(1)] plain_notin(5) [OF plain_Itoa, of p] plain_path_notin(1) [OF assms(2)]
    by simp
  have a: "split_at (drop 2 ?pre) (CHR ''/'') False = (?hp, CHR ''/'' # path)"
  proof -
    have "CHR ''/'' \<notin> set ?hp"
      using plain_notin(4) [OF assms(1)] plain_notin(4) [OF plain_Itoa, of p] by simp
    from split_at_append(2) [OF this, of path] show ?thesis by simp
  qed
  have "parse_url ?u = Some \<lparr> Scheme = ''rtmp'', Host = ?hp, Path = CHR ''/'' # path, RawQuery = query_of kvs \<rparr>"
  proof -
    have "unescape encodePath (CHR ''/'' # path) = Some (CHR ''/'' # path)"
      by (rule unescape_path) (use assms(2) in \<open>simp add: plain_path_def\<close>)
    moreover have "HasPrefix ?pre ''/''" "HasPrefix ?pre ''//''" by (simp_all add: HasPrefix_def)
    moreover have "?u \<noteq> ''*''" by (simp add: u)
    moreover have "getscheme ?u = Some (''rtmp'', ?pre @ CHR ''?'' # query_of kvs)"
      unfolding u by (rule getscheme_rtmp)
    ultimately show ?thesis
      using a
      unfolding parse_url_def tcurl_printable [OF assms] Let_def
      by (simp only: if_False option.case prod.case cut_query [OF q query_of_notin(1) [OF assms(3)]] ToLower_rtmp
            parseAuthority_plain [OF assms(1)] simp_thms list.distinct if_True option.distinct)
  qed
  then show ?thesis by (simp add: url_Parse_def s)
qed

definition vhost_param :: "(string \<times> string) list \<Rightarrow> string \<Rightarrow> string" where
  "vhost_param kvs old = (case values_of ''vhost'' kvs of [] \<Rightarrow> old | v # _ \<Rightarrow> v)"

lemma Atoi_Itoa: "p < 65536 \<Longrightarrow> Atoi_ignore (Itoa p) = int p"
  by (simp add: Atoi_ignore_def ParseInt_Itoa)

lemma query_values:
  "plain_kvs kvs \<Longrightarrow>
     ParseQuery (query_of kvs) k = (if values_of k kvs = [] then None else Some (values_of k kvs))"
  by (cases "kvs = []") (simp_all add: ParseQuery_query_of, simp add: ParseQuery_def add_query_def values_of_def)

lemma tcurl_taken_apart:
  assumes "plain h" and "plain_path path" and "plain_kvs kvs" and "p < 65536"
    and "tcUrl c = tcurl_of h p path kvs"
  shows "let v = (if h @ '':'' @ Itoa p = laddr then vhost_param kvs (vhost c) else h)
    in \<exists>m. discoverTcUrl laddr c
           = (Ok (), c\<lparr>host := h, port := int p, rawQuery := query_of kvs, urlValues := m,
                       vhost := (if v = [] then ''_defaultVhost_'' else v),
                       appName := cut_name (appName c)\<rparr>)
        \<and> (\<forall>k. m k = (if values_of k kvs = [] then None else Some (values_of k kvs)))"
proof -
  let ?v = "if h @ '':'' @ Itoa p = laddr then vhost_param kvs (vhost c) else h"
  let ?c = "c\<lparr>rawQuery := query_of kvs, urlValues := ParseQuery (query_of kvs)\<rparr>"
  let ?u = "\<lparr> Scheme = ''rtmp'', Host = h @ CHR '':'' # Itoa p, Path = CHR ''/'' # path, RawQuery = query_of kvs \<rparr>"
  have "host_port laddr ?u ?c = (Ok (), ?c\<lparr>host := h, port := int p, vhost := ?v\<rparr>)"
    using SplitHostPort_plain [OF assms(1) plain_Itoa, of p]
    by (auto simp: host_port_def tcurl_steps Atoi_Itoa assms(4) parseVhost_def query_values assms(3)
          vhost_param_def split: list.splits)
  then have "discoverTcUrl laddr c
           = (Ok (), c\<lparr>host := h, port := int p, rawQuery := query_of kvs,
                       urlValues := ParseQuery (query_of kvs),
                       vhost := (if ?v = [] then ''_defaultVhost_'' else ?v),
                       appName := cut_name (appName c)\<rparr>)"
    by (simp add: discoverTcUrl_def assms(5) url_Parse_tcurl assms(1-3) ToLower_rtmp tcurl_steps del: split_paired_Ex)
  then show ?thesis unfolding Let_def using query_values [OF assms(3)] by blast
qed

text \<open>C23: A \<open>tcUrl\<close> built from a host, a port, a path and a list of query parameters is taken
  apart again by \<open>discoverTcUrl\<close> (conn.go): the host, the port number and the query are those it
  was built from, every parameter has its values in their order, and the virtual host is the host unless the URL names
  the local address, when it is the first \<open>vhost\<close> parameter; it defaults to \<open>_defaultVhost_\<close>.\<close>

theorem tcurl_roundtrip:
  assumes "plain h" and "plain_path path" and "plain_kvs kvs" and "p < 65536"
    and "tcUrl c = tcurl_of h p path kvs"
  shows "let v = (if h @ '':'' @ Itoa p = laddr then vhost_param kvs (vhost c) else h)
    in \<exists>m. discoverTcUrl laddr c
           = (Ok (), c\<lparr>host := h, port := int p, rawQuery := query_of kvs, urlValues := m,
                       vhost := (if v = [] then ''_defaultVhost_'' else v),
                       appName := cut_name (appName c)\<rparr>)
        \<and> (\<forall>k. m k = (if values_of k kvs = [] then None else Some (values_of k kvs)))"
  using tcurl_taken_apart [OF assms] .

theorem tcurl_roundtrip_witness:
  "let c = (Server [] EOF None)\<lparr>tcUrl := tcurl_of ''10.0.0.1'' 1935 ''live'' [(''vhost'', ''a.b''), (''k'', ''1'')],
                               appName := ''live?x''\<rparr>
   in vhost (snd (discoverTcUrl ''10.0.0.1:1935'' c)) = ''a.b''
      \<and> vhost (snd (discoverTcUrl ''10.0.0.2:1935'' c)) = ''10.0.0.1''
      \<and> urlValues (snd (discoverTcUrl ''10.0.0.1:1935'' c)) ''k'' = Some [''1'']
      \<and> appName (snd (discoverTcUrl ''10.0.0.1:1935'' c)) = ''live''"
proof -
  let ?kvs = "[(''vhost'', ''a.b''), (''k'', ''1'')]"
  let ?c = "(Server [] EOF None)\<lparr>tcUrl := tcurl_of ''10.0.0.1'' 1935 ''live'' ?kvs, appName := ''live?x''\<rparr>"
  have p: "plain ''10.0.0.1''" "plain_path ''live''" "plain_kvs ?kvs" by code_simp+
  have port: "(1935 :: nat) < 65536" by simp
  have url: "tcUrl ?c = tcurl_of ''10.0.0.1'' 1935 ''live'' ?kvs" by simp
  have own: "''10.0.0.1'' @ '':'' @ Itoa 1935 = ''10.0.0.1:1935''"
    and other: "''10.0.0.1'' @ '':'' @ Itoa 1935 \<noteq> ''10.0.0.2:1935''" by code_simp+
  have vp: "vhost_param ?kvs (vhost ?c) = ''a.b''" "values_of ''k'' ?kvs = [''1'']" "cut_name (appName ?c) = ''live''"
    by code_simp+
  note r = tcurl_roundtrip [OF p port url, unfolded Let_def]
  from r [of "''10.0.0.1:1935''"] r [of "''10.0.0.2:1935''"] show ?thesis
    unfolding Let_def
    by (elim exE conjE) (simp only: own other vp if_True if_False simp_thms snd_conv list.distinct, simp add: vp)
qed

text \<open>An IPv6 host without a port is refused by \<open>discoverTcUrl\<close> (conn.go): the colons of the
  address are taken for the one before a port, and \<open>net.SplitHostPort\<close> finds none.\<close>

theorem ipv6_without_port_refused:
  "fst (discoverTcUrl laddr (c\<lparr>tcUrl := ''rtmp://[::1]/live''\<rparr>))
     = Err (Wrap (Msg ''address'') ''split host port'')
   \<and> fst (discoverTcUrl laddr (c\<lparr>tcUrl := ''rtmp://[::1]:1935/live''\<rparr>)) = Ok ()"
proof -
  have u: "url_Parse ''rtmp://[::1]/live'' = Some \<lparr> Scheme = ''rtmp'', Host = ''[::1]'', Path = ''/live'', RawQuery = [] \<rparr>"
    and u': "url_Parse ''rtmp://[::1]:1935/live''
               = Some \<lparr> Scheme = ''rtmp'', Host = ''[::1]:1935'', Path = ''/live'', RawQuery = [] \<rparr>"
    and s: "SplitHostPort ''[::1]'' = None" and s': "SplitHostPort ''[::1]:1935'' = Some (''::1'', ''1935'')"
    and q: "ParseQuery [] ''vhost'' = None"
    by code_simp+
  have "fst (discoverTcUrl laddr (c\<lparr>tcUrl := ''rtmp://[::1]/live''\<rparr>))
     = Err (Wrap (Msg ''address'') ''split host port'')"
    by (simp add: discoverTcUrl_def u ToLower_rtmp host_port_def s tcurl_steps)
  moreover have "fst (discoverTcUrl laddr (c\<lparr>tcUrl := ''rtmp://[::1]:1935/live''\<rparr>)) = Ok ()"
    by (simp add: discoverTcUrl_def u' ToLower_rtmp host_port_def s' tcurl_steps parseVhost_def q)
  ultimately show ?thesis by blast
qed

end
