(* ===== verification/Serve.thy ===== *)
theory Serve
  imports Handshake Session TcUrl StreamManager
begin

text \<open>
  The set-up of a connection, the first half of \<open>Conn.Serve\<close> (\<^verbatim>\<open>pkg/rtmp/conn.go\<close>): handshake, command
  phase, the URL and the stream key. What follows it, publishing or playing, is the theory of the stream
  manager, which starts from a connection that this set-up has left in a good state.
\<close>

definition serve_setup :: "(nat \<Rightarrow> u8) \<Rightarrow> 'f amf_lib \<Rightarrow> string \<Rightarrow> (conn, unit) go" where
  "serve_setup rand L laddr =
     go_bind (Handshake rand) (\<lambda>_.
     go_bind (go_modify (\<lambda>c. c\<lparr>basicHdrBuf := 3\<rparr>)) (\<lambda>_.
     go_bind (handleCommandMessage L) (\<lambda>_.
     go_bind (discoverTcUrl laddr) (\<lambda>_.
     go_modify (\<lambda>c. c\<lparr>streamKey := genStreamKey (vhost c) (appName c) (streamName c)\<rparr>)))))"

text \<open>What the handshake leaves alone.\<close>

definition before_commands :: "conn \<Rightarrow> bool" where
  "before_commands c \<longleftrightarrow> localChunksize c \<noteq> 0 \<and> chunks c = Map.empty"

lemma tx_frame_before [simp]: "tx_frame before_commands"
  by (simp add: tx_frame_def before_commands_def)

lemma before_rx [simp]: "before_commands (c\<lparr>rx := r\<rparr>) = before_commands c"
  by (simp add: before_commands_def)

lemma keeps_Conn_Read: "keeps before_commands (Conn_Read n)"
  by (simp add: keeps_def Conn_Read_def)

lemma keeps_option_case:
  "keeps P m \<Longrightarrow> (\<And>a. keeps P (k a)) \<Longrightarrow> keeps P (case x of None \<Rightarrow> m | Some a \<Rightarrow> k a)"
  by (cases x) simp_all

lemma keeps_serverHandshake: "keeps before_commands (serverHandshake rand)"
  unfolding serverHandshake_def Let_def
  by (intro keeps_bind keeps_if keeps_err keeps_return keeps_option_case keeps_Conn_Read
      keeps_Conn_Write keeps_Conn_Flush tx_frame_before)

text \<open>Calls that never panic.\<close>

definition no_panics :: "(conn, 'a) go \<Rightarrow> bool" where
  "no_panics m \<longleftrightarrow> (\<forall>c p. fst (m c) \<noteq> Panic p)"

lemma no_panics_bind: "no_panics m \<Longrightarrow> (\<And>a. no_panics (k a)) \<Longrightarrow> no_panics (go_bind m k)"
  unfolding no_panics_def go_bind_def by (auto split: prod.splits res.splits) (metis fst_conv)+

lemma no_panics_io:
  "no_panics (Conn_Read n)" "no_panics (Conn_Write b)" "no_panics Conn_Flush" "no_panics (go_err e)"
  "no_panics (go_return a)"
  by (auto simp: no_panics_def Conn_Read_def Conn_Write_def Conn_Flush_def WriteTo_def go_err_def
      go_return_def Let_def split: option.splits)

lemma no_panics_if: "no_panics m \<Longrightarrow> no_panics n \<Longrightarrow> no_panics (if b then m else n)"
  by simp

lemma no_panics_option_case:
  "no_panics m \<Longrightarrow> (\<And>a. no_panics (k a)) \<Longrightarrow> no_panics (case x of None \<Rightarrow> m | Some a \<Rightarrow> k a)"
  by (cases x) simp_all

lemma no_panics_serverHandshake: "no_panics (serverHandshake rand)"
  unfolding serverHandshake_def Let_def
  by (intro no_panics_bind no_panics_if no_panics_option_case no_panics_io)

lemma Handshake_ok:
  assumes "before_commands c" and "Handshake rand c = (r, c')"
  shows "before_commands c' \<and> (\<forall>p. r \<noteq> Panic p)"
proof -
  obtain o1 c1 where h: "handshakeFn rand c = (o1, c1)" by fastforce
  have 1: "before_commands c1"
    using keepsD [OF keeps_serverHandshake assms(1)] h assms(1)
    by (auto simp: handshakeFn_def clientHandshake_def go_return_def split: if_splits)
  have 2: "o1 \<noteq> Panic p" for p
    using no_panics_serverHandshake [of rand] h
    by (auto simp: no_panics_def handshakeFn_def clientHandshake_def go_return_def split: if_splits)
       (metis fst_conv)
  have 3: "before_commands (snd (Conn_Flush (c1\<lparr>handshakeErr := e\<rparr>)))" for e
    using keeps_Conn_Flush [OF tx_frame_before] 1 by (simp add: keeps_def before_commands_def)
  have 4: "before_commands (c1\<lparr>handshakeErr := e, HandshakeStatus := n\<rparr>)"
    "before_commands (c1\<lparr>handshakeErr := e', HandshakeStatus := n, handshakeErr := e\<rparr>)" for e e' n
    using 1 by (simp_all add: before_commands_def)
  show ?thesis
    using assms h 1 2 3 4
    by (auto simp: Handshake_def Let_def split: option.splits res.splits if_splits)
qed

section \<open>Any client\<close>

lemma serve_setup_ok:
  assumes "small_replies L" and "serve_setup rand L laddr (Server inp inp_end room) = (r, c')"
  shows "case r of
      Ok _ \<Rightarrow> conn_inv c' \<and> handleCommandMessageDone c' \<and> vhost c' \<noteq> []
        \<and> streamKey c' = genStreamKey (vhost c') (appName c') (streamName c')
    | Err _ \<Rightarrow> True
    | Panic p \<Rightarrow> p \<in> {IndexOutOfRange, SliceOutOfRange, TypeAssertion}"
proof -
  obtain r1 c1 where h: "Handshake rand (Server inp inp_end room) = (r1, c1)" by fastforce
  have "before_commands (Server inp inp_end room)"
    by (simp add: before_commands_def Server_def zero_conn_def)
  note b = Handshake_ok [OF this h]
  let ?c2 = "c1\<lparr>basicHdrBuf := 3\<rparr>"
  have inv: "conn_inv ?c2" using b by (simp add: conn_inv_def before_commands_def)
  obtain r3 c3 where cmd: "handleCommandMessage L ?c2 = (r3, c3)" by fastforce
  note c = command_phase_ok [OF assms(1) inv cmd]
  obtain r4 c4 where d: "discoverTcUrl laddr c3 = (r4, c4)" by fastforce
  note t = discoverTcUrl_cases [OF d]
  have frame: "conn_inv c4 = conn_inv c3 \<and> handleCommandMessageDone c4 = handleCommandMessageDone c3"
    if "tcurl_frame c3 c4"
  proof -
    from that have eq: "c4 = c3\<lparr>host := host c4, port := port c4, vhost := vhost c4, rawQuery := rawQuery c4,
             urlValues := urlValues c4, appName := appName c4\<rparr>" by (simp only: tcurl_frame_def)
    have "conn_inv (c3\<lparr>host := a1, port := a2, vhost := a3, rawQuery := a4, urlValues := a5, appName := a6\<rparr>)
        = conn_inv c3" for a1 a2 a3 a4 a5 a6
      by (simp add: conn_inv_def)
    moreover have "handleCommandMessageDone (c3\<lparr>host := a1, port := a2, vhost := a3, rawQuery := a4,
        urlValues := a5, appName := a6\<rparr>) = handleCommandMessageDone c3" for a1 a2 a3 a4 a5 a6
      by simp
    ultimately show ?thesis by (metis eq)
  qed
  have key: "conn_inv (c4\<lparr>streamKey := k\<rparr>) = conn_inv c4" for k by (simp add: conn_inv_def)
  have run: "serve_setup rand L laddr (Server inp inp_end room)
      = (case r1 of Err e \<Rightarrow> (Err e, c1) | Panic p \<Rightarrow> (Panic p, c1) | Ok _ \<Rightarrow>
         (case r3 of Err e \<Rightarrow> (Err e, c3) | Panic p \<Rightarrow> (Panic p, c3) | Ok _ \<Rightarrow>
         (case r4 of Err e \<Rightarrow> (Err e, c4) | Panic p \<Rightarrow> (Panic p, c4) | Ok _ \<Rightarrow>
           (Ok (), c4\<lparr>streamKey := genStreamKey (vhost c4) (appName c4) (streamName c4)\<rparr>))))"
    by (simp add: serve_setup_def go_bind_def go_modify_def h cmd d split: res.splits)
  show ?thesis
    using assms(2) b c t frame key unfolding run
    by (cases r1; cases r3; cases r4) auto
qed


section \<open>A well-behaved client\<close>

text \<open>C3: The set-up for a client that behaves, from its first byte to its role. After the simple
  handshake it sends \<open>connect\<close> with the URL \<open>rtmp://host:port/path?query\<close>, \<open>createStream\<close> and \<open>publish\<close>
  or \<open>play\<close>. The set-up succeeds, the connection is a publisher exactly after \<open>publish\<close>, its stream key
  is \<open>host/app/name\<close>, its host and port are those of the URL, and the bytes that follow are left for the
  stream (\<open>Conn.Serve\<close>, conn.go).\<close>

theorem serve_session:
  assumes "encodes_replies L"
    and "length time = 4" and "length noise = 1528" and "length c2 = 1536"
    and "inp = [3] @ time @ [0, 0, 0, 0] @ noise @ c2 @ concat (map (message_wire 128) [m1, m2, m3]) @ rest"
    and "commands L m1 ''connect'' [AmfNumber x, AmfObject obj]" and "float_int L x = 1"
    and "connect_object obj app (tcurl_of h p path kvs)" and "app \<noteq> []" and "CHR ''?'' \<notin> set app"
    and "commands L m2 ''createStream'' args"
    and "commands L m3 cmd (AmfNumber y # AmfNil # AmfString name # kind)"
    and "kind = [] \<or> (\<exists>k. kind = [AmfString k])" and "cmd = ''publish'' \<or> cmd = ''play''"
    and "plain h" and "h \<noteq> []" and "plain_path path" and "plain_kvs kvs" and "p < 65536"
    and "h @ '':'' @ Itoa p \<noteq> laddr"
  shows "\<exists>d. serve_setup rand L laddr (Server inp inp_end None) = (Ok (), d)
    \<and> isPublisher d = (cmd = ''publish'') \<and> streamKey d = genStreamKey h app name
    \<and> host d = h \<and> port d = int p \<and> rx d = rest \<and> ready d"
proof -
  let ?c = "Server inp inp_end None" and ?msgs = "concat (map (message_wire 128) [m1, m2, m3]) @ rest"
  let ?t = "[3] @ replicate 1536 0 @ time @ [0, 0, 0, 0] @ noise"
  have open0: "tx_open ?c" and rx: "rx ?c = [3] @ time @ [0, 0, 0, 0] @ noise @ c2 @ ?msgs"
    and sel: "isClient ?c = False" "handshakeErr ?c = None" "HandshakeStatus ?c = 0" "tx ?c = []"
    by (simp_all add: Server_def zero_conn_def tx_open_def assms(5))
  note sh = simple_handshake [OF open0 rx assms(2-4), of rand]
  let ?c1 = "(?c\<lparr>rx := ?msgs, tx := tx ?c @ ?t\<rparr>)\<lparr>handshakeErr := None, HandshakeStatus := 1\<rparr>"
  have hs: "Handshake rand ?c = (Ok (), ?c1)"
    using sh sel by (simp add: Handshake_def handshakeComplete_def handshakeFn_def Let_def)
  let ?c2 = "?c1\<lparr>basicHdrBuf := 3\<rparr>"
  have c2: "ready ?c2" "\<not> handleCommandMessageDone ?c2" "remoteChunkSize ?c2 = 128"
    by (simp_all add: Server_def zero_conn_def ready_def reader_ready_def writable_def tx_open_def)
  have rx2: "rx ?c2 = concat (map (message_wire (unat (remoteChunkSize ?c2))) [m1, m2, m3]) @ rest"
    unfolding c2(3) by simp
  obtain d where d: "handleCommandMessage L ?c2 = (Ok (), d)" "appName d = app"
    "tcUrl d = tcurl_of h p path kvs" "streamName d = name" "isPublisher d = (cmd = ''publish'')" "rx d = rest"
    "ready d"
    using client_session [OF assms(1) c2(1,2) assms(6-9,11-14) rx2] by blast
  have app: "cut_name app = app" using assms(10) by (simp add: cut_name_def flip: IndexByte_None)
  obtain m where u: "discoverTcUrl laddr d = (Ok (), d\<lparr>host := h, port := int p, rawQuery := query_of kvs,
      urlValues := m, vhost := h, appName := app\<rparr>)"
    using tcurl_taken_apart [OF assms(15,17,18,19) d(3), of laddr] assms(16,20) d(2) app
    by (auto simp: Let_def)
  let ?d = "d\<lparr>host := h, port := int p, rawQuery := query_of kvs, urlValues := m, vhost := h, appName := app,
      streamKey := genStreamKey h app name\<rparr>"
  have 1: "go_bind (Handshake rand) k ?c = k () ?c1" for k by (simp only: go_bind_def hs prod.case res.case)
  have 2: "go_bind (handleCommandMessage L) k ?c2 = k () d" for k
    by (simp only: go_bind_def d(1) prod.case res.case)
  have 3: "go_bind (discoverTcUrl laddr) k d = k () (d\<lparr>host := h, port := int p, rawQuery := query_of kvs,
      urlValues := m, vhost := h, appName := app\<rparr>)" for k
    by (simp only: go_bind_def u prod.case res.case)
  have mod: "go_bind (go_modify f) k c = k () (f c)" for f k c by (simp add: go_bind_def go_modify_def)
  have "serve_setup rand L laddr ?c = (Ok (), ?d)"
    unfolding serve_setup_def 1 mod 2 3 by (simp add: go_modify_def d(4))
  moreover have "ready ?d" using d(7) by (simp add: ready_def reader_ready_def writable_def tx_open_def)
  ultimately show ?thesis using d(5,6) by (intro exI [of _ ?d]) simp
qed

section \<open>Examples\<close>


text \<open>A client that publishes \<open>cam\<close> in the application \<open>live\<close> of \<open>rtmp://h:1935/live?\<close>.\<close>

definition demo_url :: string where
  "demo_url = tcurl_of ''h'' 1935 ''live'' []"

definition demo_publisher_amf :: "int amf_lib" where
  "demo_publisher_amf = demo_amf\<lparr>DecodeBatch := (\<lambda>b.
     if b = [1] then ([AmfString ''connect'', AmfNumber 1,
       AmfObject [(''app'', AmfString ''live''), (''tcUrl'', AmfString demo_url)]], Some EOF)
     else DecodeBatch demo_amf b)\<rparr>"

theorem serve_session_witness:
  "\<exists>d. serve_setup (\<lambda>_. 0) demo_publisher_amf ''10.0.0.1:1935''
         (Server ([3] @ replicate 4 0 @ [0, 0, 0, 0] @ replicate 1528 0 @ replicate 1536 0
            @ concat (map (message_wire 128) [demo_command 1, demo_command 2, demo_command 3]) @ [0xff]) EOF None)
       = (Ok (), d)
     \<and> isPublisher d \<and> streamKey d = ''h/live/cam'' \<and> rx d = [0xff]"
proof -
  let ?L = "demo_publisher_amf"
  have enc: "encodeAll ?L = encodeAll demo_amf"
  proof
    fix vs show "encodeAll ?L vs = encodeAll demo_amf vs"
      by (induction vs) (simp_all add: demo_publisher_amf_def demo_amf_def)
  qed
  have L: "encodes_replies ?L" using demo_amf_encodes by (simp add: encodes_replies_def enc)
  have m: "commands ?L (demo_command 1) ''connect'' [AmfNumber 1,
       AmfObject [(''app'', AmfString ''live''), (''tcUrl'', AmfString demo_url)]]"
    "commands ?L (demo_command 2) ''createStream'' [AmfNumber 2, AmfNil]"
    "commands ?L (demo_command 3) ''publish'' (AmfNumber 3 # AmfNil # AmfString ''cam'' # [AmfString ''live''])"
    using demo_commands
    by (simp_all add: commands_def demo_publisher_amf_def demo_command_def commandMessage_def chunk_make_defs)
  have obj: "connect_object [(''app'', AmfString ''live''), (''tcUrl'', AmfString demo_url)] ''live''
      (tcurl_of ''h'' 1935 ''live'' [])"
    by (simp add: connect_object_def demo_url_def)
  have url: "plain ''h''" "plain_path ''live''" "plain_kvs []" "''h'' @ '':'' @ Itoa 1935 \<noteq> ''10.0.0.1:1935''"
    by code_simp+
  have one: "float_int ?L 1 = 1" by (simp add: demo_publisher_amf_def demo_amf_def)
  have key: "genStreamKey ''h'' ''live'' ''cam'' = ''h/live/cam''" by (simp add: genStreamKey_def)
  let ?inp = "[3] @ replicate 4 0 @ [0, 0, 0, 0] @ replicate 1528 0 @ replicate 1536 0
            @ concat (map (message_wire 128) [demo_command 1, demo_command 2, demo_command 3]) @ [0xff]"
  have "\<exists>d. serve_setup (\<lambda>_. 0) ?L ''10.0.0.1:1935'' (Server ?inp EOF None) = (Ok (), d)
      \<and> isPublisher d = (''publish'' = ''publish'') \<and> streamKey d = genStreamKey ''h'' ''live'' ''cam''
      \<and> host d = ''h'' \<and> port d = int 1935 \<and> rx d = [0xff] \<and> ready d"
    by (rule serve_session [OF L _ _ _ refl m(1) one obj _ _ m(2) m(3) _ _ url(1) _ url(2,3) _ url(4)]) simp_all
  then show ?thesis unfolding key by blast
qed

end
