(* ===== verification/Listener.thy ===== *)
theory Listener
  imports StreamProps Serve
begin

text \<open>
  The listener of \<^verbatim>\<open>pkg/rtmp/rtmp.go\<close> and the goroutines it starts. What the inner \<^verbatim>\<open>net.Listener\<close> will
  return is a sequence: a socket, or an error of \<open>accept\<close>. A socket is its two byte streams with the addresses
  of its ends. The managers of stream sources that were made so far are numbered; a listener and its
  connections hold the number of theirs.
\<close>

section \<open>Listening\<close>

record socket =
  sk_in :: "u8 list"
  sk_end :: go_error
  sk_room :: "nat option"
  sk_remote :: string
  sk_local :: string

datatype accepted = Socket socket | AcceptError go_error

record listener =
  l_incoming :: "accepted list"
  l_ssMgr :: nat

text \<open>A connection that \<open>Accept\<close> has made, before it is served.\<close>

record serving =
  sv_conn :: conn
  sv_remote :: string
  sv_local :: string
  sv_ssMgr :: nat

definition NewListener :: "accepted list \<Rightarrow> (nat, listener) go" where
  "NewListener inner mgrs = (Ok \<lparr> l_incoming = inner, l_ssMgr = mgrs \<rparr>, Suc mgrs)"

text \<open>\<open>net.Listen\<close> is the operating system's.\<close>

definition Listen :: "(string \<Rightarrow> string \<Rightarrow> accepted list res) \<Rightarrow> string \<Rightarrow> string \<Rightarrow> (nat, listener) go" where
  "Listen os network laddr mgrs =
     (case os network laddr of
        Ok l \<Rightarrow> NewListener l mgrs
      | Err e \<Rightarrow> (Err e, mgrs)
      | Panic p \<Rightarrow> (Panic p, mgrs))"

text \<open>\<open>None\<close> while no connection comes in.\<close>

definition Accept :: "listener \<Rightarrow> (serving res \<times> listener) option" where
  "Accept l =
     (case l_incoming l of
        [] \<Rightarrow> None
      | AcceptError e # rest \<Rightarrow> Some (Err e, l\<lparr>l_incoming := rest\<rparr>)
      | Socket s # rest \<Rightarrow>
          Some (Ok \<lparr> sv_conn = Server (sk_in s) (sk_end s) (sk_room s), sv_remote = sk_remote s,
                     sv_local = sk_local s, sv_ssMgr = l_ssMgr l \<rparr>, l\<lparr>l_incoming := rest\<rparr>))"

lemma Accept_shorter:
  "Accept l = Some (r, l') \<Longrightarrow> length (l_incoming l') < length (l_incoming l)"
  by (auto simp: Accept_def split: list.splits accepted.splits)

text \<open>
  The loop of \<open>ListenAndServe\<close>, up to where it waits for a connection: the connections for which it has
  started a goroutine, and the errors it has logged.
\<close>

function accept_loop :: "listener \<Rightarrow> serving list \<times> go_error list" where
  "accept_loop l =
     (case Accept l of
        None \<Rightarrow> ([], [])
      | Some (Ok c, l') \<Rightarrow> (case accept_loop l' of (cs, es) \<Rightarrow> (c # cs, es))
      | Some (Err e, l') \<Rightarrow> (case accept_loop l' of (cs, es) \<Rightarrow> (cs, e # es))
      | Some (Panic p, l') \<Rightarrow> ([], []))"
  by pat_completeness auto
termination
  by (relation "measure (\<lambda>l. length (l_incoming l))") (auto dest: Accept_shorter)

declare accept_loop.simps [simp del]

definition ListenAndServe :: "(string \<Rightarrow> string \<Rightarrow> accepted list res) \<Rightarrow> string \<Rightarrow> string
    \<Rightarrow> (nat, serving list \<times> go_error list) go" where
  "ListenAndServe os network laddr =
     go_bind (Listen os network laddr) (\<lambda>l. go_return (accept_loop l))"

section \<open>What is served\<close>

fun sockets :: "accepted list \<Rightarrow> socket list" where
  "sockets [] = []"
| "sockets (Socket s # as) = s # sockets as"
| "sockets (AcceptError e # as) = sockets as"

fun accept_errors :: "accepted list \<Rightarrow> go_error list" where
  "accept_errors [] = []"
| "accept_errors (Socket s # as) = accept_errors as"
| "accept_errors (AcceptError e # as) = e # accept_errors as"

lemma accept_loop_eq:
  "accept_loop l =
     (map (\<lambda>s. \<lparr> sv_conn = Server (sk_in s) (sk_end s) (sk_room s), sv_remote = sk_remote s,
                 sv_local = sk_local s, sv_ssMgr = l_ssMgr l \<rparr>) (sockets (l_incoming l)),
      accept_errors (l_incoming l))"
proof (induction "l_incoming l" arbitrary: l rule: accept_errors.induct)
  case 1
  then show ?case by (subst accept_loop.simps) (simp add: Accept_def flip: 1)
next
  case (2 s as)
  from 2(1) [of "l\<lparr>l_incoming := as\<rparr>"] show ?case
    by (subst accept_loop.simps) (simp add: Accept_def flip: 2(2))
next
  case (3 e as)
  from 3(1) [of "l\<lparr>l_incoming := as\<rparr>"] show ?case
    by (subst accept_loop.simps) (simp add: Accept_def flip: 3(2))
qed

text \<open>\<open>ListenAndServe\<close> returns only when the address cannot be listened on. Otherwise it serves every
  socket, in the order of their arrival and whatever errors \<open>accept\<close> reports in between; all connections
  share one manager, which no other listener has.\<close>

theorem listen_serves_every_socket:
  "case ListenAndServe os network laddr mgrs of
     (Ok (cs, es), mgrs') \<Rightarrow>
       (\<exists>inc. os network laddr = Ok inc \<and> mgrs' = Suc mgrs \<and> es = accept_errors inc
         \<and> map sv_conn cs = map (\<lambda>s. Server (sk_in s) (sk_end s) (sk_room s)) (sockets inc)
         \<and> map sv_remote cs = map sk_remote (sockets inc)
         \<and> list_all (\<lambda>c. sv_ssMgr c = mgrs) cs)
   | (Err e, mgrs') \<Rightarrow> os network laddr = Err e \<and> mgrs' = mgrs
   | (Panic p, mgrs') \<Rightarrow> os network laddr = Panic p"
  by (cases "os network laddr")
    (auto simp: ListenAndServe_def Listen_def NewListener_def go_bind_def go_return_def accept_loop_eq
      list_all_iff)

section \<open>The whole server\<close>

text \<open>
  The process: the listener, the goroutines that are still in their set-up, and the world of the stream
  manager, which a connection enters when its set-up has succeeded. The addresses of the peers of two
  sockets that are open at the same time differ.
\<close>

record server =
  sr_listener :: listener
  sr_setup :: "serving list"
  sr_world :: world

definition start_server :: "accepted list \<Rightarrow> server" where
  "start_server inc =
     \<lparr> sr_listener = \<lparr> l_incoming = inc, l_ssMgr = 0 \<rparr>, sr_setup = [], sr_world = start_world \<rparr>"

definition fresh_socket :: "string \<Rightarrow> server \<Rightarrow> bool" where
  "fresh_socket a p \<longleftrightarrow> fresh_addr a (sr_world p) \<and> a \<notin> set (map sv_remote (sr_setup p))"

text \<open>The end of the set-up of connection \<open>g\<close>, which the server knows no longer as one in its set-up.\<close>

definition end_setup :: "serving \<Rightarrow> unit res \<times> conn \<Rightarrow> server \<Rightarrow> server" where
  "end_setup g rc p =
     (case rc of
        (Ok _, c) \<Rightarrow> p\<lparr>sr_world := arrive c (sv_remote g) (sr_world p)\<rparr>
      | (Err e, c) \<Rightarrow> p
      | (Panic q, c) \<Rightarrow> p\<lparr>sr_world := (sr_world p)\<lparr>crashed := True\<rparr>\<rparr>)"

definition drop_nth :: "nat \<Rightarrow> 'a list \<Rightarrow> 'a list" where
  "drop_nth i xs = take i xs @ drop (Suc i) xs"

inductive server_step :: "(u8 list \<Rightarrow> u8 list res) \<Rightarrow> int amf_lib \<Rightarrow> server \<Rightarrow> server \<Rightarrow> bool"
  for reform L where
  accept_socket:
    "\<not> crashed (sr_world p) \<Longrightarrow> Accept (sr_listener p) = Some (Ok g, l) \<Longrightarrow> fresh_socket (sv_remote g) p
     \<Longrightarrow> server_step reform L p (p\<lparr>sr_listener := l, sr_setup := sr_setup p @ [g]\<rparr>)"
| accept_error:
    "\<not> crashed (sr_world p) \<Longrightarrow> Accept (sr_listener p) = Some (Err e, l)
     \<Longrightarrow> server_step reform L p (p\<lparr>sr_listener := l\<rparr>)"
| set_up:
    "\<not> crashed (sr_world p) \<Longrightarrow> i < length (sr_setup p) \<Longrightarrow> g = sr_setup p ! i
     \<Longrightarrow> serve_setup rand L (sv_local g) (sv_conn g) = rc
     \<Longrightarrow> server_step reform L p (end_setup g rc (p\<lparr>sr_setup := drop_nth i (sr_setup p)\<rparr>))"
| serve:
    "\<not> crashed (sr_world p) \<Longrightarrow> i < length (clients (sr_world p)) \<Longrightarrow> serve_step reform i (sr_world p) = Some w
     \<Longrightarrow> server_step reform L p (p\<lparr>sr_world := w\<rparr>)"
| timer:
    "\<not> crashed (sr_world p) \<Longrightarrow> j < length (timers (sr_world p)) \<Longrightarrow> timer_step j (sr_world p) = Some w
     \<Longrightarrow> server_step reform L p (p\<lparr>sr_world := w\<rparr>)"

inductive server_reachable :: "(u8 list \<Rightarrow> u8 list res) \<Rightarrow> int amf_lib \<Rightarrow> accepted list \<Rightarrow> server \<Rightarrow> bool"
  for reform L inc where
  server_start: "server_reachable reform L inc (start_server inc)"
| server_next: "server_reachable reform L inc p \<Longrightarrow> server_step reform L p p'
    \<Longrightarrow> server_reachable reform L inc p'"

text \<open>No step of the stream manager changes an address or revives a connection.\<close>

definition keeps_addrs :: "world \<Rightarrow> world \<Rightarrow> bool" where
  "keeps_addrs w w' \<longleftrightarrow> length (clients w') = length (clients w)
     \<and> (\<forall>j < length (clients w). cl_addr (clients w' ! j) = cl_addr (clients w ! j)
          \<and> (cl_phase (clients w ! j) = Gone \<longrightarrow> cl_phase (clients w' ! j) = Gone))"

lemma fresh_addr_keeps: "keeps_addrs w w' \<Longrightarrow> fresh_addr a w \<Longrightarrow> fresh_addr a w'"
  by (fastforce simp: keeps_addrs_def fresh_addr_def list_all_length)

lemma keeps_addrs_timer: "timer_step j w = Some w' \<Longrightarrow> keeps_addrs w w'"
  by (auto simp: timer_step_def keeps_addrs_def Let_def split: prod.splits timer_phase.splits if_splits)

lemma keeps_addrs_serve:
  "i < length (clients w) \<Longrightarrow> serve_step reform i w = Some w' \<Longrightarrow> keeps_addrs w w'"
  by (cases "cl_phase (clients w ! i)")
    (auto simp: serve_step_def keeps_addrs_def Let_def doPublishing_def delPublisher_def subscribe_def
      unsubscribe_def publish_message_def play_message_def split: prod.splits option.splits if_splits
        publish_step.splits res.splits)

text \<open>What holds of the goroutines in their set-up, and of the world beside them.\<close>

definition setup_ok :: "server \<Rightarrow> bool" where
  "setup_ok p \<longleftrightarrow> distinct (map sv_remote (sr_setup p))
     \<and> (\<forall>g \<in> set (sr_setup p). fresh_addr (sv_remote g) (sr_world p)
          \<and> (\<exists>inp e room. sv_conn g = Server inp e room) \<and> sv_ssMgr g = l_ssMgr (sr_listener p))"

definition manager_world :: "(u8 list \<Rightarrow> u8 list res) \<Rightarrow> world \<Rightarrow> bool" where
  "manager_world reform w \<longleftrightarrow> (\<exists>w'. reachable reform w' \<and> (w = w' \<or> w = w'\<lparr>crashed := True\<rparr>))"

lemma manager_world_live: "manager_world reform w \<Longrightarrow> \<not> crashed w \<Longrightarrow> reachable reform w"
  by (auto simp: manager_world_def)

lemma manager_worldI: "reachable reform w \<Longrightarrow> manager_world reform w"
  by (auto simp: manager_world_def)

lemma drop_nth_set: "set (drop_nth i xs) \<subseteq> set xs"
  by (auto simp: drop_nth_def dest: in_set_takeD in_set_dropD)

lemma drop_nth_distinct:
  assumes "distinct xs" and "i < length xs"
  shows "distinct (drop_nth i xs) \<and> xs ! i \<notin> set (drop_nth i xs)"
proof -
  have "distinct (take i xs @ xs ! i # drop (Suc i) xs)" using assms by (simp flip: id_take_nth_drop)
  then show ?thesis by (auto simp: drop_nth_def)
qed

lemma drop_nth_map: "map f (drop_nth i xs) = drop_nth i (map f xs)"
  by (simp add: drop_nth_def take_map drop_map)

lemma setup_ok_world:
  "setup_ok p \<Longrightarrow> keeps_addrs (sr_world p) w \<Longrightarrow> setup_ok (p\<lparr>sr_world := w\<rparr>)"
  by (auto simp: setup_ok_def intro: fresh_addr_keeps)

lemma Accept_Server:
  "Accept l = Some (Ok g, l') \<Longrightarrow> (\<exists>inp e room. sv_conn g = Server inp e room) \<and> sv_ssMgr g = l_ssMgr l
     \<and> l_ssMgr l' = l_ssMgr l"
  by (cases "l_incoming l"; cases "hd (l_incoming l)") (auto simp: Accept_def, blast)

lemma Accept_error: "Accept l = Some (Err e, l') \<Longrightarrow> l_ssMgr l' = l_ssMgr l"
  by (auto simp: Accept_def split: list.splits accepted.splits)

text \<open>A connection leaves its set-up.\<close>

lemma setup_ok_end:
  assumes "setup_ok p" and i: "i < length (sr_setup p)"
  shows "setup_ok (end_setup (sr_setup p ! i) rc (p\<lparr>sr_setup := drop_nth i (sr_setup p)\<rparr>))"
proof -
  let ?g = "sr_setup p ! i" and ?rest = "drop_nth i (sr_setup p)"
  note ok = assms(1) [unfolded setup_ok_def]
  have rest: "distinct (map sv_remote ?rest)" "sv_remote ?g \<notin> set (map sv_remote ?rest)"
    using drop_nth_distinct [of "map sv_remote (sr_setup p)" i] ok i by (simp_all add: drop_nth_map)
  have old: "g \<in> set (sr_setup p)" if "g \<in> set ?rest" for g using that drop_nth_set [of i "sr_setup p"] by blast
  have new: "fresh_addr (sv_remote g) (arrive c (sv_remote ?g) (sr_world p))" if "g \<in> set ?rest" for g c
  proof -
    have "sv_remote g \<noteq> sv_remote ?g" using rest(2) that by (metis image_eqI set_map)
    then show ?thesis using ok old [OF that] by (auto simp: fresh_addr_def arrive_def)
  qed
  have crash: "fresh_addr a (w\<lparr>crashed := True\<rparr>) = fresh_addr a w" for a w by (simp add: fresh_addr_def)
  obtain r c where rc: "rc = (r, c)" by fastforce
  show ?thesis
    using ok rest(1) old new by (cases r) (auto simp: setup_ok_def end_setup_def rc crash)
qed

lemma manager_world_end:
  assumes L: "small_replies L" and "reachable reform (sr_world p)" and "\<not> crashed (sr_world p)"
    and ok: "setup_ok p" and i: "i < length (sr_setup p)"
    and run: "serve_setup rand L laddr (sv_conn (sr_setup p ! i)) = rc"
  shows "manager_world reform (sr_world (end_setup (sr_setup p ! i) rc (p\<lparr>sr_setup := ss\<rparr>)))"
proof -
  let ?g = "sr_setup p ! i"
  have g: "fresh_addr (sv_remote ?g) (sr_world p)" "\<exists>inp e room. sv_conn ?g = Server inp e room"
    using ok nth_mem [OF i] unfolding setup_ok_def by blast+
  obtain r c where rc: "rc = (r, c)" by fastforce
  show ?thesis
  proof (cases r)
    case (Ok u)
    obtain inp e room where "sv_conn ?g = Server inp e room" using g(2) by blast
    then have "conn_inv c" using serve_setup_ok [OF L] run unfolding rc Ok by fastforce
    then have "reachable reform (arrive c (sv_remote ?g) (sr_world p))"
      using assms(2,3) g(1) by (blast intro: reach_step step_arrive)
    then show ?thesis by (simp add: end_setup_def rc Ok manager_worldI)
  next
    case (Err e)
    then show ?thesis using assms(2) by (simp add: end_setup_def rc manager_worldI)
  next
    case (Panic q)
    then show ?thesis using assms(2) by (auto simp: end_setup_def rc manager_world_def)
  qed
qed

lemma server_step_ok:
  assumes L: "small_replies L" and step: "server_step reform L p p'"
    and ok: "setup_ok p" and w: "manager_world reform (sr_world p)"
  shows "setup_ok p' \<and> manager_world reform (sr_world p')"
  using step
proof (cases rule: server_step.cases)
  case (accept_socket g l)
  with ok w Accept_Server [OF accept_socket(3)] show ?thesis
    by (auto simp: setup_ok_def fresh_socket_def)
next
  case (accept_error e l)
  with ok w Accept_error [OF accept_error(3)] show ?thesis by (auto simp: setup_ok_def)
next
  case (set_up i g rand rc)
  note run = manager_world_end [OF L manager_world_live [OF w set_up(2)] set_up(2) ok set_up(3)
      set_up(5) [unfolded set_up(4)], of "drop_nth i (sr_setup p)"]
  show ?thesis unfolding set_up(1,4) using run setup_ok_end [OF ok set_up(3)] by blast
next
  case (serve i w')
  have "reachable reform w'"
    using manager_world_live [OF w serve(2)] serve(2-4) by (blast intro: reach_step step_serve)
  with serve(1) setup_ok_world [OF ok keeps_addrs_serve [OF serve(3,4)]] manager_worldI show ?thesis by simp
next
  case (timer j w')
  have "reachable reform w'"
    using manager_world_live [OF w timer(2)] timer(2-4) by (blast intro: reach_step step_timer)
  with timer(1) setup_ok_world [OF ok keeps_addrs_timer [OF timer(4)]] manager_worldI show ?thesis by simp
qed

lemma server_reachable_ok:
  assumes "small_replies L" and "server_reachable reform L inc p"
  shows "setup_ok p \<and> manager_world reform (sr_world p)"
  using assms(2)
proof induction
  case server_start
  then show ?case by (auto simp: setup_ok_def start_server_def intro: manager_worldI reach_start)
next
  case (server_next p p')
  then show ?case using server_step_ok [OF assms(1)] by blast
qed

lemma manager_world_ok: "manager_world reform w \<Longrightarrow> world_ok w \<and> players_ok w"
proof -
  have "world_ok (w\<lparr>crashed := b\<rparr>) = world_ok w" for w b by (simp add: world_ok_def)
  moreover have "players_ok (w\<lparr>crashed := b\<rparr>) = players_ok w" for w b
    by (simp add: players_ok_def registered_def)
  ultimately show "manager_world reform w \<Longrightarrow> world_ok w \<and> players_ok w"
    using world_ok_reachable players_ok_reachable unfolding manager_world_def by metis
qed

text \<open>C5: The whole server refines the stream manager: whatever comes in at the listener, in whatever order the
  goroutines run, the world of sources, players and timers is one that the stream manager reaches by itself,
  except that a panic in the set-up of a connection can end the process. The invariants of the
  manager therefore hold of the server, the peers of the connections in their set-up differ from each other
  and from all that are served, and these connections share the manager of the listener.\<close>

theorem server_refines_manager:
  assumes "small_replies L" and "server_reachable reform L inc p"
  shows "(\<exists>w. reachable reform w \<and> (sr_world p = w \<or> sr_world p = w\<lparr>crashed := True\<rparr>))
    \<and> world_ok (sr_world p) \<and> players_ok (sr_world p)
    \<and> distinct (map sv_remote (sr_setup p))
    \<and> list_all (\<lambda>g. fresh_addr (sv_remote g) (sr_world p) \<and> sv_ssMgr g = l_ssMgr (sr_listener p)) (sr_setup p)"
  using server_reachable_ok [OF assms] manager_world_ok
  by (auto simp: setup_ok_def manager_world_def list_all_iff)

text \<open>A client is accepted and its connection is in its set-up.\<close>

theorem server_refines_manager_witness:
  "world_ok (sr_world (start_server [])) \<and>
   (\<exists>p. server_reachable Ok demo_amf
          [Socket \<lparr> sk_in = [], sk_end = EOF, sk_room = None, sk_remote = ''q'', sk_local = ''p'' \<rparr>] p
      \<and> map sv_remote (sr_setup p) = [''q''] \<and> players_ok (sr_world p))"
proof -
  let ?s = "\<lparr> sk_in = [], sk_end = EOF, sk_room = None, sk_remote = ''q'', sk_local = ''p'' \<rparr>"
  let ?p = "start_server [Socket ?s]"
  let ?g = "\<lparr> sv_conn = Server [] EOF None, sv_remote = ''q'', sv_local = ''p'', sv_ssMgr = 0 \<rparr>"
  let ?l = "\<lparr> l_incoming = [], l_ssMgr = 0 \<rparr>"
  have a: "Accept (sr_listener ?p) = Some (Ok ?g, ?l)" by (simp add: Accept_def start_server_def)
  have "server_step Ok demo_amf ?p (?p\<lparr>sr_listener := ?l, sr_setup := sr_setup ?p @ [?g]\<rparr>)"
    using a by (intro accept_socket) (simp_all add: start_server_def start_world_def fresh_socket_def fresh_addr_def)
  then have r: "server_reachable Ok demo_amf [Socket ?s] (?p\<lparr>sr_listener := ?l, sr_setup := sr_setup ?p @ [?g]\<rparr>)"
    by (rule server_next [OF server_start])
  have small: "small_replies demo_amf" by (rule encodes_small [OF demo_amf_encodes])
  have "players_ok (sr_world (?p\<lparr>sr_listener := ?l, sr_setup := sr_setup ?p @ [?g]\<rparr>))"
    using server_refines_manager [OF small r] by blast
  moreover have "world_ok (sr_world (start_server []))"
    using server_refines_manager [OF small server_start] by blast
  moreover have "map sv_remote (sr_setup (?p\<lparr>sr_listener := ?l, sr_setup := sr_setup ?p @ [?g]\<rparr>)) = [''q'']"
    by (simp add: start_server_def)
  ultimately show ?thesis using r by (intro conjI exI)
qed

end
