(* ===== verification/Utf8.thy ===== *)
theory Utf8
  imports GoStrings
begin

text \<open>
  What the program uses of \<^verbatim>\<open>unicode/utf8\<close>, of \<open>range\<close> over a string, and of \<open>strings.ToUpper\<close>. A rune is a number;
  the bytes of a string are characters.
\<close>

section \<open>Decoding and encoding\<close>

abbreviation byte :: "char \<Rightarrow> nat" where
  "byte c \<equiv> of_char c"

definition RuneError :: nat where
  "RuneError = 0xFFFD"

definition cont :: "char \<Rightarrow> bool" where
  "cont c \<longleftrightarrow> 0x80 \<le> byte c \<and> byte c \<le> 0xBF"

text \<open>The second bytes that may follow the first byte \<open>n\<close>.\<close>

definition accepts :: "nat \<Rightarrow> char \<Rightarrow> bool" where
  "accepts n c \<longleftrightarrow>
     (if n = 0xE0 then 0xA0 else if n = 0xF0 then 0x90 else 0x80) \<le> byte c
     \<and> byte c \<le> (if n = 0xED then 0x9F else if n = 0xF4 then 0x8F else 0xBF)"

text \<open>\<open>utf8.DecodeRuneInString\<close>: the first rune and its width.\<close>

fun DecodeRune :: "string \<Rightarrow> nat \<times> nat" where
  "DecodeRune [] = (RuneError, 0)"
| "DecodeRune (b # s) =
     (let n = byte b in
      if n < 0x80 then (n, 1)
      else if 0xC2 \<le> n \<and> n \<le> 0xDF then
        (case s of
           c1 # _ \<Rightarrow> if accepts n c1 then (n mod 32 * 64 + byte c1 mod 64, 2) else (RuneError, 1)
         | _ \<Rightarrow> (RuneError, 1))
      else if 0xE0 \<le> n \<and> n \<le> 0xEF then
        (case s of
           c1 # c2 # _ \<Rightarrow>
             if accepts n c1 \<and> cont c2
             then (n mod 16 * 4096 + byte c1 mod 64 * 64 + byte c2 mod 64, 3) else (RuneError, 1)
         | _ \<Rightarrow> (RuneError, 1))
      else if 0xF0 \<le> n \<and> n \<le> 0xF4 then
        (case s of
           c1 # c2 # c3 # _ \<Rightarrow>
             if accepts n c1 \<and> cont c2 \<and> cont c3
             then (n mod 8 * 262144 + byte c1 mod 64 * 4096 + byte c2 mod 64 * 64 + byte c3 mod 64, 4)
             else (RuneError, 1)
         | _ \<Rightarrow> (RuneError, 1))
      else (RuneError, 1))"

declare DecodeRune.simps(2) [simp del]

definition ValidRune :: "nat \<Rightarrow> bool" where
  "ValidRune r \<longleftrightarrow> r < 0xD800 \<or> (0xE000 \<le> r \<and> r \<le> 0x10FFFF)"

text \<open>\<open>utf8.EncodeRune\<close>: what is no rune is written as \<open>RuneError\<close>.\<close>

definition EncodeRune :: "nat \<Rightarrow> string" where
  "EncodeRune r0 =
     (let r = (if ValidRune r0 then r0 else RuneError) in
      map char_of
        (if r < 0x80 then [r]
         else if r < 0x800 then [0xC0 + r div 64, 0x80 + r mod 64]
         else if r < 0x10000 then [0xE0 + r div 4096, 0x80 + r div 64 mod 64, 0x80 + r mod 64]
         else [0xF0 + r div 262144, 0x80 + r div 4096 mod 64, 0x80 + r div 64 mod 64, 0x80 + r mod 64]))"

lemma byte_char [simp]: "n < 256 \<Longrightarrow> byte (char_of n) = n"
  by simp

lemma DecodeRune_width: "s \<noteq> [] \<Longrightarrow> 0 < snd (DecodeRune s)"
  by (cases s) (auto simp: DecodeRune.simps(2) Let_def split: list.splits)

lemma DecodeRune_ascii: "byte b < 0x80 \<Longrightarrow> DecodeRune (b # s) = (byte b, 1)"
  by (simp add: DecodeRune.simps(2))

lemma EncodeRune_ascii: "r < 0x80 \<Longrightarrow> EncodeRune r = [char_of r]"
  by (simp add: EncodeRune_def ValidRune_def)

text \<open>The digits of a rune in base 64.\<close>

lemma base64:
  "(r :: nat) div 4096 * 4096 + r div 64 mod 64 * 64 + r mod 64 = r"
  "r div 262144 * 262144 + r div 4096 mod 64 * 4096 + r div 64 mod 64 * 64 + r mod 64 = r"
proof -
  have 1: "r div 4096 = r div 64 div 64" "r div 262144 = r div 64 div 64 div 64" by (simp_all add: div_mult2_eq [symmetric])
  have d: "k div 64 * 64 + k mod 64 = k" for k :: nat by simp
  have "r div 64 div 64 * 64 + r div 64 mod 64 = r div 64" by (rule d)
  moreover have "r div 64 * 64 + r mod 64 = r" by (rule d)
  ultimately show 2: "r div 4096 * 4096 + r div 64 mod 64 * 64 + r mod 64 = r" unfolding 1 by linarith
  have "r div 64 div 64 div 64 * 64 + r div 64 div 64 mod 64 = r div 64 div 64" by (rule d)
  then show "r div 262144 * 262144 + r div 4096 mod 64 * 4096 + r div 64 mod 64 * 64 + r mod 64 = r"
    using 2 unfolding 1 by linarith
qed

lemma continuation:
  "(0x80 + k mod 64) mod 64 = k mod (64 :: nat)" "0x80 + k mod 64 < (256 :: nat)" "0x80 + k mod 64 \<le> (0xBF :: nat)"
  using mod_mult_self3 [of 2 64 "k mod 64"] mod_less_divisor [of 64 k] by simp_all

lemma cont_continuation: "cont (char_of (0x80 + (k :: nat) mod 64))"
  using continuation(2,3) [of k] by (simp add: cont_def)

text \<open>Decoding undoes encoding, for the four lengths of a rune.\<close>

lemma decode_2:
  assumes "0x80 \<le> r" and "r < 0x800"
  shows "DecodeRune (char_of (0xC0 + r div 64) # char_of (0x80 + r mod 64) # s) = (r, 2)"
proof -
  define k where "k = r div 64"
  have k: "2 \<le> k" "k < 32" using assms by (auto simp: k_def)
  have n: "0xC0 + k < 256" "0xC2 \<le> 0xC0 + k" "0xC0 + k \<le> 0xDF" "\<not> 0xC0 + k < 0x80" using k by auto
  have m: "(0xC0 + k) mod 32 = k" using k mod_mult_self3 [of 6 32 k] by simp
  have r: "k * 64 + r mod 64 = r" by (simp add: k_def)
  have a: "accepts (0xC0 + k) (char_of (0x80 + r mod 64))"
    using continuation [of r] k by (simp add: accepts_def)
  show ?thesis
    unfolding k_def [symmetric]
    by (simp only: DecodeRune.simps(2) Let_def byte_char [OF n(1)] n(2-4) if_False if_True a m r list.case
        byte_char [OF continuation(2)] continuation(1) simp_thms)
qed

lemma decode_3:
  assumes "0x800 \<le> r" and "r < 0x10000" and "ValidRune r"
  shows "DecodeRune (char_of (0xE0 + r div 4096) # char_of (0x80 + r div 64 mod 64)
    # char_of (0x80 + r mod 64) # s) = (r, 3)"
proof -
  define k where "k = r div 4096"
  define j where "j = r div 64 mod 64"
  have r: "k * 4096 + j * 64 + r mod 64 = r" unfolding k_def j_def by (rule base64)
  have j: "j < 64" and l: "r mod 64 < 64" by (simp_all add: j_def)
  have k: "k < 16" using assms(2) by (auto simp: k_def)
  have e0: "0x20 \<le> j" if "k = 0" using r that assms(1) l by linarith
  have ed: "j < 0x20" if "k = 13" using r that assms(2,3) j l unfolding ValidRune_def by (elim disjE; linarith)
  have n: "0xE0 + k < 256" "\<not> 0xE0 + k \<le> 0xDF" "0xE0 \<le> 0xE0 + k" "0xE0 + k \<le> 0xEF" "\<not> 0xE0 + k < 0x80"
    using k by auto
  have m: "(0xE0 + k) mod 16 = k" using k mod_mult_self3 [of 14 16 k] by simp
  have jm: "j mod 64 = j" using j by simp
  have a: "accepts (0xE0 + k) (char_of (0x80 + j))"
    using j k e0 ed by (auto simp: accepts_def)
  show ?thesis
    unfolding k_def [symmetric] j_def [symmetric]
    using continuation(1,2) [of j] unfolding jm
    by (simp only: DecodeRune.simps(2) Let_def byte_char [OF n(1)] n(2-5) if_False if_True a m r list.case
        byte_char byte_char [OF continuation(2)] continuation(1) cont_continuation simp_thms)
qed

lemma decode_4:
  assumes "0x10000 \<le> r" and "r < 0x110000"
  shows "DecodeRune (char_of (0xF0 + r div 262144) # char_of (0x80 + r div 4096 mod 64)
    # char_of (0x80 + r div 64 mod 64) # char_of (0x80 + r mod 64) # s) = (r, 4)"
proof -
  define k where "k = r div 262144"
  define i where "i = r div 4096 mod 64"
  have r: "k * 262144 + i * 4096 + r div 64 mod 64 * 64 + r mod 64 = r" unfolding k_def i_def by (rule base64)
  have l: "i < 64" "r mod 64 < 64" "r div 64 mod 64 < 64" by (simp_all add: i_def)
  have k: "k < 5" using assms(2) by (auto simp: k_def)
  have f0: "0x10 \<le> i" if "k = 0" using r that assms(1) l by linarith
  have f4: "i < 0x10" if "k = 4" using r that assms(2) l by linarith
  have n: "0xF0 + k < 256" "\<not> 0xF0 + k \<le> 0xDF" "\<not> 0xF0 + k \<le> 0xEF" "0xF0 \<le> 0xF0 + k" "0xF0 + k \<le> 0xF4"
      "\<not> 0xF0 + k < 0x80"
    using k by auto
  have m: "(0xF0 + k) mod 8 = k" using k mod_mult_self3 [of 30 8 k] by simp
  have im: "i mod 64 = i" using l by simp
  have a: "accepts (0xF0 + k) (char_of (0x80 + i))"
    using l k f0 f4 by (auto simp: accepts_def)
  show ?thesis
    unfolding k_def [symmetric] i_def [symmetric]
    using continuation(1,2) [of i] unfolding im
    by (simp only: DecodeRune.simps(2) Let_def byte_char [OF n(1)] n(2-6) if_False if_True a m r list.case
        byte_char byte_char [OF continuation(2)] continuation(1) cont_continuation simp_thms)
qed

lemma DecodeRune_EncodeRune:
  assumes "ValidRune r"
  shows "DecodeRune (EncodeRune r @ s) = (r, length (EncodeRune r))"
proof -
  consider "r < 0x80" | "0x80 \<le> r" "r < 0x800" | "0x800 \<le> r" "r < 0x10000" | "0x10000 \<le> r" "r < 0x110000"
    using assms by (cases "r < 0x80"; cases "r < 0x800"; cases "r < 0x10000") (auto simp: ValidRune_def)
  then show ?thesis
    by cases (use assms decode_2 decode_3 decode_4 in \<open>auto simp: EncodeRune_def DecodeRune_ascii\<close>)
qed

section \<open>The runes of a string\<close>

text \<open>\<open>for _, v := range s\<close>; a byte that is no part of a rune gives \<open>RuneError\<close>.\<close>

function runes :: "string \<Rightarrow> nat list" where
  "runes s = (if s = [] then [] else (case DecodeRune s of (r, w) \<Rightarrow> r # runes (drop w s)))"
  by pat_completeness auto
termination
  by (relation "measure length") (simp_all, metis DecodeRune_width diff_less length_greater_0_conv snd_conv)

declare runes.simps [simp del]

definition RuneCountInString :: "string \<Rightarrow> nat" where
  "RuneCountInString s = length (runes s)"

definition valid_utf8 :: "string \<Rightarrow> bool" where
  "valid_utf8 s \<longleftrightarrow> concat (map EncodeRune (runes s)) = s"

lemma runes_Nil [simp]: "runes [] = []"
  by (simp add: runes.simps)

lemma EncodeRune_not_Nil [simp]: "EncodeRune r \<noteq> []"
  by (simp add: EncodeRune_def Let_def)

lemma runes_EncodeRune [simp]: "ValidRune r \<Longrightarrow> runes (EncodeRune r @ s) = r # runes s"
  by (subst runes.simps) (simp add: DecodeRune_EncodeRune)

lemma runes_concat: "list_all ValidRune rs \<Longrightarrow> runes (concat (map EncodeRune rs)) = rs"
  by (induction rs) simp_all

text \<open>Whatever the bytes, the runes are valid.\<close>

lemma accepts_mod_E0: "accepts 0xE0 c \<Longrightarrow> 0x20 \<le> byte c mod 64"
proof -
  assume a: "accepts 0xE0 c"
  then have "0x80 \<le> byte c" "byte c \<le> 0xBF" unfolding accepts_def by auto
  then have "byte c mod 64 = byte c - 0x80" using mod_mult_self3 [of 2 64 "byte c - 0x80"] by simp
  moreover have "0xA0 \<le> byte c" using a unfolding accepts_def by auto
  ultimately show ?thesis by linarith
qed

lemma accepts_mod:
  "accepts 0xED c \<Longrightarrow> byte c mod 64 < 0x20" "accepts 0xF0 c \<Longrightarrow> 0x10 \<le> byte c mod 64"
  "accepts 0xF4 c \<Longrightarrow> byte c mod 64 < 0x10"
proof -
  have "k mod 64 = k - 0x80" if "0x80 \<le> k" "k \<le> 0xBF" for k :: nat
    using that mod_mult_self3 [of 2 64 "k - 0x80"] by simp
  then show "accepts 0xED c \<Longrightarrow> byte c mod 64 < 0x20" "accepts 0xF0 c \<Longrightarrow> 0x10 \<le> byte c mod 64"
    "accepts 0xF4 c \<Longrightarrow> byte c mod 64 < 0x10"
    unfolding accepts_def by (simp, linarith)+
qed

lemma ValidRune_DecodeRune: "ValidRune (fst (DecodeRune s))"
proof (cases s)
  case Nil
  then show ?thesis by (simp add: ValidRune_def RuneError_def)
next
  case (Cons b t)
  define n where "n = byte b"
  have err: "ValidRune RuneError" by (simp add: ValidRune_def RuneError_def)
  have m: "k mod 64 < 64" for k :: nat by simp
  have v0: "n < 0x80 \<Longrightarrow> ValidRune n" by (simp add: ValidRune_def)
  have v2: "ValidRune (n mod 32 * 64 + c1 mod 64)" for c1 :: nat
    using m [of c1] mod_less_divisor [of 32 n] unfolding ValidRune_def by linarith
  have v3: "ValidRune (n mod 16 * 4096 + byte c1 mod 64 * 64 + c2 mod 64)"
    if "accepts n c1" "0xE0 \<le> n" "n \<le> 0xEF" for c1 and c2 :: nat
  proof -
    have n: "n mod 16 = n - 0xE0" using that(2,3) mod_mult_self3 [of 14 16 "n - 0xE0"] by simp
    show ?thesis
    proof (cases "n = 0xED")
      case True
      have "byte c1 mod 64 < 0x20" using accepts_mod(1) that(1) True by blast
      then show ?thesis using m [of c2] True unfolding ValidRune_def n by linarith
    next
      case False
      then consider "n \<le> 0xEC" | "0xEE \<le> n" by linarith
      then show ?thesis
      proof cases
        case 1
        then show ?thesis using m [of c2] m [of "byte c1"] unfolding ValidRune_def n by linarith
      next
        case 2
        then show ?thesis using m [of c2] m [of "byte c1"] that(3) unfolding ValidRune_def n by linarith
      qed
    qed
  qed
  have v4: "ValidRune (n mod 8 * 262144 + byte c1 mod 64 * 4096 + c2 mod 64 * 64 + c3 mod 64)"
    (is "ValidRune ?r")
    if "accepts n c1" "0xF0 \<le> n" "n \<le> 0xF4" for c1 and c2 c3 :: nat
  proof -
    note th = that
    have n: "n mod 8 = n - 0xF0" using that(2,3) mod_mult_self3 [of 30 8 "n - 0xF0"] by simp
    have lo: "0x10 \<le> byte c1 mod 64" if "n = 0xF0"
      using \<open>accepts n c1\<close> that accepts_mod(2) by blast
    have hi: "byte c1 mod 64 < 0x10" if "n = 0xF4" using \<open>accepts n c1\<close> that accepts_mod(3) by blast
    consider "n = 0xF0" | "0xF1 \<le> n" "n \<le> 0xF3" | "n = 0xF4" using th(2,3) by linarith
    then have "0x10000 \<le> ?r \<and> ?r \<le> 0x10FFFF"
      by cases (use lo hi m [of c2] m [of c3] m [of "byte c1"] in \<open>unfold n, linarith+\<close>)
    then show ?thesis unfolding ValidRune_def by linarith
  qed
  show ?thesis
    unfolding Cons DecodeRune.simps(2) n_def [symmetric] Let_def
    by (simp add: v0 v2 v3 v4 err split: list.split)
qed

lemma ValidRune_runes: "list_all ValidRune (runes s)"
proof (induction s rule: runes.induct)
  case (1 s)
  then show ?case
    using ValidRune_DecodeRune [of s] by (subst runes.simps) (auto split: prod.splits)
qed

text \<open>Encoding undoes decoding, unless the bytes are no rune.\<close>

lemma cont_byte: "0x80 \<le> byte c \<Longrightarrow> byte c \<le> 0xBF \<Longrightarrow> char_of (0x80 + byte c mod 64) = c"
proof -
  assume c: "0x80 \<le> byte c" "byte c \<le> 0xBF"
  have "byte c mod 64 = byte c - 0x80" using c mod_mult_self3 [of 2 64 "byte c - 0x80"] by simp
  then have "0x80 + byte c mod 64 = byte c" using c by simp
  then show ?thesis by simp
qed

lemma base64_digits:
  "l < 64 \<Longrightarrow> (a * 64 + l) div 64 = (a :: nat)" "l < 64 \<Longrightarrow> (a * 64 + l) mod 64 = l"
  by simp_all

lemma cont_accepts: "accepts n c \<Longrightarrow> cont c"
  by (auto simp: accepts_def cont_def split: if_splits)

lemma EncodeRune_DecodeRune:
  assumes d: "DecodeRune s = (r, w)" and "s \<noteq> []" and "\<not> (r = RuneError \<and> w = 1)"
  shows "EncodeRune r = take w s"
proof -
  obtain b t where s: "s = b # t" using assms(2) by (cases s) auto
  define n where "n = byte b"
  have b: "char_of n = b" by (simp add: n_def)
  have v: "ValidRune r" using ValidRune_DecodeRune [of s] d by simp
  have m: "k mod 64 < 64" for k :: nat by simp
  note d' = d [unfolded s DecodeRune.simps(2), folded n_def, unfolded Let_def]
  have cc: "char_of (0x80 + byte c mod 64) = c" if "cont c" for c
    using that by (intro cont_byte) (simp_all add: cont_def)
  consider "n < 0x80" | "0xC2 \<le> n" "n \<le> 0xDF" | "0xE0 \<le> n" "n \<le> 0xEF" | "0xF0 \<le> n" "n \<le> 0xF4"
    | "(r, w) = (RuneError, 1)"
    using d' by (auto split: if_splits)
  then show ?thesis
  proof cases
    case 1
    then show ?thesis using d' b by (auto simp: s EncodeRune_ascii)
  next
    case 2
    then obtain c1 u where t: "t = c1 # u" "accepts n c1" "r = n mod 32 * 64 + byte c1 mod 64" "w = 2"
      using d' assms(3) by (cases t) (auto split: if_splits)
    have k: "n mod 32 = n - 0xC0" using 2 mod_mult_self3 [of 6 32 "n - 0xC0"] by simp
    have r: "r div 64 = n - 0xC0" "r mod 64 = byte c1 mod 64" "0x80 \<le> r" "r < 0x800"
      using base64_digits [OF m [of "byte c1"], of "n mod 32"] m [of "byte c1"] 2 unfolding t(3) k by auto
    have f: "0xC0 + r div 64 = n" using r(1) 2 by simp
    show ?thesis
      using v r(3,4) cc [OF cont_accepts [OF t(2)]] b f
      by (simp add: EncodeRune_def s t(1,4) r(2))
  next
    case 3
    then obtain c1 c2 u where t: "t = c1 # c2 # u" "accepts n c1" "cont c2"
        "r = n mod 16 * 4096 + byte c1 mod 64 * 64 + byte c2 mod 64" "w = 3"
      using d' assms(3) by (cases t; cases "tl t") (auto split: if_splits)
    have k: "n mod 16 = n - 0xE0" using 3 mod_mult_self3 [of 14 16 "n - 0xE0"] by simp
    have e: "r = ((n - 0xE0) * 64 + byte c1 mod 64) * 64 + byte c2 mod 64" unfolding t(4) k by simp
    have r: "r div 64 = (n - 0xE0) * 64 + byte c1 mod 64" "r mod 64 = byte c2 mod 64"
      using base64_digits [OF m [of "byte c2"]] unfolding e by blast+
    have q: "r div 4096 = n - 0xE0" "r div 64 mod 64 = byte c1 mod 64"
      using base64_digits [OF m [of "byte c1"], of "n - 0xE0"] r(1) div_mult2_eq [of r 64 64] by simp_all
    have lo: "0x20 \<le> byte c1 mod 64" if "n = 0xE0" using t(2) that accepts_mod_E0 by blast
    have a: "n - 0xE0 < 16" "0 < n - 0xE0 \<or> n = 0xE0" using 3 by auto
    have big: "0x800 \<le> r" "r < 0x10000"
      using a(2) lo m [of "byte c1"] m [of "byte c2"] a(1) unfolding e by (auto elim!: disjE)
    have f: "0xE0 + r div 4096 = n" using q(1) 3 by simp
    show ?thesis
      using v big cc [OF cont_accepts [OF t(2)]] cc [OF t(3)] b f
      by (simp add: EncodeRune_def s t(1,5) r(2) q(2))
  next
    case 4
    then obtain c1 c2 c3 u where t: "t = c1 # c2 # c3 # u" "accepts n c1" "cont c2" "cont c3"
        "r = n mod 8 * 262144 + byte c1 mod 64 * 4096 + byte c2 mod 64 * 64 + byte c3 mod 64" "w = 4"
      using d' assms(3) by (cases t; cases "tl t"; cases "tl (tl t)") (auto split: if_splits)
    have k: "n mod 8 = n - 0xF0" using 4 mod_mult_self3 [of 30 8 "n - 0xF0"] by simp
    have e: "r = (((n - 0xF0) * 64 + byte c1 mod 64) * 64 + byte c2 mod 64) * 64 + byte c3 mod 64"
      unfolding t(5) k by simp
    have r: "r div 64 = ((n - 0xF0) * 64 + byte c1 mod 64) * 64 + byte c2 mod 64" "r mod 64 = byte c3 mod 64"
      using base64_digits [OF m [of "byte c3"]] unfolding e by blast+
    have q: "r div 4096 = (n - 0xF0) * 64 + byte c1 mod 64" "r div 64 mod 64 = byte c2 mod 64"
      using base64_digits [OF m [of "byte c2"], of "(n - 0xF0) * 64 + byte c1 mod 64"] r(1)
        div_mult2_eq [of r 64 64] by simp_all
    have p: "r div 262144 = n - 0xF0" "r div 4096 mod 64 = byte c1 mod 64"
      using base64_digits [OF m [of "byte c1"], of "n - 0xF0"] q(1) div_mult2_eq [of r 4096 64] by simp_all
    have lo: "0x10 \<le> byte c1 mod 64" if "n = 0xF0" using t(2) that accepts_mod(2) by blast
    have a: "0 < n - 0xF0 \<or> n = 0xF0" using 4 by auto
    have big: "0x10000 \<le> r" using a lo unfolding e by (auto elim!: disjE)
    have f: "0xF0 + r div 262144 = n" using p(1) 4 by simp
    show ?thesis
      using v big cc [OF cont_accepts [OF t(2)]] cc [OF t(3)] cc [OF t(4)] b f
      by (simp add: EncodeRune_def s t(1,6) r(2) q(2) p(2))
  next
    case 5
    then show ?thesis using assms(3) by simp
  qed
qed

text \<open>A string with every byte that is no part of a rune replaced by \<open>RuneError\<close>.\<close>

definition mend :: "string \<Rightarrow> string" where
  "mend s = concat (map EncodeRune (runes s))"

lemma mend_valid: "valid_utf8 s \<Longrightarrow> mend s = s"
  by (simp add: mend_def valid_utf8_def)

lemma mend_Nil [simp]: "mend s = [] \<longleftrightarrow> s = []"
  by (cases s; cases "DecodeRune s") (simp_all add: mend_def runes.simps [of "_ # _"])

lemma mend_empty [simp]: "mend [] = []"
  by simp

lemma runes_mend: "runes (mend s) = runes s"
  unfolding mend_def by (rule runes_concat [OF ValidRune_runes])

lemma mend_mend [simp]: "mend (mend s) = mend s"
  unfolding mend_def [of "mend s"] runes_mend by (simp only: mend_def)

lemma valid_utf8_mend: "valid_utf8 (mend s)"
  by (simp add: valid_utf8_def runes_mend flip: mend_def)

text \<open>A valid string is the encoding of its runes.\<close>

lemma valid_utf8_runes: "valid_utf8 s \<longleftrightarrow> (\<exists>rs. list_all ValidRune rs \<and> s = concat (map EncodeRune rs))"
  using ValidRune_runes [of s] runes_concat unfolding valid_utf8_def by metis

section \<open>Upper case\<close>

text \<open>
  \<open>strings.ToUpper\<close> of Go 1.15. The tables of \<^verbatim>\<open>unicode\<close> are the argument \<open>upper\<close>, the map of a rune to its
  upper case. A string of ASCII is mapped byte by byte, any other one rune by rune.
\<close>

definition ascii :: "string \<Rightarrow> bool" where
  "ascii s \<longleftrightarrow> list_all (\<lambda>c. byte c < 0x80) s"

definition upper_ascii :: "char \<Rightarrow> char" where
  "upper_ascii c = (if within (CHR ''a'') (CHR ''z'') c then char_of (byte c - 32) else c)"

definition ToUpper :: "(nat \<Rightarrow> nat) \<Rightarrow> string \<Rightarrow> string" where
  "ToUpper upper s =
     (if ascii s then map upper_ascii s else concat (map (\<lambda>r. EncodeRune (upper r)) (runes s)))"

lemma runes_ascii: "ascii s \<Longrightarrow> runes s = map byte s"
  by (induction s) (simp_all add: ascii_def runes.simps [of "_ # _"] DecodeRune_ascii)

lemma valid_utf8_ascii: "ascii s \<Longrightarrow> valid_utf8 s"
proof -
  assume a: "ascii s"
  then have "concat (map EncodeRune (map byte s)) = s"
    by (induction s) (simp_all add: ascii_def EncodeRune_ascii)
  then show ?thesis using runes_ascii [OF a] by (simp add: valid_utf8_def)
qed

lemma valid_utf8_EncodeRune: "valid_utf8 (concat (map EncodeRune rs))"
proof -
  define fixed where "fixed r = (if ValidRune r then r else RuneError)" for r
  have "EncodeRune r = EncodeRune (fixed r)" for r
    by (simp add: fixed_def EncodeRune_def ValidRune_def RuneError_def)
  then have "map EncodeRune rs = map EncodeRune (map fixed rs)" by simp
  moreover have valid: "ValidRune (fixed r)" for r by (simp add: fixed_def ValidRune_def RuneError_def)
  moreover have "list_all ValidRune (map fixed rs)"
    using valid by (simp add: list_all_iff)
  ultimately show ?thesis using valid_utf8_runes by metis
qed

text \<open>The result is valid, and not empty when the string is not.\<close>

lemma valid_utf8_ToUpper: "valid_utf8 (ToUpper upper s)"
proof (cases "ascii s")
  case True
  have "byte (upper_ascii c) < 0x80" if "byte c < 0x80" for c
    using that by (auto simp: upper_ascii_def less_eq_char_def)
  with True have "ascii (map upper_ascii s)" by (auto simp: ascii_def list_all_iff)
  with True show ?thesis by (simp add: ToUpper_def valid_utf8_ascii)
next
  case False
  then show ?thesis using valid_utf8_EncodeRune [of "map upper (runes s)"] by (simp add: ToUpper_def o_def)
qed

lemma ToUpper_Nil [simp]: "ToUpper upper [] = []"
  by (simp add: ToUpper_def ascii_def)

text \<open>Where the tables agree with ASCII, the two ways to map a string agree.\<close>

lemma ToUpper_runes:
  assumes "\<And>c. byte c < 0x80 \<Longrightarrow> upper (byte c) = byte (upper_ascii c)"
  shows "ToUpper upper s = concat (map (\<lambda>r. EncodeRune (upper r)) (runes s))"
proof (cases "ascii s")
  case True
  have "byte (upper_ascii c) < 0x80" if "byte c < 0x80" for c
    using that by (auto simp: upper_ascii_def less_eq_char_def)
  with True have "concat (map (\<lambda>c. EncodeRune (upper (byte c))) s) = map upper_ascii s"
    by (induction s) (simp_all add: ascii_def assms EncodeRune_ascii)
  with True show ?thesis by (simp add: ToUpper_def runes_ascii o_def)
qed (simp add: ToUpper_def)

text \<open>The result of \<open>ToUpper\<close> does not depend on the bytes that are no part of a rune.\<close>

lemma ascii_mend: "ascii (mend s) = ascii s"
proof
  assume "ascii s"
  then show "ascii (mend s)" using mend_valid [OF valid_utf8_ascii] by simp
next
  assume a: "ascii (mend s)"
  have "list_all (\<lambda>r. r < 0x80) (runes s)"
    using runes_ascii [OF a] a unfolding runes_mend by (simp add: list_all_iff ascii_def)
  then show "ascii s"
  proof (induction s rule: runes.induct)
    case (1 s)
    show ?case
    proof (cases s)
      case Nil
      then show ?thesis by (simp add: ascii_def)
    next
      case (Cons b t)
      obtain r w where d: "DecodeRune s = (r, w)" by fastforce
      then have rs: "runes s = r # runes (drop w s)" using Cons by (subst runes.simps) simp
      have r: "r < 0x80" "list_all (\<lambda>r. r < 0x80) (runes (drop w s))" using "1.prems" rs by simp_all
      then have t: "EncodeRune r = take w s" using d Cons by (intro EncodeRune_DecodeRune) (auto simp: RuneError_def)
      have "ascii (drop w s)" using "1.IH" [OF _ d [symmetric]] Cons r(2) by simp
      moreover have "ascii (take w s)" using r(1) unfolding t [symmetric] by (simp add: EncodeRune_ascii ascii_def)
      ultimately show ?thesis using append_take_drop_id [of w s] by (metis ascii_def list_all_append)
    qed
  qed
qed

lemma ToUpper_mend: "ToUpper upper (mend s) = ToUpper upper s"
proof (cases "ascii s")
  case True
  then show ?thesis by (simp add: mend_valid [OF valid_utf8_ascii])
next
  case False
  then show ?thesis by (simp add: ToUpper_def ascii_mend runes_mend)
qed

end
