(* ===== verification/Json.thy ===== *)
theory Json
  imports Utf8
begin

text \<open>
  What the program uses of \<^verbatim>\<open>encoding/json\<close> of Go 1.15: the text of a value as \<open>Encoder.Encode\<close> writes it, and
  \<open>Decoder.Decode\<close> up to the value it has read, before it is stored in a Go variable. A number is kept as its
  literal. The messages of syntax errors are abbreviated.
\<close>

datatype json =
    JNull
  | JBool bool
  | JNum string
  | JStr string
  | JArr "json list"
  | JObj "(string \<times> json) list"

section \<open>Writing\<close>

abbreviation quote :: char where "quote \<equiv> CHR 0x22"
abbreviation backslash :: char where "backslash \<equiv> CHR 0x5C"

definition hex_digit :: "nat \<Rightarrow> char" where
  "hex_digit n = char_of (if n < 10 then 48 + n else 87 + n)"

text \<open>The bytes that are copied, with the escaping of HTML that is on by default.\<close>

definition html_safe :: "char \<Rightarrow> bool" where
  "html_safe c \<longleftrightarrow> 0x20 \<le> byte c \<and> c \<noteq> quote \<and> c \<noteq> backslash \<and> c \<notin> set ''<>&''"

definition escape_byte :: "char \<Rightarrow> string" where
  "escape_byte c =
     (if html_safe c then [c]
      else if c = quote \<or> c = backslash then [backslash, c]
      else if byte c = 10 then [backslash, CHR ''n'']
      else if byte c = 13 then [backslash, CHR ''r'']
      else if byte c = 9 then [backslash, CHR ''t'']
      else backslash # ''u00'' @ [hex_digit (byte c div 16), hex_digit (byte c mod 16)])"

function escape :: "string \<Rightarrow> string" where
  "escape [] = []"
| "escape (c # s) =
     (if byte c < 0x80 then escape_byte c @ escape s
      else (case DecodeRune (c # s) of (r, w) \<Rightarrow>
        if r = RuneError \<and> w = 1 then backslash # ''ufffd'' @ escape s
        else if r = 0x2028 \<or> r = 0x2029
          then backslash # ''u202'' @ hex_digit (r mod 16) # escape (drop (w - 1) s)
        else take w (c # s) @ escape (drop (w - 1) s)))"
  by pat_completeness auto
termination
  by (relation "measure length") simp_all

declare escape.simps(2) [simp del]

definition quoted :: "string \<Rightarrow> string" where
  "quoted s = quote # escape s @ [quote]"

fun join :: "string list \<Rightarrow> string" where
  "join [] = []"
| "join [x] = x"
| "join (x # xs) = x @ CHR '','' # join xs"

fun Marshal :: "json \<Rightarrow> string" where
  "Marshal JNull = ''null''"
| "Marshal (JBool b) = (if b then ''true'' else ''false'')"
| "Marshal (JNum n) = n"
| "Marshal (JStr s) = quoted s"
| "Marshal (JArr vs) = CHR ''['' # join (map Marshal vs) @ '']''"
| "Marshal (JObj ms) = CHR ''{'' # join (map (\<lambda>(k, v). quoted k @ CHR '':'' # Marshal v) ms) @ ''}''"

definition Encode :: "json \<Rightarrow> string" where
  "Encode v = Marshal v @ [CHR 0x0A]"

section \<open>Reading\<close>

definition syntax_error :: go_error where
  "syntax_error = Msg ''invalid character''"

definition skip_space :: "string \<Rightarrow> string" where
  "skip_space = dropWhile (\<lambda>c. byte c \<in> {32, 9, 13, 10})"

definition hex_value :: "char \<Rightarrow> nat option" where
  "hex_value c =
     (case digit_value c of
        Some d \<Rightarrow> Some d
      | None \<Rightarrow>
          if within (CHR ''a'') (CHR ''f'') c then Some (byte c - 87)
          else if within (CHR ''A'') (CHR ''F'') c then Some (byte c - 55) else None)"

text \<open>\<open>n\<close> more hexadecimal digits.\<close>

fun hex_digits :: "nat \<Rightarrow> nat \<Rightarrow> string \<Rightarrow> nat res" where
  "hex_digits 0 v s = Ok v"
| "hex_digits (Suc n) v [] = Err UnexpectedEOF"
| "hex_digits (Suc n) v (c # s) =
     (case hex_value c of None \<Rightarrow> Err syntax_error | Some d \<Rightarrow> hex_digits n (16 * v + d) s)"

text \<open>The other half of a surrogate pair, if one follows, and the rune of a pair.\<close>

definition getu4 :: "string \<Rightarrow> nat option" where
  "getu4 s =
     (if take 2 s = [backslash, CHR ''u''] then
        (case hex_digits 4 0 (drop 2 s) of Ok r \<Rightarrow> Some r | _ \<Rightarrow> None)
      else None)"

definition surrogate_pair :: "nat \<Rightarrow> nat option \<Rightarrow> nat option" where
  "surrogate_pair r1 r2 =
     (case r2 of
        None \<Rightarrow> None
      | Some r2 \<Rightarrow>
          if 0xD800 \<le> r1 \<and> r1 < 0xDC00 \<and> 0xDC00 \<le> r2 \<and> r2 < 0xE000
          then Some ((r1 - 0xD800) * 1024 + (r2 - 0xDC00) + 0x10000) else None)"

definition unescape_char :: "char \<Rightarrow> char option" where
  "unescape_char c =
     (if c = quote \<or> c = backslash \<or> c = CHR ''/'' then Some c
      else map_of (zip ''bfnrt'' (map char_of [8, 12, 10, 13, 9 :: nat])) c)"

definition lit_cons :: "string \<Rightarrow> (string \<times> string) res \<Rightarrow> (string \<times> string) res" where
  "lit_cons p r = (case r of Ok (x, s) \<Rightarrow> Ok (p @ x, s) | e \<Rightarrow> e)"

text \<open>A string literal after its opening quote: its value, and what follows the closing quote.\<close>

function string_lit :: "string \<Rightarrow> (string \<times> string) res" where
  "string_lit [] = Err UnexpectedEOF"
| "string_lit (c # s) =
     (if c = quote then Ok ([], s)
      else if c = backslash then
        (case s of
           [] \<Rightarrow> Err UnexpectedEOF
         | e # t \<Rightarrow>
             if e = CHR ''u'' then
               (case hex_digits 4 0 t of
                  Ok r \<Rightarrow>
                    if 0xD800 \<le> r \<and> r < 0xE000 then
                      (case surrogate_pair r (getu4 (drop 4 t)) of
                         Some r' \<Rightarrow> lit_cons (EncodeRune r') (string_lit (drop 10 t))
                       | None \<Rightarrow> lit_cons (EncodeRune RuneError) (string_lit (drop 4 t)))
                    else lit_cons (EncodeRune r) (string_lit (drop 4 t))
                | Err x \<Rightarrow> Err x
                | Panic p \<Rightarrow> Panic p)
             else (case unescape_char e of
                     Some e' \<Rightarrow> lit_cons [e'] (string_lit t)
                   | None \<Rightarrow> Err syntax_error))
      else if byte c < 0x20 then Err syntax_error
      else if byte c < 0x80 then lit_cons [c] (string_lit s)
      else (case DecodeRune (c # s) of (r, w) \<Rightarrow>
              lit_cons (EncodeRune r) (string_lit (drop (w - 1) s))))"
  by pat_completeness auto
termination
  by (relation "measure length") simp_all

declare string_lit.simps(2) [simp del]

lemma lit_cons_Ok [simp]: "lit_cons p r = Ok (x, t) \<longleftrightarrow> (\<exists>y. r = Ok (y, t) \<and> x = p @ y)"
  by (cases r) (auto simp: lit_cons_def)

lemma string_lit_shorter: "string_lit s = Ok (x, t) \<Longrightarrow> length t < length s"
proof (induction s arbitrary: x t rule: length_induct)
  case (1 s)
  show ?case
  proof (cases s)
    case Nil
    then show ?thesis using "1.prems" by simp
  next
    case (Cons c u)
    have ih: "length t < length v" if "string_lit v = Ok (y, t)" "length v \<le> length u" for v y
      using "1.IH" that Cons by simp
    show ?thesis
      using "1.prems" unfolding Cons string_lit.simps(2)
      by (auto split: if_splits list.splits res.splits option.splits prod.splits dest!: ih)
  qed
qed

text \<open>A number: sign, integer, fraction, exponent.\<close>

abbreviation is_digit :: "char \<Rightarrow> bool" where
  "is_digit \<equiv> within (CHR ''0'') (CHR ''9'')"

definition digits1 :: "string \<Rightarrow> (string \<times> string) res" where
  "digits1 s =
     (case s of
        [] \<Rightarrow> Err UnexpectedEOF
      | c # t \<Rightarrow> if is_digit c then Ok (takeWhile is_digit s, dropWhile is_digit s) else Err syntax_error)"

definition int_part :: "string \<Rightarrow> (string \<times> string) res" where
  "int_part s = (if s \<noteq> [] \<and> hd s = CHR ''0'' then Ok (''0'', tl s) else digits1 s)"

definition fraction :: "string \<Rightarrow> (string \<times> string) res" where
  "fraction s = (if s \<noteq> [] \<and> hd s = CHR ''.'' then lit_cons ''.'' (digits1 (tl s)) else Ok ([], s))"

definition exponent :: "string \<Rightarrow> (string \<times> string) res" where
  "exponent s =
     (case s of
        [] \<Rightarrow> Ok ([], [])
      | c # t \<Rightarrow>
          if c \<in> set ''eE'' then
            (if t \<noteq> [] \<and> hd t \<in> set ''+-'' then lit_cons [c, hd t] (digits1 (tl t)) else lit_cons [c] (digits1 t))
          else Ok ([], s))"

definition lit_then :: "(string \<times> string) res \<Rightarrow> (string \<Rightarrow> (string \<times> string) res) \<Rightarrow> (string \<times> string) res" where
  "lit_then r k = (case r of Ok (x, s) \<Rightarrow> lit_cons x (k s) | e \<Rightarrow> e)"

definition number_lit :: "string \<Rightarrow> (string \<times> string) res" where
  "number_lit s =
     lit_then (if s \<noteq> [] \<and> hd s = CHR ''-'' then lit_cons ''-'' (int_part (tl s)) else int_part s)
       (\<lambda>s. lit_then (fraction s) exponent)"

lemma digits1_shorter: "digits1 s = Ok (x, t) \<Longrightarrow> length t < length s"
  by (auto simp: digits1_def less_Suc_eq_le length_dropWhile_le split: list.splits if_splits)

lemma int_part_shorter: "int_part s = Ok (x, t) \<Longrightarrow> length t < length s"
  by (auto simp: int_part_def dest: digits1_shorter split: if_splits)

lemma fraction_length: "fraction s = Ok (x, t) \<Longrightarrow> length t \<le> length s"
  by (cases s) (auto simp: fraction_def dest: digits1_shorter split: if_splits)

lemma exponent_length: "exponent s = Ok (x, t) \<Longrightarrow> length t \<le> length s"
  by (cases s) (auto simp: exponent_def dest!: digits1_shorter split: if_splits)

lemma lit_then_Ok: "lit_then r k = Ok (x, t) \<longleftrightarrow> (\<exists>y z s. r = Ok (y, s) \<and> k s = Ok (z, t) \<and> x = y @ z)"
  by (cases r) (auto simp: lit_then_def)

lemma number_lit_shorter: "number_lit s = Ok (x, t) \<Longrightarrow> length t < length s"
  by (cases s) (auto simp: number_lit_def lit_then_Ok split: if_splits
      dest!: int_part_shorter fraction_length exponent_length)

text \<open>The rest of \<open>true\<close>, \<open>false\<close> and \<open>null\<close>.\<close>

fun literal :: "string \<Rightarrow> string \<Rightarrow> string res" where
  "literal [] s = Ok s"
| "literal (c # cs) [] = Err UnexpectedEOF"
| "literal (c # cs) (d # s) = (if c = d then literal cs s else Err syntax_error)"

lemma literal_length: "literal l s = Ok t \<Longrightarrow> length t \<le> length s"
  by (induction l s rule: literal.induct) (auto split: if_splits)

lemma skip_space_length: "length (skip_space s) \<le> length s"
  by (simp add: skip_space_def length_dropWhile_le)

lemma skip_space_Cons: "skip_space s = c # t \<Longrightarrow> length t < length s"
  using skip_space_length [of s] by simp

text \<open>
  The values that are still open around the one being read, innermost first: the elements of an array
  before it, or the members of an object before it and its key. Go 1.15 opens at most 10000.
\<close>

datatype frame = InArr "json list" | InObj "(string \<times> json) list" string

definition too_deep :: "frame list \<Rightarrow> bool" where
  "too_deep fs \<longleftrightarrow> 10000 \<le> length fs"

function parse_value :: "frame list \<Rightarrow> string \<Rightarrow> (json \<times> string) res"
  and parse_key :: "frame list \<Rightarrow> (string \<times> json) list \<Rightarrow> string \<Rightarrow> (json \<times> string) res"
  and after_value :: "frame list \<Rightarrow> json \<Rightarrow> string \<Rightarrow> (json \<times> string) res" where
  "parse_value fs s =
     (case skip_space s of
        [] \<Rightarrow> Err UnexpectedEOF
      | c # t \<Rightarrow>
          if c = CHR ''{'' then
            (if too_deep fs then Err (Msg ''exceeded max depth'')
             else (case skip_space t of
                     d # u \<Rightarrow> if d = CHR ''}'' then after_value fs (JObj []) u else parse_key fs [] t
                   | [] \<Rightarrow> Err UnexpectedEOF))
          else if c = CHR ''['' then
            (if too_deep fs then Err (Msg ''exceeded max depth'')
             else (case skip_space t of
                     d # u \<Rightarrow> if d = CHR '']'' then after_value fs (JArr []) u else parse_value (InArr [] # fs) t
                   | [] \<Rightarrow> Err UnexpectedEOF))
          else if c = quote then
            (case string_lit t of Ok (x, u) \<Rightarrow> after_value fs (JStr x) u | Err e \<Rightarrow> Err e | Panic p \<Rightarrow> Panic p)
          else if c = CHR ''t'' then
            (case literal ''rue'' t of Ok u \<Rightarrow> after_value fs (JBool True) u | Err e \<Rightarrow> Err e | Panic p \<Rightarrow> Panic p)
          else if c = CHR ''f'' then
            (case literal ''alse'' t of Ok u \<Rightarrow> after_value fs (JBool False) u | Err e \<Rightarrow> Err e | Panic p \<Rightarrow> Panic p)
          else if c = CHR ''n'' then
            (case literal ''ull'' t of Ok u \<Rightarrow> after_value fs JNull u | Err e \<Rightarrow> Err e | Panic p \<Rightarrow> Panic p)
          else
            (case number_lit (c # t) of Ok (x, u) \<Rightarrow> after_value fs (JNum x) u | Err e \<Rightarrow> Err e | Panic p \<Rightarrow> Panic p))"
| "parse_key fs ms s =
     (case skip_space s of
        [] \<Rightarrow> Err UnexpectedEOF
      | c # t \<Rightarrow>
          if c = quote then
            (case string_lit t of
               Ok (k, u) \<Rightarrow>
                 (case skip_space u of
                    [] \<Rightarrow> Err UnexpectedEOF
                  | d # v \<Rightarrow> if d = CHR '':'' then parse_value (InObj ms k # fs) v else Err syntax_error)
             | Err e \<Rightarrow> Err e
             | Panic p \<Rightarrow> Panic p)
          else Err syntax_error)"
| "after_value fs v s =
     (case fs of
        [] \<Rightarrow> Ok (v, s)
      | InArr vs # gs \<Rightarrow>
          (case skip_space s of
             [] \<Rightarrow> Err UnexpectedEOF
           | c # t \<Rightarrow>
               if c = CHR '','' then parse_value (InArr (vs @ [v]) # gs) t
               else if c = CHR '']'' then after_value gs (JArr (vs @ [v])) t
               else Err syntax_error)
      | InObj ms k # gs \<Rightarrow>
          (case skip_space s of
             [] \<Rightarrow> Err UnexpectedEOF
           | c # t \<Rightarrow>
               if c = CHR '','' then parse_key gs (ms @ [(k, v)]) t
               else if c = CHR ''}'' then after_value gs (JObj (ms @ [(k, v)])) t
               else Err syntax_error))"
  by pat_completeness auto
termination
  by (relation "measure (\<lambda>x. case x of Inl (fs, s) \<Rightarrow> length s | Inr (Inl (fs, ms, s)) \<Rightarrow> length s
       | Inr (Inr (fs, v, s)) \<Rightarrow> length s)")
    (auto dest!: skip_space_Cons string_lit_shorter literal_length number_lit_shorter)

declare parse_value.simps [simp del] parse_key.simps [simp del] after_value.simps [simp del]

text \<open>\<open>Decoder.Decode\<close> reads one value and leaves what follows it.\<close>

definition Decode :: "string \<Rightarrow> json res" where
  "Decode s =
     (if skip_space s = [] then Err EOF
      else (case parse_value [] s of Ok (v, _) \<Rightarrow> Ok v | Err e \<Rightarrow> Err e | Panic p \<Rightarrow> Panic p))"

section \<open>Reading back what was written\<close>

text \<open>A string, rune by rune.\<close>

definition escape_rune :: "nat \<Rightarrow> string" where
  "escape_rune r =
     (if r < 0x80 then escape_byte (char_of r)
      else if r = 0x2028 \<or> r = 0x2029 then backslash # ''u202'' @ [hex_digit (r mod 16)]
      else EncodeRune r)"

lemma EncodeRune_long:
  assumes "ValidRune r" and "0x80 \<le> r"
  shows "\<exists>b c bs. EncodeRune r = b # c # bs \<and> 0x80 \<le> byte b"
proof -
  have "r < 0x110000" using assms(1) by (auto simp: ValidRune_def)
  then have "r div 262144 < 5" by simp
  then have 4: "0x80 \<le> byte (char_of (0xF0 + r div 262144))" by simp
  have 3: "0x80 \<le> byte (char_of (0xE0 + r div 4096))" if "r < 0x10000"
  proof -
    have "r div 4096 < 16" using that by simp
    then show ?thesis by simp
  qed
  have 2: "0x80 \<le> byte (char_of (0xC0 + r div 64))" if "r < 0x800"
  proof -
    have "r div 64 < 32" using that by simp
    then show ?thesis by simp
  qed
  consider "r < 0x800" | "\<not> r < 0x800" "r < 0x10000" | "\<not> r < 0x800" "\<not> r < 0x10000" by blast
  then show ?thesis
    by cases (use assms 2 3 4 in \<open>simp_all add: EncodeRune_def Let_def del: char_of_nat\<close>)
qed

lemma hex_value_digit: "n < 16 \<Longrightarrow> hex_value (hex_digit n) = Some n"
proof -
  assume "n < 16"
  then have "n \<in> set [0..<16]" by simp
  moreover have "list_all (\<lambda>n. hex_value (hex_digit n) = Some n) [0..<16]" by code_simp
  ultimately show ?thesis by (simp only: list_all_iff)
qed

lemma hex_digits_4:
  "hex_value a = Some i \<Longrightarrow> hex_value b = Some j \<Longrightarrow> hex_value c = Some k \<Longrightarrow> hex_value d = Some l \<Longrightarrow>
     hex_digits 4 0 (a # b # c # d # s) = Ok (16 * (16 * (16 * i + j) + k) + l)"
proof -
  have "(4 :: nat) = Suc (Suc (Suc (Suc 0)))" by simp
  then show "hex_value a = Some i \<Longrightarrow> hex_value b = Some j \<Longrightarrow> hex_value c = Some k \<Longrightarrow> hex_value d = Some l \<Longrightarrow>
     hex_digits 4 0 (a # b # c # d # s) = Ok (16 * (16 * (16 * i + j) + k) + l)"
    by (simp only: hex_digits.simps option.case mult_0_right add_0_left)
qed

lemma escape_byte_read:
  assumes "r < 0x80"
  shows "string_lit (escape_byte (char_of r) @ s) = lit_cons (EncodeRune r) (string_lit s)"
proof -
  have b: "byte (char_of r :: char) = r" using assms by simp
  have "byte quote = 0x22" "byte backslash = 0x5C" by simp_all
  then have sep: "char_of r = quote \<Longrightarrow> r = 0x22" "char_of r = backslash \<Longrightarrow> r = 0x5C" using b by metis+
  have e: "EncodeRune r = [char_of r]" using assms by (rule EncodeRune_ascii)
  have z: "hex_value (CHR ''0'') = Some 0" by code_simp
  have hex: "hex_digits 4 0 (''00'' @ hex_digit (r div 16) # hex_digit (r mod 16) # s) = Ok r"
  proof -
    have "r div 16 < 16" "r mod 16 < 16" using assms by auto
    note hex_digits_4 [OF z z hex_value_digit [OF this(1)] hex_value_digit [OF this(2)], of s]
    then show ?thesis by simp
  qed
  consider "html_safe (char_of r)" | "\<not> html_safe (char_of r)" "r = 0x22 \<or> r = 0x5C"
    | "\<not> html_safe (char_of r)" "r \<in> {10, 13, 9}" | "\<not> html_safe (char_of r)" "r \<notin> {10, 13, 9, 0x22, 0x5C}"
    by blast
  then show ?thesis
  proof cases
    case 1
    then have "char_of r \<noteq> quote" "char_of r \<noteq> backslash" "0x20 \<le> r" using b by (auto simp: html_safe_def)
    with 1 show ?thesis using assms b by (simp add: escape_byte_def string_lit.simps(2) e)
  next
    case 2
    have "char_of (0x22 :: nat) = quote" "char_of (0x5C :: nat) = backslash" by code_simp+
    with 2 show ?thesis by (elim disjE) (simp_all add: escape_byte_def string_lit.simps(2) unescape_char_def EncodeRune_ascii)
  next
    case 3
    have "char_of r \<noteq> quote" "char_of r \<noteq> backslash" using 3(2) sep by auto
    with 3 show ?thesis
      by (elim insertE) (simp_all add: escape_byte_def string_lit.simps(2) unescape_char_def EncodeRune_ascii)
  next
    case 4
    have "char_of r \<noteq> quote" "char_of r \<noteq> backslash" using 4(2) sep by auto
    with 4 have "escape_byte (char_of r) @ s
        = backslash # CHR ''u'' # ''00'' @ hex_digit (r div 16) # hex_digit (r mod 16) # s"
      using b by (simp add: escape_byte_def)
    then show ?thesis using hex assms by (simp add: string_lit.simps(2))
  qed
qed

lemma string_lit_escape_rune:
  assumes "ValidRune r"
  shows "string_lit (escape_rune r @ s) = lit_cons (EncodeRune r) (string_lit s)"
proof -
  consider "r < 0x80" | "r = 0x2028 \<or> r = 0x2029" | "0x80 \<le> r" "\<not> (r = 0x2028 \<or> r = 0x2029)" by linarith
  then show ?thesis
  proof cases
    case 1
    then show ?thesis using escape_byte_read by (simp add: escape_rune_def)
  next
    case 2
    have z: "hex_value (CHR ''0'') = Some 0" "hex_value (CHR ''2'') = Some 2" by code_simp+
    have "hex_digits 4 0 (''202'' @ hex_digit (r mod 16) # s) = Ok r"
      using 2 hex_digits_4 [OF z(2,1,2) hex_value_digit [of "r mod 16"], of s] by (elim disjE) simp_all
    with 2 show ?thesis by (elim disjE) (simp_all add: escape_rune_def string_lit.simps(2))
  next
    case 3
    then obtain b c bs where e: "EncodeRune r = b # c # bs" "0x80 \<le> byte b"
      using EncodeRune_long [OF assms] by blast
    have d: "DecodeRune (b # c # bs @ s) = (r, Suc (Suc (length bs)))"
      using DecodeRune_EncodeRune [OF assms, of s] e by simp
    have "b \<noteq> quote" "b \<noteq> backslash" using e(2) by auto
    with 3 e(2) d show ?thesis by (simp add: e(1) string_lit.simps(2) escape_rune_def)
  qed
qed

lemma escape_step:
  assumes "DecodeRune x = (r, w)" and "x \<noteq> []"
  shows "\<exists>e. escape x = e @ escape (drop w x)
    \<and> (\<forall>s. string_lit (e @ s) = lit_cons (EncodeRune r) (string_lit s))"
proof -
  obtain c t where x: "x = c # t" using assms(2) by (cases x) auto
  have w: "drop w x = drop (w - 1) t" using DecodeRune_width [OF assms(2)] assms(1) x by (cases w) auto
  have v: "ValidRune r" using ValidRune_DecodeRune [of x] assms(1) by simp
  have f: "hex_value (CHR ''f'') = Some 15" "hex_value (CHR ''d'') = Some 13" by code_simp+
  have fffd: "hex_digits 4 0 (''fffd'' @ s) = Ok RuneError" for s
    using hex_digits_4 [OF f(1,1,1,2), of s] by (simp add: RuneError_def)
  consider "byte c < 0x80" | "\<not> byte c < 0x80" "r = RuneError \<and> w = 1"
    | "\<not> byte c < 0x80" "\<not> (r = RuneError \<and> w = 1)" "r = 0x2028 \<or> r = 0x2029"
    | "\<not> byte c < 0x80" "\<not> (r = RuneError \<and> w = 1)" "\<not> (r = 0x2028 \<or> r = 0x2029)" by blast
  then show ?thesis
  proof cases
    case 1
    then have "r = byte c" "w = 1" using assms(1) by (simp_all add: x DecodeRune_ascii)
    then show ?thesis using 1 escape_byte_read [of r]
      by (intro exI [of _ "escape_byte c"]) (simp add: x escape.simps(2))
  next
    case 2
    then show ?thesis using assms(1) fffd
      by (intro exI [of _ "backslash # ''ufffd''"]) (simp add: x escape.simps(2) string_lit.simps(2) RuneError_def)
  next
    case 3
    then show ?thesis using assms(1) w string_lit_escape_rune [OF v]
      by (intro exI [of _ "escape_rune r"]) (auto simp: x escape.simps(2) escape_rune_def)
  next
    case 4
    have take: "take w x = EncodeRune r" using EncodeRune_DecodeRune [OF assms 4(2)] by simp
    have "0x80 \<le> r"
    proof (rule ccontr)
      assume "\<not> 0x80 \<le> r"
      then have "take w x = [char_of r]" "byte (char_of r :: char) < 0x80" using take by (simp_all add: EncodeRune_ascii)
      then show False using 4(1) by (cases w) (auto simp: x)
    qed
    then have "escape_rune r = take w x" using 4(3) take by (simp add: escape_rune_def)
    then show ?thesis using assms(1) w string_lit_escape_rune [OF v] 4
      by (intro exI [of _ "escape_rune r"]) (simp add: x escape.simps(2))
  qed
qed

lemma string_lit_escape: "string_lit (escape x @ quote # s) = Ok (mend x, s)"
proof (induction x rule: runes.induct)
  case (1 x)
  show ?case
  proof (cases "x = []")
    case True
    then show ?thesis by (simp add: string_lit.simps(2))
  next
    case False
    obtain r w where d: "DecodeRune x = (r, w)" by fastforce
    obtain e where e: "escape x = e @ escape (drop w x)"
      "\<forall>s. string_lit (e @ s) = lit_cons (EncodeRune r) (string_lit s)"
      using escape_step [OF d False] by blast
    have "string_lit (escape (drop w x) @ quote # s) = Ok (mend (drop w x), s)"
      by (rule "1.IH" [OF False d [symmetric]])
    moreover have "mend x = EncodeRune r @ mend (drop w x)"
      using False d unfolding mend_def by (subst runes.simps) simp
    ultimately show ?thesis using e by (simp add: lit_cons_def)
  qed
qed

text \<open>What a Go program writes: numbers that are integers, and at most \<open>d\<close> open brackets.\<close>

definition int_literal :: "string \<Rightarrow> bool" where
  "int_literal n \<longleftrightarrow>
     (let d = (if n \<noteq> [] \<and> hd n = CHR ''-'' then tl n else n)
      in d = ''0'' \<or> (d \<noteq> [] \<and> hd d \<noteq> CHR ''0'' \<and> list_all is_digit d))"

text \<open>The literal of an \<open>int\<close>.\<close>

definition itoa :: "int \<Rightarrow> string" where
  "itoa i = (if i < 0 then CHR ''-'' # Itoa (nat (- i)) else Itoa (nat i))"

lemma Itoa_head: "0 < n \<Longrightarrow> hd (Itoa n) \<noteq> CHR ''0''"
proof (induction n rule: Itoa.induct)
  case (1 n)
  show ?case
  proof (cases "n < 10")
    case True
    then have "Itoa n = [digit n]" by (subst Itoa.simps) simp
    moreover have "of_char (digit n) = 48 + n" using True by (simp add: digit_def)
    ultimately show ?thesis using "1.prems" by auto
  next
    case False
    then have "Itoa n = Itoa (n div 10) @ [digit (n mod 10)]" by (subst Itoa.simps) simp
    then show ?thesis using 1 False Itoa_not_Nil by (simp add: hd_append)
  qed
qed

lemma int_literal_itoa: "int_literal (itoa i)"
proof -
  have d: "list_all is_digit (Itoa n)" for n using Itoa_isdigit by (auto simp: list_all_iff)
  have m: "hd (Itoa n) \<noteq> CHR ''-''" for n
    using Itoa_isdigit [of "hd (Itoa n)" n] Itoa_not_Nil [of n] by (auto simp: less_eq_char_def)
  have z: "Itoa 0 = ''0''" by code_simp
  show ?thesis
    using d m Itoa_head [of "nat i"] Itoa_head [of "nat (- i)"] Itoa_not_Nil z
    by (cases "i = 0") (auto simp: int_literal_def itoa_def Let_def)
qed

fun json_writable :: "nat \<Rightarrow> json \<Rightarrow> bool" where
  "json_writable d JNull = True"
| "json_writable d (JBool b) = True"
| "json_writable d (JNum n) = int_literal n"
| "json_writable d (JStr s) = True"
| "json_writable d (JArr vs) = (0 < d \<and> list_all (json_writable (d - 1)) vs)"
| "json_writable d (JObj ms) = (0 < d \<and> list_all (\<lambda>(k, v). json_writable (d - 1) v) ms)"

text \<open>What a reader gets: bytes that are no part of a rune are replaced.\<close>

fun mend_json :: "json \<Rightarrow> json" where
  "mend_json (JStr s) = JStr (mend s)"
| "mend_json (JArr vs) = JArr (map mend_json vs)"
| "mend_json (JObj ms) = JObj (map (\<lambda>(k, v). (mend k, mend_json v)) ms)"
| "mend_json v = v"

text \<open>What may follow a number.\<close>

definition stops :: "string \<Rightarrow> bool" where
  "stops s \<longleftrightarrow> s = [] \<or> (\<not> is_digit (hd s) \<and> hd s \<notin> set ''.eE'')"

lemma digits1_append:
  "d \<noteq> [] \<Longrightarrow> list_all is_digit d \<Longrightarrow> stops s \<Longrightarrow> digits1 (d @ s) = Ok (d, s)"
  by (cases d; cases s) (auto simp: digits1_def list_all_iff stops_def)

lemma number_tail: "stops s \<Longrightarrow> lit_then (fraction s) exponent = Ok ([], s)"
  by (cases s) (auto simp: stops_def fraction_def exponent_def lit_then_def lit_cons_def)

lemma number_lit_append:
  assumes "int_literal n" and "stops s"
  shows "number_lit (n @ s) = Ok (n, s)"
proof -
  have i: "int_part (d @ s) = Ok (d, s)" if "d = ''0'' \<or> (d \<noteq> [] \<and> hd d \<noteq> CHR ''0'' \<and> list_all is_digit d)" for d
    using that digits1_append assms(2) by (auto simp: int_part_def)
  have tail: "lit_then (lit_cons p (Ok (d, s))) (\<lambda>s. lit_then (fraction s) exponent) = Ok (p @ d, s)" for p d
    using number_tail [OF assms(2)] by (simp add: lit_then_def lit_cons_def)
  show ?thesis
  proof (cases "n \<noteq> [] \<and> hd n = CHR ''-''")
    case True
    then obtain d where n: "n = CHR ''-'' # d" by (cases n) auto
    then show ?thesis using assms(1) i [of d] tail [of "''-''" d] by (simp add: int_literal_def number_lit_def)
  next
    case False
    then obtain c d where n: "n = c # d" "c \<noteq> CHR ''-''"
      using assms(1) by (cases n) (auto simp: int_literal_def)
    then show ?thesis using assms(1) i [of n] tail [of "[]" n]
      by (simp add: int_literal_def number_lit_def lit_cons_def)
  qed
qed

text \<open>The text of a value starts with a byte that tells what it is.\<close>

definition starts_value :: "char \<Rightarrow> bool" where
  "starts_value c \<longleftrightarrow> byte c \<notin> {32, 9, 13, 10} \<and> c \<notin> set '']},:''"

lemma int_literal_head: "int_literal n \<Longrightarrow> \<exists>c t. n = c # t \<and> (is_digit c \<or> c = CHR ''-'')"
  by (cases n) (auto simp: int_literal_def Let_def list_all_iff split: if_splits)

lemma is_digit_starts:
  assumes "is_digit c \<or> c = CHR ''-''"
  shows "starts_value c" "c \<noteq> quote" "c \<notin> set ''{[tfn''"
  using assms by (auto simp: starts_value_def less_eq_char_def)

lemma Marshal_head: "json_writable d v \<Longrightarrow> \<exists>c t. Marshal v = c # t \<and> starts_value c"
proof (cases v)
  case (JNum n)
  then show "json_writable d v \<Longrightarrow> \<exists>c t. Marshal v = c # t \<and> starts_value c"
    using int_literal_head [of n] is_digit_starts(1) by auto
qed (auto simp: quoted_def starts_value_def)

lemma skip_space_starts: "starts_value c \<Longrightarrow> skip_space (c # t) = c # t"
  by (simp add: skip_space_def starts_value_def)

lemma parse_number:
  assumes "int_literal n" and "stops s"
  shows "parse_value fs (n @ s) = after_value fs (JNum n) s"
proof -
  obtain c t where n: "n = c # t" "is_digit c \<or> c = CHR ''-''" using int_literal_head assms(1) by blast
  note st = is_digit_starts [OF n(2)]
  have "number_lit (c # t @ s) = Ok (n, s)" using number_lit_append [OF assms] n(1) by simp
  then show ?thesis
    using st(2,3) skip_space_starts [OF st(1), of "t @ s"] unfolding n(1)
    by (subst parse_value.simps) simp
qed

text \<open>A string, an element of an array and a member of an object, in their context.\<close>

lemma parse_string: "parse_value fs (quoted x @ s) = after_value fs (JStr (mend x)) s"
proof -
  have "skip_space (quote # t) = quote # t" for t by (simp add: skip_space_starts starts_value_def)
  then show ?thesis
    using string_lit_escape by (subst parse_value.simps) (simp add: quoted_def)
qed

lemma parse_key_string:
  "parse_key fs ms (quoted k @ CHR '':'' # s) = parse_value (InObj ms (mend k) # fs) s"
proof -
  have "skip_space (quote # t) = quote # t" "skip_space (CHR '':'' # t) = CHR '':'' # t" for t
    by (simp_all add: skip_space_starts starts_value_def skip_space_def)
  then show ?thesis
    using string_lit_escape by (subst parse_key.simps) (simp add: quoted_def)
qed

lemma after_array:
  "after_value (InArr vs # fs) v (CHR '','' # s) = parse_value (InArr (vs @ [v]) # fs) s"
  "after_value (InArr vs # fs) v (CHR '']'' # s) = after_value fs (JArr (vs @ [v])) s"
  by (subst after_value.simps; simp add: skip_space_def)+

lemma after_object:
  "after_value (InObj ms k # fs) v (CHR '','' # s) = parse_key fs (ms @ [(k, v)]) s"
  "after_value (InObj ms k # fs) v (CHR ''}'' # s) = after_value fs (JObj (ms @ [(k, v)])) s"
  by (subst after_value.simps; simp add: skip_space_def)+

lemma parse_elements:
  assumes "\<And>v fs s. v \<in> set vs \<Longrightarrow> stops s \<Longrightarrow> length fs = m \<Longrightarrow>
      parse_value fs (Marshal v @ s) = after_value fs (mend_json v) s"
    and "vs \<noteq> []" and "Suc (length fs) = m"
  shows "parse_value (InArr us # fs) (join (map Marshal vs) @ CHR '']'' # s)
    = after_value fs (JArr (us @ map mend_json vs)) s"
  using assms
proof (induction vs arbitrary: us)
  case Nil
  then show ?case by simp
next
  case (Cons v vs)
  have st: "stops (CHR '']'' # s)" "stops (CHR '','' # t)" for t by (auto simp: stops_def less_eq_char_def)
  show ?case
  proof (cases vs)
    case Nil
    then show ?thesis using Cons.prems(1) [of v] st Cons.prems(3) by (simp add: after_array)
  next
    case (Cons w ws)
    have "parse_value (InArr us # fs) (Marshal v @ CHR '','' # join (map Marshal vs) @ CHR '']'' # s)
        = parse_value (InArr (us @ [mend_json v]) # fs) (join (map Marshal vs) @ CHR '']'' # s)"
      using Cons.prems(1) [of v] st Cons.prems(3) by (simp add: after_array)
    also have "\<dots> = after_value fs (JArr ((us @ [mend_json v]) @ map mend_json vs)) s"
      by (rule Cons.IH) (use Cons.prems Cons in auto)
    finally show ?thesis using Cons by simp
  qed
qed

abbreviation member :: "string \<times> json \<Rightarrow> string" where
  "member m \<equiv> (case m of (k, v) \<Rightarrow> quoted k @ CHR '':'' # Marshal v)"

lemma parse_members:
  assumes "\<And>k v fs s. (k, v) \<in> set ms \<Longrightarrow> stops s \<Longrightarrow> length fs = m \<Longrightarrow>
      parse_value fs (Marshal v @ s) = after_value fs (mend_json v) s"
    and "ms \<noteq> []" and "Suc (length fs) = m"
  shows "parse_key fs us (join (map member ms) @ CHR ''}'' # s)
    = after_value fs (JObj (us @ map (\<lambda>(k, v). (mend k, mend_json v)) ms)) s"
  using assms
proof (induction ms arbitrary: us)
  case Nil
  then show ?case by simp
next
  case (Cons p ms)
  obtain k v where p: "p = (k, v)" by fastforce
  have st: "stops (CHR ''}'' # s)" "stops (CHR '','' # t)" for t by (auto simp: stops_def less_eq_char_def)
  have one: "parse_key fs us (member p @ t) = after_value (InObj us (mend k) # fs) (mend_json v) t" if "stops t" for t
    using Cons.prems(1) [of k v t "InObj us (mend k) # fs"] Cons.prems(3) that parse_key_string by (simp add: p)
  show ?case
  proof (cases ms)
    case Nil
    then show ?thesis using one [OF st(1)] by (simp add: p after_object)
  next
    case (Cons q qs)
    have "parse_key fs us (member p @ CHR '','' # join (map member ms) @ CHR ''}'' # s)
        = parse_key fs (us @ [(mend k, mend_json v)]) (join (map member ms) @ CHR ''}'' # s)"
      using one [OF st(2)] by (simp add: after_object)
    also have "\<dots> = after_value fs (JObj ((us @ [(mend k, mend_json v)])
        @ map (\<lambda>(k, v). (mend k, mend_json v)) ms)) s"
      by (rule Cons.IH) (use Cons.prems Cons in auto)
    finally show ?thesis using Cons by (simp add: p)
  qed
qed

lemma parse_Marshal:
  "json_writable (10000 - length fs) v \<Longrightarrow> stops s \<Longrightarrow> parse_value fs (Marshal v @ s) = after_value fs (mend_json v) s"
proof (induction v arbitrary: fs s)
  case JNull
  then show ?case by (subst parse_value.simps) (simp add: skip_space_def)
next
  case (JBool b)
  then show ?case by (cases b; subst parse_value.simps) (simp_all add: skip_space_def)
next
  case (JNum n)
  then show ?case by (simp add: parse_number)
next
  case (JStr x)
  then show ?case by (simp add: parse_string)
next
  case (JArr vs)
  have deep: "\<not> too_deep fs" using JArr.prems(1) by (simp add: too_deep_def)
  have sk: "skip_space (CHR ''['' # t) = CHR ''['' # t" "skip_space (CHR '']'' # t) = CHR '']'' # t" for t
    by (simp_all add: skip_space_def)
  show ?case
  proof (cases vs)
    case Nil
    then show ?thesis using deep by (subst parse_value.simps) (simp add: sk)
  next
    case (Cons v ws)
    then obtain c t where h: "Marshal v = c # t" "starts_value c"
      using Marshal_head JArr.prems(1) by fastforce
    obtain t' where j: "join (map Marshal vs) @ CHR '']'' # s = c # t'"
      using h(1) Cons by (cases ws) auto
    have "parse_value fs (Marshal (JArr vs) @ s) = parse_value (InArr [] # fs) (c # t')"
      using deep h(2) skip_space_starts [OF h(2), of t']
      by (subst parse_value.simps) (simp add: sk j, simp add: starts_value_def)
    also have "\<dots> = parse_value (InArr [] # fs) (join (map Marshal vs) @ CHR '']'' # s)" by (simp only: j)
    also have "\<dots> = after_value fs (JArr ([] @ map mend_json vs)) s"
      by (rule parse_elements [where m = "Suc (length fs)"])
        (use JArr Cons in \<open>auto simp: list_all_iff\<close>)
    finally show ?thesis by simp
  qed
next
  case (JObj ms)
  have deep: "\<not> too_deep fs" using JObj.prems(1) by (simp add: too_deep_def)
  have sk: "skip_space (CHR ''{'' # t) = CHR ''{'' # t" "skip_space (CHR ''}'' # t) = CHR ''}'' # t"
      "skip_space (quote # t) = quote # t" for t
    by (simp_all add: skip_space_def)
  show ?case
  proof (cases ms)
    case Nil
    then show ?thesis using deep by (subst parse_value.simps) (simp add: sk)
  next
    case (Cons p qs)
    obtain t' where j: "join (map member ms) @ CHR ''}'' # s = quote # t'"
      using Cons by (cases p; cases qs) (auto simp: quoted_def)
    have "parse_value fs (Marshal (JObj ms) @ s) = parse_key fs [] (quote # t')"
      using deep by (subst parse_value.simps) (simp add: sk j)
    also have "\<dots> = parse_key fs [] (join (map member ms) @ CHR ''}'' # s)" by (simp only: j)
    also have "\<dots> = after_value fs (JObj ([] @ map (\<lambda>(k, v). (mend k, mend_json v)) ms)) s"
    proof (rule parse_members [where m = "Suc (length fs)"])
      fix k v t and gs :: "frame list" assume m: "(k, v) \<in> set ms" "stops t" "length gs = Suc (length fs)"
      have "json_writable (10000 - length gs) v" using JObj.prems(1) m(1,3) by (auto simp: list_all_iff)
      with JObj.IH [OF m(1), of v gs t] m(2) show "parse_value gs (Marshal v @ t) = after_value gs (mend_json v) t"
        by simp
    qed (use Cons in simp_all)
    finally show ?thesis by simp
  qed
qed

text \<open>Reading a text gives back the value that was written, whatever follows it.\<close>

lemma Decode_Encode:
  assumes "json_writable 10000 v"
  shows "Decode (Encode v @ s) = Ok (mend_json v)"
proof -
  have st: "stops (CHR 0x0A # s)" by (simp add: stops_def less_eq_char_def)
  have "parse_value [] (Encode v @ s) = after_value [] (mend_json v) (CHR 0x0A # s)"
    using parse_Marshal [of "[]" v, OF _ st] assms by (simp add: Encode_def)
  moreover have "after_value [] (mend_json v) (CHR 0x0A # s) = Ok (mend_json v, CHR 0x0A # s)" by (subst after_value.simps) simp
  moreover obtain c t where "Marshal v = c # t" "starts_value c" using Marshal_head [OF assms] by blast
  ultimately show ?thesis
    using skip_space_starts [of c "t @ CHR 0x0A # s"] by (simp add: Decode_def Encode_def)
qed

lemma Decode_Marshal:
  assumes "json_writable 10000 v"
  shows "Decode (Marshal v) = Ok (mend_json v)"
proof -
  have st: "stops []" by (simp add: stops_def)
  have "parse_value [] (Marshal v) = after_value [] (mend_json v) []"
    using parse_Marshal [of "[]" v, OF _ st] assms by simp
  moreover have "after_value [] (mend_json v) [] = Ok (mend_json v, [])" by (subst after_value.simps) simp
  moreover obtain c t where "Marshal v = c # t" "starts_value c" using Marshal_head [OF assms] by blast
  ultimately show ?thesis using skip_space_starts [of c t] by (simp add: Decode_def)
qed

end
