(* ===== verification/Errno.thy ===== *)
theory Errno
  imports Json
begin

text \<open>
  The error values for HTTP of \<^verbatim>\<open>internal/errno\<close>. They are package variables of pointer type, and every call of
  \<open>WithData\<close> and \<open>WithID\<close> changes the object behind the pointer, so the objects are a store, named by their
  position in it. \<open>Data\<close> has type \<open>interface{}\<close>: nothing, or a value as JSON shows it.
\<close>

text \<open>A literal of the source, by its runes.\<close>

definition utf8 :: "nat list \<Rightarrow> string" where
  "utf8 rs = concat (map EncodeRune rs)"

record err =
  ErrNo :: int
  ErrMsg :: string
  Data :: "json option"
  ID :: string

type_synonym err_store = "err list"

definition NewError :: "int \<Rightarrow> string \<Rightarrow> (err_store, nat) go" where
  "NewError errno errmsg h =
     (Ok (length h), h @ [\<lparr> ErrNo = errno, ErrMsg = errmsg, Data = None, ID = [] \<rparr>])"

text \<open>A method of the pointer \<open>e\<close>, which gives the pointer back.\<close>

definition err_method :: "(err \<Rightarrow> err) \<Rightarrow> nat \<Rightarrow> (err_store, nat) go" where
  "err_method f e h = (if e < length h then (Ok e, h[e := f (h ! e)]) else (Panic NilDereference, h))"

definition WithData :: "json option \<Rightarrow> nat \<Rightarrow> (err_store, nat) go" where
  "WithData data = err_method (\<lambda>e. e\<lparr>Data := data\<rparr>)"

definition WithID :: "string \<Rightarrow> nat \<Rightarrow> (err_store, nat) go" where
  "WithID i = err_method (\<lambda>e. e\<lparr>ID := i\<rparr>)"

text \<open>The JSON of an error: \<open>data\<close> and \<open>id\<close> are left out when they are empty.\<close>

definition err_json :: "err \<Rightarrow> json" where
  "err_json e =
     JObj ([(''errno'', JNum (itoa (ErrNo e))), (''errmsg'', JStr (ErrMsg e))]
       @ (case Data e of None \<Rightarrow> [] | Some d \<Rightarrow> [(''data'', d)])
       @ (if ID e = [] then [] else [(''id'', JStr (ID e))]))"

definition err_String :: "nat \<Rightarrow> (err_store, string) go" where
  "err_String e h = (if e < length h then (Ok (Marshal (err_json (h ! e))), h) else (Panic NilDereference, h))"

section \<open>The codes\<close>

text \<open>The variables of \<^verbatim>\<open>code.go\<close>, in the order of their initialisation.\<close>

abbreviation (input) ErrOK :: nat where "ErrOK \<equiv> 0"
abbreviation (input) ErrServer :: nat where "ErrServer \<equiv> 1"
abbreviation (input) ErrParam :: nat where "ErrParam \<equiv> 2"
abbreviation (input) ErrSignParam :: nat where "ErrSignParam \<equiv> 3"
abbreviation (input) ErrUserPhone :: nat where "ErrUserPhone \<equiv> 4"
abbreviation (input) ErrUserCaptcha :: nat where "ErrUserCaptcha \<equiv> 5"

definition errno_codes :: "(int \<times> string) list" where
  "errno_codes =
     [(0, ''OK''),
      (1000001, utf8 [0x670D, 0x52A1, 0x5F02, 0x5E38]),
      (1000002, utf8 [0x53C2, 0x6570, 0x6709, 0x8BEF]),
      (1000003, utf8 [0x7B7E, 0x540D, 0x53C2, 0x6570, 0x6709, 0x8BEF]),
      (2010001, utf8 [0x7528, 0x6237, 0x624B, 0x673A, 0x53F7, 0x4E0D, 0x5408, 0x6CD5]),
      (2010002, utf8 [0x7528, 0x6237, 0x9A8C, 0x8BC1, 0x7801, 0x6709, 0x8BEF])]"

definition errno_init :: err_store where
  "errno_init = fold (\<lambda>(n, m) h. snd (NewError n m h)) errno_codes []"

lemma errno_init_eq:
  "errno_init = map (\<lambda>(n, m). \<lparr> ErrNo = n, ErrMsg = m, Data = None, ID = [] \<rparr>) errno_codes"
  by (simp add: errno_init_def errno_codes_def NewError_def)

lemma length_errno_init [simp]: "length errno_init = 6"
  by (simp add: errno_init_eq errno_codes_def)

text \<open>A client that decodes the text gets every field of the error back.\<close>

lemma err_text_decoded:
  assumes "\<And>d. Data e = Some d \<Longrightarrow> json_writable 9999 d"
  shows "Decode (Marshal (err_json e)) = Ok (mend_json (err_json e))"
  by (rule Decode_Marshal) (use assms int_literal_itoa in \<open>auto simp: err_json_def split: option.split\<close>)

end
