(* ===== verification/HookServer.thy ===== *)
theory HookServer
  imports Errno
begin

text \<open>
  The HTTP hook server of \<^verbatim>\<open>internal/srshookserver\<close>. Its engine is gin: an engine is the middlewares and the
  routes that were registered, in that order; a route runs the middlewares registered before it and then its
  handler. How gin finds the route of a request is the argument \<open>route\<close>, \<^verbatim>\<open>google/uuid\<close> the sequence \<open>uuid\<close> of the
  identifiers it will draw, and \<open>listen\<close> the error with which the engine stops serving.
\<close>

section \<open>Handlers\<close>

datatype hook_handler = TraceID | Ping | Publish

record gin_engine =
  gin_Use :: "hook_handler list"
  gin_routes :: "((string \<times> string) \<times> hook_handler list) list"

record gin_context =
  ctx_keys :: "(string \<times> string) list"
  ctx_header :: "(string \<times> string) list"
  ctx_status :: nat
  ctx_body :: string

record hook_state =
  hs_errs :: err_store
  hs_uuids :: nat

type_synonym 'a hook = "(hook_state \<times> gin_context, 'a) go"

text \<open>\<open>c.JSON(code, e)\<close> for an error value.\<close>

definition ctx_JSON :: "nat \<Rightarrow> nat \<Rightarrow> unit hook" where
  "ctx_JSON code e st =
     (case err_String e (hs_errs (fst st)) of
        (Ok b, h) \<Rightarrow> (Ok (), ((fst st)\<lparr>hs_errs := h\<rparr>, (snd st)\<lparr>ctx_status := code, ctx_body := b\<rparr>))
      | (Err x, h) \<Rightarrow> (Panic (Explicit x), st)
      | (Panic p, h) \<Rightarrow> (Panic p, st))"

definition on_errs :: "(err_store, 'a) go \<Rightarrow> 'a hook" where
  "on_errs m st = (case m (hs_errs (fst st)) of (r, h) \<Rightarrow> (r, ((fst st)\<lparr>hs_errs := h\<rparr>, snd st)))"

definition hook_traceID :: "(nat \<Rightarrow> string) \<Rightarrow> unit hook" where
  "hook_traceID uuid st =
     (let traceId = uuid (hs_uuids (fst st))
      in (Ok (), ((fst st)\<lparr>hs_uuids := Suc (hs_uuids (fst st))\<rparr>,
                  (snd st)\<lparr>ctx_keys := (''trace-id'', traceId) # ctx_keys (snd st),
                           ctx_header := (''X-Request-Id'', traceId) # ctx_header (snd st)\<rparr>)))"

definition hook_ping :: "unit hook" where
  "hook_ping = go_bind (on_errs (WithData (Some (JStr ''pong'')) ErrOK)) (\<lambda>e. ctx_JSON 200 e)"

definition hook_publish :: "unit hook" where
  "hook_publish = ctx_JSON 200 ErrServer"

fun run_handler :: "(nat \<Rightarrow> string) \<Rightarrow> hook_handler \<Rightarrow> unit hook" where
  "run_handler uuid TraceID = hook_traceID uuid"
| "run_handler uuid Ping = hook_ping"
| "run_handler uuid Publish = hook_publish"

fun run_handlers :: "(nat \<Rightarrow> string) \<Rightarrow> hook_handler list \<Rightarrow> unit hook" where
  "run_handlers uuid [] = go_return ()"
| "run_handlers uuid (h # hs) = go_bind (run_handler uuid h) (\<lambda>_. run_handlers uuid hs)"

section \<open>The server\<close>

record api_entry =
  api_method :: string
  api_url :: string
  api_handler :: hook_handler

record hook_server =
  listenAddr :: string
  enginName :: string
  gin_mode :: string
  engine :: "gin_engine option"

definition hook_New :: "string \<Rightarrow> string \<Rightarrow> string \<Rightarrow> hook_server" where
  "hook_New addr name m = \<lparr> listenAddr = addr, enginName = name, gin_mode = m, engine = None \<rparr>"

definition gin_New :: gin_engine where
  "gin_New = \<lparr> gin_Use = [], gin_routes = [] \<rparr>"

text \<open>\<open>gin.SetMode\<close> panics for a mode it does not know.\<close>

definition gin_SetMode :: "string \<Rightarrow> ('s, unit) go" where
  "gin_SetMode m =
     (if m \<in> {''debug'', '''', ''release'', ''test''} then go_return ()
      else go_panic (Explicit (Msg (''gin mode unknown: '' @ m))))"

definition setHttpEngine :: "(hook_server, gin_engine option) go" where
  "setHttpEngine s =
     (if enginName s = ''gin'' then
        go_bind (gin_SetMode (gin_mode s))
          (\<lambda>_ s. (Ok (Some gin_New), s\<lparr>engine := Some gin_New\<rparr>)) s
      else (Ok None, s))"

definition gin_add :: "string \<Rightarrow> api_entry \<Rightarrow> gin_engine \<Rightarrow> gin_engine" where
  "gin_add m a r =
     r\<lparr>gin_routes := gin_routes r @ [((m, api_url a), gin_Use r @ [api_handler a])]\<rparr>"

definition hook_apis :: "api_entry list" where
  "hook_apis =
     [\<lparr> api_method = ''GET'', api_url = ''/ping'', api_handler = Ping \<rparr>,
      \<lparr> api_method = ''POST'', api_url = ''/v1/publish'', api_handler = Publish \<rparr>]"

definition register_api :: "api_entry \<Rightarrow> gin_engine \<Rightarrow> gin_engine" where
  "register_api a r =
     (if api_method a = ''GET'' \<or> api_method a = ''POST'' then gin_add (api_method a) a r else r)"

definition setRouterForGin :: "gin_engine \<Rightarrow> gin_engine" where
  "setRouterForGin r = fold register_api hook_apis (r\<lparr>gin_Use := gin_Use r @ [TraceID]\<rparr>)"

text \<open>
  \<open>Run\<close>: an error ends the process, because \<open>logrus.Fatal\<close> does. \<open>listen\<close> says with what error, if any,
  the engine stops that was set up.
\<close>

datatype run_end = Exit go_error | Returned

definition hook_Run :: "(gin_engine \<Rightarrow> string \<Rightarrow> go_error option) \<Rightarrow> (hook_server, run_end) go" where
  "hook_Run listen =
     go_bind setHttpEngine (\<lambda>e s.
       (let err = (case e of
                     Some r \<Rightarrow> listen (setRouterForGin r) (listenAddr s)
                   | None \<Rightarrow> Some (Msg ''unsupport''))
        in (Ok (case err of Some x \<Rightarrow> Exit x | None \<Rightarrow> Returned), s)))"

text \<open>The program \<^verbatim>\<open>cmd/srsHook\<close>.\<close>

definition srsHook_main :: "(gin_engine \<Rightarrow> string \<Rightarrow> go_error option) \<Rightarrow> run_end res" where
  "srsHook_main listen = fst (hook_Run listen (hook_New '':6666'' ''gin'' ''release''))"

lemma hook_Run_ends:
  "hook_Run listen (hook_New addr name m) =
     (if name \<noteq> ''gin'' then (Ok (Exit (Msg ''unsupport'')), hook_New addr name m)
      else if m \<notin> {''debug'', [], ''release'', ''test''}
        then (Panic (Explicit (Msg (''gin mode unknown: '' @ m))), hook_New addr name m)
      else (Ok (case listen (setRouterForGin gin_New) addr of Some x \<Rightarrow> Exit x | None \<Rightarrow> Returned),
            (hook_New addr name m)\<lparr>engine := Some gin_New\<rparr>))"
  by (auto simp: hook_Run_def setHttpEngine_def hook_New_def gin_SetMode_def go_bind_def go_return_def
      go_panic_def)

lemma srsHook_main_ends:
  "srsHook_main listen
     = Ok (case listen (setRouterForGin gin_New) '':6666'' of Some x \<Rightarrow> Exit x | None \<Rightarrow> Returned)"
  by (simp add: srsHook_main_def hook_Run_ends)

section \<open>Requests\<close>

text \<open>gin gives the handlers of a request and the status they start with.\<close>

type_synonym gin_route = "gin_engine \<Rightarrow> string \<times> string \<Rightarrow> hook_handler list \<times> nat"

definition hook_request :: "gin_route \<Rightarrow> (nat \<Rightarrow> string) \<Rightarrow> gin_engine \<Rightarrow> string \<times> string
    \<Rightarrow> (hook_state, gin_context) go" where
  "hook_request route uuid r req st =
     (case route r req of (hs, code) \<Rightarrow>
        (case run_handlers uuid hs (st, \<lparr> ctx_keys = [], ctx_header = [], ctx_status = code, ctx_body = [] \<rparr>) of
           (Ok _, (st', c)) \<Rightarrow> (Ok c, st')
         | (Err e, (st', c)) \<Rightarrow> (Err e, st')
         | (Panic p, (st', c)) \<Rightarrow> (Panic p, st')))"

fun hook_requests :: "gin_route \<Rightarrow> (nat \<Rightarrow> string) \<Rightarrow> gin_engine \<Rightarrow> (string \<times> string) list
    \<Rightarrow> (hook_state, gin_context list) go" where
  "hook_requests route uuid r [] = go_return []"
| "hook_requests route uuid r (q # qs) =
     go_bind (hook_request route uuid r q) (\<lambda>c.
     go_bind (hook_requests route uuid r qs) (\<lambda>cs. go_return (c # cs)))"

definition hook_start :: hook_state where
  "hook_start = \<lparr> hs_errs = errno_init, hs_uuids = 0 \<rparr>"

text \<open>
  What gin documents of routes without parameters: when no two have the same method and path, a request for
  one of them runs its handlers.
\<close>

definition static_routes :: "gin_route \<Rightarrow> bool" where
  "static_routes route \<longleftrightarrow>
     (\<forall>r q hs. distinct (map fst (gin_routes r)) \<longrightarrow> (q, hs) \<in> set (gin_routes r) \<longrightarrow> route r q = (hs, 200))"

section \<open>What the server answers\<close>

text \<open>The replies that the two routes promise.\<close>

definition hook_reply :: "string \<times> string \<Rightarrow> json option" where
  "hook_reply q =
     (if q = (''GET'', ''/ping'') then
        Some (JObj [(''errno'', JNum ''0''), (''errmsg'', JStr ''OK''), (''data'', JStr ''pong'')])
      else if q = (''POST'', ''/v1/publish'') then
        Some (JObj [(''errno'', JNum ''1000001''), (''errmsg'', JStr (utf8 [0x670D, 0x52A1, 0x5F02, 0x5E38]))])
      else None)"

text \<open>The only two states of the error values.\<close>

definition pong_store :: err_store where
  "pong_store = errno_init[ErrOK := (errno_init ! ErrOK)\<lparr>Data := Some (JStr ''pong'')\<rparr>]"

definition errs_ok :: "err_store \<Rightarrow> bool" where
  "errs_ok h \<longleftrightarrow> h = errno_init \<or> h = pong_store"

lemma errs_ok_Data: "errs_ok h \<Longrightarrow> h[ErrOK := (h ! ErrOK)\<lparr>Data := Some (JStr ''pong'')\<rparr>] = pong_store"
  by (auto simp: errs_ok_def pong_store_def)

lemma errs_ok_init [simp]: "errs_ok errno_init" and errs_ok_pong [simp]: "errs_ok pong_store"
  by (simp_all add: errs_ok_def)

lemma errs_ok_length: "errs_ok h \<Longrightarrow> length h = 6"
  by (auto simp: errs_ok_def pong_store_def)

lemma itoa_codes: "itoa 0 = ''0''" "itoa 1000001 = ''1000001''"
proof -
  have "char_of (48 :: nat) = CHR ''0''" "char_of (49 :: nat) = CHR ''1''" by code_simp+
  then show "itoa 0 = ''0''" "itoa 1000001 = ''1000001''" by (simp_all add: itoa_def Itoa.simps digit_def)
qed

lemma err_json_ErrServer:
  "errs_ok h \<Longrightarrow> err_json (h ! ErrServer)
     = JObj [(''errno'', JNum ''1000001''), (''errmsg'', JStr (utf8 [0x670D, 0x52A1, 0x5F02, 0x5E38]))]"
  by (auto simp: errs_ok_def pong_store_def errno_init_eq errno_codes_def err_json_def itoa_codes)

lemma err_json_pong:
  "err_json (pong_store ! ErrOK)
     = JObj [(''errno'', JNum ''0''), (''errmsg'', JStr ''OK''), (''data'', JStr ''pong'')]"
  by (simp add: pong_store_def errno_init_eq errno_codes_def err_json_def itoa_codes)

lemma ctx_JSON_Ok:
  "e < length (hs_errs s) \<Longrightarrow>
     ctx_JSON code e (s, c) = (Ok (), (s, c\<lparr>ctx_status := code, ctx_body := Marshal (err_json (hs_errs s ! e))\<rparr>))"
  by (simp add: ctx_JSON_def err_String_def)

lemma hook_ping_Ok:
  assumes "errs_ok (hs_errs s)"
  shows "hook_ping (s, c) = (Ok (), (s\<lparr>hs_errs := pong_store\<rparr>,
     c\<lparr>ctx_status := 200, ctx_body := Marshal (err_json (pong_store ! ErrOK))\<rparr>))"
proof -
  have "WithData (Some (JStr ''pong'')) ErrOK (hs_errs s) = (Ok ErrOK, pong_store)"
    using errs_ok_Data [OF assms] errs_ok_length [OF assms] by (simp add: WithData_def err_method_def)
  moreover have "length pong_store = 6" by (rule errs_ok_length) simp
  ultimately show ?thesis by (simp add: hook_ping_def go_bind_def on_errs_def ctx_JSON_Ok)
qed

lemma hook_publish_Ok:
  "errs_ok (hs_errs s) \<Longrightarrow> hook_publish (s, c)
     = (Ok (), (s, c\<lparr>ctx_status := 200, ctx_body := Marshal (err_json (hs_errs s ! ErrServer))\<rparr>))"
  by (simp add: hook_publish_def ctx_JSON_Ok errs_ok_length)

text \<open>Whatever handlers run, they succeed, keep the error values in their two states, and do not go back in the
  sequence of identifiers.\<close>

lemma run_handlers_ok:
  "errs_ok (hs_errs s) \<Longrightarrow> \<exists>s' c'. run_handlers uuid hs (s, c) = (Ok (), (s', c'))
     \<and> errs_ok (hs_errs s') \<and> hs_uuids s \<le> hs_uuids s' \<and> (hs_errs s = pong_store \<longrightarrow> hs_errs s' = pong_store)"
proof (induction hs arbitrary: s c)
  case Nil
  then show ?case by (simp add: go_return_def)
next
  case (Cons h hs)
  have "\<exists>s' c'. run_handler uuid h (s, c) = (Ok (), (s', c')) \<and> errs_ok (hs_errs s') \<and> hs_uuids s \<le> hs_uuids s'
      \<and> (hs_errs s = pong_store \<longrightarrow> hs_errs s' = pong_store)"
    using Cons.prems by (cases h) (simp_all add: hook_traceID_def Let_def hook_ping_Ok hook_publish_Ok)
  then obtain s1 c1 where 1: "run_handler uuid h (s, c) = (Ok (), (s1, c1))" "errs_ok (hs_errs s1)"
    "hs_uuids s \<le> hs_uuids s1" "hs_errs s = pong_store \<longrightarrow> hs_errs s1 = pong_store" by blast
  obtain s2 c2 where 2: "run_handlers uuid hs (s1, c1) = (Ok (), (s2, c2))" "errs_ok (hs_errs s2)"
    "hs_uuids s1 \<le> hs_uuids s2" "hs_errs s1 = pong_store \<longrightarrow> hs_errs s2 = pong_store" using Cons.IH [OF 1(2)] by blast
  have "run_handlers uuid (h # hs) (s, c) = (Ok (), (s2, c2))" by (simp add: go_bind_def 1(1) 2(1))
  with 1 2 show ?case by auto
qed

lemma hook_router:
  "gin_routes (setRouterForGin gin_New)
     = [((''GET'', ''/ping''), [TraceID, Ping]), ((''POST'', ''/v1/publish''), [TraceID, Publish])]"
  by (simp add: setRouterForGin_def gin_New_def hook_apis_def register_api_def gin_add_def)

text \<open>What one request does: \<open>k\<close> and \<open>k'\<close> are the next identifiers before and after it.\<close>

definition answers :: "(nat \<Rightarrow> string) \<Rightarrow> nat \<Rightarrow> nat \<Rightarrow> string \<times> string \<Rightarrow> gin_context \<Rightarrow> bool" where
  "answers uuid k k' q c \<longleftrightarrow>
     (case hook_reply q of
        None \<Rightarrow> True
      | Some v \<Rightarrow> ctx_status c = 200 \<and> ctx_body c = Marshal v \<and> k' = Suc k
          \<and> ctx_header c = [(''X-Request-Id'', uuid k)] \<and> ctx_keys c = [(''trace-id'', uuid k)])"

lemma hook_request_ok:
  assumes "static_routes route" and ok: "errs_ok (hs_errs s)"
  shows "\<exists>c s'. hook_request route uuid (setRouterForGin gin_New) q s = (Ok c, s') \<and> errs_ok (hs_errs s')
    \<and> hs_uuids s \<le> hs_uuids s' \<and> answers uuid (hs_uuids s) (hs_uuids s') q c
    \<and> (hs_errs s = pong_store \<or> q = (''GET'', ''/ping'') \<longrightarrow> hs_errs s' = pong_store)"
proof -
  let ?r = "setRouterForGin gin_New"
  have d: "distinct (map fst (gin_routes ?r))" by (simp add: hook_router)
  have rt: "route ?r q = (hs, 200)" if "(q, hs) \<in> set (gin_routes ?r)" for hs
    using assms(1) d that unfolding static_routes_def by blast
  consider "q = (''GET'', ''/ping'')" | "q = (''POST'', ''/v1/publish'')" | "hook_reply q = None" "q \<noteq> (''GET'', ''/ping'')"
    by (cases "q = (''GET'', ''/ping'')"; cases "q = (''POST'', ''/v1/publish'')") (auto simp: hook_reply_def)
  then show ?thesis
  proof cases
    case 1
    have r: "route ?r (''GET'', ''/ping'') = ([TraceID, Ping], 200)"
      using rt [of "[TraceID, Ping]"] by (simp add: hook_router 1)
    show ?thesis
      by (simp add: hook_request_def r go_bind_def hook_traceID_def Let_def hook_ping_Ok ok go_return_def
          answers_def hook_reply_def 1 err_json_pong)
  next
    case 2
    have r: "route ?r (''POST'', ''/v1/publish'') = ([TraceID, Publish], 200)"
      using rt [of "[TraceID, Publish]"] by (simp add: hook_router 2)
    show ?thesis
      by (simp add: hook_request_def r go_bind_def hook_traceID_def Let_def hook_publish_Ok ok go_return_def
          answers_def hook_reply_def 2 err_json_ErrServer [OF ok, simplified])
  next
    case 3
    obtain hs code where r: "route ?r q = (hs, code)" by fastforce
    let ?c = "\<lparr> ctx_keys = [], ctx_header = [], ctx_status = code, ctx_body = [] \<rparr>"
    obtain s' c' where h: "run_handlers uuid hs (s, ?c) = (Ok (), (s', c'))" "errs_ok (hs_errs s')"
      "hs_uuids s \<le> hs_uuids s'" "hs_errs s = pong_store \<longrightarrow> hs_errs s' = pong_store"
      using run_handlers_ok [OF ok, of uuid hs ?c] by blast
    have "hook_request route uuid ?r q s = (Ok c', s')" by (simp add: hook_request_def r h(1))
    with h(2-4) 3 show ?thesis by (auto simp: answers_def)
  qed
qed

text \<open>A sequence of requests: each is answered, from some identifier on, and no two with the same one.\<close>

definition all_answered :: "(nat \<Rightarrow> string) \<Rightarrow> nat \<Rightarrow> (string \<times> string) list \<Rightarrow> gin_context list \<Rightarrow> bool" where
  "all_answered uuid k qs cs \<longleftrightarrow> length cs = length qs
     \<and> (\<forall>i < length qs. \<forall>v. hook_reply (qs ! i) = Some v \<longrightarrow>
          ctx_status (cs ! i) = 200 \<and> ctx_body (cs ! i) = Marshal v
          \<and> (\<exists>k' \<ge> k. ctx_header (cs ! i) = [(''X-Request-Id'', uuid k')]
               \<and> ctx_keys (cs ! i) = [(''trace-id'', uuid k')])
          \<and> (\<forall>j < i. hook_reply (qs ! j) \<noteq> None \<longrightarrow> ctx_header (cs ! j) \<noteq> ctx_header (cs ! i)))"

lemma all_answered_Nil: "all_answered uuid k [] []"
  by (simp add: all_answered_def)

lemma all_answered_Cons:
  assumes "inj uuid" and "answers uuid k k' q c" and "k \<le> k'" and "all_answered uuid k' qs cs"
  shows "all_answered uuid k (q # qs) (c # cs)"
proof -
  note rest = assms(4) [unfolded all_answered_def]
  show ?thesis
    unfolding all_answered_def
  proof (intro conjI allI impI)
    show "length (c # cs) = length (q # qs)" using rest by simp
  next
    fix i v assume i: "i < length (q # qs)" and v: "hook_reply ((q # qs) ! i) = Some v"
    show "ctx_status ((c # cs) ! i) = 200" "ctx_body ((c # cs) ! i) = Marshal v"
      using i v rest assms(2) by (cases i; simp add: answers_def)+
    show "\<exists>m \<ge> k. ctx_header ((c # cs) ! i) = [(''X-Request-Id'', uuid m)]
        \<and> ctx_keys ((c # cs) ! i) = [(''trace-id'', uuid m)]"
    proof (cases i)
      case 0
      with v assms(2) show ?thesis by (auto simp: answers_def)
    next
      case (Suc n)
      with i v rest obtain m where "m \<ge> k'" "ctx_header (cs ! n) = [(''X-Request-Id'', uuid m)]"
        "ctx_keys (cs ! n) = [(''trace-id'', uuid m)]" by force
      with Suc assms(3) show ?thesis by (intro exI [of _ m]) simp
    qed
    fix j assume j: "j < i" and w: "hook_reply ((q # qs) ! j) \<noteq> None"
    obtain n where n: "i = Suc n" using j by (cases i) auto
    obtain m where m: "m \<ge> k'" "ctx_header (cs ! n) = [(''X-Request-Id'', uuid m)]" using i v rest n by force
    show "ctx_header ((c # cs) ! j) \<noteq> ctx_header ((c # cs) ! i)"
    proof (cases j)
      case 0
      with w assms(2) have "ctx_header c = [(''X-Request-Id'', uuid k)]" "k' = Suc k" by (auto simp: answers_def)
      with m 0 n assms(1) show ?thesis by (auto dest: injD)
    next
      case (Suc l)
      with i j v w n rest show ?thesis by force
    qed
  qed
qed

lemma hook_requests_ok:
  assumes "static_routes route" and "inj uuid"
  shows "errs_ok (hs_errs s) \<Longrightarrow>
    \<exists>cs s'. hook_requests route uuid (setRouterForGin gin_New) qs s = (Ok cs, s') \<and> errs_ok (hs_errs s')
      \<and> all_answered uuid (hs_uuids s) qs cs
      \<and> (hs_errs s = pong_store \<or> (''GET'', ''/ping'') \<in> set qs \<longrightarrow> hs_errs s' = pong_store)"
proof (induction qs arbitrary: s)
  case Nil
  then show ?case by (auto simp: go_return_def all_answered_Nil)
next
  case (Cons q qs)
  let ?r = "setRouterForGin gin_New"
  obtain c s1 where 1: "hook_request route uuid ?r q s = (Ok c, s1)" "errs_ok (hs_errs s1)"
    "hs_uuids s \<le> hs_uuids s1" "answers uuid (hs_uuids s) (hs_uuids s1) q c"
    "hs_errs s = pong_store \<or> q = (''GET'', ''/ping'') \<longrightarrow> hs_errs s1 = pong_store"
    using hook_request_ok [OF assms(1) Cons.prems] by blast
  obtain cs s2 where 2: "hook_requests route uuid ?r qs s1 = (Ok cs, s2)" "errs_ok (hs_errs s2)"
    "all_answered uuid (hs_uuids s1) qs cs"
    "hs_errs s1 = pong_store \<or> (''GET'', ''/ping'') \<in> set qs \<longrightarrow> hs_errs s2 = pong_store"
    using Cons.IH [OF 1(2)] by blast
  have "hook_requests route uuid ?r (q # qs) s = (Ok (c # cs), s2)"
    by (simp add: go_bind_def 1(1) 2(1) go_return_def)
  moreover have "all_answered uuid (hs_uuids s) (q # qs) (c # cs)"
    by (rule all_answered_Cons [OF assms(2) 1(4,3) 2(3)])
  ultimately show ?case using 1(5) 2(2,4) by auto
qed

lemma hook_reply_decoded:
  assumes "hook_reply q = Some v"
  shows "Decode (Marshal v) = Ok v"
proof -
  have "ascii ''errno''" "ascii ''errmsg''" "ascii ''data''" "ascii ''OK''" "ascii ''pong''" by code_simp+
  note a = this [THEN valid_utf8_ascii, THEN mend_valid]
  have u: "mend (utf8 rs) = utf8 rs" for rs unfolding utf8_def by (rule mend_valid [OF valid_utf8_EncodeRune])
  have "int_literal ''0''" "int_literal ''1000001''" by code_simp+
  then have "json_writable 10000 v" "mend_json v = v"
    using assms a u by (auto simp: hook_reply_def split: if_splits)
  then show ?thesis using Decode_Marshal by metis
qed

text \<open>C25: The hook server answers independently of its history, although its handlers share their error values and
  one of them changes them: whatever requests came before, every ping is answered with code 0 and \<open>pong\<close>,
  and every publish with the server error and no data, each with a fresh identifier in its header. The
  change is visible, though: after the first ping the variable \<open>ErrOK\<close> itself carries \<open>pong\<close>.\<close>

theorem hook_answers:
  assumes "static_routes route" and "inj uuid"
  shows "\<exists>cs st. hook_requests route uuid (setRouterForGin gin_New) qs hook_start = (Ok cs, st)
    \<and> length cs = length qs
    \<and> (\<forall>i < length qs. \<forall>v. hook_reply (qs ! i) = Some v \<longrightarrow>
         ctx_status (cs ! i) = 200 \<and> Decode (ctx_body (cs ! i)) = Ok v
         \<and> (\<exists>k. ctx_header (cs ! i) = [(''X-Request-Id'', uuid k)])
         \<and> (\<forall>j < i. hook_reply (qs ! j) \<noteq> None \<longrightarrow> ctx_header (cs ! j) \<noteq> ctx_header (cs ! i)))
    \<and> ((''GET'', ''/ping'') \<in> set qs \<longrightarrow> Data (hs_errs st ! ErrOK) = Some (JStr ''pong''))"
proof -
  have "errs_ok (hs_errs hook_start)" by (simp add: hook_start_def)
  from hook_requests_ok [OF assms this, of qs] obtain cs st where
    r: "hook_requests route uuid (setRouterForGin gin_New) qs hook_start = (Ok cs, st)"
    and a: "all_answered uuid (hs_uuids hook_start) qs cs"
    and p: "(''GET'', ''/ping'') \<in> set qs \<longrightarrow> hs_errs st = pong_store" by blast
  have "Data (pong_store ! ErrOK) = Some (JStr ''pong'')" by (simp add: pong_store_def)
  with p have p': "(''GET'', ''/ping'') \<in> set qs \<longrightarrow> Data (hs_errs st ! ErrOK) = Some (JStr ''pong'')" by simp
  note a = a [unfolded all_answered_def]
  have "ctx_status (cs ! i) = 200 \<and> Decode (ctx_body (cs ! i)) = Ok v
      \<and> (\<exists>k. ctx_header (cs ! i) = [(''X-Request-Id'', uuid k)])
      \<and> (\<forall>j < i. hook_reply (qs ! j) \<noteq> None \<longrightarrow> ctx_header (cs ! j) \<noteq> ctx_header (cs ! i))"
    if i: "i < length qs" and v: "hook_reply (qs ! i) = Some v" for i v
  proof -
    have b: "length cs = length qs" "ctx_status (cs ! i) = 200" "ctx_body (cs ! i) = Marshal v"
      "\<exists>k'\<ge>hs_uuids hook_start. ctx_header (cs ! i) = [(''X-Request-Id'', uuid k')]
        \<and> ctx_keys (cs ! i) = [(''trace-id'', uuid k')]"
      "\<forall>j < i. hook_reply (qs ! j) \<noteq> None \<longrightarrow> ctx_header (cs ! j) \<noteq> ctx_header (cs ! i)"
      using a i v by blast+
    show ?thesis using b(2,5) hook_reply_decoded [OF v] b(4) unfolding b(3) by blast
  qed
  with r a p' show ?thesis by blast
qed

text \<open>A router that looks the method and the path up, and identifiers that are numbers.\<close>

definition lookup_route :: gin_route where
  "lookup_route r q = (case map_of (gin_routes r) q of Some hs \<Rightarrow> (hs, 200) | None \<Rightarrow> (gin_Use r, 404))"

lemma lookup_route_static: "static_routes lookup_route"
  by (auto simp: static_routes_def lookup_route_def)

lemma inj_Itoa: "inj Itoa"
  using parse_digits_Itoa by (metis injI option.inject)

theorem hook_answers_witness:
  "\<exists>cs st. hook_requests lookup_route Itoa (setRouterForGin gin_New)
        [(''GET'', ''/ping''), (''GET'', ''/''), (''POST'', ''/v1/publish'')] hook_start = (Ok cs, st)
     \<and> ctx_header (cs ! 0) \<noteq> ctx_header (cs ! 2)"
proof -
  let ?qs = "[(''GET'', ''/ping''), (''GET'', ''/''), (''POST'', ''/v1/publish'')]"
  obtain cs st where 1: "hook_requests lookup_route Itoa (setRouterForGin gin_New) ?qs hook_start = (Ok cs, st)"
    and 2: "\<forall>i < length ?qs. \<forall>v. hook_reply (?qs ! i) = Some v \<longrightarrow>
         ctx_status (cs ! i) = 200 \<and> Decode (ctx_body (cs ! i)) = Ok v
         \<and> (\<exists>k. ctx_header (cs ! i) = [(''X-Request-Id'', Itoa k)])
         \<and> (\<forall>j < i. hook_reply (?qs ! j) \<noteq> None \<longrightarrow> ctx_header (cs ! j) \<noteq> ctx_header (cs ! i))"
    using hook_answers [OF lookup_route_static inj_Itoa, of ?qs] by blast
  have "\<exists>v. hook_reply (?qs ! 2) = Some v" "hook_reply (?qs ! 0) \<noteq> None" by (simp_all add: hook_reply_def)
  moreover have "(2 :: nat) < length ?qs" "(0 :: nat) < 2" by simp_all
  ultimately show ?thesis using 1 2 by blast
qed

end
