(* ===== verification/StringService.thy ===== *)
theory StringService
  imports Json
begin

text \<open>
  The string service of \<^verbatim>\<open>cmd/kit\<close>: the service, its middlewares, its endpoints and its JSON over HTTP. The
  definitions are those of \<^verbatim>\<open>stringsvc3\<close>, with what differs in \<^verbatim>\<open>stringsvc2\<close>; the copies that \<^verbatim>\<open>stringsvc1\<close> and
  \<^verbatim>\<open>stringsvc2\<close> have of the rest are in \<^verbatim>\<open>StringClones\<close>. A service is a record of its two methods, which may read and change the world \<open>'w\<close>. The tables of
  \<^verbatim>\<open>unicode\<close> are the argument \<open>upper\<close>.
\<close>

section \<open>The service\<close>

record 'w string_service =
  svc_Uppercase :: "string \<Rightarrow> ('w, string \<times> go_error option) go"
  svc_Count :: "string \<Rightarrow> ('w, int) go"

definition ErrEmpty :: go_error where
  "ErrEmpty = Msg ''empty string''"

text \<open>The variable of \<^verbatim>\<open>stringsvc1\<close>.\<close>

definition ErrEmpty1 :: go_error where
  "ErrEmpty1 = Msg ''Empty string''"

definition Uppercase :: "go_error \<Rightarrow> (nat \<Rightarrow> nat) \<Rightarrow> string \<Rightarrow> string \<times> go_error option" where
  "Uppercase e upper s = (if s = [] then ([], Some e) else (ToUpper upper s, None))"

definition Count :: "string \<Rightarrow> int" where
  "Count s = int (length s)"

definition stringService :: "go_error \<Rightarrow> (nat \<Rightarrow> nat) \<Rightarrow> 'w string_service" where
  "stringService e upper =
     \<lparr> svc_Uppercase = (\<lambda>s. go_return (Uppercase e upper s)), svc_Count = (\<lambda>s. go_return (Count s)) \<rparr>"

section \<open>Middlewares\<close>

text \<open>
  What the middlewares write to: the logger, the counter of requests with its labels, and the two
  histograms. The clock gives a reading at every call of \<open>time.Now\<close>. A deferred function runs when
  the function it is deferred in returns and when it panics; its named results are then still zero.
\<close>

datatype log_value = LStr string | LErr "go_error option" | LInt int

record kit_world =
  kit_clock :: "nat \<Rightarrow> int"
  kit_reads :: nat
  kit_logs :: "(string \<times> log_value) list list"
  requestCount :: "string list list"
  requestLatency :: "(string list \<times> int) list"
  countResult :: "int list"

definition time_Now :: "('e kit_world_scheme, int) go" where
  "time_Now w = (Ok (kit_clock w (kit_reads w)), w\<lparr>kit_reads := Suc (kit_reads w)\<rparr>)"

definition go_defer :: "('w, 'a) go \<Rightarrow> 'a \<Rightarrow> ('a \<Rightarrow> 'w \<Rightarrow> 'w) \<Rightarrow> ('w, 'a) go" where
  "go_defer m zero d w = (case m w of (r, w') \<Rightarrow> (r, d (case r of Ok a \<Rightarrow> a | _ \<Rightarrow> zero) w'))"

text \<open>\<open>time.Since(begin)\<close> for a deferred function.\<close>

definition since :: "int \<Rightarrow> (int \<Rightarrow> 'e kit_world_scheme \<Rightarrow> 'e kit_world_scheme)
    \<Rightarrow> 'e kit_world_scheme \<Rightarrow> 'e kit_world_scheme" where
  "since begin f w = f (kit_clock w (kit_reads w) - begin) (w\<lparr>kit_reads := Suc (kit_reads w)\<rparr>)"

definition logger_Log :: "(string \<times> log_value) list \<Rightarrow> 'e kit_world_scheme \<Rightarrow> 'e kit_world_scheme" where
  "logger_Log kvs w = w\<lparr>kit_logs := kit_logs w @ [kvs]\<rparr>"

definition logmw_Uppercase :: "'e kit_world_scheme string_service \<Rightarrow> string
    \<Rightarrow> ('e kit_world_scheme, string \<times> go_error option) go" where
  "logmw_Uppercase nxt s =
     go_bind time_Now (\<lambda>begin.
       go_defer (svc_Uppercase nxt s) ([], None) (\<lambda>(output, err). since begin (\<lambda>took.
         logger_Log [(''method'', LStr ''uppercase''), (''input'', LStr s), (''output'', LStr output),
                     (''err'', LErr err), (''took'', LInt took)])))"

definition logmw_Count :: "'e kit_world_scheme string_service \<Rightarrow> string \<Rightarrow> ('e kit_world_scheme, int) go" where
  "logmw_Count nxt s =
     go_bind time_Now (\<lambda>begin.
       go_defer (svc_Count nxt s) 0 (\<lambda>n. since begin (\<lambda>took.
         logger_Log [(''method'', LStr ''count''), (''input'', LStr s), (''n'', LInt n), (''took'', LInt took)])))"

definition loggingMiddleware :: "'e kit_world_scheme string_service \<Rightarrow> 'e kit_world_scheme string_service" where
  "loggingMiddleware nxt = \<lparr> svc_Uppercase = logmw_Uppercase nxt, svc_Count = logmw_Count nxt \<rparr>"

definition request_metrics :: "string list \<Rightarrow> int \<Rightarrow> 'e kit_world_scheme \<Rightarrow> 'e kit_world_scheme" where
  "request_metrics lvs took w =
     w\<lparr>requestCount := requestCount w @ [lvs], requestLatency := requestLatency w @ [(lvs, took)]\<rparr>"

definition uppercase_labels :: "bool \<Rightarrow> string list" where
  "uppercase_labels e = [''method'', ''uppercase'', ''error'', if e then ''true'' else ''false'']"

definition count_labels :: "string list" where
  "count_labels = [''method'', ''count'', ''error'', ''false'']"

definition instrmw_Uppercase :: "'e kit_world_scheme string_service \<Rightarrow> string
    \<Rightarrow> ('e kit_world_scheme, string \<times> go_error option) go" where
  "instrmw_Uppercase nxt s =
     go_bind time_Now (\<lambda>begin.
       go_defer (svc_Uppercase nxt s) ([], None)
         (\<lambda>(output, err). since begin (request_metrics (uppercase_labels (err \<noteq> None)))))"

definition instrmw_Count :: "'e kit_world_scheme string_service \<Rightarrow> string \<Rightarrow> ('e kit_world_scheme, int) go" where
  "instrmw_Count nxt s =
     go_bind time_Now (\<lambda>begin.
       go_defer (svc_Count nxt s) 0 (\<lambda>n. since begin (\<lambda>took w.
         (request_metrics count_labels took w)\<lparr>countResult := countResult w @ [n]\<rparr>)))"

definition instrumentingMiddleware :: "'e kit_world_scheme string_service \<Rightarrow> 'e kit_world_scheme string_service" where
  "instrumentingMiddleware nxt = \<lparr> svc_Uppercase = instrmw_Uppercase nxt, svc_Count = instrmw_Count nxt \<rparr>"

text \<open>In \<^verbatim>\<open>stringsvc2\<close> nothing is observed in the histogram of results.\<close>

definition instrmw2_Count :: "'e kit_world_scheme string_service \<Rightarrow> string \<Rightarrow> ('e kit_world_scheme, int) go" where
  "instrmw2_Count nxt s =
     go_bind time_Now (\<lambda>begin.
       go_defer (svc_Count nxt s) 0 (\<lambda>n. since begin (request_metrics count_labels)))"

definition instrumentingMiddleware2 :: "'e kit_world_scheme string_service \<Rightarrow> 'e kit_world_scheme string_service" where
  "instrumentingMiddleware2 nxt = \<lparr> svc_Uppercase = instrmw_Uppercase nxt, svc_Count = instrmw2_Count nxt \<rparr>"

section \<open>Endpoints\<close>

text \<open>The values that an endpoint takes and gives as \<open>interface{}\<close>.\<close>

datatype message =
    UppercaseRequest string
  | UppercaseResponse string string
  | CountRequest string
  | CountResponse int

type_synonym 'w endpoint = "message \<Rightarrow> ('w, message) go"

text \<open>The method \<open>Error\<close> of an error.\<close>

fun error_text :: "go_error \<Rightarrow> string" where
  "error_text EOF = ''EOF''"
| "error_text UnexpectedEOF = ''unexpected EOF''"
| "error_text WriteError = ''write error''"
| "error_text (Msg m) = m"
| "error_text (Wrap e m) = m @ '': '' @ error_text e"

definition makeUppercaseEndpoint :: "'w string_service \<Rightarrow> 'w endpoint" where
  "makeUppercaseEndpoint svc request =
     (case request of
        UppercaseRequest s \<Rightarrow>
          go_bind (svc_Uppercase svc s) (\<lambda>(v, err).
            go_return (UppercaseResponse v (case err of Some e \<Rightarrow> error_text e | None \<Rightarrow> [])))
      | _ \<Rightarrow> go_panic TypeAssertion)"

definition makeCountEndpoint :: "'w string_service \<Rightarrow> 'w endpoint" where
  "makeCountEndpoint svc request =
     (case request of
        CountRequest s \<Rightarrow> go_bind (svc_Count svc s) (\<lambda>v. go_return (CountResponse v))
      | _ \<Rightarrow> go_panic TypeAssertion)"

section \<open>JSON\<close>

text \<open>
  A member of an object is stored in the field that its key names, exactly or up to case; the long s is
  an \<open>s\<close> to \<^verbatim>\<open>encoding/json\<close>. \<open>null\<close> leaves a field alone. A value of a wrong type is an error that is
  reported once the other members are stored. The names are in lower case here.
\<close>

definition folds :: "string \<Rightarrow> string \<Rightarrow> bool" where
  "folds name key \<longleftrightarrow> map ToLower_char key = name \<or> (name = ''s'' \<and> key = EncodeRune 0x17F)"

definition field_of :: "string list \<Rightarrow> string \<Rightarrow> string option" where
  "field_of names key = (if key \<in> set names then Some key else find (\<lambda>n. folds n key) names)"

definition unmarshal_error :: go_error where
  "unmarshal_error = Msg ''json: cannot unmarshal''"

definition store_member :: "string list \<Rightarrow> string \<times> json \<Rightarrow> (string \<Rightarrow> string) \<times> go_error option
    \<Rightarrow> (string \<Rightarrow> string) \<times> go_error option" where
  "store_member names m st =
     (case m of (k, v) \<Rightarrow> case st of (vals, err) \<Rightarrow>
        (case field_of names k of
           None \<Rightarrow> (vals, err)
         | Some n \<Rightarrow>
             (case v of
                JStr x \<Rightarrow> (vals(n := x), err)
              | JNull \<Rightarrow> (vals, err)
              | _ \<Rightarrow> (vals, Some unmarshal_error))))"

definition decode_struct :: "string list \<Rightarrow> json \<Rightarrow> (string \<Rightarrow> string) res" where
  "decode_struct names v =
     (case v of
        JNull \<Rightarrow> Ok (\<lambda>_. [])
      | JObj ms \<Rightarrow>
          (case fold (store_member names) ms (\<lambda>_. [], None) of
             (vals, None) \<Rightarrow> Ok vals
           | (vals, Some e) \<Rightarrow> Err e)
      | _ \<Rightarrow> Err unmarshal_error)"

definition decode_body :: "string list \<Rightarrow> ((string \<Rightarrow> string) \<Rightarrow> message) \<Rightarrow> string \<Rightarrow> message res" where
  "decode_body names build body =
     (case Decode body of
        Ok v \<Rightarrow> (case decode_struct names v of Ok vals \<Rightarrow> Ok (build vals) | Err e \<Rightarrow> Err e | Panic p \<Rightarrow> Panic p)
      | Err e \<Rightarrow> Err e
      | Panic p \<Rightarrow> Panic p)"

definition decodeUppercaseRequest :: "string \<Rightarrow> message res" where
  "decodeUppercaseRequest = decode_body [''s''] (\<lambda>vals. UppercaseRequest (vals ''s''))"

definition decodeCountRequest :: "string \<Rightarrow> message res" where
  "decodeCountRequest = decode_body [''s''] (\<lambda>vals. CountRequest (vals ''s''))"

definition decodeUppercaseResponse :: "string \<Rightarrow> message res" where
  "decodeUppercaseResponse = decode_body [''v'', ''err''] (\<lambda>vals. UppercaseResponse (vals ''v'') (vals ''err''))"

text \<open>The struct tags; an empty \<open>Err\<close> is left out.\<close>

fun message_json :: "message \<Rightarrow> json" where
  "message_json (UppercaseRequest s) = JObj [(''s'', JStr s)]"
| "message_json (UppercaseResponse v e) =
     JObj ((''v'', JStr v) # (if e = [] then [] else [(''err'', JStr e)]))"
| "message_json (CountRequest s) = JObj [(''s'', JStr s)]"
| "message_json (CountResponse n) = JObj [(''v'', JNum (itoa n))]"

definition encodeResponse :: "message \<Rightarrow> string" where
  "encodeResponse response = Encode (message_json response)"

definition encodeRequest :: "message \<Rightarrow> string" where
  "encodeRequest request = Encode (message_json request)"

section \<open>HTTP\<close>

record http_response =
  resp_status :: nat
  resp_body :: string

text \<open>\<open>ServeHTTP\<close> of the vendored \<^verbatim>\<open>go-kit/kit/transport/http\<close>, without options.\<close>

definition kit_ServeHTTP :: "(string \<Rightarrow> 'q res) \<Rightarrow> ('q \<Rightarrow> ('w, 'r) go) \<Rightarrow> ('r \<Rightarrow> string)
    \<Rightarrow> string \<Rightarrow> ('w, http_response) go" where
  "kit_ServeHTTP dec e enc body w =
     (case dec body of
        Ok request \<Rightarrow>
          (case e request w of
             (Ok response, w') \<Rightarrow> (Ok \<lparr> resp_status = 200, resp_body = enc response \<rparr>, w')
           | (Err x, w') \<Rightarrow> (Ok \<lparr> resp_status = 500, resp_body = error_text x \<rparr>, w')
           | (Panic p, w') \<Rightarrow> (Panic p, w'))
      | Err x \<Rightarrow> (Ok \<lparr> resp_status = 500, resp_body = error_text x \<rparr>, w)
      | Panic p \<Rightarrow> (Panic p, w))"

definition uppercaseHandler :: "'w string_service \<Rightarrow> string \<Rightarrow> ('w, http_response) go" where
  "uppercaseHandler svc = kit_ServeHTTP decodeUppercaseRequest (makeUppercaseEndpoint svc) encodeResponse"

definition countHandler :: "'w string_service \<Rightarrow> string \<Rightarrow> ('w, http_response) go" where
  "countHandler svc = kit_ServeHTTP decodeCountRequest (makeCountEndpoint svc) encodeResponse"

text \<open>The handlers of a service by the path of the request; \<open>metrics\<close> is the one of Prometheus.\<close>

definition svc_mux :: "'w string_service \<Rightarrow> (string \<Rightarrow> ('w, http_response) go)
    \<Rightarrow> string \<Rightarrow> string \<Rightarrow> ('w, http_response) go" where
  "svc_mux svc metrics path =
     (if path = ''/uppercase'' then uppercaseHandler svc
      else if path = ''/count'' then countHandler svc
      else if path = ''/metrics'' then metrics
      else (\<lambda>_. go_return \<lparr> resp_status = 404, resp_body = ''404 page not found'' @ [CHR 0x0A] \<rparr>))"

text \<open>The service that \<^verbatim>\<open>stringsvc2\<close> puts together.\<close>

definition stringsvc2 :: "(nat \<Rightarrow> nat) \<Rightarrow> 'e kit_world_scheme string_service" where
  "stringsvc2 upper = instrumentingMiddleware2 (loggingMiddleware (stringService ErrEmpty upper))"

section \<open>What a run of the service leaves behind\<close>

datatype call = CallUppercase string | CallCount string

datatype outcome = Text string "go_error option" | Number int

fun call_service :: "'w string_service \<Rightarrow> call \<Rightarrow> ('w, outcome) go" where
  "call_service svc (CallUppercase s) = go_bind (svc_Uppercase svc s) (\<lambda>(v, e). go_return (Text v e))"
| "call_service svc (CallCount s) = go_bind (svc_Count svc s) (\<lambda>n. go_return (Number n))"

fun call_all :: "'w string_service \<Rightarrow> call list \<Rightarrow> ('w, outcome list) go" where
  "call_all svc [] = go_return []"
| "call_all svc (c # cs) =
     go_bind (call_service svc c) (\<lambda>r. go_bind (call_all svc cs) (\<lambda>rs. go_return (r # rs)))"

text \<open>The specification: the results, the labels and the log of a call, and what the histogram observes.\<close>

fun outcome_of :: "go_error \<Rightarrow> (nat \<Rightarrow> nat) \<Rightarrow> call \<Rightarrow> outcome" where
  "outcome_of e upper (CallUppercase s) = (if s = [] then Text [] (Some e) else Text (ToUpper upper s) None)"
| "outcome_of e upper (CallCount s) = Number (int (length s))"

fun labels_of :: "call \<Rightarrow> string list" where
  "labels_of (CallUppercase s) = uppercase_labels (s = [])"
| "labels_of (CallCount s) = count_labels"

fun log_of :: "go_error \<Rightarrow> (nat \<Rightarrow> nat) \<Rightarrow> call \<Rightarrow> (string \<times> log_value) list" where
  "log_of e upper (CallUppercase s) =
     [(''method'', LStr ''uppercase''), (''input'', LStr s),
      (''output'', LStr (if s = [] then [] else ToUpper upper s)), (''err'', LErr (if s = [] then Some e else None))]"
| "log_of e upper (CallCount s) =
     [(''method'', LStr ''count''), (''input'', LStr s), (''n'', LInt (int (length s)))]"

fun counted :: "call \<Rightarrow> int list" where
  "counted (CallUppercase s) = []"
| "counted (CallCount s) = [int (length s)]"

text \<open>What the calls \<open>cs\<close> add to the world. The duration of a call is not part of the log here.\<close>

definition accounted :: "go_error \<Rightarrow> (nat \<Rightarrow> nat) \<Rightarrow> bool \<Rightarrow> call list \<Rightarrow> kit_world \<Rightarrow> kit_world \<Rightarrow> bool" where
  "accounted e upper hist cs w w' \<longleftrightarrow>
     (\<exists>logs times. kit_logs w' = kit_logs w @ logs \<and> map butlast logs = map (log_of e upper) cs
        \<and> requestCount w' = requestCount w @ map labels_of cs
        \<and> requestLatency w' = requestLatency w @ zip (map labels_of cs) times \<and> length times = length cs
        \<and> (mono (kit_clock w) \<longrightarrow> list_all (\<lambda>t. 0 \<le> t) times))
     \<and> countResult w' = countResult w @ (if hist then concat (map counted cs) else [])
     \<and> kit_clock w' = kit_clock w"

lemmas middleware_defs =
  instrumentingMiddleware_def instrumentingMiddleware2_def loggingMiddleware_def stringService_def
  instrmw_Uppercase_def instrmw_Count_def instrmw2_Count_def logmw_Uppercase_def logmw_Count_def go_bind_def go_defer_def time_Now_def
  since_def logger_Log_def request_metrics_def go_return_def Uppercase_def Count_def

text \<open>The services of \<^verbatim>\<open>stringsvc3\<close>, without a proxy, and of \<^verbatim>\<open>stringsvc2\<close>.\<close>

definition observed :: "bool \<Rightarrow> go_error \<Rightarrow> (nat \<Rightarrow> nat) \<Rightarrow> kit_world string_service" where
  "observed hist e upper =
     (if hist then instrumentingMiddleware else instrumentingMiddleware2)
       (loggingMiddleware (stringService e upper))"

lemma observed_call:
  "\<exists>w'. call_service (observed hist e upper) c w = (Ok (outcome_of e upper c), w') \<and> accounted e upper hist [c] w w'"
proof -
  let ?t = "kit_clock w (kit_reads w + 3) - kit_clock w (kit_reads w)"
  have m: "0 \<le> ?t" if "mono (kit_clock w)" using that by (simp add: mono_def)
  show ?thesis
  proof (cases c)
    case (CallUppercase s)
    show ?thesis
      using m unfolding CallUppercase
      by (cases hist; cases "s = []")
        (auto simp: observed_def middleware_defs accounted_def eval_nat_numeral uppercase_labels_def intro!: exI [of _ "[?t]"])
  next
    case (CallCount s)
    show ?thesis
      using m unfolding CallCount
      by (cases hist)
        (auto simp: observed_def middleware_defs accounted_def eval_nat_numeral intro!: exI [of _ "[?t]"])
  qed
qed

lemma accounted_append:
  assumes "accounted e upper hist as w w1" and "accounted e upper hist bs w1 w2"
  shows "accounted e upper hist (as @ bs) w w2"
proof -
  obtain l1 t1 where 1: "kit_logs w1 = kit_logs w @ l1" "map butlast l1 = map (log_of e upper) as"
    "requestCount w1 = requestCount w @ map labels_of as"
    "requestLatency w1 = requestLatency w @ zip (map labels_of as) t1" "length t1 = length as"
    "mono (kit_clock w) \<longrightarrow> list_all (\<lambda>t. 0 \<le> t) t1" "kit_clock w1 = kit_clock w"
    "countResult w1 = countResult w @ (if hist then concat (map counted as) else [])"
    using assms(1) unfolding accounted_def by blast
  obtain l2 t2 where 2: "kit_logs w2 = kit_logs w1 @ l2" "map butlast l2 = map (log_of e upper) bs"
    "requestCount w2 = requestCount w1 @ map labels_of bs"
    "requestLatency w2 = requestLatency w1 @ zip (map labels_of bs) t2" "length t2 = length bs"
    "mono (kit_clock w1) \<longrightarrow> list_all (\<lambda>t. 0 \<le> t) t2" "kit_clock w2 = kit_clock w1"
    "countResult w2 = countResult w1 @ (if hist then concat (map counted bs) else [])"
    using assms(2) unfolding accounted_def by blast
  have "\<exists>logs times. kit_logs w2 = kit_logs w @ logs \<and> map butlast logs = map (log_of e upper) (as @ bs)
        \<and> requestCount w2 = requestCount w @ map labels_of (as @ bs)
        \<and> requestLatency w2 = requestLatency w @ zip (map labels_of (as @ bs)) times \<and> length times = length (as @ bs)
        \<and> (mono (kit_clock w) \<longrightarrow> list_all (\<lambda>t. 0 \<le> t) times)"
    using 1 2 by (intro exI [of _ "l1 @ l2"] exI [of _ "t1 @ t2"]) simp
  with 1(7,8) 2(7,8) show ?thesis unfolding accounted_def by (cases hist) simp_all
qed

lemma observed_calls:
  "\<exists>w'. call_all (observed hist e upper) cs w = (Ok (map (outcome_of e upper) cs), w') \<and> accounted e upper hist cs w w'"
proof (induction cs arbitrary: w)
  case Nil
  have "accounted e upper hist [] w w" by (simp add: accounted_def)
  then show ?case by (simp add: go_return_def)
next
  case (Cons c cs)
  obtain w1 where 1: "call_service (observed hist e upper) c w = (Ok (outcome_of e upper c), w1)"
    "accounted e upper hist [c] w w1" using observed_call by blast
  obtain w2 where 2: "call_all (observed hist e upper) cs w1 = (Ok (map (outcome_of e upper) cs), w2)"
    "accounted e upper hist cs w1 w2" using Cons.IH by blast
  have "call_all (observed hist e upper) (c # cs) w = (Ok (map (outcome_of e upper) (c # cs)), w2)"
    by (simp add: go_bind_def 1(1) 2(1) go_return_def)
  with accounted_append [OF 1(2) 2(2)] show ?case by auto
qed

section \<open>Messages over the wire\<close>

lemma Decode_message: "Decode (Encode (message_json m) @ t) = Ok (mend_json (message_json m))"
  by (rule Decode_Encode) (cases m; simp add: int_literal_itoa)

lemma mend_names: "mend ''s'' = ''s''" "mend ''v'' = ''v''" "mend ''err'' = ''err''"
proof -
  have "ascii ''s''" "ascii ''v''" "ascii ''err''" by code_simp+
  then show "mend ''s'' = ''s''" "mend ''v'' = ''v''" "mend ''err'' = ''err''"
    by (simp_all only: mend_valid [OF valid_utf8_ascii])
qed

text \<open>What one side encodes the other side decodes, whatever follows it on the connection.\<close>

lemma messages_roundtrip_ok:
  "decodeUppercaseRequest (encodeRequest (UppercaseRequest s) @ t) = Ok (UppercaseRequest (mend s))"
  "decodeCountRequest (encodeRequest (CountRequest s) @ t) = Ok (CountRequest (mend s))"
  "decodeUppercaseResponse (encodeResponse (UppercaseResponse s e) @ t) = Ok (UppercaseResponse (mend s) (mend e))"
  using Decode_message [of "UppercaseRequest s" t] Decode_message [of "CountRequest s" t]
    Decode_message [of "UppercaseResponse s e" t]
  by (simp_all add: decodeUppercaseRequest_def decodeCountRequest_def decodeUppercaseResponse_def mend_names
      decode_body_def encodeRequest_def encodeResponse_def decode_struct_def store_member_def field_of_def)

text \<open>A body that is no request never reaches the service.\<close>

lemma kit_ServeHTTP_bad:
  "dec body = Err x \<Longrightarrow> kit_ServeHTTP dec e enc body w = (Ok \<lparr> resp_status = 500, resp_body = error_text x \<rparr>, w)"
  by (simp add: kit_ServeHTTP_def)

text \<open>A request to the service, from the client's string to its answer.\<close>

lemma uppercase_over_http:
  assumes "svc_Uppercase svc (mend s) w = (Ok (v, err), w')"
  shows "\<exists>body. uppercaseHandler svc (encodeRequest (UppercaseRequest s)) w
           = (Ok \<lparr> resp_status = 200, resp_body = body \<rparr>, w')
      \<and> decodeUppercaseResponse body
           = Ok (UppercaseResponse (mend v) (case err of Some e \<Rightarrow> mend (error_text e) | None \<Rightarrow> []))"
proof -
  let ?e = "case err of Some e \<Rightarrow> error_text e | None \<Rightarrow> []"
  have "decodeUppercaseRequest (encodeRequest (UppercaseRequest s)) = Ok (UppercaseRequest (mend s))"
    using messages_roundtrip_ok(1) [of s "[]"] by simp
  then have "uppercaseHandler svc (encodeRequest (UppercaseRequest s)) w
      = (Ok \<lparr> resp_status = 200, resp_body = encodeResponse (UppercaseResponse v ?e) \<rparr>, w')"
    by (simp add: uppercaseHandler_def kit_ServeHTTP_def makeUppercaseEndpoint_def go_bind_def assms go_return_def)
  then show ?thesis using messages_roundtrip_ok(3) [of v ?e "[]"] by (auto split: option.splits)
qed

text \<open>C33: The middlewares do not change what the service answers, and account for every call. After any sequence
  of calls of the service that the program puts together, each result is that of the bare service; the log has one
  entry per call with its method, its input and its result; the counter has counted each call under
  its method and whether it failed; every latency is there, and none is negative if the clock does not
  go back; and the histogram of results has the lengths that were counted.\<close>

theorem service_accounts:
  "\<exists>w'. call_all (instrumentingMiddleware (loggingMiddleware (stringService ErrEmpty upper))) cs w
          = (Ok (map (outcome_of ErrEmpty upper) cs), w')
     \<and> accounted ErrEmpty upper True cs w w'"
  using observed_calls [of True ErrEmpty upper cs w] by (simp add: observed_def)

text \<open>In \<^verbatim>\<open>stringsvc2\<close> the same holds, except that the histogram of results stays empty.\<close>

lemma stringsvc2_accounts:
  "\<exists>w'. call_all (stringsvc2 upper) cs w = (Ok (map (outcome_of ErrEmpty upper) cs), w')
     \<and> accounted ErrEmpty upper False cs w w' \<and> countResult w' = countResult w"
  using observed_calls [of False ErrEmpty upper cs w] by (auto simp: observed_def stringsvc2_def accounted_def)

text \<open>C34: The messages of the string service survive their way over JSON, whatever bytes the strings have and
  whatever follows on the connection: a decoder gives back what was encoded, except that a byte that is
  no part of a rune has become the replacement character; a valid string comes back byte for byte.\<close>

theorem messages_roundtrip:
  "decodeUppercaseRequest (encodeRequest (UppercaseRequest s) @ t) = Ok (UppercaseRequest (mend s))
   \<and> decodeCountRequest (encodeRequest (CountRequest s) @ t) = Ok (CountRequest (mend s))
   \<and> decodeUppercaseResponse (encodeResponse (UppercaseResponse s e) @ t)
       = Ok (UppercaseResponse (mend s) (mend e))
   \<and> (valid_utf8 s = (mend s = s))"
  by (simp add: messages_roundtrip_ok valid_utf8_def mend_def)

end
