(* ===== verification/Proxy.thy ===== *)
theory Proxy
  imports StringService TcUrl
begin

text \<open>
  The proxying middleware of \<^verbatim>\<open>cmd/kit/stringsvc3\<close> and the service that its \<open>main\<close> puts together. The network,
  the circuit breaker, the rate limiter and the expiry of the deadline are arguments; the round robin and
  the retries are those of the vendored \<^verbatim>\<open>go-kit/kit/sd/lb\<close>.
\<close>

section \<open>Lists of instances\<close>

text \<open>\<open>strings.Split(s, sep)\<close> for a separator of one byte.\<close>

fun Split :: "char \<Rightarrow> string \<Rightarrow> string list" where
  "Split sep [] = [[]]"
| "Split sep (c # s) =
     (if c = sep then [] # Split sep s
      else (case Split sep s of [] \<Rightarrow> [[c]] | p # ps \<Rightarrow> (c # p) # ps))"

text \<open>\<open>strings.TrimSpace\<close>, with the white space of Unicode.\<close>

definition IsSpace :: "nat \<Rightarrow> bool" where
  "IsSpace r \<longleftrightarrow> (9 \<le> r \<and> r \<le> 13) \<or> (0x2000 \<le> r \<and> r \<le> 0x200A)
     \<or> r \<in> {0x20, 0x85, 0xA0, 0x1680, 0x2028, 0x2029, 0x202F, 0x205F, 0x3000}"

function trim_left :: "string \<Rightarrow> string" where
  "trim_left s =
     (case DecodeRune s of (r, w) \<Rightarrow> if s \<noteq> [] \<and> IsSpace r then trim_left (drop w s) else s)"
  by pat_completeness auto
termination
  by (relation "measure length") (simp_all, metis DecodeRune_width diff_less length_greater_0_conv snd_conv)

declare trim_left.simps [simp del]

text \<open>The width of a space at the end; a space has at most three bytes.\<close>

definition last_space :: "string \<Rightarrow> nat option" where
  "last_space s =
     find (\<lambda>n. n \<le> length s \<and> (case DecodeRune (drop (length s - n) s) of (r, w) \<Rightarrow> w = n \<and> IsSpace r))
       [1, 2, 3]"

function trim_right :: "string \<Rightarrow> string" where
  "trim_right s = (case last_space s of Some n \<Rightarrow> trim_right (take (length s - n) s) | None \<Rightarrow> s)"
  by pat_completeness auto
termination
  by (relation "measure length") (auto simp: last_space_def split: if_splits)

declare trim_right.simps [simp del]

definition TrimSpace :: "string \<Rightarrow> string" where
  "TrimSpace s = trim_right (trim_left s)"

definition split_instances :: "string \<Rightarrow> string list" where
  "split_instances s = map TrimSpace (Split (CHR '','') s)"

section \<open>The balancer of the vendored library\<close>

record proxy_world = kit_world +
  rr_count :: "64 word"

definition ErrNoEndpoints :: go_error where
  "ErrNoEndpoints = Msg ''no endpoints available''"

definition roundRobin :: "'e proxy_world_scheme endpoint list \<Rightarrow> ('e proxy_world_scheme, 'e proxy_world_scheme endpoint) go" where
  "roundRobin es w =
     (if es = [] then (Err ErrNoEndpoints, w)
      else (Ok (es ! (unat (rr_count w) mod length es)), w\<lparr>rr_count := rr_count w + 1\<rparr>))"

text \<open>The error after the last attempt, with those before it.\<close>

fun join_with :: "string \<Rightarrow> string list \<Rightarrow> string" where
  "join_with sep [] = []"
| "join_with sep [x] = x"
| "join_with sep (x # xs) = x @ sep @ join_with sep xs"

definition RetryError :: "go_error list \<Rightarrow> go_error \<Rightarrow> go_error" where
  "RetryError raw final =
     Msg (error_text final
       @ (if length raw > 1
          then '' (previously: '' @ join_with ''; '' (map error_text (butlast raw)) @ '')'' else []))"

text \<open>\<open>late\<close> says whether the deadline has passed when the answer of an attempt is there.\<close>

function retry_from :: "nat \<Rightarrow> nat \<Rightarrow> ('w, bool) go \<Rightarrow> ('w, 'w endpoint) go \<Rightarrow> go_error list \<Rightarrow> 'w endpoint" where
  "retry_from most i late balancer raw m w =
     (case go_bind balancer (\<lambda>e. e m) w of (r, w1) \<Rightarrow>
      (case late w1 of (l, w2) \<Rightarrow>
         if l = Ok True then (Err (Msg ''context deadline exceeded''), w2)
         else (case r of
                 Ok response \<Rightarrow> (Ok response, w2)
               | Err e \<Rightarrow>
                   if i < most then retry_from most (i + 1) late balancer (raw @ [e]) m w2
                   else (Err (RetryError (raw @ [e]) e), w2)
               | Panic p \<Rightarrow> (Panic p, w2))))"
  by pat_completeness auto
termination
  by (relation "measure (\<lambda>(most, i, late, balancer, raw, m, w). most - i)") auto

declare retry_from.simps [simp del]

definition Retry :: "nat \<Rightarrow> ('w, bool) go \<Rightarrow> ('w, 'w endpoint) go \<Rightarrow> 'w endpoint" where
  "Retry most late balancer = retry_from most 1 late balancer []"

definition ErrLimited :: go_error where
  "ErrLimited = Msg ''rate limit exceeded''"

definition ErroringLimiter :: "('w, bool) go \<Rightarrow> 'w endpoint \<Rightarrow> 'w endpoint" where
  "ErroringLimiter allow nxt m = go_bind allow (\<lambda>ok. if ok then nxt m else go_err ErrLimited)"

section \<open>The proxy\<close>

text \<open>What the middleware gets from elsewhere: the network, and for the instance of each number its breaker and
  its limiter.\<close>

record 'w kit_lib =
  lib_net :: "url \<Rightarrow> string \<Rightarrow> ('w, http_response) go"
  lib_breaker :: "nat \<Rightarrow> 'w endpoint \<Rightarrow> 'w endpoint"
  lib_allow :: "nat \<Rightarrow> ('w, bool) go"
  lib_late :: "('w, bool) go"

text \<open>The endpoint of \<open>httptransport.NewClient\<close>; it does not look at the status of the response.\<close>

definition client_endpoint :: "('w, 'm) kit_lib_scheme \<Rightarrow> url \<Rightarrow> 'w endpoint" where
  "client_endpoint L u m =
     go_bind (lib_net L u (encodeRequest m)) (\<lambda>resp.
       case decodeUppercaseResponse (resp_body resp) of
         Ok r \<Rightarrow> go_return r
       | Err e \<Rightarrow> go_err e
       | Panic p \<Rightarrow> go_panic p)"

definition makeUppercaseProxy :: "('w, 'm) kit_lib_scheme \<Rightarrow> string \<Rightarrow> 'w endpoint res" where
  "makeUppercaseProxy L inst =
     (let inst = (if HasPrefix inst ''http'' then inst else ''http://'' @ inst)
      in case url_Parse inst of
           None \<Rightarrow> Panic (Explicit (Msg ''parse''))
         | Some u \<Rightarrow> Ok (client_endpoint L (if Path u = [] then u\<lparr>Path := ''/uppercase''\<rparr> else u)))"

record 'w proxymw =
  px_next :: "'w string_service"
  px_uppercase :: "'w endpoint"

definition proxymw_Count :: "'w proxymw \<Rightarrow> string \<Rightarrow> ('w, int) go" where
  "proxymw_Count mw s = svc_Count (px_next mw) s"

definition proxymw_Uppercase :: "'w proxymw \<Rightarrow> string \<Rightarrow> ('w, string \<times> go_error option) go" where
  "proxymw_Uppercase mw s w =
     (case px_uppercase mw (UppercaseRequest s) w of
        (Err e, w') \<Rightarrow> (Ok ([], Some e), w')
      | (Panic p, w') \<Rightarrow> (Panic p, w')
      | (Ok response, w') \<Rightarrow>
          (case response of
             UppercaseResponse v e \<Rightarrow> (Ok (v, if e \<noteq> [] then Some (Msg e) else None), w')
           | _ \<Rightarrow> (Panic TypeAssertion, w')))"

text \<open>The loop over the instances; a bad address panics.\<close>

fun proxy_endpoints :: "('w, 'm) kit_lib_scheme \<Rightarrow> nat \<Rightarrow> string list \<Rightarrow> 'w endpoint list res" where
  "proxy_endpoints L i [] = Ok []"
| "proxy_endpoints L i (a # as) =
     (case makeUppercaseProxy L a of
        Ok e \<Rightarrow>
          let e = ErroringLimiter (lib_allow L i) (lib_breaker L i e)
          in (case proxy_endpoints L (i + 1) as of Ok es \<Rightarrow> Ok (e # es) | Err x \<Rightarrow> Err x | Panic p \<Rightarrow> Panic p)
      | Err x \<Rightarrow> Err x
      | Panic p \<Rightarrow> Panic p)"

definition proxyingMiddleware :: "('e proxy_world_scheme, 'm) kit_lib_scheme \<Rightarrow> string
    \<Rightarrow> ('e proxy_world_scheme, 'e proxy_world_scheme string_service \<Rightarrow> 'e proxy_world_scheme string_service) go" where
  "proxyingMiddleware L instances w =
     (if instances = [] then (Ok (\<lambda>nxt. nxt), logger_Log [(''proxy_to'', LStr ''none'')] w)
      else
        let instanceList = split_instances instances;
            w = logger_Log [(''proxy_to'', LStr (CHR ''['' # join_with '' '' instanceList @ '']''))] w
        in case proxy_endpoints L 0 instanceList of
             Ok es \<Rightarrow>
               (Ok (\<lambda>nxt. let mw = \<lparr> px_next = nxt, px_uppercase = Retry 3 (lib_late L) (roundRobin es) \<rparr>
                          in \<lparr> svc_Uppercase = proxymw_Uppercase mw, svc_Count = proxymw_Count mw \<rparr>), w)
           | Err x \<Rightarrow> (Err x, w)
           | Panic p \<Rightarrow> (Panic p, w))"

text \<open>The service that \<open>main\<close> serves.\<close>

definition stringsvc3 :: "('e proxy_world_scheme, 'm) kit_lib_scheme \<Rightarrow> (nat \<Rightarrow> nat) \<Rightarrow> string
    \<Rightarrow> ('e proxy_world_scheme, 'e proxy_world_scheme string_service) go" where
  "stringsvc3 L upper proxy =
     go_bind (proxyingMiddleware L proxy) (\<lambda>mw.
       go_return (instrumentingMiddleware (loggingMiddleware (mw (stringService ErrEmpty upper)))))"

section \<open>Services that do not lie\<close>

text \<open>
  The contract of a string service that may fail but not answer wrongly: what it calls the upper case of a
  string is that, the empty string has none, an error comes with no value and with a text, and a count is
  the number of bytes.
\<close>

definition honest_reply :: "(nat \<Rightarrow> nat) \<Rightarrow> string \<Rightarrow> (string \<times> go_error option) res \<Rightarrow> bool" where
  "honest_reply upper s r \<longleftrightarrow>
     (case r of
        Ok (v, None) \<Rightarrow> s \<noteq> [] \<and> v = ToUpper upper s
      | Ok (v, Some e) \<Rightarrow> v = [] \<and> error_text e \<noteq> []
      | _ \<Rightarrow> False)"

text \<open>The same of an endpoint, whose responses carry the error as a text.\<close>

definition honest_answer :: "(nat \<Rightarrow> nat) \<Rightarrow> string \<Rightarrow> message res \<Rightarrow> bool" where
  "honest_answer upper s r \<longleftrightarrow>
     (case r of
        Ok (UppercaseResponse v x) \<Rightarrow> (if x = [] then s \<noteq> [] \<and> v = ToUpper upper s else v = [])
      | Err x \<Rightarrow> error_text x \<noteq> []
      | _ \<Rightarrow> False)"

locale honest_service =
  fixes upper :: "nat \<Rightarrow> nat" and svc :: "'w string_service"
  assumes Uppercase_honest: "honest_reply upper s (fst (svc_Uppercase svc s w))"
    and Count_honest: "fst (svc_Count svc s w) = Ok (int (length s))"
begin

text \<open>What its HTTP handler answers to a request is honest, too, after the client has decoded it.\<close>

lemma handler_honest:
  assumes "uppercaseHandler svc (encodeRequest (UppercaseRequest s)) w = (Ok resp, w')"
  shows "honest_answer upper s (decodeUppercaseResponse (resp_body resp))"
proof -
  obtain v err w1 where r: "svc_Uppercase svc (mend s) w = (Ok (v, err), w1)"
    using Uppercase_honest [of "mend s" w]
    by (cases "svc_Uppercase svc (mend s) w") (auto simp: honest_reply_def split: res.splits)
  have h: "honest_reply upper (mend s) (Ok (v, err))" using Uppercase_honest [of "mend s" w] by (simp add: r)
  obtain body where b: "uppercaseHandler svc (encodeRequest (UppercaseRequest s)) w
        = (Ok \<lparr> resp_status = 200, resp_body = body \<rparr>, w1)"
    "decodeUppercaseResponse body
        = Ok (UppercaseResponse (mend v) (case err of Some e \<Rightarrow> mend (error_text e) | None \<Rightarrow> []))"
    using uppercase_over_http [OF r] by blast
  have "resp_body resp = body" using assms b(1) by auto
  moreover have "mend (ToUpper upper (mend s)) = ToUpper upper s"
    using mend_valid [OF valid_utf8_ToUpper] ToUpper_mend by metis
  ultimately show ?thesis using b(2) h by (cases err) (auto simp: honest_reply_def honest_answer_def)
qed

end

lemma honest_stringService: "error_text e \<noteq> [] \<Longrightarrow> honest_service upper (stringService e upper)"
  by (auto simp: honest_service_def honest_reply_def stringService_def Uppercase_def Count_def go_return_def)

interpretation bare: honest_service upper "stringService ErrEmpty upper" for upper
  by (rule honest_stringService) (simp add: ErrEmpty_def)

text \<open>The middlewares keep the contract: each gives the result of the service it wraps, called in some world.\<close>

lemma honest_wrap:
  assumes "honest_service upper svc"
    and U: "\<And>s w. \<exists>w1. fst (svc_Uppercase svc' s w) = fst (svc_Uppercase svc s w1)"
    and C: "\<And>s w. \<exists>w1. fst (svc_Count svc' s w) = fst (svc_Count svc s w1)"
  shows "honest_service upper svc'"
proof
  fix s w
  show "honest_reply upper s (fst (svc_Uppercase svc' s w))"
    using U [of s w] honest_service.Uppercase_honest [OF assms(1)] by auto
  show "fst (svc_Count svc' s w) = Ok (int (length s))"
    using C [of s w] honest_service.Count_honest [OF assms(1)] by auto
qed

lemma fst_go_defer [simp]: "fst (go_defer m zero d w) = fst (m w)"
  by (simp add: go_defer_def split: prod.split)

lemma go_bind_time_Now: "go_bind time_Now f w = f (kit_clock w (kit_reads w)) (w\<lparr>kit_reads := Suc (kit_reads w)\<rparr>)"
  by (simp add: go_bind_def time_Now_def)

lemma honest_logging: "honest_service upper svc \<Longrightarrow> honest_service upper (loggingMiddleware svc)"
  by (erule honest_wrap)
    (auto simp: loggingMiddleware_def logmw_Uppercase_def logmw_Count_def go_bind_time_Now)

lemma honest_instrumenting: "honest_service upper svc \<Longrightarrow> honest_service upper (instrumentingMiddleware svc)"
  by (erule honest_wrap)
    (auto simp: instrumentingMiddleware_def instrmw_Uppercase_def instrmw_Count_def go_bind_time_Now)

lemma honest_instrumenting2: "honest_service upper svc \<Longrightarrow> honest_service upper (instrumentingMiddleware2 svc)"
  by (erule honest_wrap)
    (auto simp: instrumentingMiddleware2_def instrmw_Uppercase_def instrmw2_Count_def go_bind_time_Now)

interpretation svc2: honest_service upper "stringsvc2 upper" for upper
  unfolding stringsvc2_def
  by (intro honest_instrumenting2 honest_logging honest_stringService) (simp add: ErrEmpty_def)

section \<open>The proxy does not lie\<close>

text \<open>
  What is relied on: whatever answers a request is the handler of some honest service, in whatever state; the
  errors of the network and of a breaker have a text; and a breaker gives what the endpoint it guards gives,
  or an error of its own.
\<close>

definition lib_ok :: "(nat \<Rightarrow> nat) \<Rightarrow> ('w, 'm) kit_lib_scheme \<Rightarrow> bool" where
  "lib_ok upper L \<longleftrightarrow>
     (\<forall>u body w. case fst (lib_net L u body w) of
        Ok resp \<Rightarrow> (\<exists>svc v v'. honest_service upper (svc :: 'w string_service)
                         \<and> uppercaseHandler svc body v = (Ok resp, v'))
      | Err e \<Rightarrow> error_text e \<noteq> []
      | Panic p \<Rightarrow> False)
     \<and> (\<forall>i e m w. (\<exists>x. fst (lib_breaker L i e m w) = Err x \<and> error_text x \<noteq> [])
                \<or> (\<exists>v. fst (lib_breaker L i e m w) = fst (e m v)))
     \<and> (\<forall>i w. \<exists>b w'. lib_allow L i w = (Ok b, w'))"

definition honest_endpoint :: "(nat \<Rightarrow> nat) \<Rightarrow> 'w endpoint \<Rightarrow> bool" where
  "honest_endpoint upper e \<longleftrightarrow> (\<forall>s w. honest_answer upper s (fst (e (UppercaseRequest s) w)))"

lemma honest_client:
  assumes "lib_ok upper L"
  shows "honest_endpoint upper (client_endpoint L u)"
  unfolding honest_endpoint_def
proof (intro allI)
  fix s w
  obtain r1 w1 where n: "lib_net L u (encodeRequest (UppercaseRequest s)) w = (r1, w1)" by (rule prod.exhaust)
  note ok = assms [unfolded lib_ok_def, THEN conjunct1, THEN spec [of _ u],
      THEN spec [of _ "encodeRequest (UppercaseRequest s)"], THEN spec [of _ w], unfolded n fst_conv]
  show "honest_answer upper s (fst (client_endpoint L u (UppercaseRequest s) w))"
  proof (cases r1)
    case (Ok resp)
    with ok obtain svc v v' where h: "honest_service upper (svc :: 'a string_service)"
      "uppercaseHandler svc (encodeRequest (UppercaseRequest s)) v = (Ok resp, v')" by auto
    have "fst (client_endpoint L u (UppercaseRequest s) w) = decodeUppercaseResponse (resp_body resp)"
      by (simp add: client_endpoint_def go_bind_def n Ok go_return_def go_err_def go_panic_def split: res.split)
    with honest_service.handler_honest [OF h] show ?thesis by simp
  next
    case (Err x)
    then show ?thesis using ok by (simp add: client_endpoint_def go_bind_def n honest_answer_def)
  next
    case (Panic p)
    then show ?thesis using ok by simp
  qed
qed

lemma honest_breaker:
  assumes "lib_ok upper L" and "honest_endpoint upper e"
  shows "honest_endpoint upper (lib_breaker L i e)"
  unfolding honest_endpoint_def
proof (intro allI)
  fix s w
  consider x where "fst (lib_breaker L i e (UppercaseRequest s) w) = Err x" "error_text x \<noteq> []"
    | v where "fst (lib_breaker L i e (UppercaseRequest s) w) = fst (e (UppercaseRequest s) v)"
    using assms(1) unfolding lib_ok_def by blast
  then show "honest_answer upper s (fst (lib_breaker L i e (UppercaseRequest s) w))"
    by cases (use assms(2) in \<open>simp_all add: honest_answer_def honest_endpoint_def\<close>)
qed

lemma honest_limiter:
  assumes "lib_ok upper L" and "honest_endpoint upper e"
  shows "honest_endpoint upper (ErroringLimiter (lib_allow L i) e)"
  unfolding honest_endpoint_def
proof (intro allI)
  fix s w
  obtain b w1 where a: "lib_allow L i w = (Ok b, w1)" using assms(1) unfolding lib_ok_def by blast
  show "honest_answer upper s (fst (ErroringLimiter (lib_allow L i) e (UppercaseRequest s) w))"
    using assms(2)
    by (simp add: ErroringLimiter_def go_bind_def a go_err_def honest_endpoint_def honest_answer_def ErrLimited_def)
qed

lemma honest_attempt:
  assumes "\<forall>e \<in> set es. honest_endpoint upper e"
  shows "honest_answer upper s (fst (go_bind (roundRobin es) (\<lambda>e. e (UppercaseRequest s)) w))"
proof (cases "es = []")
  case True
  then show ?thesis by (simp add: go_bind_def roundRobin_def ErrNoEndpoints_def honest_answer_def)
next
  case False
  then have "es ! (unat (rr_count w) mod length es) \<in> set es" by simp
  with assms have "honest_endpoint upper (es ! (unat (rr_count w) mod length es))" by blast
  with False show ?thesis by (simp add: go_bind_def roundRobin_def honest_endpoint_def)
qed

lemma retry_step:
  assumes "go_bind balancer (\<lambda>e. e m) w = (r1, w1)" and "late w1 = (l, w2)"
  shows "retry_from most i late balancer raw m w =
    (if l = Ok True then (Err (Msg ''context deadline exceeded''), w2)
     else (case r1 of
             Ok response \<Rightarrow> (Ok response, w2)
           | Err e \<Rightarrow>
               if i < most then retry_from most (i + 1) late balancer (raw @ [e]) m w2
               else (Err (RetryError (raw @ [e]) e), w2)
           | Panic p \<Rightarrow> (Panic p, w2)))"
  by (subst retry_from.simps) (simp add: assms)

lemma honest_retry:
  assumes "\<forall>e \<in> set es. honest_endpoint upper e"
  shows "honest_endpoint upper (retry_from most i late (roundRobin es) raw)"
  unfolding honest_endpoint_def
proof (intro allI)
  fix s w
  show "honest_answer upper s (fst (retry_from most i late (roundRobin es) raw (UppercaseRequest s) w))"
  proof (induction "most - i" arbitrary: i raw w rule: less_induct)
    case less
    obtain r1 w1 where a: "go_bind (roundRobin es) (\<lambda>e. e (UppercaseRequest s)) w = (r1, w1)" by (rule prod.exhaust)
    obtain l w2 where l: "late w1 = (l, w2)" by (rule prod.exhaust)
    have h: "honest_answer upper s r1" using honest_attempt [OF assms, of s w] by (simp add: a)
    note run = retry_step [where balancer = "roundRobin es" and m = "UppercaseRequest s" and w = w and late = late,
        OF a l]
    show ?case
    proof (cases "l = Ok True")
      case True
      then show ?thesis by (simp add: run honest_answer_def)
    next
      case in_time: False
      show ?thesis
      proof (cases r1)
        case (Err e)
        have "honest_answer upper s (fst (retry_from most (i + 1) late (roundRobin es) (raw @ [e]) (UppercaseRequest s) w2))"
          if "i < most" using that by (intro less.hyps) simp
        then show ?thesis using h in_time by (simp add: run Err RetryError_def honest_answer_def)
      qed (use h in_time in \<open>simp_all add: run\<close>)
    qed
  qed
qed

lemma honest_proxies:
  assumes "lib_ok upper L"
  shows "proxy_endpoints L i as = Ok es \<Longrightarrow> \<forall>e \<in> set es. honest_endpoint upper e"
proof (induction as arbitrary: i es)
  case Nil
  then show ?case by simp
next
  case (Cons a as)
  then obtain e es' where e: "makeUppercaseProxy L a = Ok e" "proxy_endpoints L (i + 1) as = Ok es'"
    "es = ErroringLimiter (lib_allow L i) (lib_breaker L i e) # es'"
    by (auto simp: Let_def split: res.splits)
  have "honest_endpoint upper e"
    using e(1) honest_client [OF assms] by (auto simp: makeUppercaseProxy_def Let_def split: option.splits)
  then have "honest_endpoint upper (ErroringLimiter (lib_allow L i) (lib_breaker L i e))"
    by (intro honest_limiter [OF assms] honest_breaker [OF assms])
  with e(3) Cons.IH [OF e(2)] show ?case by simp
qed

lemma honest_proxymw:
  assumes "honest_endpoint upper (px_uppercase mw)" and "honest_service upper (px_next mw)"
  shows "honest_service upper \<lparr> svc_Uppercase = proxymw_Uppercase mw, svc_Count = proxymw_Count mw \<rparr>"
proof
  fix s w
  show "honest_reply upper s
      (fst (svc_Uppercase \<lparr> svc_Uppercase = proxymw_Uppercase mw, svc_Count = proxymw_Count mw \<rparr> s w))"
    using assms(1) [unfolded honest_endpoint_def, THEN spec [of _ s], THEN spec [of _ w]]
    by (cases "px_uppercase mw (UppercaseRequest s) w")
      (auto simp: proxymw_Uppercase_def honest_reply_def honest_answer_def split: res.splits message.splits if_splits)
  show "fst (svc_Count \<lparr> svc_Uppercase = proxymw_Uppercase mw, svc_Count = proxymw_Count mw \<rparr> s w)
      = Ok (int (length s))"
    using honest_service.Count_honest [OF assms(2)] by (simp add: proxymw_Count_def)
qed

lemma honest_stringsvc3:
  assumes "lib_ok upper L" and "stringsvc3 L upper proxy w = (Ok svc, w')"
  shows "honest_service upper svc"
proof -
  obtain mw w1 where m: "proxyingMiddleware L proxy w = (Ok mw, w1)"
    and svc: "svc = instrumentingMiddleware (loggingMiddleware (mw (stringService ErrEmpty upper)))"
    using assms(2) by (auto simp: stringsvc3_def go_bind_def go_return_def split: prod.splits res.splits)
  have "honest_service upper (mw (stringService ErrEmpty upper))"
  proof (cases "proxy = []")
    case True
    then have "mw = (\<lambda>nxt. nxt)" using m by (simp add: proxyingMiddleware_def)
    then show ?thesis using bare.honest_service_axioms by simp
  next
    case False
    then obtain es where es: "proxy_endpoints L 0 (split_instances proxy) = Ok es"
      and mw: "mw = (\<lambda>nxt. let mw = \<lparr> px_next = nxt, px_uppercase = Retry 3 (lib_late L) (roundRobin es) \<rparr>
                          in \<lparr> svc_Uppercase = proxymw_Uppercase mw, svc_Count = proxymw_Count mw \<rparr>)"
      using m by (auto simp: proxyingMiddleware_def Let_def split: res.splits)
    have "honest_endpoint upper (Retry 3 (lib_late L) (roundRobin es))"
      unfolding Retry_def by (rule honest_retry) (rule honest_proxies [OF assms(1) es])
    then show ?thesis unfolding mw Let_def by (intro honest_proxymw) (simp_all add: bare.honest_service_axioms)
  qed
  then show ?thesis unfolding svc by (intro honest_instrumenting honest_logging)
qed

section \<open>The proxy is transparent\<close>

text \<open>
  When every request is answered by the bare service, no breaker interferes, no limiter refuses and there is
  always time, a caller cannot tell the proxied service from the bare one.
\<close>

definition reliable :: "(nat \<Rightarrow> nat) \<Rightarrow> ('w, 'm) kit_lib_scheme \<Rightarrow> bool" where
  "reliable upper L \<longleftrightarrow>
     (\<forall>u s w. \<exists>v. fst (lib_net L u (encodeRequest (UppercaseRequest s)) w)
        = fst (uppercaseHandler (stringService ErrEmpty upper :: 'w string_service) (encodeRequest (UppercaseRequest s)) v))
     \<and> (\<forall>i e m w. \<exists>v. fst (lib_breaker L i e m w) = fst (e m v))
     \<and> (\<forall>i w. fst (lib_allow L i w) = Ok True)
     \<and> (\<forall>w. fst (lib_late L w) = Ok False)"

definition bare_response :: "(nat \<Rightarrow> nat) \<Rightarrow> string \<Rightarrow> message" where
  "bare_response upper s = (if s = [] then UppercaseResponse [] (error_text ErrEmpty) else UppercaseResponse (ToUpper upper s) [])"

definition exact_endpoint :: "(nat \<Rightarrow> nat) \<Rightarrow> 'w endpoint \<Rightarrow> bool" where
  "exact_endpoint upper e \<longleftrightarrow> (\<forall>s w. fst (e (UppercaseRequest s) w) = Ok (bare_response upper s))"

lemma bare_over_http:
  "\<exists>body. fst (uppercaseHandler (stringService ErrEmpty upper) (encodeRequest (UppercaseRequest s)) w)
       = Ok \<lparr> resp_status = 200, resp_body = body \<rparr>
     \<and> decodeUppercaseResponse body = Ok (bare_response upper s)"
proof (cases "s = []")
  case True
  have "ascii ''empty string''" by code_simp
  then have m: "mend (error_text ErrEmpty) = error_text ErrEmpty" by (simp add: ErrEmpty_def mend_valid valid_utf8_ascii)
  have "svc_Uppercase (stringService ErrEmpty upper) (mend s) w = (Ok ([], Some ErrEmpty), w)"
    by (simp add: True stringService_def Uppercase_def go_return_def)
  from uppercase_over_http [OF this] show ?thesis by (auto simp: True m bare_response_def)
next
  case False
  have u: "mend (ToUpper upper (mend s)) = ToUpper upper s"
    using mend_valid [OF valid_utf8_ToUpper] ToUpper_mend by metis
  have "svc_Uppercase (stringService ErrEmpty upper) (mend s) w = (Ok (ToUpper upper (mend s), None), w)"
    by (simp add: False stringService_def Uppercase_def go_return_def)
  from uppercase_over_http [OF this] show ?thesis by (auto simp: False u bare_response_def)
qed

lemma exact_client:
  fixes L :: "('w, 'm) kit_lib_scheme"
  assumes "reliable upper L"
  shows "exact_endpoint upper (client_endpoint L u)"
  unfolding exact_endpoint_def
proof (intro allI)
  fix s and w :: 'w
  let ?b = "encodeRequest (UppercaseRequest s)"
  obtain v :: 'w where n: "fst (lib_net L u ?b w) = fst (uppercaseHandler (stringService ErrEmpty upper) ?b v)"
    using assms unfolding reliable_def by blast
  obtain body where "fst (uppercaseHandler (stringService ErrEmpty upper) ?b v) = Ok \<lparr> resp_status = 200, resp_body = body \<rparr>"
    "decodeUppercaseResponse body = Ok (bare_response upper s)" using bare_over_http [of upper s v] by blast
  with n show "fst (client_endpoint L u (UppercaseRequest s) w) = Ok (bare_response upper s)"
    by (cases "lib_net L u ?b w") (simp add: client_endpoint_def go_bind_def go_return_def)
qed

lemma exact_guarded:
  assumes "reliable upper L" and "exact_endpoint upper e"
  shows "exact_endpoint upper (ErroringLimiter (lib_allow L i) (lib_breaker L i e))"
  unfolding exact_endpoint_def
proof (intro allI)
  fix s w
  obtain w1 where a: "lib_allow L i w = (Ok True, w1)"
    using assms(1) unfolding reliable_def by (metis prod.collapse)
  obtain v where "fst (lib_breaker L i e (UppercaseRequest s) w1) = fst (e (UppercaseRequest s) v)"
    using assms(1) unfolding reliable_def by blast
  with assms(2) show "fst (ErroringLimiter (lib_allow L i) (lib_breaker L i e) (UppercaseRequest s) w) = Ok (bare_response upper s)"
    by (simp add: ErroringLimiter_def go_bind_def a exact_endpoint_def)
qed

lemma exact_proxies:
  assumes "reliable upper L"
  shows "proxy_endpoints L i as = Ok es \<Longrightarrow> length es = length as \<and> (\<forall>e \<in> set es. exact_endpoint upper e)"
proof (induction as arbitrary: i es)
  case Nil
  then show ?case by simp
next
  case (Cons a as)
  then obtain e es' where e: "makeUppercaseProxy L a = Ok e" "proxy_endpoints L (i + 1) as = Ok es'"
    "es = ErroringLimiter (lib_allow L i) (lib_breaker L i e) # es'"
    by (auto simp: Let_def split: res.splits)
  have "exact_endpoint upper e"
    using e(1) exact_client [OF assms] by (auto simp: makeUppercaseProxy_def Let_def split: option.splits)
  then show ?case using e(3) Cons.IH [OF e(2)] exact_guarded [OF assms] by simp
qed

lemma exact_retry:
  fixes L :: "('e proxy_world_scheme, 'm) kit_lib_scheme"
  assumes "\<forall>e \<in> set es. exact_endpoint upper e" and "es \<noteq> []" and "reliable upper L"
  shows "exact_endpoint upper (Retry most (lib_late L) (roundRobin es))"
  unfolding exact_endpoint_def
proof (intro allI)
  fix s and w :: "'e proxy_world_scheme"
  let ?e = "es ! (unat (rr_count w) mod length es)"
  obtain w1 where e: "?e (UppercaseRequest s) (w\<lparr>rr_count := rr_count w + 1\<rparr>) = (Ok (bare_response upper s), w1)"
    using assms(1,2) unfolding exact_endpoint_def by (metis length_greater_0_conv mod_less_divisor nth_mem prod.collapse)
  have a: "go_bind (roundRobin es) (\<lambda>e. e (UppercaseRequest s)) w = (Ok (bare_response upper s), w1)"
    using assms(2) by (simp add: go_bind_def roundRobin_def e)
  obtain w2 where l: "lib_late L w1 = (Ok False, w2)"
    using assms(3) unfolding reliable_def by (metis prod.collapse)
  show "fst (Retry most (lib_late L) (roundRobin es) (UppercaseRequest s) w) = Ok (bare_response upper s)"
    unfolding Retry_def
    using retry_step [where balancer = "roundRobin es" and m = "UppercaseRequest s" and w = w and late = "lib_late L",
        OF a l] by simp
qed

lemma Split_not_Nil: "Split c s \<noteq> []"
  by (cases s) (auto split: list.split)

lemma exact_stringsvc3:
  assumes "reliable upper L" and "stringsvc3 L upper proxy w = (Ok svc, w')"
  shows "fst (svc_Uppercase svc s v) = Ok (Uppercase ErrEmpty upper s)"
proof -
  obtain mw w1 where m: "proxyingMiddleware L proxy w = (Ok mw, w1)"
    and svc: "svc = instrumentingMiddleware (loggingMiddleware (mw (stringService ErrEmpty upper)))"
    using assms(2) by (auto simp: stringsvc3_def go_bind_def go_return_def split: prod.splits res.splits)
  have inner: "fst (svc_Uppercase (mw (stringService ErrEmpty upper)) s v) = Ok (Uppercase ErrEmpty upper s)" for v
  proof (cases "proxy = []")
    case True
    then have "mw = (\<lambda>nxt. nxt)" using m by (simp add: proxyingMiddleware_def)
    then show ?thesis by (simp add: stringService_def go_return_def)
  next
    case False
    then obtain es where es: "proxy_endpoints L 0 (split_instances proxy) = Ok es"
      and mw: "mw = (\<lambda>nxt. let mw = \<lparr> px_next = nxt, px_uppercase = Retry 3 (lib_late L) (roundRobin es) \<rparr>
                          in \<lparr> svc_Uppercase = proxymw_Uppercase mw, svc_Count = proxymw_Count mw \<rparr>)"
      using m by (auto simp: proxyingMiddleware_def Let_def split: res.splits)
    have "es \<noteq> []" using exact_proxies [OF assms(1) es] Split_not_Nil by (auto simp: split_instances_def)
    then have "exact_endpoint upper (Retry 3 (lib_late L) (roundRobin es))"
      using exact_proxies [OF assms(1) es] assms(1) by (intro exact_retry) blast+
    then have r: "fst (Retry 3 (lib_late L) (roundRobin es) (UppercaseRequest s) v) = Ok (bare_response upper s)"
      by (simp add: exact_endpoint_def)
    show ?thesis
      by (cases "Retry 3 (lib_late L) (roundRobin es) (UppercaseRequest s) v")
        (use r in \<open>simp add: mw Let_def proxymw_Uppercase_def bare_response_def Uppercase_def ErrEmpty_def split: if_splits\<close>)
  qed
  show ?thesis
    unfolding svc by (simp add: instrumentingMiddleware_def loggingMiddleware_def instrmw_Uppercase_def
        logmw_Uppercase_def go_bind_time_Now inner)
qed

text \<open>C13: The service of stringsvc3 does not lie, whatever the list of instances, as long as what listens at
  them is an honest service: whatever the network loses, the breakers and limiters refuse and the retries
  give up on, \<open>Uppercase\<close> returns the upper case of a non-empty string or no value and an error with a text,
  and never panics; \<open>Count\<close>, which is not proxied, returns the number of bytes. With libraries
  that are reliable the result is exactly that of the bare service.\<close>

theorem proxied_service_honest:
  assumes "lib_ok upper L" and "stringsvc3 L upper proxy w = (Ok svc, w')"
  shows "(case fst (svc_Uppercase svc s v) of
            Ok (x, None) \<Rightarrow> s \<noteq> [] \<and> x = ToUpper upper s
          | Ok (x, Some e) \<Rightarrow> x = [] \<and> error_text e \<noteq> []
          | _ \<Rightarrow> False)
      \<and> fst (svc_Count svc s v) = Ok (int (length s))
      \<and> (reliable upper L \<longrightarrow> fst (svc_Uppercase svc s v) = Ok (Uppercase ErrEmpty upper s))"
proof -
  note honest = honest_stringsvc3 [OF assms]
  from honest_service.Uppercase_honest [OF honest, of s v] honest_service.Count_honest [OF honest, of s v]
    exact_stringsvc3 [OF _ assms(2), of s v]
  show ?thesis unfolding honest_reply_def by (intro conjI impI)
qed

text \<open>Libraries that do nothing: the network reaches a bare service at once, no breaker opens, no limiter
  refuses, and there is always time.\<close>

definition calm_net :: "string \<Rightarrow> ('w, http_response) go" where
  "calm_net body w =
     (case uppercaseHandler (stringService ErrEmpty id) body w of
        (Ok resp, w') \<Rightarrow> (Ok resp, w')
      | (_, w') \<Rightarrow> (Err (Msg ''EOF''), w'))"

definition calm_lib :: "'w kit_lib" where
  "calm_lib = \<lparr> lib_net = (\<lambda>u. calm_net), lib_breaker = (\<lambda>i e. e),
     lib_allow = (\<lambda>i. go_return True), lib_late = go_return False \<rparr>"

lemma calm_lib_ok: "lib_ok id (calm_lib :: 'w kit_lib)"
proof -
  have "case fst (calm_net body w) of
        Ok resp \<Rightarrow> (\<exists>svc v v'. honest_service id (svc :: 'w string_service) \<and> uppercaseHandler svc body v = (Ok resp, v'))
      | Err e \<Rightarrow> error_text e \<noteq> []
      | Panic p \<Rightarrow> False" for body and w :: 'w
  proof (cases "uppercaseHandler (stringService ErrEmpty id) body w")
    case (Pair r w')
    then show ?thesis using bare.honest_service_axioms [where upper = id]
      by (cases r) (auto simp: calm_net_def)
  qed
  then show ?thesis by (auto simp: lib_ok_def calm_lib_def go_return_def)
qed

lemma calm_lib_reliable: "reliable id (calm_lib :: 'w kit_lib)"
proof -
  have "fst (calm_net (encodeRequest (UppercaseRequest s)) w)
      = fst (uppercaseHandler (stringService ErrEmpty id) (encodeRequest (UppercaseRequest s)) w)" for s and w :: 'w
    using bare_over_http [of id s w]
    by (cases "uppercaseHandler (stringService ErrEmpty id) (encodeRequest (UppercaseRequest s)) w")
      (auto simp: calm_net_def)
  then show ?thesis unfolding reliable_def calm_lib_def by (auto simp: go_return_def)
qed

definition calm_world :: "unit proxy_world_scheme" where
  "calm_world = \<lparr> kit_clock = int, kit_reads = 0, kit_logs = [], requestCount = [], requestLatency = [],
     countResult = [], rr_count = 0 \<rparr>"

lemma trim_left_step:
  "DecodeRune (c # s) = (r, w) \<Longrightarrow> trim_left (c # s) = (if IsSpace r then trim_left (drop w (c # s)) else c # s)"
  by (subst trim_left.simps) simp

lemma trim_right_none: "last_space s = None \<Longrightarrow> trim_right s = s"
  by (subst trim_right.simps) simp

lemma two_instances: "split_instances ''10.0.0.1:8001, 10.0.0.2:8001'' = [''10.0.0.1:8001'', ''10.0.0.2:8001'']"
proof -
  have "TrimSpace ''10.0.0.1:8001'' = ''10.0.0.1:8001''"
    by (simp add: TrimSpace_def trim_left_step DecodeRune_ascii IsSpace_def trim_right_none last_space_def
        DecodeRune.simps(2))
  moreover have "TrimSpace '' 10.0.0.2:8001'' = ''10.0.0.2:8001''"
    by (simp add: TrimSpace_def trim_left_step DecodeRune_ascii IsSpace_def trim_right_none last_space_def
        DecodeRune.simps(2))
  ultimately show ?thesis by (simp add: split_instances_def)
qed

lemma two_addresses:
  "url_Parse ''http://10.0.0.1:8001'' \<noteq> None" "url_Parse ''http://10.0.0.2:8001'' \<noteq> None"
  by code_simp+

theorem proxied_service_honest_witness:
  "\<exists>svc w'. stringsvc3 calm_lib id ''10.0.0.1:8001, 10.0.0.2:8001'' calm_world = (Ok svc, w')
     \<and> fst (svc_Uppercase svc ''hello'' w') = Ok (ToUpper id ''hello'', None)
     \<and> fst (svc_Uppercase svc [] w') = Ok ([], Some ErrEmpty)
     \<and> fst (svc_Count svc ''hello'' w') = Ok 5"
proof -
  obtain u1 u2 where u: "url_Parse ''http://10.0.0.1:8001'' = Some u1" "url_Parse ''http://10.0.0.2:8001'' = Some u2"
    using two_addresses by blast
  define L :: "unit proxy_world_scheme kit_lib" where "L = calm_lib"
  have "makeUppercaseProxy L ''10.0.0.1:8001'' \<in> range Ok" "makeUppercaseProxy L ''10.0.0.2:8001'' \<in> range Ok"
    by (simp_all add: makeUppercaseProxy_def HasPrefix_def u)
  then obtain e1 e2 where e: "makeUppercaseProxy L ''10.0.0.1:8001'' = Ok e1"
    "makeUppercaseProxy L ''10.0.0.2:8001'' = Ok e2" by blast
  then obtain svc w' where
    s: "stringsvc3 calm_lib id ''10.0.0.1:8001, 10.0.0.2:8001'' calm_world = (Ok svc, w')"
    by (simp add: stringsvc3_def go_bind_def proxyingMiddleware_def two_instances go_return_def e [unfolded L_def] Let_def)
  note answers = proxied_service_honest [OF calm_lib_ok s]
  have "fst (svc_Uppercase svc s w') = Ok (Uppercase ErrEmpty id s)" for s
    using answers [THEN conjunct2, THEN conjunct2] calm_lib_reliable by blast
  moreover have "fst (svc_Count svc ''hello'' w') = Ok (int (length ''hello''))"
    using answers [THEN conjunct2, THEN conjunct1] .
  ultimately show ?thesis using s by (simp add: Uppercase_def)
qed

end
