(* ===== verification/Transaction.thy ===== *)
theory Transaction
  imports Errno
begin

text \<open>
  The database client \<^verbatim>\<open>cmd/mysql\<close>. \<^verbatim>\<open>database/sql\<close> and its driver are a record of functions over a world \<open>'w\<close>
  that holds the database; a pointer, an interface and an \<open>error\<close> that may be nil are options. Beside
  the world the state has what was printed, as the format without its final newline and its arguments, and the
  calls that were made with what they returned.
\<close>

section \<open>The library\<close>

record user =
  user_id :: int
  user_age :: int
  user_name :: string

datatype sql_value = SInt int | SStr string

text \<open>The two methods of a \<open>sql.Result\<close>, and the rows of a \<open>sql.Rows\<close> with what \<open>Scan\<close> makes of each.\<close>

record sql_result =
  LastInsertId :: "int \<times> go_error option"
  RowsAffected :: "int \<times> go_error option"

type_synonym sql_rows = "(user \<times> go_error option) list"

type_synonym 'a fallible = "'a option \<times> go_error option"

record 'w sql_lib =
  sql_Open :: "string \<Rightarrow> string \<Rightarrow> 'w \<Rightarrow> go_error option \<times> 'w"
  sql_Ping :: "'w \<Rightarrow> go_error option \<times> 'w"
  sql_Exec :: "string \<Rightarrow> sql_value list \<Rightarrow> 'w \<Rightarrow> sql_result fallible \<times> 'w"
  sql_QueryRow :: "string \<Rightarrow> sql_value list \<Rightarrow> 'w \<Rightarrow> (user \<times> go_error option) \<times> 'w"
  sql_Query :: "string \<Rightarrow> sql_value list \<Rightarrow> 'w \<Rightarrow> sql_rows fallible \<times> 'w"
  sql_Begin :: "'w \<Rightarrow> nat fallible \<times> 'w"
  tx_Exec :: "nat \<Rightarrow> string \<Rightarrow> sql_value list \<Rightarrow> 'w \<Rightarrow> sql_result fallible \<times> 'w"
  tx_Commit :: "nat \<Rightarrow> 'w \<Rightarrow> go_error option \<times> 'w"
  tx_Rollback :: "nat \<Rightarrow> 'w \<Rightarrow> go_error option \<times> 'w"

datatype print_arg = PErr go_error | PInt int | PStr string

datatype sql_call =
    SetMaxOpenConns int
  | SetMaxIdleConns int
  | SetConnMaxLifetime int
  | DbExec string "sql_value list"
  | TxBegin "nat fallible"
  | TxExec nat string "sql_value list" "sql_result fallible"
  | TxCommit nat
  | TxRollback nat
  | RowsClose

record 'w sql_prog =
  sp_world :: 'w
  sp_calls :: "sql_call list"
  sp_out :: "(string \<times> print_arg list) list"

type_synonym ('w, 'a) sql = "('w sql_prog, 'a) go"

text \<open>A call of the library, with what is noted of it.\<close>

definition on_db :: "('r \<Rightarrow> sql_call list) \<Rightarrow> ('w \<Rightarrow> 'r \<times> 'w) \<Rightarrow> ('w, 'r) sql" where
  "on_db ev f s =
     (case f (sp_world s) of (r, w) \<Rightarrow> (Ok r, s\<lparr>sp_world := w, sp_calls := sp_calls s @ ev r\<rparr>))"

definition note_call :: "sql_call \<Rightarrow> ('w, unit) sql" where
  "note_call c = go_modify (\<lambda>s. s\<lparr>sp_calls := sp_calls s @ [c]\<rparr>)"

definition Printf :: "string \<Rightarrow> print_arg list \<Rightarrow> ('w, unit) sql" where
  "Printf f as = go_modify (\<lambda>s. s\<lparr>sp_out := sp_out s @ [(f, as)]\<rparr>)"

text \<open>The value behind a pointer or in an interface.\<close>

definition go_deref :: "'a option \<Rightarrow> ('s, 'a) go" where
  "go_deref p = (case p of Some v \<Rightarrow> go_return v | None \<Rightarrow> go_panic NilDereference)"

definition wang_wu :: string where
  "wang_wu = utf8 [0x738B, 0x4E94]"

section \<open>The demos\<close>

definition initDB :: "'w sql_lib \<Rightarrow> ('w, go_error option) sql" where
  "initDB L =
     go_bind (on_db (\<lambda>_. []) (sql_Open L ''mysql''
        ''root:mySQLDocker@tcp(127.0.0.1:3306)/sql_test?charset=utf8mb4&parseTime=True'')) (\<lambda>err.
     if err \<noteq> None then go_return err
     else
       go_bind (on_db (\<lambda>_. []) (sql_Ping L)) (\<lambda>err.
       if err \<noteq> None then go_return err
       else
         go_bind (note_call (SetMaxOpenConns 50)) (\<lambda>_.
         go_bind (note_call (SetMaxIdleConns 50)) (\<lambda>_.
         go_bind (note_call (SetConnMaxLifetime 3600000000000)) (\<lambda>_. go_return None)))))"

definition queryRowDemo :: "'w sql_lib \<Rightarrow> ('w, unit) sql" where
  "queryRowDemo L =
     go_bind (on_db (\<lambda>_. []) (sql_QueryRow L ''SELECT id, name, age FROM user where id=?'' [SInt 1])) (\<lambda>(u, err).
     case err of
       Some e \<Rightarrow> Printf ''scan error: %v'' [PErr e]
     | None \<Rightarrow> Printf ''id: %d, name: %s, age: %d'' [PInt (user_id u), PStr (user_name u), PInt (user_age u)])"

text \<open>The loop over the rows, which ends at the first that cannot be scanned.\<close>

fun rows_loop :: "sql_rows \<Rightarrow> ('w, unit) sql" where
  "rows_loop [] = go_return ()"
| "rows_loop ((u, err) # rows) =
     (case err of
        Some e \<Rightarrow> Printf ''scan error: %v'' [PErr e]
      | None \<Rightarrow>
          go_bind (Printf ''id:%d name:%s age:%d'' [PInt (user_id u), PStr (user_name u), PInt (user_age u)])
            (\<lambda>_. rows_loop rows))"

definition queryMultiRowDemo :: "'w sql_lib \<Rightarrow> ('w, unit) sql" where
  "queryMultiRowDemo L =
     go_bind (on_db (\<lambda>_. []) (sql_Query L ''SELECT id, name, age FROM user where id > ?'' [SInt 0])) (\<lambda>(rows, err).
     case err of
       Some e \<Rightarrow> Printf ''query error: %v'' [PErr e]
     | None \<Rightarrow> go_bind (go_deref rows) (\<lambda>rs. go_bind (rows_loop rs) (\<lambda>_. note_call RowsClose)))"

definition db_Exec :: "'w sql_lib \<Rightarrow> string \<Rightarrow> sql_value list \<Rightarrow> ('w, sql_result fallible) sql" where
  "db_Exec L q as = on_db (\<lambda>_. [DbExec q as]) (sql_Exec L q as)"

definition insertRowDemo :: "'w sql_lib \<Rightarrow> ('w, unit) sql" where
  "insertRowDemo L =
     go_bind (db_Exec L ''INSERT INTO user(name, age) value (?,?)'' [SStr wang_wu, SInt 38]) (\<lambda>(ret, err).
     case err of
       Some e \<Rightarrow> Printf ''insert error: %v'' [PErr e]
     | None \<Rightarrow>
         go_bind (go_deref ret) (\<lambda>r.
         case LastInsertId r of
           (_, Some e) \<Rightarrow> Printf ''get lastInsertID error: %v'' [PErr e]
         | (n, None) \<Rightarrow> Printf ''insert success, last insert ID: %d'' [PInt n]))"

definition updateRowDemo :: "'w sql_lib \<Rightarrow> ('w, unit) sql" where
  "updateRowDemo L =
     go_bind (db_Exec L ''UPDATE user SET age=? WHERE name=?'' [SInt 31, SStr wang_wu]) (\<lambda>(ret, err).
     case err of
       Some e \<Rightarrow> Printf ''update error: %v'' [PErr e]
     | None \<Rightarrow>
         go_bind (go_deref ret) (\<lambda>r.
         case RowsAffected r of
           (_, Some e) \<Rightarrow> Printf ''get RowAffected error: %v'' [PErr e]
         | (n, None) \<Rightarrow> Printf ''update success, affected rows: %d'' [PInt n]))"

text \<open>Here an error of \<open>Exec\<close> is printed and the call goes on with the result.\<close>

definition deleteRowDemo :: "'w sql_lib \<Rightarrow> ('w, unit) sql" where
  "deleteRowDemo L =
     go_bind (db_Exec L ''DELETE FROM user where name = ?'' [SStr wang_wu]) (\<lambda>(ret, err).
     go_bind (case err of Some e \<Rightarrow> Printf ''delete error: %v'' [PErr e] | None \<Rightarrow> go_return ()) (\<lambda>_.
     go_bind (go_deref ret) (\<lambda>r.
     case RowsAffected r of
       (_, Some e) \<Rightarrow> Printf ''get RowAffected error: %v'' [PErr e]
     | (n, None) \<Rightarrow> Printf ''delete success, affected rows: %d'' [PInt n])))"

section \<open>The transaction\<close>

definition do_Begin :: "'w sql_lib \<Rightarrow> ('w, nat fallible) sql" where
  "do_Begin L = on_db (\<lambda>r. [TxBegin r]) (sql_Begin L)"

definition do_Exec :: "'w sql_lib \<Rightarrow> nat \<Rightarrow> string \<Rightarrow> sql_value list \<Rightarrow> ('w, sql_result fallible) sql" where
  "do_Exec L t q as = on_db (\<lambda>r. [TxExec t q as r]) (tx_Exec L t q as)"

definition do_Commit :: "'w sql_lib \<Rightarrow> nat \<Rightarrow> ('w, go_error option) sql" where
  "do_Commit L t = on_db (\<lambda>_. [TxCommit t]) (tx_Commit L t)"

definition do_Rollback :: "'w sql_lib \<Rightarrow> nat \<Rightarrow> ('w, go_error option) sql" where
  "do_Rollback L t = on_db (\<lambda>_. [TxRollback t]) (tx_Rollback L t)"

text \<open>The rows that a statement affected, or the roll-back and the message of \<open>errmsg\<close> or \<open>affmsg\<close>.\<close>

definition tx_statement :: "'w sql_lib \<Rightarrow> nat \<Rightarrow> string \<Rightarrow> string \<Rightarrow> string \<Rightarrow> ('w, int option) sql" where
  "tx_statement L t q errmsg affmsg =
     go_bind (do_Exec L t q [SStr wang_wu]) (\<lambda>(ret, err).
     case err of
       Some e \<Rightarrow> go_bind (do_Rollback L t) (\<lambda>_. go_bind (Printf errmsg [PErr e]) (\<lambda>_. go_return None))
     | None \<Rightarrow>
         go_bind (go_deref ret) (\<lambda>r.
         case RowsAffected r of
           (_, Some e) \<Rightarrow> go_bind (do_Rollback L t) (\<lambda>_. go_bind (Printf affmsg [PErr e]) (\<lambda>_. go_return None))
         | (n, None) \<Rightarrow> go_return (Some n)))"

definition transactionDemo :: "'w sql_lib \<Rightarrow> ('w, unit) sql" where
  "transactionDemo L =
     go_bind (do_Begin L) (\<lambda>(tx, err).
     case err of
       Some e \<Rightarrow>
         go_bind (case tx of Some t \<Rightarrow> go_bind (do_Rollback L t) (\<lambda>_. go_return ()) | None \<Rightarrow> go_return ())
           (\<lambda>_. Printf ''begin trans error: %v'' [PErr e])
     | None \<Rightarrow>
         go_bind (go_deref tx) (\<lambda>t.
         go_bind (tx_statement L t ''UPDATE user set age=30 where name=?''
                    ''exec sql1 error: %v'' ''exec ret1.RowsAffected error: %v'') (\<lambda>aff1.
         case aff1 of
           None \<Rightarrow> go_return ()
         | Some affRow1 \<Rightarrow>
             go_bind (tx_statement L t ''UPDATE user set age=40 where name=?''
                        ''exec sql2 error: %v'' ''exec ret1.RowsAffected error: %v'') (\<lambda>aff2.
             case aff2 of
               None \<Rightarrow> go_return ()
             | Some affRow2 \<Rightarrow>
                 go_bind (Printf ''aff1: %d, aff2: %d'' [PInt affRow1, PInt affRow2]) (\<lambda>_.
                 if affRow1 = 1 \<and> affRow2 = 1 then
                   go_bind (do_Commit L t) (\<lambda>_. Printf ''exec trans success!'' [])
                 else
                   go_bind (do_Rollback L t) (\<lambda>_.
                   Printf (utf8 [0x4E0D, 0x7B26, 0x5408, 0x4E1A, 0x52A1, 0xFF0C, 0x4E8B, 0x52A1, 0x56DE, 0x6EDA,
                                 0x3002, 0x3002, 0x3002]) []))))))"

definition mysql_main :: "'w sql_lib \<Rightarrow> ('w, unit) sql" where
  "mysql_main L =
     go_bind (initDB L) (\<lambda>err.
     case err of
       Some e \<Rightarrow> Printf ''init db error: %v'' [PErr e]
     | None \<Rightarrow> go_bind (insertRowDemo L) (\<lambda>_. transactionDemo L))"

section \<open>All or nothing\<close>

text \<open>
  What \<^verbatim>\<open>database/sql\<close> documents, for the part \<open>committed\<close> of the world that other connections see: nothing of a
  transaction shows before it is committed, and a call without an error gives a value.
\<close>

definition isolated :: "('w, 'm) sql_lib_scheme \<Rightarrow> ('w \<Rightarrow> 'd) \<Rightarrow> bool" where
  "isolated L committed \<longleftrightarrow>
     (\<forall>w. committed (snd (sql_Begin L w)) = committed w
        \<and> (snd (fst (sql_Begin L w)) = None \<longrightarrow> fst (fst (sql_Begin L w)) \<noteq> None))
     \<and> (\<forall>t q as w. committed (snd (tx_Exec L t q as w)) = committed w
        \<and> (snd (fst (tx_Exec L t q as w)) = None \<longrightarrow> fst (fst (tx_Exec L t q as w)) \<noteq> None))
     \<and> (\<forall>t w. committed (snd (tx_Rollback L t w)) = committed w)"

text \<open>A statement that changed exactly one row.\<close>

fun changed_one :: "sql_call \<Rightarrow> bool" where
  "changed_one (TxExec t q as (Some r, None)) = (RowsAffected r = (1, None))"
| "changed_one c = False"

fun executes :: "nat \<Rightarrow> sql_call \<Rightarrow> bool" where
  "executes t (TxExec t' q as r) = (t' = t)"
| "executes t c = False"

text \<open>The calls of a transaction that is begun and ended once; \<open>fin\<close> is the end.\<close>

definition transaction :: "sql_call list \<Rightarrow> sql_call \<Rightarrow> bool" where
  "transaction cs fin \<longleftrightarrow>
     (\<exists>t es. cs = TxBegin (Some t, None) # es @ [fin] \<and> list_all (executes t) es
        \<and> fin \<in> {TxCommit t, TxRollback t}
        \<and> (fin = TxCommit t \<longleftrightarrow> length es = 2 \<and> list_all changed_one es))"

lemma do_Rollback_isolated:
  assumes "isolated L committed"
  obtains e w where "do_Rollback L t s = (Ok e, s\<lparr>sp_world := w, sp_calls := sp_calls s @ [TxRollback t]\<rparr>)"
    "committed w = committed (sp_world s)"
proof -
  obtain e w where r: "tx_Rollback L t (sp_world s) = (e, w)" by (rule prod.exhaust)
  have "committed w = committed (sp_world s)"
    using assms [unfolded isolated_def, THEN conjunct2, THEN conjunct2, THEN spec [of _ t],
        THEN spec [of _ "sp_world s"]] by (simp add: r)
  then show thesis by (intro that [of e w]) (simp_all add: do_Rollback_def on_db_def r)
qed

lemma tx_statement_isolated:
  assumes i: "isolated L committed" and run: "tx_statement L t q em am s = (r, s')"
  shows "committed (sp_world s') = committed (sp_world s)
    \<and> (\<exists>res. (r = Ok None \<and> sp_calls s' = sp_calls s @ [TxExec t q [SStr wang_wu] res, TxRollback t]
              \<and> \<not> changed_one (TxExec t q [SStr wang_wu] res))
           \<or> (\<exists>n. r = Ok (Some n) \<and> sp_calls s' = sp_calls s @ [TxExec t q [SStr wang_wu] res]
              \<and> changed_one (TxExec t q [SStr wang_wu] res) = (n = 1)))"
proof -
  obtain ret err w where x: "tx_Exec L t q [SStr wang_wu] (sp_world s) = ((ret, err), w)" by (metis prod.exhaust)
  let ?s = "s\<lparr>sp_world := w, sp_calls := sp_calls s @ [TxExec t q [SStr wang_wu] (ret, err)]\<rparr>"
  have h: "committed w = committed (sp_world s)" "err = None \<Longrightarrow> ret \<noteq> None"
    using i [unfolded isolated_def, THEN conjunct2, THEN conjunct1, THEN spec [of _ t], THEN spec [of _ q],
        THEN spec [of _ "[SStr wang_wu]"], THEN spec [of _ "sp_world s"]] by (simp_all add: x)
  obtain e w2 where rb: "do_Rollback L t ?s = (Ok e, ?s\<lparr>sp_world := w2, sp_calls := sp_calls ?s @ [TxRollback t]\<rparr>)"
    "committed w2 = committed (sp_world ?s)" using do_Rollback_isolated [OF i] .
  note go = tx_statement_def go_bind_def do_Exec_def on_db_def x Printf_def go_modify_def go_return_def go_deref_def
  show ?thesis
  proof (cases err)
    case (Some e)
    then show ?thesis using run rb h by (auto simp: go)
  next
    case None
    then obtain v where v: "ret = Some v" using h(2) by auto
    show ?thesis
    proof (cases "RowsAffected v")
      case (Pair n aerr)
      then show ?thesis using run rb h by (cases aerr) (auto simp: go None v)
    qed
  qed
qed

lemma transaction_rolled_back:
  "list_all (executes t) es \<Longrightarrow> \<not> (length es = 2 \<and> list_all changed_one es)
     \<Longrightarrow> transaction (TxBegin (Some t, None) # es @ [TxRollback t]) (TxRollback t)"
  unfolding transaction_def by (intro exI [of _ t] exI [of _ es]) simp

lemma transaction_committed:
  "list_all (executes t) es \<Longrightarrow> length es = 2 \<Longrightarrow> list_all changed_one es
     \<Longrightarrow> transaction (TxBegin (Some t, None) # es @ [TxCommit t]) (TxCommit t)"
  unfolding transaction_def by (intro exI [of _ t] exI [of _ es]) simp

text \<open>What \<open>transactionDemo\<close> does once the transaction is begun.\<close>

lemma transaction_begun:
  assumes i: "isolated L committed" and b: "sql_Begin L (sp_world s) = ((Some t, None), w)"
    and run: "transactionDemo L s = (r, s')"
  shows "\<exists>cs fin. r = Ok () \<and> sp_calls s' = sp_calls s @ cs \<and> transaction cs fin
    \<and> (committed (sp_world s') = committed w \<or> fin = TxCommit t)"
proof -
  let ?b = "s\<lparr>sp_world := w, sp_calls := sp_calls s @ [TxBegin (Some t, None)]\<rparr>"
  let ?x1 = "TxExec t ''UPDATE user set age=30 where name=?'' [SStr wang_wu]"
  let ?x2 = "TxExec t ''UPDATE user set age=40 where name=?'' [SStr wang_wu]"
  obtain r1 s1 where 1: "tx_statement L t ''UPDATE user set age=30 where name=?''
      ''exec sql1 error: %v'' ''exec ret1.RowsAffected error: %v'' ?b = (r1, s1)" by (rule prod.exhaust)
  obtain res1 where c1: "committed (sp_world s1) = committed w"
    and s1: "(r1 = Ok None \<and> sp_calls s1 = sp_calls ?b @ [?x1 res1, TxRollback t] \<and> \<not> changed_one (?x1 res1))
      \<or> (\<exists>n. r1 = Ok (Some n) \<and> sp_calls s1 = sp_calls ?b @ [?x1 res1] \<and> changed_one (?x1 res1) = (n = 1))"
    using tx_statement_isolated [OF i 1] by auto
  note go = transactionDemo_def go_bind_def do_Begin_def on_db_def b go_deref_def go_return_def 1
  show ?thesis
  proof (cases "r1 = Ok None")
    case True
    then have "r = Ok ()" "s' = s1" using run by (simp_all add: go)
    then show ?thesis using True s1 c1 transaction_rolled_back [of t "[?x1 res1]"] by auto
  next
    case False
    then obtain n1 where n1: "r1 = Ok (Some n1)" and e1: "sp_calls s1 = sp_calls ?b @ [?x1 res1]"
      "changed_one (?x1 res1) = (n1 = 1)" using s1 by blast
    obtain r2 s2 where 2: "tx_statement L t ''UPDATE user set age=40 where name=?''
        ''exec sql2 error: %v'' ''exec ret1.RowsAffected error: %v'' s1 = (r2, s2)" by (rule prod.exhaust)
    obtain res2 where c2: "committed (sp_world s2) = committed w"
      and s2: "(r2 = Ok None \<and> sp_calls s2 = sp_calls s1 @ [?x2 res2, TxRollback t] \<and> \<not> changed_one (?x2 res2))
        \<or> (\<exists>n. r2 = Ok (Some n) \<and> sp_calls s2 = sp_calls s1 @ [?x2 res2] \<and> changed_one (?x2 res2) = (n = 1))"
      using tx_statement_isolated [OF i 2] c1 by auto
    show ?thesis
    proof (cases "r2 = Ok None")
      case True
      then have "r = Ok ()" "s' = s2" using run by (simp_all add: go n1 2)
      then show ?thesis using True s2 e1 c2 transaction_rolled_back [of t "[?x1 res1, ?x2 res2]"] by auto
    next
      case False
      then obtain n2 where n2: "r2 = Ok (Some n2)" and e2: "sp_calls s2 = sp_calls s1 @ [?x2 res2]"
        "changed_one (?x2 res2) = (n2 = 1)" using s2 by blast
      let ?s3 = "s2\<lparr>sp_out := sp_out s2 @ [(''aff1: %d, aff2: %d'', [PInt n1, PInt n2])]\<rparr>"
      show ?thesis
      proof (cases "n1 = 1 \<and> n2 = 1")
        case True
        have "r = Ok () \<and> sp_calls s' = sp_calls s2 @ [TxCommit t]"
          using run True by (auto simp: go n1 2 n2 Printf_def go_modify_def do_Commit_def split: prod.splits)
        then show ?thesis using True e1 e2 transaction_committed [of t "[?x1 res1, ?x2 res2]"] by auto
      next
        case False
        obtain e w3 where rb: "do_Rollback L t ?s3
            = (Ok e, ?s3\<lparr>sp_world := w3, sp_calls := sp_calls ?s3 @ [TxRollback t]\<rparr>)"
          "committed w3 = committed (sp_world ?s3)" using do_Rollback_isolated [OF i] .
        have "r = Ok () \<and> sp_calls s' = sp_calls s2 @ [TxRollback t] \<and> committed (sp_world s') = committed w"
          using run False rb c2 by (auto simp: go n1 2 n2 Printf_def go_modify_def)
        then show ?thesis using False e1 e2 transaction_rolled_back [of t "[?x1 res1, ?x2 res2]"] by auto
      qed
    qed
  qed
qed

text \<open>C24: \<open>transactionDemo\<close> is all or nothing, whatever the database answers: it returns, a transaction that
  was begun is ended exactly once and nothing follows, and it is committed exactly when both statements changed one
  row. Unless it was committed, other connections see no difference.\<close>

theorem transaction_all_or_nothing:
  assumes "isolated L committed"
  shows "case transactionDemo L s of (r, s') \<Rightarrow>
    r = Ok () \<and>
    (\<exists>cs. sp_calls s' = sp_calls s @ cs \<and>
       (case fst (sql_Begin L (sp_world s)) of
          (tx, Some e) \<Rightarrow>
            cs = TxBegin (tx, Some e) # (case tx of Some t \<Rightarrow> [TxRollback t] | None \<Rightarrow> [])
            \<and> committed (sp_world s') = committed (sp_world s)
        | (tx, None) \<Rightarrow>
            (\<exists>fin. transaction cs fin
               \<and> (committed (sp_world s') = committed (sp_world s) \<or> (\<exists>t. fin = TxCommit t)))))"
proof -
  obtain tx err w where b: "sql_Begin L (sp_world s) = ((tx, err), w)" by (metis prod.exhaust)
  obtain r s' where run: "transactionDemo L s = (r, s')" by (rule prod.exhaust)
  have h: "committed w = committed (sp_world s)" "err = None \<Longrightarrow> tx \<noteq> None"
    using assms [unfolded isolated_def, THEN conjunct1, THEN spec [of _ "sp_world s"]] by (simp_all add: b)
  let ?b = "s\<lparr>sp_world := w, sp_calls := sp_calls s @ [TxBegin (tx, err)]\<rparr>"
  note go = transactionDemo_def go_bind_def do_Begin_def on_db_def b go_return_def Printf_def go_modify_def
  show ?thesis
  proof (cases err)
    case None
    then obtain t where "tx = Some t" using h(2) by blast
    with transaction_begun [OF assms _ run] b h(1) None show ?thesis by (auto simp: run)
  next
    case err: (Some e)
    show ?thesis
    proof (cases tx)
      case None
      then show ?thesis using run h(1) by (auto simp: go err)
    next
      case (Some t)
      obtain e' w2 where rb: "do_Rollback L t ?b = (Ok e', ?b\<lparr>sp_world := w2, sp_calls := sp_calls ?b @ [TxRollback t]\<rparr>)"
        "committed w2 = committed (sp_world ?b)" using do_Rollback_isolated [OF assms] .
      then show ?thesis using run h(1) by (auto simp: go err Some)
    qed
  qed
qed

text \<open>A database in memory: the rows that are committed, and those of the open transaction. An update
  affects the rows that it changes.\<close>

type_synonym mem_db = "(string \<times> int) list \<times> (string \<times> int) list"

definition mem_update :: "int \<Rightarrow> sql_value list \<Rightarrow> mem_db \<Rightarrow> sql_result fallible \<times> mem_db" where
  "mem_update age as w =
     (let hit = (\<lambda>(n, a). as = [SStr n] \<and> a \<noteq> age)
      in ((Some \<lparr> LastInsertId = (0, None), RowsAffected = (int (length (filter hit (snd w))), None) \<rparr>, None),
          (fst w, map (\<lambda>(n, a). if hit (n, a) then (n, age) else (n, a)) (snd w))))"

definition mem_lib :: "mem_db sql_lib" where
  "mem_lib =
     \<lparr> sql_Open = (\<lambda>d dsn w. (None, w)), sql_Ping = (\<lambda>w. (None, w)),
       sql_Exec = (\<lambda>q as w. ((None, Some (Msg ''read only'')), w)),
       sql_QueryRow = (\<lambda>q as w. ((\<lparr> user_id = 0, user_age = 0, user_name = [] \<rparr>, Some (Msg ''no rows'')), w)),
       sql_Query = (\<lambda>q as w. ((Some [], None), w)),
       sql_Begin = (\<lambda>w. ((Some 0, None), (fst w, fst w))),
       tx_Exec = (\<lambda>t q. mem_update (if q = ''UPDATE user set age=30 where name=?'' then 30 else 40)),
       tx_Commit = (\<lambda>t w. (None, (snd w, snd w))),
       tx_Rollback = (\<lambda>t w. (None, (fst w, fst w))) \<rparr>"

lemma mem_lib_isolated: "isolated mem_lib fst"
  by (simp add: isolated_def mem_lib_def mem_update_def Let_def)

definition mem_start :: "mem_db \<Rightarrow> mem_db sql_prog" where
  "mem_start w = \<lparr> sp_world = w, sp_calls = [], sp_out = [] \<rparr>"

lemmas transaction_defs =
  transactionDemo_def go_bind_def do_Begin_def do_Exec_def do_Commit_def do_Rollback_def on_db_def go_return_def
  Printf_def go_modify_def go_deref_def tx_statement_def mem_start_def mem_lib_def mem_update_def

theorem transaction_all_or_nothing_witness:
  "isolated mem_lib fst \<and>
   (\<exists>s'. transactionDemo mem_lib (mem_start ([(''x'', 1), (wang_wu, 38)], [])) = (Ok (), s')
     \<and> fst (sp_world s') = [(''x'', 1), (wang_wu, 40)] \<and> (\<exists>fin. transaction (sp_calls s') fin))
   \<and> (\<exists>s'. transactionDemo mem_lib (mem_start ([(wang_wu, 38), (wang_wu, 39)], [])) = (Ok (), s')
     \<and> fst (sp_world s') = [(wang_wu, 38), (wang_wu, 39)])"
proof -
  have x: "wang_wu \<noteq> ''x''" by (simp add: wang_wu_def utf8_def EncodeRune_def ValidRune_def)
  obtain s1 where 1: "transactionDemo mem_lib (mem_start ([(''x'', 1), (wang_wu, 38)], [])) = (Ok (), s1)"
    "fst (sp_world s1) = [(''x'', 1), (wang_wu, 40)]"
    using x by (simp add: transaction_defs Let_def)
  have b: "fst (sql_Begin mem_lib w) = (Some 0, None)" for w by (simp add: mem_lib_def)
  have "\<exists>fin. transaction (sp_calls s1) fin"
    using transaction_all_or_nothing [OF mem_lib_isolated, of "mem_start ([(''x'', 1), (wang_wu, 38)], [])"]
    by (simp add: 1(1) b) (auto simp: mem_start_def)
  moreover have "\<exists>s'. transactionDemo mem_lib (mem_start ([(wang_wu, 38), (wang_wu, 39)], [])) = (Ok (), s')
     \<and> fst (sp_world s') = [(wang_wu, 38), (wang_wu, 39)]"
    by (simp add: transaction_defs Let_def)
  ultimately show ?thesis using 1 mem_lib_isolated by blast
qed

section \<open>The other demos\<close>

text \<open>\<open>queryMultiRowDemo\<close> closes the rows on every path, and prints the users up to the first that cannot be
  scanned.\<close>

lemma rows_loop_ends:
  "\<exists>out. rows_loop rows s = (Ok (), s\<lparr>sp_out := sp_out s @ out\<rparr>)
     \<and> map snd (filter (\<lambda>(f, as). f = ''id:%d name:%s age:%d'') out)
       = map (\<lambda>(u, err). [PInt (user_id u), PStr (user_name u), PInt (user_age u)])
           (takeWhile (\<lambda>(u, err). err = None) rows)"
proof (induction rows arbitrary: s)
  case Nil
  show ?case by (intro exI [of _ "[]"]) (simp add: go_return_def)
next
  case (Cons a rows)
  obtain u err where a: "a = (u, err)" by fastforce
  show ?case
  proof (cases err)
    case None
    let ?p = "(''id:%d name:%s age:%d'', [PInt (user_id u), PStr (user_name u), PInt (user_age u)])"
    from Cons.IH [of "s\<lparr>sp_out := sp_out s @ [?p]\<rparr>"] obtain out where
      "rows_loop rows (s\<lparr>sp_out := sp_out s @ [?p]\<rparr>) = (Ok (), s\<lparr>sp_out := sp_out s @ [?p] @ out\<rparr>)"
      "map snd (filter (\<lambda>(f, as). f = ''id:%d name:%s age:%d'') out)
       = map (\<lambda>(u, err). [PInt (user_id u), PStr (user_name u), PInt (user_age u)])
           (takeWhile (\<lambda>(u, err). err = None) rows)" by auto
    then show ?thesis
      by (intro exI [of _ "?p # out"]) (simp add: a None go_bind_def Printf_def go_modify_def)
  next
    case (Some e)
    show ?thesis
      by (intro exI [of _ "[(''scan error: %v'', [PErr e])]"]) (simp add: a Some Printf_def go_modify_def)
  qed
qed

lemma query_closes_rows:
  assumes "sql_Query L ''SELECT id, name, age FROM user where id > ?'' [SInt 0] (sp_world s) = ((Some rows, None), w)"
  shows "\<exists>s'. queryMultiRowDemo L s = (Ok (), s') \<and> sp_calls s' = sp_calls s @ [RowsClose]"
proof -
  obtain out where "rows_loop rows (s\<lparr>sp_world := w\<rparr>) = (Ok (), s\<lparr>sp_world := w, sp_out := sp_out s @ out\<rparr>)"
    using rows_loop_ends [of rows "s\<lparr>sp_world := w\<rparr>"] by auto
  then show ?thesis
    by (simp add: queryMultiRowDemo_def go_bind_def on_db_def assms go_deref_def go_return_def note_call_def go_modify_def)
qed

text \<open>\<open>deleteRowDemo\<close> uses the result of a statement that failed.\<close>

lemma delete_error_panics:
  assumes "sql_Exec L ''DELETE FROM user where name = ?'' [SStr wang_wu] (sp_world s) = ((None, Some e), w)"
  shows "fst (deleteRowDemo L s) = Panic NilDereference"
  by (simp add: deleteRowDemo_def db_Exec_def go_bind_def on_db_def assms Printf_def go_modify_def go_deref_def go_panic_def)

end
