(* ===== verification/HashDemo.thy ===== *)
theory HashDemo
  imports ConsistentHash
begin

text \<open>
  The hash ring of \<^verbatim>\<open>cmd/demo\<close>, an earlier form of the balancer in \<open>ConsistentHash\<close>: it takes the number of
  virtual nodes as an \<open>int\<close>, cannot delete, and returns no errors. It gives the same answers.
\<close>

record chash =
  ch_hashRing :: "u32 list"
  ch_hashFunc :: "string \<Rightarrow> u32"
  ch_vNodeMapNode :: "u32 \<rightharpoonup> string"
  ch_hashRingSize :: int

definition NewCHash :: "(string \<Rightarrow> u32) option \<Rightarrow> chash" where
  "NewCHash hash =
     \<lparr> ch_hashRing = [], ch_hashFunc = (case hash of None \<Rightarrow> ChecksumIEEE | Some h \<Rightarrow> h),
       ch_vNodeMapNode = Map.empty, ch_hashRingSize = 0 \<rparr>"

definition CHash_vnode :: "string \<Rightarrow> nat \<Rightarrow> chash \<Rightarrow> chash" where
  "CHash_vnode node i ch =
     (let key = ch_hashFunc ch (node @ ''_'' @ Itoa i)
      in ch\<lparr>ch_vNodeMapNode := (ch_vNodeMapNode ch)(key \<mapsto> node),
            ch_hashRing := ch_hashRing ch @ [key],
            ch_hashRingSize := ch_hashRingSize ch + 1\<rparr>)"

text \<open>\<open>Add\<close> prints the ring if it is sorted.\<close>

definition CHash_Add :: "string \<Rightarrow> int \<Rightarrow> chash \<Rightarrow> u32 list option \<times> chash" where
  "CHash_Add node vNodes ch =
     (let ch = fold (CHash_vnode node) [0..<nat vNodes] ch;
          ch = ch\<lparr>ch_hashRing := sort (ch_hashRing ch)\<rparr>
      in (if sorted (ch_hashRing ch) then Some (ch_hashRing ch) else None, ch))"

definition CHash_Get :: "string \<Rightarrow> chash \<Rightarrow> string res" where
  "CHash_Get input ch =
     (let key = ch_hashFunc ch input
      in case Search (ch_hashRingSize ch) (ring_ge (ch_hashRing ch) key) of
           Ok idx \<Rightarrow>
             let idx = (if int idx = ch_hashRingSize ch then 0 else idx)
             in if idx < length (ch_hashRing ch)
                then Ok (case ch_vNodeMapNode ch (ch_hashRing ch ! idx) of None \<Rightarrow> [] | Some node \<Rightarrow> node)
                else Panic IndexOutOfRange
         | Err e \<Rightarrow> Err e
         | Panic p \<Rightarrow> Panic p)"

text \<open>What \<open>main\<close> prints after the rings.\<close>

definition demo_main :: "string res list" where
  "demo_main =
     (let ch = snd (CHash_Add ''1.1.1.1'' 5 (NewCHash None));
          ch = snd (CHash_Add ''2.2.2.2'' 5 ch);
          ch = snd (CHash_Add ''3.3.3.3'' 5 ch)
      in map (\<lambda>i. CHash_Get (Itoa i @ ''_'' @ ''Shanghai'') ch) [0..<30])"

section \<open>The same ring\<close>

text \<open>The balancer without what only \<open>Delete\<close> needs.\<close>

definition as_chash :: "consistent_hash \<Rightarrow> chash" where
  "as_chash ch =
     \<lparr> ch_hashRing = hashRing ch, ch_hashFunc = hashFunc ch, ch_vNodeMapNode = vNodeMapNode ch,
       ch_hashRingSize = hashRingSize ch \<rparr>"

lemma as_chash_new: "NewCHash h = as_chash (NewConsistentHash h)"
  by (simp add: NewCHash_def as_chash_def NewConsistentHash_def)

lemma as_chash_vnode: "CHash_vnode node i (as_chash ch) = as_chash (Add_vnode node i ch)"
  by (simp add: CHash_vnode_def as_chash_def Add_vnode_def vnode_key_def Let_def)

lemma as_chash_vnodes: "fold (CHash_vnode node) is (as_chash ch) = as_chash (fold (Add_vnode node) is ch)"
  by (induction "is" arbitrary: ch) (simp_all add: as_chash_vnode)

lemma as_chash_Add:
  assumes "ParseInt s = Ok n"
  shows "CHash_Add node n (as_chash ch)
     = (Some (hashRing (snd (CH_Add [node, s] ch))), as_chash (snd (CH_Add [node, s] ch)))"
  by (simp only: CHash_Add_def CH_Add_eq [OF assms, where ps = "[]"] Let_def as_chash_vnodes fold_Add_vnode)
    (simp add: vnode_key_def [abs_def] vnode_keys_def as_chash_def)

lemma as_chash_Add_Itoa:
  "n < 2 ^ 63 \<Longrightarrow> snd (CHash_Add node (int n) (as_chash ch)) = as_chash (snd (CH_Add [node, Itoa n] ch))"
  by (simp only: as_chash_Add [OF ParseInt_Itoa] snd_conv)

lemma sort_Nil_iff [simp]: "sort xs = [] \<longleftrightarrow> xs = []"
  by (metis length_0_conv length_sort)

lemma as_chash_Get: "CHash_Get p (as_chash ch) = fst (CH_Get (p # ps) ch)"
  by (auto simp: CHash_Get_def CH_Get_def as_chash_def Let_def split: res.split)

text \<open>The rings after the same nodes were added.\<close>

definition chash_after :: "(string \<Rightarrow> u32) option \<Rightarrow> (string \<times> nat) list \<Rightarrow> chash" where
  "chash_after h nodes = fold (\<lambda>(node, n) ch. snd (CHash_Add node (int n) ch)) nodes (NewCHash h)"

definition balancer_after :: "(string \<Rightarrow> u32) option \<Rightarrow> (string \<times> nat) list \<Rightarrow> consistent_hash" where
  "balancer_after h nodes = fold (\<lambda>(node, n) ch. snd (CH_Add [node, Itoa n] ch)) nodes (NewConsistentHash h)"

lemma chash_after_eq:
  assumes "list_all (\<lambda>(node, n). n < 2 ^ 63) nodes"
  shows "chash_after h nodes = as_chash (balancer_after h nodes)"
proof -
  have "fold (\<lambda>(node, n) ch. snd (CHash_Add node (int n) ch)) nodes (as_chash ch)
      = as_chash (fold (\<lambda>(node, n) ch. snd (CH_Add [node, Itoa n] ch)) nodes ch)" for ch
    using assms by (induction nodes arbitrary: ch) (auto simp: as_chash_Add_Itoa)
  then show ?thesis by (simp add: chash_after_def balancer_after_def as_chash_new)
qed

text \<open>Every virtual node of the ring belongs to a node that was added.\<close>

lemma balancer_after_ok:
  assumes "list_all (\<lambda>(node, n). n < 2 ^ 63) nodes"
  shows "ring_inv (balancer_after h nodes)
     \<and> (\<forall>k \<in> set (hashRing (balancer_after h nodes)). the (vNodeMapNode (balancer_after h nodes) k) \<in> fst ` set nodes)
     \<and> ((\<exists>(node, n) \<in> set nodes. 0 < n) \<longrightarrow> hashRing (balancer_after h nodes) \<noteq> [])"
  using assms
proof (induction nodes rule: rev_induct)
  case Nil
  then show ?case by (simp add: balancer_after_def NewConsistentHash_def ring_inv_def)
next
  case (snoc a nodes)
  obtain node n where a: "a = (node, n)" by fastforce
  let ?ch = "balancer_after h nodes"
  have p: "ParseInt (Itoa n) = Ok (int n)" using snoc.prems by (intro ParseInt_Itoa) (simp add: a)
  have step: "balancer_after h (nodes @ [a]) = snd (CH_Add [node, Itoa n] ?ch)"
    by (simp add: balancer_after_def a)
  note ih = snoc.IH snoc.prems
  have "ring_inv (snd (CH_Add [node, Itoa n] ?ch))"
    using ih CH_Add_ring_inv [of ?ch "[node, Itoa n]"] by (metis list_all_append prod.collapse)
  moreover have "vnode_keys f node (int n) \<noteq> []" if "0 < n" for f
    using that by (metis length_0_conv length_vnode_keys nat_int not_less0)
  ultimately show ?case
    unfolding step using ih by (auto simp: CH_Add_eq [OF p, where ps = "[]"] a)
qed

text \<open>The ring of the demo and the balancer agree: after the same nodes with the same numbers of virtual nodes they
  give the same answer to every input, including the panic of an empty ring; when some node has a virtual node the
  answer is one of the nodes.\<close>

theorem chash_agrees:
  assumes "list_all (\<lambda>(node, n). n < 2 ^ 63) nodes"
  shows "CHash_Get input (chash_after h nodes) = fst (CH_Get [input] (balancer_after h nodes))
    \<and> (if list_ex (\<lambda>(node, n). 0 < n) nodes
       then CHash_Get input (chash_after h nodes) \<in> Ok ` fst ` set nodes
       else CHash_Get input (chash_after h nodes) = Panic IndexOutOfRange)"
proof -
  let ?ch = "balancer_after h nodes"
  note ok = balancer_after_ok [OF assms, of h]
  have eq: "CHash_Get input (chash_after h nodes) = fst (CH_Get [input] ?ch)"
    unfolding chash_after_eq [OF assms] by (rule as_chash_Get)
  show ?thesis
  proof (cases "list_ex (\<lambda>(node, n). 0 < n) nodes")
    case True
    then have ne: "hashRing ?ch \<noteq> []" using ok by (auto simp: list_ex_iff)
    have "CH_Get [input] ?ch = (Ok (owner ?ch (hashFunc ?ch input)), ?ch)" using ok ne by (intro CH_Get_owner) blast+
    moreover have "owner ?ch (hashFunc ?ch input) \<in> fst ` set nodes"
      using owner_in [of ?ch "hashFunc ?ch input"] ok ne by auto
    ultimately show ?thesis using eq True by auto
  next
    case False
    then have "\<forall>(node, n) \<in> set nodes. n = 0" by (auto simp: list_ex_iff)
    then have "hashRing ?ch = [] \<and> hashRingSize ?ch = 0"
    proof (induction nodes rule: rev_induct)
      case Nil
      then show ?case by (simp add: balancer_after_def NewConsistentHash_def)
    next
      case (snoc a nodes)
      have "ParseInt (Itoa 0) = Ok 0" using ParseInt_Itoa [of 0] by simp
      with snoc show ?case
        by (auto simp: balancer_after_def CH_Add_eq [where ps = "[]"] vnode_keys_def)
    qed
    then show ?thesis using eq False CH_Get_empty by simp
  qed
qed

theorem chash_agrees_witness:
  "list_all (\<lambda>(node, n). n < 2 ^ 63) [(''a'', 2 :: nat), (''b'', 0)]
   \<and> CHash_Get ''x'' (chash_after None [(''a'', 2), (''b'', 0)]) \<in> Ok ` {''a'', ''b''}
   \<and> CHash_Get ''x'' (chash_after None [(''b'', 0)]) = Panic IndexOutOfRange"
proof -
  have "list_all (\<lambda>(node, n). n < 2 ^ 63) [(''a'', 2 :: nat), (''b'', 0)]"
    "list_all (\<lambda>(node, n). n < 2 ^ 63) [(''b'', 0 :: nat)]" by simp_all
  from this(1) chash_agrees [OF this(1), THEN conjunct2, of "''x''" None]
    chash_agrees [OF this(2), THEN conjunct2, of "''x''" None]
  show ?thesis by simp
qed

text \<open>The program prints the address of one of its three nodes for each of its thirty inputs.\<close>

lemma demo_main_prints: "length demo_main = 30 \<and> set demo_main \<subseteq> Ok ` {''1.1.1.1'', ''2.2.2.2'', ''3.3.3.3''}"
proof -
  let ?nodes = "[(''1.1.1.1'', 5 :: nat), (''2.2.2.2'', 5), (''3.3.3.3'', 5)]"
  have nodes: "list_all (\<lambda>(node, n). n < 2 ^ 63) ?nodes" by simp
  let ?ch = "balancer_after None ?nodes"
  note ok = balancer_after_ok [OF nodes, of None]
  have answer: "CHash_Get p (chash_after None ?nodes) \<in> Ok ` {''1.1.1.1'', ''2.2.2.2'', ''3.3.3.3''}" for p
  proof -
    have "CHash_Get p (chash_after None ?nodes) = Ok (owner ?ch (hashFunc ?ch p))"
      unfolding chash_after_eq [OF nodes] as_chash_Get [of p ?ch "[]"]
      using ok by (subst CH_Get_owner) auto
    moreover have "owner ?ch (hashFunc ?ch p) \<in> fst ` set ?nodes"
      using owner_in [of ?ch "hashFunc ?ch p"] ok by auto
    ultimately show ?thesis by auto
  qed
  define ask where "ask i = CHash_Get (Itoa i @ ''_'' @ ''Shanghai'') (chash_after None ?nodes)" for i
  have "ask i \<in> Ok ` {''1.1.1.1'', ''2.2.2.2'', ''3.3.3.3''}" for i unfolding ask_def by (rule answer)
  then have "length (map ask [0..<30]) = 30" "set (map ask [0..<30]) \<subseteq> Ok ` {''1.1.1.1'', ''2.2.2.2'', ''3.3.3.3''}"
    by auto
  moreover have "demo_main = map ask [0..<30]"
    by (simp add: demo_main_def chash_after_def ask_def [abs_def] Let_def del: upt_rec_numeral)
  ultimately show ?thesis by simp
qed

end
