(* ===== verification/Logging.thy ===== *)
theory Logging
  imports Listener Utf8
begin

text \<open>
  The loggers of \<^verbatim>\<open>internal/logging\<close> and the program \<^verbatim>\<open>cmd/rtmpserver\<close> that starts the server with one. A logger
  of the vendored \<^verbatim>\<open>logrus\<close> is its settings. The lower case of a rune (the tables of \<^verbatim>\<open>unicode\<close>) and the check of a
  time pattern by \<^verbatim>\<open>strftime.New\<close> are arguments.
\<close>

section \<open>The vendored libraries\<close>

datatype log_level =
    PanicLevel | FatalLevel | ErrorLevel | WarnLevel | InfoLevel | DebugLevel | TraceLevel

definition lower_string :: "(nat \<Rightarrow> nat) \<Rightarrow> string \<Rightarrow> string" where
  "lower_string lower s =
     (if ascii s then map ToLower_char s else concat (map (\<lambda>r. EncodeRune (lower r)) (runes s)))"

definition ParseLevel :: "(nat \<Rightarrow> nat) \<Rightarrow> string \<Rightarrow> log_level res" where
  "ParseLevel lower lvl =
     (let l = lower_string lower lvl in
      if l = ''panic'' then Ok PanicLevel
      else if l = ''fatal'' then Ok FatalLevel
      else if l = ''error'' then Ok ErrorLevel
      else if l = ''warn'' \<or> l = ''warning'' then Ok WarnLevel
      else if l = ''info'' then Ok InfoLevel
      else if l = ''debug'' then Ok DebugLevel
      else if l = ''trace'' then Ok TraceLevel
      else Err (Msg (''not a valid logrus Level: '' @ lvl)))"

record rotate_logs =
  rl_pattern :: string
  rl_linkName :: string
  rl_rotationTime :: int
  rl_maxAge :: int

text \<open>\<open>rotatelogs.New\<close> with the three options that the program gives; an age of zero is seven days.\<close>

definition rotatelogs_New :: "(string \<Rightarrow> go_error option) \<Rightarrow> string \<Rightarrow> string \<Rightarrow> int \<Rightarrow> int \<Rightarrow> rotate_logs res" where
  "rotatelogs_New strftime p link rotation age =
     (case strftime p of
        Some e \<Rightarrow> Err (Wrap e ''invalid strftime pattern'')
      | None \<Rightarrow>
          let age = (if age < 0 then 0 else age);
              age = (if age = 0 then 7 * 24 * 3600000000000 else age)
          in Ok \<lparr> rl_pattern = p, rl_linkName = link,
                  rl_rotationTime = (if rotation < 0 then 0 else rotation), rl_maxAge = age \<rparr>)"

datatype log_writer = Stderr | RotateLogs rotate_logs

datatype log_formatter = JSONFormatter | TextFormatter bool bool  \<comment> \<open>\<open>DisableColors\<close>, \<open>FullTimestamp\<close>\<close>

record logger =
  lg_Out :: log_writer
  lg_Formatter :: log_formatter
  lg_Level :: log_level
  lg_ReportCaller :: bool

definition logrus_New :: logger where
  "logrus_New =
     \<lparr> lg_Out = Stderr, lg_Formatter = TextFormatter False False, lg_Level = InfoLevel, lg_ReportCaller = False \<rparr>"

section \<open>The configuration\<close>

record log_config =
  LogPath :: string
  RotationTime :: int
  ReverseDays :: int
  log_Level :: string
  log_Format :: string
  SetRepoerCaller :: bool
  UseStderr :: bool

text \<open>A duration is an \<open>int64\<close>; \<open>time.Duration(days) * 24 * time.Hour\<close> wraps.\<close>

definition days_duration :: "int \<Rightarrow> int" where
  "days_duration days = i64 (i64 (days * 24) * 3600000000000)"

definition NewLogger :: "(nat \<Rightarrow> nat) \<Rightarrow> (string \<Rightarrow> go_error option) \<Rightarrow> log_config \<Rightarrow> logger res" where
  "NewLogger lower strftime lc =
     (case (if UseStderr lc then Ok Stderr
            else
              (case rotatelogs_New strftime (LogPath lc @ ''_%Y%m%d'') (LogPath lc) (RotationTime lc)
                      (days_duration (ReverseDays lc)) of
                 Ok w \<Rightarrow> Ok (RotateLogs w)
               | Err e \<Rightarrow> Err e
               | Panic p \<Rightarrow> Panic p)) of
        Ok out \<Rightarrow>
          let lg = logrus_New\<lparr>lg_Out := out\<rparr>;
              lg = (if lower_string lower (log_Format lc) = ''json'' then lg\<lparr>lg_Formatter := JSONFormatter\<rparr>
                    else lg\<lparr>lg_Formatter := TextFormatter True True\<rparr>);
              lg = (case ParseLevel lower (log_Level lc) of
                      Ok level \<Rightarrow> lg\<lparr>lg_Level := level\<rparr>
                    | _ \<Rightarrow> lg\<lparr>lg_Level := ErrorLevel\<rparr>);
              lg = (if SetRepoerCaller lc then lg\<lparr>lg_ReportCaller := True\<rparr> else lg)
          in Ok lg
      | Err e \<Rightarrow> Err e
      | Panic p \<Rightarrow> Panic p)"

section \<open>The program\<close>

definition initLogger :: "(nat \<Rightarrow> nat) \<Rightarrow> (string \<Rightarrow> go_error option) \<Rightarrow> logger res" where
  "initLogger lower strftime =
     NewLogger lower strftime
       \<lparr> LogPath = ''logs/error.log'', RotationTime = 24 * 3600000000000, ReverseDays = 7, log_Level = ''INFO'',
         log_Format = ''text'', SetRepoerCaller = True, UseStderr = True \<rparr>"

text \<open>
  The goroutine of \<open>main\<close> that serves: the connections it has started and the errors it has logged, or the
  error with which \<open>logrus.Fatal\<close> ends the process, or a panic.
\<close>

definition rtmpserver_main :: "(nat \<Rightarrow> nat) \<Rightarrow> (string \<Rightarrow> go_error option)
    \<Rightarrow> (string \<Rightarrow> string \<Rightarrow> accepted list res) \<Rightarrow> (nat, serving list \<times> go_error list) go" where
  "rtmpserver_main lower strftime os mgrs =
     (case initLogger lower strftime of
        Ok lg \<Rightarrow> ListenAndServe os ''tcp'' '':1935'' mgrs
      | Err e \<Rightarrow> (Panic (Explicit e), mgrs)
      | Panic p \<Rightarrow> (Panic p, mgrs))"

section \<open>What the loggers are\<close>

text \<open>No overflow up to the last day that a duration can hold.\<close>

lemma days_duration_exact:
  assumes "0 \<le> days" and "days \<le> 106751"
  shows "days_duration days = days * 86400000000000"
proof -
  have "i64 (days * 24) = days * 24" by (rule i64_id) (use assms in simp_all)
  then show ?thesis unfolding days_duration_def by (simp only:) (subst i64_id; use assms in simp)
qed

lemma days_duration_wraps: "days_duration 106752 < 0"
  by (simp add: days_duration_def i64_def)

text \<open>A logger is refused only when it should write to files and their pattern is no time pattern. A
  level that is none becomes \<open>ErrorLevel\<close>, a format that is none the text format; the logs are kept for
  the days that were asked for, as long as their nanoseconds fit a duration, and for a week when none were.\<close>

theorem NewLogger_settings:
  "case NewLogger lower strftime lc of
     Ok lg \<Rightarrow>
       (UseStderr lc \<or> strftime (LogPath lc @ ''_%Y%m%d'') = None)
       \<and> lg_Level lg = (case ParseLevel lower (log_Level lc) of Ok l \<Rightarrow> l | _ \<Rightarrow> ErrorLevel)
       \<and> (lg_Formatter lg = (if lower_string lower (log_Format lc) = ''json'' then JSONFormatter else TextFormatter True True))
       \<and> lg_ReportCaller lg = SetRepoerCaller lc
       \<and> (case lg_Out lg of
            Stderr \<Rightarrow> UseStderr lc
          | RotateLogs rl \<Rightarrow> \<not> UseStderr lc \<and> rl_linkName rl = LogPath lc
              \<and> (if 0 \<le> ReverseDays lc \<and> ReverseDays lc \<le> 106751
                 then rl_maxAge rl = (if ReverseDays lc = 0 then 7 else ReverseDays lc) * 86400000000000
                 else 0 < rl_maxAge rl))
   | Err e \<Rightarrow> \<not> UseStderr lc \<and> strftime (LogPath lc @ ''_%Y%m%d'') \<noteq> None
   | Panic p \<Rightarrow> False"
proof -
  let ?lg = "\<lambda>out. \<lparr> lg_Out = out,
       lg_Formatter = (if lower_string lower (log_Format lc) = ''json'' then JSONFormatter else TextFormatter True True),
       lg_Level = (case ParseLevel lower (log_Level lc) of Ok l \<Rightarrow> l | _ \<Rightarrow> ErrorLevel),
       lg_ReportCaller = SetRepoerCaller lc \<rparr>"
  have settings: "NewLogger lower strftime lc =
     (if UseStderr lc then Ok (?lg Stderr)
      else
        (case rotatelogs_New strftime (LogPath lc @ ''_%Y%m%d'') (LogPath lc) (RotationTime lc)
                (days_duration (ReverseDays lc)) of
           Ok w \<Rightarrow> Ok (?lg (RotateLogs w)) | Err e \<Rightarrow> Err e | Panic p \<Rightarrow> Panic p))"
    by (simp add: NewLogger_def logrus_New_def Let_def split: res.split)
  show ?thesis
  proof (cases "UseStderr lc")
    case True
    then show ?thesis by (simp add: settings)
  next
    case False
    have exact: "days_duration (ReverseDays lc) = ReverseDays lc * 86400000000000"
      if "0 \<le> ReverseDays lc \<and> ReverseDays lc \<le> 106751" using that days_duration_exact by simp
    show ?thesis
    proof (cases "0 \<le> ReverseDays lc \<and> ReverseDays lc \<le> 106751")
      case True
      then show ?thesis using False exact
        by (simp add: settings rotatelogs_New_def Let_def split: option.split)
    next
      case days: False
      obtain age where "0 < age" and new: "rotatelogs_New strftime p l r (days_duration (ReverseDays lc))
          = (case strftime p of Some e \<Rightarrow> Err (Wrap e ''invalid strftime pattern'')
             | None \<Rightarrow> Ok \<lparr> rl_pattern = p, rl_linkName = l, rl_rotationTime = (if r < 0 then 0 else r), rl_maxAge = age \<rparr>)"
        for p l r by (rule that [of "if days_duration (ReverseDays lc) \<le> 0 then 604800000000000
            else days_duration (ReverseDays lc)"]) (simp_all add: rotatelogs_New_def Let_def split: option.split)
      show ?thesis
        unfolding settings new if_not_P [OF days] using False \<open>0 < age\<close>
        by (cases "strftime (LogPath lc @ ''_%Y%m%d'')") simp_all
    qed
  qed
qed

text \<open>The server always gets its logger, so the program panics in no other place than the server does.\<close>

lemma initLogger_ok:
  "initLogger lower strftime
     = Ok \<lparr> lg_Out = Stderr, lg_Formatter = TextFormatter True True, lg_Level = InfoLevel, lg_ReportCaller = True \<rparr>"
proof -
  have "lower_string lower ''INFO'' = ''info''" "lower_string lower ''text'' = ''text''"
    unfolding lower_string_def ascii_def by (simp, code_simp)+
  then show ?thesis by (simp add: initLogger_def NewLogger_def ParseLevel_def logrus_New_def Let_def)
qed

lemma rtmpserver_main_serves: "rtmpserver_main lower strftime os = ListenAndServe os ''tcp'' '':1935''"
  by (rule ext) (simp add: rtmpserver_main_def initLogger_ok)

end
