(* ===== verification/Options.thy ===== *)
theory Options
  imports Json
begin

text \<open>
  The command line of \<^verbatim>\<open>cmd/basic_main\<close>, with the part of the package \<^verbatim>\<open>flag\<close> it uses. The package calls
  \<open>fs.Usage\<close> for a command line it cannot read, and the one of this program ends the process; so does the
  version. A run of the program ends with what it printed last.
\<close>

section \<open>Values of flags\<close>

text \<open>\<open>strconv.ParseBool\<close>.\<close>

definition ParseBool :: "string \<Rightarrow> bool option" where
  "ParseBool s =
     (if s \<in> {''1'', ''t'', ''T'', ''true'', ''TRUE'', ''True''} then Some True
      else if s \<in> {''0'', ''f'', ''F'', ''false'', ''FALSE'', ''False''} then Some False
      else None)"

text \<open>
  \<open>strconv.ParseInt(s, 0, 64)\<close>: a prefix says the base, and an underscore may separate digits.
\<close>

definition lower_letter :: "char \<Rightarrow> char" where
  "lower_letter c = char_of (or (of_char c) 32 :: nat)"

definition base_digit :: "char \<Rightarrow> nat option" where
  "base_digit c =
     (if within (CHR ''0'') (CHR ''9'') c then digit_value c
      else if within (CHR ''a'') (CHR ''z'') (lower_letter c)
        then Some (of_char (lower_letter c) - of_char (CHR ''a'') + 10)
      else None)"

fun base_digits :: "nat \<Rightarrow> nat \<Rightarrow> string \<Rightarrow> nat option" where
  "base_digits b n [] = Some n"
| "base_digits b n (c # cs) =
     (if c = CHR ''_'' then base_digits b n cs
      else
        (case base_digit c of
           None \<Rightarrow> None
         | Some d \<Rightarrow> if d < b then base_digits b (b * n + d) cs else None))"

text \<open>The loop of \<open>underscoreOK\<close>; \<open>saw\<close> is the last kind of character.\<close>

fun underscores :: "bool \<Rightarrow> char \<Rightarrow> string \<Rightarrow> bool" where
  "underscores hex saw [] = (saw \<noteq> CHR ''_'')"
| "underscores hex saw (c # cs) =
     (if within (CHR ''0'') (CHR ''9'') c \<or> (hex \<and> within (CHR ''a'') (CHR ''f'') (lower_letter c))
      then underscores hex (CHR ''0'') cs
      else if c = CHR ''_'' then saw = CHR ''0'' \<and> underscores hex (CHR ''_'') cs
      else saw \<noteq> CHR ''_'' \<and> underscores hex (CHR ''!'') cs)"

text \<open>The number without its sign, and whether its underscores are well placed.\<close>

definition ParseUint0 :: "string \<Rightarrow> nat option" where
  "ParseUint0 s =
     (let p = (if length s \<ge> 2 \<and> s ! 0 = CHR ''0'' then lower_letter (s ! 1) else CHR ''.'');
          prefixed = p \<in> {CHR ''b'', CHR ''o'', CHR ''x''};
          (b, body) =
            (if s = [] \<or> s ! 0 \<noteq> CHR ''0'' then (10, s)
             else if prefixed \<and> length s \<ge> 3
               then (if p = CHR ''b'' then 2 else if p = CHR ''o'' then 8 else 16, drop 2 s)
             else (8, drop 1 s));
          ok = (if prefixed then underscores (p = CHR ''x'') (CHR ''0'') (drop 2 s)
                else underscores False (CHR ''^'') s)
      in if s = [] \<or> (CHR ''_'' \<in> set body \<and> \<not> ok) then None else base_digits b 0 body)"

definition ParseInt0 :: "string \<Rightarrow> int option" where
  "ParseInt0 s =
     (let neg = (s \<noteq> [] \<and> hd s = CHR ''-'');
          body = (if s \<noteq> [] \<and> (hd s = CHR ''-'' \<or> hd s = CHR ''+'') then tl s else s)
      in case ParseUint0 body of
           None \<Rightarrow> None
         | Some n \<Rightarrow>
             let v = (if neg then - int n else int n)
             in if - (2 ^ 63) \<le> v \<and> v < 2 ^ 63 then Some v else None)"

section \<open>The flags of the program\<close>

record options =
  opt_Port :: int
  opt_Host :: string

record flag_vars =
  fl_opts :: options
  showVersion :: bool
  showHelp :: bool

datatype flag_var = ShowHelp | ShowVersion | PortFlag | HostFlag

definition formal :: "string \<Rightarrow> flag_var option" where
  "formal name =
     (if name = ''h'' \<or> name = ''help'' then Some ShowHelp
      else if name = ''v'' \<or> name = ''version'' then Some ShowVersion
      else if name = ''p'' \<or> name = ''port'' then Some PortFlag
      else if name = ''a'' \<or> name = ''addr'' then Some HostFlag
      else None)"

fun is_bool_flag :: "flag_var \<Rightarrow> bool" where
  "is_bool_flag ShowHelp = True"
| "is_bool_flag ShowVersion = True"
| "is_bool_flag _ = False"

fun set_flag :: "flag_var \<Rightarrow> string \<Rightarrow> flag_vars \<Rightarrow> flag_vars option" where
  "set_flag ShowHelp s fl = map_option (\<lambda>b. fl\<lparr>showHelp := b\<rparr>) (ParseBool s)"
| "set_flag ShowVersion s fl = map_option (\<lambda>b. fl\<lparr>showVersion := b\<rparr>) (ParseBool s)"
| "set_flag PortFlag s fl = map_option (\<lambda>n. fl\<lparr>fl_opts := (fl_opts fl)\<lparr>opt_Port := n\<rparr>\<rparr>) (ParseInt0 s)"
| "set_flag HostFlag s fl = Some (fl\<lparr>fl_opts := (fl_opts fl)\<lparr>opt_Host := s\<rparr>\<rparr>)"

section \<open>Parsing\<close>

datatype flag_error =
    BadSyntax string
  | NotDefined string
  | NeedsArgument string
  | InvalidValue string string  \<comment> \<open>the value and the flag\<close>

text \<open>How a run ends that does not return: the usage, after the error if there is one, or the version.\<close>

datatype exit_text = UsageText "flag_error option" | VersionText

datatype 'a flag_run = Returns 'a | Exit0 exit_text

text \<open>A name with the value behind its first \<open>=\<close>, which cannot be its first character.\<close>

definition split_value :: "string \<Rightarrow> string \<times> string option" where
  "split_value name =
     (case IndexByte (CHR ''='') (tl name) of
        None \<Rightarrow> (name, None)
      | Some i \<Rightarrow> (take (i + 1) name, Some (drop (i + 2) name)))"

text \<open>\<open>FlagSet.Parse\<close>: the loop of \<open>parseOne\<close>. It gives the arguments that are left.\<close>

fun parse_args :: "string list \<Rightarrow> flag_vars \<Rightarrow> (flag_vars \<times> string list) flag_run" where
  "parse_args [] fl = Returns (fl, [])"
| "parse_args (s # args) fl =
     (if length s < 2 \<or> s ! 0 \<noteq> CHR ''-'' then Returns (fl, s # args)
      else if s = ''--'' then Returns (fl, args)
      else
        let name = (if s ! 1 = CHR ''-'' then drop 2 s else drop 1 s)
        in if name = [] \<or> hd name = CHR ''-'' \<or> hd name = CHR ''='' then Exit0 (UsageText (Some (BadSyntax s)))
           else
             (case split_value name of (name, value) \<Rightarrow>
              (case formal name of
                 None \<Rightarrow> Exit0 (UsageText (Some (NotDefined name)))
               | Some v \<Rightarrow>
                   if is_bool_flag v then
                     (case set_flag v (case value of None \<Rightarrow> ''true'' | Some x \<Rightarrow> x) fl of
                        Some fl' \<Rightarrow> parse_args args fl'
                      | None \<Rightarrow> Exit0 (UsageText (Some (InvalidValue (the value) name))))
                   else
                     (case value of
                        Some x \<Rightarrow>
                          (case set_flag v x fl of
                             Some fl' \<Rightarrow> parse_args args fl'
                           | None \<Rightarrow> Exit0 (UsageText (Some (InvalidValue x name))))
                      | None \<Rightarrow>
                          (case args of
                             [] \<Rightarrow> Exit0 (UsageText (Some (NeedsArgument name)))
                           | x # args' \<Rightarrow>
                               (case set_flag v x fl of
                                  Some fl' \<Rightarrow> parse_args args' fl'
                                | None \<Rightarrow> Exit0 (UsageText (Some (InvalidValue x name)))))))))"

definition new_flags :: flag_vars where
  "new_flags = \<lparr> fl_opts = \<lparr> opt_Port = 0, opt_Host = [] \<rparr>, showVersion = False, showHelp = False \<rparr>"

definition configureOptions :: "string list \<Rightarrow> options flag_run" where
  "configureOptions args =
     (case parse_args args new_flags of
        Exit0 t \<Rightarrow> Exit0 t
      | Returns (fl, rest) \<Rightarrow>
          if showVersion fl then Exit0 VersionText
          else if showHelp fl then Exit0 (UsageText None)
          else Returns (fl_opts fl))"

text \<open>The program: it prints the options, or what it ends with.\<close>

datatype printed = PrintedOptions options | PrintedUsage "flag_error option" | PrintedVersion

definition basic_main :: "string list \<Rightarrow> printed" where
  "basic_main args =
     (case configureOptions args of
        Returns opts \<Rightarrow> PrintedOptions opts
      | Exit0 (UsageText e) \<Rightarrow> PrintedUsage e
      | Exit0 VersionText \<Rightarrow> PrintedVersion)"

section \<open>Numbers on the command line\<close>

lemma digit_within: "d < 10 \<Longrightarrow> within (CHR ''0'') (CHR ''9'') (digit d)"
  by (simp add: digit_def less_eq_char_def)

lemma digit_not_underscore: "d < 10 \<Longrightarrow> digit d \<noteq> CHR ''_''"
  using digit_within by fastforce

lemma base_digits_ten:
  "\<forall>c \<in> set s. \<exists>d < 10. c = digit d \<Longrightarrow> base_digits 10 n s = parse_digits n s"
  by (induction s arbitrary: n) (auto simp: base_digit_def digit_within digit_not_underscore)

lemma ParseUint0_Itoa: "ParseUint0 (Itoa n) = Some n"
proof (cases "n = 0")
  case True
  have "Itoa 0 = ''0''" by code_simp
  with True show ?thesis by (simp add: ParseUint0_def)
next
  case False
  then have h: "Itoa n \<noteq> []" "Itoa n ! 0 \<noteq> CHR ''0''"
    using Itoa_head [of n] Itoa_not_Nil [of n] by (simp_all add: hd_conv_nth)
  have d: "\<forall>c \<in> set (Itoa n). \<exists>d < 10. c = digit d" using Itoa_digits by blast
  then have u: "CHR ''_'' \<notin> set (Itoa n)" using digit_not_underscore by metis
  from h u base_digits_ten [OF d, of 0] parse_digits_Itoa [of n] show ?thesis
    by (simp add: ParseUint0_def Let_def)
qed

lemma ParseInt0_itoa:
  assumes "- (2 ^ 63) \<le> i" and "i < 2 ^ 63"
  shows "ParseInt0 (itoa i) = Some i"
proof (cases "i < 0")
  case True
  then show ?thesis using assms by (simp add: itoa_def ParseInt0_def ParseUint0_Itoa)
next
  case False
  obtain c s where c: "Itoa (nat i) = c # s" using Itoa_not_Nil by (cases "Itoa (nat i)") auto
  then obtain d where "c = digit d" "d < 10" using Itoa_digits [of c "nat i"] by auto
  then have "hd (Itoa (nat i)) \<noteq> CHR ''-''" "hd (Itoa (nat i)) \<noteq> CHR ''+''"
    using digit_not_sign by (simp_all add: c)
  then show ?thesis using False assms by (simp add: itoa_def ParseInt0_def ParseUint0_Itoa)
qed

section \<open>Command lines that say what they mean\<close>

text \<open>
  What a user can set, and the ways to write it: with the long or the short name, with one or two dashes, and a value
  as an argument of its own or behind an equals sign.
\<close>

datatype setting = SetPort int | SetHost string | AskHelp | AskVersion

record spelling =
  sp_long :: bool
  sp_double :: bool
  sp_equals :: bool

definition flag_name :: "spelling \<Rightarrow> string \<Rightarrow> string \<Rightarrow> string" where
  "flag_name p short long = (if sp_double p then ''--'' else ''-'') @ (if sp_long p then long else short)"

definition with_value :: "spelling \<Rightarrow> string \<Rightarrow> string \<Rightarrow> string list" where
  "with_value p f x = (if sp_equals p then [f @ ''='' @ x] else [f, x])"

fun render :: "spelling \<times> setting \<Rightarrow> string list" where
  "render (p, SetPort n) = with_value p (flag_name p ''p'' ''port'') (itoa n)"
| "render (p, SetHost h) = with_value p (flag_name p ''a'' ''addr'') h"
| "render (p, AskHelp) = [flag_name p ''h'' ''help'' @ (if sp_equals p then ''=true'' else [])]"
| "render (p, AskVersion) = [flag_name p ''v'' ''version'' @ (if sp_equals p then ''=true'' else [])]"

fun apply_setting :: "setting \<Rightarrow> flag_vars \<Rightarrow> flag_vars" where
  "apply_setting (SetPort n) fl = fl\<lparr>fl_opts := (fl_opts fl)\<lparr>opt_Port := n\<rparr>\<rparr>"
| "apply_setting (SetHost h) fl = fl\<lparr>fl_opts := (fl_opts fl)\<lparr>opt_Host := h\<rparr>\<rparr>"
| "apply_setting AskHelp fl = fl\<lparr>showHelp := True\<rparr>"
| "apply_setting AskVersion fl = fl\<lparr>showVersion := True\<rparr>"

fun sayable :: "setting \<Rightarrow> bool" where
  "sayable (SetPort n) = (- (2 ^ 63) \<le> n \<and> n < 2 ^ 63)"
| "sayable _ = True"

lemma parse_setting:
  assumes "sayable x"
  shows "parse_args (render (p, x) @ args) fl = parse_args args (apply_setting x fl)"
proof (cases x)
  case (SetPort n)
  then have "ParseInt0 (itoa n) = Some n" using assms ParseInt0_itoa by simp
  then show ?thesis
    by (cases "sp_long p"; cases "sp_double p"; cases "sp_equals p")
      (simp_all add: SetPort flag_name_def with_value_def split_value_def formal_def Let_def)
next
  case (SetHost h)
  then show ?thesis
    by (cases "sp_long p"; cases "sp_double p"; cases "sp_equals p")
      (simp_all add: flag_name_def with_value_def split_value_def formal_def Let_def)
next
  case AskHelp
  then show ?thesis
    by (cases "sp_long p"; cases "sp_double p"; cases "sp_equals p")
      (simp_all add: flag_name_def split_value_def formal_def Let_def ParseBool_def)
next
  case AskVersion
  then show ?thesis
    by (cases "sp_long p"; cases "sp_double p"; cases "sp_equals p")
      (simp_all add: flag_name_def split_value_def formal_def Let_def ParseBool_def)
qed

lemma parse_settings:
  "list_all (\<lambda>(p, x). sayable x) xs \<Longrightarrow>
     parse_args (concat (map render xs) @ args) fl = parse_args args (fold (apply_setting \<circ> snd) xs fl)"
proof (induction xs arbitrary: fl)
  case (Cons a xs)
  then show ?case using parse_setting [of "snd a" "fst a"] by (cases a) simp
qed simp

text \<open>The ports and the hosts that are set, in their order.\<close>

fun ports :: "setting list \<Rightarrow> int list" where
  "ports [] = []"
| "ports (SetPort n # xs) = n # ports xs"
| "ports (x # xs) = ports xs"

fun hosts :: "setting list \<Rightarrow> string list" where
  "hosts [] = []"
| "hosts (SetHost h # xs) = h # hosts xs"
| "hosts (x # xs) = hosts xs"

lemma fold_settings:
  "fold apply_setting xs fl =
     \<lparr> fl_opts = \<lparr> opt_Port = last (opt_Port (fl_opts fl) # ports xs), opt_Host = last (opt_Host (fl_opts fl) # hosts xs) \<rparr>,
       showVersion = (showVersion fl \<or> AskVersion \<in> set xs), showHelp = (showHelp fl \<or> AskHelp \<in> set xs) \<rparr>"
proof (induction xs arbitrary: fl)
  case Nil
  then show ?case by simp
next
  case (Cons x xs)
  then show ?case by (cases x) auto
qed

lemma parse_args_stop:
  "args = [] \<or> length (hd args) < 2 \<or> hd args ! 0 \<noteq> CHR ''-'' \<Longrightarrow> parse_args args fl = Returns (fl, args)"
  by (cases args) auto

text \<open>A command line means what it says. However the flags are written, the last port and the last
  host count, and zero and the empty host are used where none is given; the version is shown when it is asked
  for anywhere, otherwise the usage when help is; what follows the first argument that is no flag is ignored.\<close>

theorem command_line_says:
  assumes "list_all (\<lambda>(p, x). sayable x) xs"
    and "args = [] \<or> length (hd args) < 2 \<or> hd args ! 0 \<noteq> CHR ''-''"
  shows "basic_main (concat (map render xs) @ args) =
    (if AskVersion \<in> snd ` set xs then PrintedVersion
     else if AskHelp \<in> snd ` set xs then PrintedUsage None
     else PrintedOptions \<lparr> opt_Port = last (0 # ports (map snd xs)), opt_Host = last ([] # hosts (map snd xs)) \<rparr>)"
  by (simp add: basic_main_def configureOptions_def parse_settings [OF assms(1)] parse_args_stop [OF assms(2)]
      fold_map [symmetric] fold_settings new_flags_def)

theorem command_line_says_witness:
  "basic_main [''--port=80'', ''-a'', ''::1'', ''-p'', ''-7'', ''x'', ''-v''] = PrintedOptions \<lparr> opt_Port = -7, opt_Host = ''::1'' \<rparr>"
proof -
  let ?xs = "[(\<lparr> sp_long = True, sp_double = True, sp_equals = True \<rparr>, SetPort 80),
              (\<lparr> sp_long = False, sp_double = False, sp_equals = False \<rparr>, SetHost ''::1''),
              (\<lparr> sp_long = False, sp_double = False, sp_equals = False \<rparr>, SetPort (-7))]"
  have i: "itoa 80 = ''80''" "itoa (-7) = ''-7''" by code_simp+
  show ?thesis
    using command_line_says [of ?xs "[''x'', ''-v'']"] by (simp add: flag_name_def with_value_def i)
qed

text \<open>What cannot be read is answered with the usage, and the process ends as if all were well.\<close>

lemma unknown_flag_exits_0: "basic_main [''-x''] = PrintedUsage (Some (NotDefined ''x''))"
  by code_simp

end
