(* ===== verification/Nats.thy ===== *)
theory Nats
  imports StringService
begin

text \<open>
  The client \<^verbatim>\<open>cmd/nats_client\<close>: its dialer, which tries until a deadline, and the loops of \<open>main\<close>. Time is a natural
  number of nanoseconds. The network, the moment at which a context is cancelled and what \<^verbatim>\<open>nats.go\<close> shows of a
  connection are arguments. The loops need not end, so they are partial functions.
\<close>

section \<open>The dialer\<close>

record customDialer =
  connectTimeout :: nat
  connectTimeWait :: nat

text \<open>
  The outcome of attempt \<open>k\<close> when it starts at a time, with its duration; the time that passes between the two checks
  of an iteration; the time from which the context of the program is done.
\<close>

record 'c dial_env =
  net_dial :: "nat \<Rightarrow> nat \<Rightarrow> 'c option \<times> nat"
  dial_lag :: "nat \<Rightarrow> nat"
  cancel_at :: "nat option"

definition Canceled :: go_error where
  "Canceled = Msg ''context canceled''"

definition DeadlineExceeded :: go_error where
  "DeadlineExceeded = Msg ''context deadline exceeded''"

definition ctx_done :: "'c dial_env \<Rightarrow> nat \<Rightarrow> bool" where
  "ctx_done E now = (case cancel_at E of None \<Rightarrow> False | Some c \<Rightarrow> c \<le> now)"

text \<open>\<open>ctx.Err()\<close> of the context with the deadline: what came first.\<close>

definition ctx_Err :: "'c dial_env \<Rightarrow> nat \<Rightarrow> nat \<Rightarrow> go_error option" where
  "ctx_Err E deadline now =
     (if ctx_done E (min now deadline) then Some Canceled
      else if deadline \<le> now then Some DeadlineExceeded
      else None)"

text \<open>The loop of \<open>Dial\<close>; it gives the result, the number of attempts and the time.\<close>

partial_function (option) dial_loop ::
    "'c dial_env \<Rightarrow> nat \<Rightarrow> nat \<Rightarrow> nat \<Rightarrow> nat \<Rightarrow> ('c res \<times> nat \<times> nat) option" where
  "dial_loop E wait deadline k now =
     (case ctx_Err E deadline now of
        Some e \<Rightarrow> Some (Err e, k, now)
      | None \<Rightarrow>
          if ctx_done E (now + dial_lag E k) then Some (Err Canceled, k, now + dial_lag E k)
          else
            (case net_dial E k (now + dial_lag E k) of
               (Some c, d) \<Rightarrow> Some (Ok c, Suc k, now + dial_lag E k + d)
             | (None, d) \<Rightarrow> dial_loop E wait deadline (Suc k) (now + dial_lag E k + d + wait)))"

definition Dial :: "'c dial_env \<Rightarrow> customDialer \<Rightarrow> nat \<Rightarrow> ('c res \<times> nat \<times> nat) option" where
  "Dial E cd now = dial_loop E (connectTimeWait cd) (now + connectTimeout cd) 0 now"

text \<open>The dialer of the program.\<close>

definition main_dialer :: customDialer where
  "main_dialer = \<lparr> connectTimeout = 10000000000, connectTimeWait = 1000000000 \<rparr>"

section \<open>The program\<close>

text \<open>What one iteration of the first loop of \<open>main\<close> sees: the error of \<open>nats.Connect\<close>, whether the context is
  done, and whether there is a connection that is connected.\<close>

record conn_view =
  cv_err :: "go_error option"
  cv_done :: bool
  cv_connected :: bool

datatype established = FatalError go_error | ContextDone | Established

text \<open>It gives the number of the iteration in which it ends.\<close>

partial_function (option) wait_loop :: "(nat \<Rightarrow> conn_view) \<Rightarrow> nat \<Rightarrow> (established \<times> nat) option" where
  "wait_loop see k =
     (case cv_err (see k) of
        Some e \<Rightarrow> Some (FatalError e, k)
      | None \<Rightarrow>
          if cv_done (see k) then Some (ContextDone, k)
          else if \<not> cv_connected (see k) then wait_loop see (Suc k)
          else Some (Established, k))"

text \<open>The loop that publishes, with what was logged and the time it slept.\<close>

partial_function (option) publish_loop ::
    "(nat \<Rightarrow> bool) \<Rightarrow> (nat \<Rightarrow> go_error option) \<Rightarrow> nat \<Rightarrow> string list \<Rightarrow> nat \<Rightarrow> (string list \<times> nat) option" where
  "publish_loop closed publish k log slept =
     (if closed k then Some (log, slept)
      else
        (case publish k of
           Some e \<Rightarrow> publish_loop closed publish (Suc k) (log @ [error_text e]) (slept + 1000000000)
         | None \<Rightarrow> publish_loop closed publish (Suc k) (log @ [''Published message'']) (slept + 600000000000)))"

text \<open>The options of the program, and the lines its handlers log.\<close>

datatype nats_option =
    SetCustomDialer customDialer
  | ReconnectWait nat
  | ReconnectHandler "string \<Rightarrow> string"
  | DisconnectHandler string
  | ClosedHandler string

definition main_opts :: "nats_option list" where
  "main_opts =
     [SetCustomDialer main_dialer, ReconnectWait 2000000000, ReconnectHandler (\<lambda>url. ''Reconnected to '' @ url),
      DisconnectHandler ''Disconnected from NATS'', ClosedHandler ''NATS connection is closed.'']"

text \<open>
  \<^verbatim>\<open>nats.go\<close> and the context: what the goroutine that connects has stored when the first loop looks, the error of the
  context after it, whether the connection is closed and what publishing gives in each iteration of the second loop,
  and the error of \<open>Drain\<close>.
\<close>

record nats_env =
  ne_connect :: "string \<Rightarrow> nats_option list \<Rightarrow> nat \<Rightarrow> conn_view"
  ne_ctx_Err :: "go_error option"
  ne_IsClosed :: "nat \<Rightarrow> bool"
  ne_Publish :: "string \<Rightarrow> string \<Rightarrow> nat \<Rightarrow> go_error option"
  ne_Drain :: "go_error option"

text \<open>\<open>main\<close>: \<open>log.Fatal\<close> ends the program with a code, otherwise it returns; in both cases with what it logged.\<close>

datatype main_end = Fatal "string list" | Returned "string list"

definition not_ready :: "nat \<Rightarrow> string list" where
  "not_ready k = replicate k ''Connection not ready''"

definition nats_main :: "nats_env \<Rightarrow> main_end option" where
  "nats_main E =
     (case wait_loop (ne_connect E ''127.0.0.1:4222'' main_opts) 0 of
        None \<Rightarrow> None
      | Some (FatalError e, k) \<Rightarrow> Some (Fatal (not_ready k @ [error_text e]))
      | Some (_, k) \<Rightarrow>
          (case ne_ctx_Err E of
             Some e \<Rightarrow> Some (Fatal (not_ready k @ [error_text e]))
           | None \<Rightarrow>
               (case publish_loop (ne_IsClosed E) (ne_Publish E ''hello'' ''world'') 0 (not_ready k) 0 of
                  None \<Rightarrow> None
                | Some (log, slept) \<Rightarrow>
                    Some (Returned (log @ (case ne_Drain E of Some e \<Rightarrow> [error_text e] | None \<Rightarrow> []) @ [''Disconnected''])))))"

section \<open>Dialing ends\<close>

definition ended :: "'c dial_env \<Rightarrow> nat \<Rightarrow> 'c res \<times> nat \<times> nat \<Rightarrow> bool" where
  "ended E deadline x \<longleftrightarrow>
     (case x of (r, n, t) \<Rightarrow>
        (case r of
           Ok c \<Rightarrow> 0 < n \<and> (\<exists>s d. net_dial E (n - 1) s = (Some c, d) \<and> s < t + 1 \<and> \<not> ctx_done E s)
         | Err e \<Rightarrow> (e = Canceled \<and> ctx_done E t) \<or> (e = DeadlineExceeded \<and> deadline \<le> t)
         | Panic p \<Rightarrow> False))"

lemma ctx_Err_cases:
  assumes "ctx_Err E deadline now = Some e"
  shows "(e = Canceled \<and> ctx_done E now) \<or> (e = DeadlineExceeded \<and> deadline \<le> now)"
  using assms by (auto simp: ctx_Err_def ctx_done_def split: if_splits option.splits)

lemma dial_loop_ends:
  assumes "0 < wait" and "start + k * wait \<le> now" and "k = 0 \<or> start + (k - 1) * wait < deadline"
  shows "\<exists>r n t. dial_loop E wait deadline k now = Some (r, n, t) \<and> ended E deadline (r, n, t)
    \<and> k \<le> n \<and> (n = 0 \<or> start + (n - 1) * wait < deadline)"
  using assms(2,3)
proof (induction "deadline - now" arbitrary: k now rule: less_induct)
  case less
  show ?case
  proof (cases "ctx_Err E deadline now")
    case (Some e)
    with ctx_Err_cases [OF this] less.prems show ?thesis
      by (intro exI [of _ "Err e"] exI [of _ k] exI [of _ now]) (simp add: dial_loop.simps [of E] ended_def)
  next
    case None
    then have in_time: "now < deadline" by (auto simp: ctx_Err_def split: if_splits)
    then have again: "start + k * wait < deadline" using less.prems(1) by linarith
    let ?s = "now + dial_lag E k"
    show ?thesis
    proof (cases "ctx_done E ?s")
      case True
      then show ?thesis using None less.prems
        by (intro exI [of _ "Err Canceled"] exI [of _ k] exI [of _ ?s]) (simp add: dial_loop.simps [of E] ended_def)
    next
      case False
      obtain c d where dial: "net_dial E k ?s = (c, d)" by (rule prod.exhaust)
      show ?thesis
      proof (cases c)
        case (Some conn)
        then show ?thesis using None False dial again
          by (intro exI [of _ "Ok conn"] exI [of _ "Suc k"] exI [of _ "?s + d"])
            (auto simp: dial_loop.simps [of E] ended_def)
      next
        case c: None
        have "start + Suc k * wait \<le> ?s + d + wait" using less.prems(1) by simp
        then have "\<exists>r n t. dial_loop E wait deadline (Suc k) (?s + d + wait) = Some (r, n, t)
            \<and> ended E deadline (r, n, t) \<and> Suc k \<le> n \<and> (n = 0 \<or> start + (n - 1) * wait < deadline)"
          by (intro less.hyps) (use in_time again \<open>0 < wait\<close> in auto)
        then obtain r n t where "dial_loop E wait deadline (Suc k) (?s + d + wait) = Some (r, n, t)"
          "ended E deadline (r, n, t)" "Suc k \<le> n" "n = 0 \<or> start + (n - 1) * wait < deadline" by blast
        then show ?thesis using None False dial c
          by (intro exI [of _ r] exI [of _ n] exI [of _ t]) (simp add: dial_loop.simps [of E _ _ k])
      qed
    qed
  qed
qed


lemma connectTimeWait_main: "0 < connectTimeWait main_dialer"
  by (simp add: main_dialer_def)


section \<open>The loops of the program\<close>

text \<open>The first loop ends in the first iteration that sees an error, a context that is done or a connection.\<close>

lemma wait_loop_first:
  assumes "\<And>j. k \<le> j \<Longrightarrow> j < n \<Longrightarrow> cv_err (see j) = None \<and> \<not> cv_done (see j) \<and> \<not> cv_connected (see j)" and "k \<le> n"
    and "cv_err (see n) \<noteq> None \<or> cv_done (see n) \<or> cv_connected (see n)"
  shows "wait_loop see k =
    Some (case cv_err (see n) of Some e \<Rightarrow> FatalError e | None \<Rightarrow> if cv_done (see n) then ContextDone else Established, n)"
  using assms(2,1)
proof (induction "n - k" arbitrary: k)
  case 0
  then show ?case using assms(3) by (subst wait_loop.simps) (auto split: option.split)
next
  case (Suc d)
  then have "wait_loop see (Suc k) =
    Some (case cv_err (see n) of Some e \<Rightarrow> FatalError e | None \<Rightarrow> if cv_done (see n) then ContextDone else Established, n)"
    by (intro Suc.hyps) auto
  moreover have "cv_err (see k) = None \<and> \<not> cv_done (see k) \<and> \<not> cv_connected (see k)" using Suc by auto
  ultimately show ?case by (subst wait_loop.simps) simp
qed

text \<open>The loop that publishes ends when the connection is first closed, with each attempt logged.\<close>

definition publish_line :: "go_error option \<Rightarrow> string" where
  "publish_line r = (case r of None \<Rightarrow> ''Published message'' | Some e \<Rightarrow> error_text e)"

definition publish_sleep :: "go_error option \<Rightarrow> nat" where
  "publish_sleep r = (case r of None \<Rightarrow> 600000000000 | Some e \<Rightarrow> 1000000000)"

lemma publish_loop_counts:
  assumes "\<And>j. k \<le> j \<Longrightarrow> j < n \<Longrightarrow> \<not> closed j" and "k \<le> n" and "closed n"
  shows "publish_loop closed publish k log slept =
    Some (log @ map (publish_line \<circ> publish) [k..<n], slept + sum_list (map (publish_sleep \<circ> publish) [k..<n]))"
  using assms(2,1)
proof (induction "n - k" arbitrary: k log slept)
  case 0
  then show ?case using assms(3) by (subst publish_loop.simps) simp
next
  case (Suc d)
  then have k: "\<not> closed k" "[k..<n] = k # [Suc k..<n]" by (auto simp: upt_conv_Cons)
  note ih = Suc.hyps(1) [of "Suc k"]
  show ?case
    by (subst publish_loop.simps) (cases "publish k"; use Suc k ih in \<open>auto simp: publish_line_def publish_sleep_def\<close>)
qed

text \<open>The first loop ends only if some iteration sees an end.\<close>

lemma wait_loop_ended:
  assumes "wait_loop see k = Some y"
  shows "\<exists>j. cv_err (see j) \<noteq> None \<or> cv_done (see j) \<or> cv_connected (see j)"
proof (rule wait_loop.raw_induct [of "\<lambda>see k y. \<exists>j. cv_err (see j) \<noteq> None \<or> cv_done (see j) \<or> cv_connected (see j)", OF _ assms])
  fix loop :: "(nat \<Rightarrow> conn_view) \<Rightarrow> nat \<Rightarrow> (established \<times> nat) option" and see k y
  assume ih: "\<And>see k y. loop see k = Some y \<Longrightarrow> \<exists>j. cv_err (see j) \<noteq> None \<or> cv_done (see j) \<or> cv_connected (see j)"
    and step: "(case cv_err (see k) of
        None \<Rightarrow> if cv_done (see k) then Some (ContextDone, k)
          else if \<not> cv_connected (see k) then loop see (Suc k) else Some (Established, k)
      | Some e \<Rightarrow> Some (FatalError e, k)) = Some y"
  show "\<exists>j. cv_err (see j) \<noteq> None \<or> cv_done (see j) \<or> cv_connected (see j)"
  proof (rule ccontr)
    assume none: "\<nexists>j. cv_err (see j) \<noteq> None \<or> cv_done (see j) \<or> cv_connected (see j)"
    then have "loop see (Suc k) = Some y" using step by (auto split: option.splits if_splits)
    then show False using ih none by blast
  qed
qed

text \<open>
  What the program does when the first loop ends with iteration \<open>n\<close> and the connection is first seen closed in
  iteration \<open>m\<close> of the second one.
\<close>

lemma nats_main_logs:
  fixes E
  defines "see \<equiv> ne_connect E ''127.0.0.1:4222'' main_opts"
  assumes "\<And>j. j < n \<Longrightarrow> cv_err (see j) = None \<and> \<not> cv_done (see j) \<and> \<not> cv_connected (see j)"
    and "cv_err (see n) \<noteq> None \<or> cv_done (see n) \<or> cv_connected (see n)"
    and "\<And>j. j < m \<Longrightarrow> \<not> ne_IsClosed E j" and "ne_IsClosed E m"
  shows "nats_main E = Some
    (case cv_err (see n) of
       Some e \<Rightarrow> Fatal (not_ready n @ [error_text e])
     | None \<Rightarrow>
         (case ne_ctx_Err E of
            Some e \<Rightarrow> Fatal (not_ready n @ [error_text e])
          | None \<Rightarrow> Returned (not_ready n @ map (publish_line \<circ> ne_Publish E ''hello'' ''world'') [0..<m]
              @ (case ne_Drain E of Some e \<Rightarrow> [error_text e] | None \<Rightarrow> []) @ [''Disconnected''])))"
proof -
  have w: "wait_loop see 0 =
    Some (case cv_err (see n) of Some e \<Rightarrow> FatalError e | None \<Rightarrow> if cv_done (see n) then ContextDone else Established, n)"
    by (rule wait_loop_first) (use assms(2,3) in auto)
  have p: "publish_loop (ne_IsClosed E) (ne_Publish E ''hello'' ''world'') 0 log 0 =
    Some (log @ map (publish_line \<circ> ne_Publish E ''hello'' ''world'') [0..<m],
      0 + sum_list (map (publish_sleep \<circ> ne_Publish E ''hello'' ''world'') [0..<m]))" for log
    by (rule publish_loop_counts) (use assms(4,5) in auto)
  show ?thesis using w unfolding nats_main_def see_def p by (auto split: option.splits)
qed

end
