(* ===== verification/PubSub.thy ===== *)
theory PubSub
  imports Prelude
begin

text \<open>
  The program \<^verbatim>\<open>cmd/pub_sub\<close>: its \<open>main\<close>, the goroutine \<open>publish\<close> and the listeners, which meet at unbuffered
  channels. Publishers and subscribers are numbered. A schedule is a list of choices, each the next access of one
  goroutine to what they share; time does not appear, so a timeout of \<open>publish\<close> may come at any moment. A
  listener is always ready, because it receives or times out for ever.
\<close>

section \<open>The goroutines\<close>

datatype pub_act = Send nat string | Subscribe nat nat

text \<open>\<open>publish\<close> goes over the map in passes; the rest of a pass comes with each phase.\<close>

datatype pub_phase =
    Pass "nat list"
  | At nat "nat list" "nat list"          \<comment> \<open>the publisher and its subscribers as they were read\<close>
  | Deliver string "nat list" "nat list"  \<comment> \<open>the message and who is still to get it\<close>

record pubsub =
  ps_pubs :: "nat list"
  ps_subs :: "nat \<Rightarrow> nat list"
  ps_todo :: "pub_act list"
  ps_phase :: pub_phase
  ps_logs :: "nat \<Rightarrow> string list"

datatype choice = NewPass | Visit nat | Meet | Timeout | Hand | Done | MainAppends

text \<open>A step of \<open>publish\<close>.\<close>

fun publish_choice :: "choice \<Rightarrow> pubsub \<Rightarrow> pubsub option" where
  "publish_choice NewPass w =
     (case ps_phase w of Pass [] \<Rightarrow> Some (w\<lparr>ps_phase := Pass (ps_pubs w)\<rparr>) | _ \<Rightarrow> None)"
| "publish_choice (Visit p) w =
     (case ps_phase w of
        Pass rest \<Rightarrow> if p \<in> set rest then Some (w\<lparr>ps_phase := At p (ps_subs w p) (remove1 p rest)\<rparr>) else None
      | _ \<Rightarrow> None)"
| "publish_choice Meet w =
     (case (ps_phase w, ps_todo w) of
        (At p ss rest, Send q m # todo) \<Rightarrow>
          if p = q then Some (w\<lparr>ps_phase := Deliver m ss rest, ps_todo := todo\<rparr>) else None
      | _ \<Rightarrow> None)"
| "publish_choice Timeout w =
     (case ps_phase w of At p ss rest \<Rightarrow> Some (w\<lparr>ps_phase := Pass rest\<rparr>) | _ \<Rightarrow> None)"
| "publish_choice Hand w =
     (case ps_phase w of
        Deliver m (s # ss) rest \<Rightarrow>
          Some (w\<lparr>ps_phase := Deliver m ss rest, ps_logs := (ps_logs w)(s := ps_logs w s @ [m])\<rparr>)
      | _ \<Rightarrow> None)"
| "publish_choice Done w =
     (case ps_phase w of Deliver m [] rest \<Rightarrow> Some (w\<lparr>ps_phase := Pass rest\<rparr>) | _ \<Rightarrow> None)"
| "publish_choice MainAppends w = None"

text \<open>The statement of \<open>main\<close> that changes the map.\<close>

definition main_appends :: "pubsub \<Rightarrow> pubsub option" where
  "main_appends w =
     (case ps_todo w of
        Subscribe p s # todo \<Rightarrow>
          Some (w\<lparr>ps_subs := (ps_subs w)(p := ps_subs w p @ [s]), ps_todo := todo\<rparr>)
      | _ \<Rightarrow> None)"

definition pubsub_step :: "choice \<Rightarrow> pubsub \<Rightarrow> pubsub option" where
  "pubsub_step c w = (if c = MainAppends then main_appends w else publish_choice c w)"

fun pubsub_run :: "choice list \<Rightarrow> pubsub \<Rightarrow> pubsub option" where
  "pubsub_run [] w = Some w"
| "pubsub_run (c # cs) w = (case pubsub_step c w of Some w' \<Rightarrow> pubsub_run cs w' | None \<Rightarrow> None)"

definition pubsub_start :: "nat list \<Rightarrow> (nat \<Rightarrow> nat list) \<Rightarrow> pub_act list \<Rightarrow> pubsub" where
  "pubsub_start pubs subs script =
     \<lparr> ps_pubs = pubs, ps_subs = subs, ps_todo = script, ps_phase = Pass [], ps_logs = (\<lambda>s. []) \<rparr>"

text \<open>What the program does.\<close>

definition main_script :: "pub_act list" where
  "main_script =
     [Send 1 ''hello, world!'', Send 2 ''hi, universe!'', Send 1 ''Goodbye, Cruel world'',
      Subscribe 1 3, Send 1 ''Just kidding'']"

definition main_subs :: "nat \<Rightarrow> nat list" where
  "main_subs = (\<lambda>p. if p = 1 then [1, 2] else if p = 2 then [2, 3] else [])"

definition pubsub_main :: pubsub where
  "pubsub_main = pubsub_start [1, 2] main_subs main_script"

section \<open>Who gets what\<close>

fun subs_after :: "(nat \<Rightarrow> nat list) \<Rightarrow> pub_act list \<Rightarrow> nat \<Rightarrow> nat list" where
  "subs_after subs [] = subs"
| "subs_after subs (Send p m # as) = subs_after subs as"
| "subs_after subs (Subscribe p s # as) = subs_after (subs(p := subs p @ [s])) as"

lemma subs_after_append: "subs_after subs (as @ bs) = subs_after (subs_after subs as) bs"
proof (induction as arbitrary: subs)
  case (Cons a as)
  then show ?case by (cases a) (simp_all add: fun_upd_def)
qed simp

fun is_Send :: "pub_act \<Rightarrow> bool" where
  "is_Send (Send p m) = True"
| "is_Send (Subscribe p s) = False"

text \<open>The messages of a script, each with what came before it.\<close>

fun pub_sends :: "pub_act list \<Rightarrow> pub_act list \<Rightarrow> (pub_act list \<times> nat \<times> string) list" where
  "pub_sends pre [] = []"
| "pub_sends pre (Send p m # as) = (pre, p, m) # pub_sends (pre @ [Send p m]) as"
| "pub_sends pre (Subscribe p s # as) = pub_sends (pre @ [Subscribe p s]) as"

lemma sends_append: "pub_sends pre (as @ bs) = pub_sends pre as @ pub_sends (pre @ as) bs"
  by (induction pre as rule: pub_sends.induct) simp_all

text \<open>
  The subscribers \<open>ss\<close> to whom \<open>publish\<close> hands a message after the actions \<open>as\<close>: those of its publisher at some moment
  since the message before.
\<close>

definition seen :: "(nat \<Rightarrow> nat list) \<Rightarrow> pub_act list \<Rightarrow> nat \<Rightarrow> nat list \<Rightarrow> bool" where
  "seen subs as p ss \<longleftrightarrow> (\<exists>bs cs. as = bs @ cs \<and> \<not> list_ex is_Send cs \<and> ss = subs_after subs bs p)"

definition got :: "nat list list \<Rightarrow> (pub_act list \<times> nat \<times> string) list \<Rightarrow> nat \<Rightarrow> string list" where
  "got recs ms s = concat (map (\<lambda>((as, p, m), ss). replicate (count_list ss s) m) (zip ms recs))"

text \<open>The invariant, with the actions done, and the subscribers who were handed each message.\<close>

definition pubsub_inv :: "nat list \<Rightarrow> (nat \<Rightarrow> nat list) \<Rightarrow> pub_act list \<Rightarrow> pub_act list \<Rightarrow> nat list list \<Rightarrow> pubsub \<Rightarrow> bool" where
  "pubsub_inv pubs subs script acts recs w \<longleftrightarrow>
     ps_pubs w = pubs \<and> script = acts @ ps_todo w \<and> ps_subs w = subs_after subs acts
     \<and> length recs = length (pub_sends [] acts)
     \<and> list_all2 (\<lambda>(as, p, m). seen subs as p) (pub_sends [] acts) recs
     \<and> (case ps_phase w of
          Pass rest \<Rightarrow> \<forall>s. ps_logs w s = got recs (pub_sends [] acts) s
        | At p ss rest \<Rightarrow> seen subs acts p ss \<and> (\<forall>s. ps_logs w s = got recs (pub_sends [] acts) s)
        | Deliver m ss rest \<Rightarrow> \<forall>s. ps_logs w s @ replicate (count_list ss s) m = got recs (pub_sends [] acts) s)"

lemma got_snoc:
  "length recs = length ms \<Longrightarrow>
     got (recs @ [ss]) (ms @ [(as, p, m)]) s = got recs ms s @ replicate (count_list ss s) m"
  by (simp add: got_def)

lemma seen_now: "seen subs as p (subs_after subs as p)"
  unfolding seen_def by (intro exI [of _ as] exI [of _ "[]"]) simp

lemma seen_later: "seen subs as p ss \<Longrightarrow> seen subs (as @ [Subscribe q s]) p ss"
  unfolding seen_def by (elim exE, rename_tac bs cs) (rule_tac x = bs in exI, rule_tac x = "cs @ [Subscribe q s]" in exI, simp)

lemma pubsub_inv_step:
  assumes inv: "pubsub_inv pubs subs script acts recs w" and step: "pubsub_step c w = Some w'"
  shows "\<exists>acts recs. pubsub_inv pubs subs script acts recs w'"
proof (cases c)
  case Meet
  then obtain p ss rest m todo where w: "ps_phase w = At p ss rest" "ps_todo w = Send p m # todo"
    and w': "w' = w\<lparr>ps_phase := Deliver m ss rest, ps_todo := todo\<rparr>"
    using step by (auto simp: pubsub_step_def split: pub_phase.splits list.splits pub_act.splits if_splits)
  have "pubsub_inv pubs subs script (acts @ [Send p m]) (recs @ [ss]) w'"
    using inv by (auto simp: pubsub_inv_def w w' subs_after_append sends_append got_snoc list_all2_appendI)
  then show ?thesis by blast
next
  case MainAppends
  then obtain p s todo where w: "ps_todo w = Subscribe p s # todo"
    and w': "w' = w\<lparr>ps_subs := (ps_subs w)(p := ps_subs w p @ [s]), ps_todo := todo\<rparr>"
    using step by (auto simp: pubsub_step_def main_appends_def split: list.splits pub_act.splits)
  have "pubsub_inv pubs subs script (acts @ [Subscribe p s]) recs w'"
    using inv by (auto simp: pubsub_inv_def w w' subs_after_append sends_append seen_later split: pub_phase.splits)
  then show ?thesis by blast
next
  case Hand
  then obtain m s ss rest where w: "ps_phase w = Deliver m (s # ss) rest"
    and w': "w' = w\<lparr>ps_phase := Deliver m ss rest, ps_logs := (ps_logs w)(s := ps_logs w s @ [m])\<rparr>"
    using step by (auto simp: pubsub_step_def split: pub_phase.splits list.splits)
  have "got recs (pub_sends [] acts) x = ps_logs w x @ replicate (count_list (s # ss) x) m" for x
    using inv by (simp add: pubsub_inv_def w)
  then have "pubsub_inv pubs subs script acts recs w'"
    using inv by (simp add: pubsub_inv_def w w')
  then show ?thesis by blast
next
  case (Visit p)
  then show ?thesis using inv step
    by (intro exI [of _ acts] exI [of _ recs])
      (auto simp: pubsub_step_def pubsub_inv_def seen_now split: pub_phase.splits if_splits)
qed (use inv step in \<open>intro exI [of _ acts] exI [of _ recs];
      auto simp: pubsub_step_def pubsub_inv_def split: pub_phase.splits list.splits\<close>)+

lemma pubsub_inv_run:
  "pubsub_inv pubs subs script acts recs w \<Longrightarrow> pubsub_run cs w = Some w'
     \<Longrightarrow> \<exists>acts recs. pubsub_inv pubs subs script acts recs w'"
proof (induction cs arbitrary: w acts recs)
  case Nil
  then show ?case by auto
next
  case (Cons c cs)
  then obtain w1 where "pubsub_step c w = Some w1" "pubsub_run cs w1 = Some w'" by (auto split: option.splits)
  with Cons.IH pubsub_inv_step [OF Cons.prems(1)] show ?case by blast
qed

lemma pubsub_inv_start: "pubsub_inv pubs subs script [] [] (pubsub_start pubs subs script)"
  by (simp add: pubsub_inv_def pubsub_start_def got_def)

section \<open>Every message can be delivered\<close>

lemma pubsub_run_append:
  "pubsub_run (cs @ ds) w = (case pubsub_run cs w of Some w' \<Rightarrow> pubsub_run ds w' | None \<Rightarrow> None)"
  by (induction cs arbitrary: w) (simp_all split: option.split)

text \<open>A message in delivery is handed to all who are still to get it.\<close>

lemma can_deliver:
  "ps_phase w = Deliver m ss rest \<Longrightarrow>
     \<exists>cs w'. pubsub_run cs w = Some w' \<and> ps_phase w' = Pass rest \<and> ps_todo w' = ps_todo w \<and> ps_pubs w' = ps_pubs w"
proof (induction ss arbitrary: w)
  case Nil
  then show ?case by (intro exI [of _ "[Done]"]) (simp add: pubsub_step_def)
next
  case (Cons s ss)
  let ?w = "w\<lparr>ps_phase := Deliver m ss rest, ps_logs := (ps_logs w)(s := ps_logs w s @ [m])\<rparr>"
  have "pubsub_step Hand w = Some ?w" using Cons.prems by (simp add: pubsub_step_def)
  moreover obtain cs w' where "pubsub_run cs ?w = Some w'" "ps_phase w' = Pass rest" "ps_todo w' = ps_todo w"
    "ps_pubs w' = ps_pubs w" using Cons.IH [of ?w] by auto
  ultimately show ?case by (intro exI [of _ "Hand # cs"] exI [of _ w']) simp
qed

text \<open>A pass can come to its end, and then a new one to any publisher.\<close>

lemma can_end_pass:
  "ps_phase w = Pass rest \<Longrightarrow>
     \<exists>cs. pubsub_run cs w = Some (w\<lparr>ps_phase := Pass []\<rparr>)"
proof (induction rest arbitrary: w)
  case Nil
  then show ?case by (intro exI [of _ "[]"]) simp
next
  case (Cons p rest)
  let ?w = "w\<lparr>ps_phase := Pass rest\<rparr>"
  obtain cs where "pubsub_run cs ?w = Some (?w\<lparr>ps_phase := Pass []\<rparr>)" using Cons.IH [of ?w] by auto
  with Cons.prems show ?case by (intro exI [of _ "Visit p # Timeout # cs"]) (simp add: pubsub_step_def)
qed

lemma can_meet:
  assumes "ps_phase w = Pass rest" and "ps_todo w = Send p m # todo" and "p \<in> set (ps_pubs w)"
  shows "\<exists>cs w'. pubsub_run cs w = Some w' \<and> ps_todo w' = todo \<and> (\<exists>rest. ps_phase w' = Pass rest)
    \<and> ps_pubs w' = ps_pubs w"
proof -
  obtain cs where c: "pubsub_run cs w = Some (w\<lparr>ps_phase := Pass []\<rparr>)" using can_end_pass [OF assms(1)] by blast
  let ?w = "w\<lparr>ps_phase := Deliver m (ps_subs w p) (remove1 p (ps_pubs w)), ps_todo := todo\<rparr>"
  have "pubsub_run [NewPass, Visit p, Meet] (w\<lparr>ps_phase := Pass []\<rparr>) = Some ?w"
    using assms(2,3) by (simp add: pubsub_step_def)
  moreover obtain ds w' where "pubsub_run ds ?w = Some w'" "ps_phase w' = Pass (remove1 p (ps_pubs w))"
    "ps_todo w' = todo" "ps_pubs w' = ps_pubs w" using can_deliver [of ?w] by auto
  ultimately have "pubsub_run (cs @ [NewPass, Visit p, Meet] @ ds) w = Some w'"
    by (simp only: pubsub_run_append c option.case)
  then show ?thesis using \<open>ps_todo w' = todo\<close> \<open>ps_phase w' = _\<close> \<open>ps_pubs w' = _\<close> by blast
qed

lemma can_finish_pass:
  "ps_phase w = Pass rest \<Longrightarrow> \<forall>p m. Send p m \<in> set (ps_todo w) \<longrightarrow> p \<in> set (ps_pubs w) \<Longrightarrow>
     \<exists>cs w'. pubsub_run cs w = Some w' \<and> ps_todo w' = [] \<and> (\<exists>rest. ps_phase w' = Pass rest)"
proof (induction "ps_todo w" arbitrary: w rest)
  case Nil
  then show ?case by (intro exI [of _ "[]"] exI [of _ w]) simp
next
  case (Cons a todo)
  have "\<exists>cs w1 rest. pubsub_run cs w = Some w1 \<and> ps_todo w1 = todo \<and> ps_phase w1 = Pass rest
      \<and> ps_pubs w1 = ps_pubs w"
  proof (cases a)
    case (Send p m)
    with Cons.prems(2) Cons.hyps(2) have "p \<in> set (ps_pubs w)" by (metis list.set_intros(1))
    then show ?thesis using can_meet [OF Cons.prems(1)] Cons.hyps(2) Send by metis
  next
    case (Subscribe p s)
    have "pubsub_run [MainAppends] w
        = Some (w\<lparr>ps_subs := (ps_subs w)(p := ps_subs w p @ [s]), ps_todo := todo\<rparr>)"
      using Cons.hyps(2) Subscribe by (simp add: pubsub_step_def main_appends_def flip: Cons.hyps(2))
    then show ?thesis using Cons.prems(1)
      by (intro exI [of _ "[MainAppends]"] exI [of _ "w\<lparr>ps_subs := (ps_subs w)(p := ps_subs w p @ [s]), ps_todo := todo\<rparr>"]
          exI [of _ rest]) simp
  qed
  then obtain cs w1 rest1 where 1: "pubsub_run cs w = Some w1" "ps_todo w1 = todo" "ps_phase w1 = Pass rest1"
    "ps_pubs w1 = ps_pubs w" by blast
  obtain ds w2 where "pubsub_run ds w1 = Some w2" "ps_todo w2 = []" "\<exists>rest. ps_phase w2 = Pass rest"
    using Cons.hyps(1) [OF 1(2) [symmetric] 1(3)] 1(2,4) Cons.prems(2) Cons.hyps(2) by (metis list.set_intros(2))
  then show ?case using 1(1) by (intro exI [of _ "cs @ ds"] exI [of _ w2]) (simp add: pubsub_run_append)
qed

lemma can_finish:
  assumes "\<forall>p m. Send p m \<in> set (ps_todo w) \<longrightarrow> p \<in> set (ps_pubs w)"
  shows "\<exists>cs w'. pubsub_run cs w = Some w' \<and> ps_todo w' = [] \<and> (\<exists>rest. ps_phase w' = Pass rest)"
proof (cases "ps_phase w")
  case (Pass rest)
  show ?thesis by (rule can_finish_pass [OF Pass assms])
next
  case (At p ss rest)
  let ?w = "w\<lparr>ps_phase := Pass rest\<rparr>"
  obtain cs w' where "pubsub_run cs ?w = Some w'" "ps_todo w' = []" "\<exists>rest. ps_phase w' = Pass rest"
    using can_finish_pass [of ?w rest] assms by auto
  then show ?thesis using At by (intro exI [of _ "Timeout # cs"] exI [of _ w']) (simp add: pubsub_step_def)
next
  case (Deliver m ss rest)
  obtain cs w1 where 1: "pubsub_run cs w = Some w1" "ps_phase w1 = Pass rest" "ps_todo w1 = ps_todo w"
    "ps_pubs w1 = ps_pubs w" using can_deliver [OF Deliver] by blast
  obtain ds w2 where "pubsub_run ds w1 = Some w2" "ps_todo w2 = []" "\<exists>rest. ps_phase w2 = Pass rest"
    using can_finish_pass [OF 1(2)] 1(3,4) assms by metis
  then show ?thesis using 1(1) by (intro exI [of _ "cs @ ds"] exI [of _ w2]) (simp add: pubsub_run_append)
qed

section \<open>The outcomes of the program\<close>

lemma seen_Nil: "seen subs [] p ss \<longleftrightarrow> ss = subs p"
  by (auto simp: seen_def)

lemma seen_Send: "seen subs (as @ [Send q m]) p ss \<longleftrightarrow> ss = subs_after subs (as @ [Send q m]) p"
proof
  assume "seen subs (as @ [Send q m]) p ss"
  then obtain bs cs where b: "as @ [Send q m] = bs @ cs" "\<not> list_ex is_Send cs" "ss = subs_after subs bs p"
    unfolding seen_def by blast
  then have "cs = []" by (cases cs rule: rev_cases) auto
  with b show "ss = subs_after subs (as @ [Send q m]) p" by simp
qed (simp add: seen_now)

lemma seen_Subscribe:
  "seen subs (as @ [Subscribe q s]) p ss \<longleftrightarrow> ss = subs_after subs (as @ [Subscribe q s]) p \<or> seen subs as p ss"
proof
  assume "seen subs (as @ [Subscribe q s]) p ss"
  then obtain bs cs where b: "as @ [Subscribe q s] = bs @ cs" "\<not> list_ex is_Send cs" "ss = subs_after subs bs p"
    unfolding seen_def by blast
  show "ss = subs_after subs (as @ [Subscribe q s]) p \<or> seen subs as p ss"
  proof (cases cs rule: rev_cases)
    case Nil
    with b show ?thesis by simp
  next
    case (snoc cs' c)
    with b have "as = bs @ cs'" "\<not> list_ex is_Send cs'" by auto
    with b(3) show ?thesis unfolding seen_def by blast
  qed
qed (auto simp: seen_now seen_later)

text \<open>The records of the messages of the program: only the last depends on the schedule.\<close>

lemma main_records:
  assumes "list_all2 (\<lambda>(as, p, m). seen main_subs as p) (pub_sends [] main_script) recs"
  shows "recs = [[1, 2], [2, 3], [1, 2], [1, 2, 3]] \<or> recs = [[1, 2], [2, 3], [1, 2], [1, 2]]"
proof -
  note snoc = seen_Send [where as = "[]", simplified] seen_Send [where as = "[a]" for a, simplified]
    seen_Send [where as = "[a, b]" for a b, simplified] seen_Subscribe [where as = "[a, b, c]" for a b c, simplified]
  show ?thesis
    using assms by (auto simp: main_script_def list_all2_Cons1 seen_Nil snoc main_subs_def)
qed

lemma main_sends:
  "map (\<lambda>(as, p, m). m) (pub_sends [] main_script)
     = [''hello, world!'', ''hi, universe!'', ''Goodbye, Cruel world'', ''Just kidding'']"
  by (simp add: main_script_def)

text \<open>C30: The program delivers. From every state that it can reach, all its messages can still be
  delivered; and whenever they have been, each subscriber has exactly the messages of its publishers, in the order in
  which they were sent. The third subscriber may miss the last message, although it was subscribed before
  that message was sent: \<open>publish\<close> may have read the subscribers before.\<close>

theorem pub_sub_delivers:
  assumes "pubsub_run cs pubsub_main = Some w"
  shows "(\<exists>ds w'. pubsub_run ds w = Some w' \<and> ps_todo w' = [] \<and> (\<exists>rest. ps_phase w' = Pass rest))
    \<and> (case (ps_todo w, ps_phase w) of
         ([], Pass rest) \<Rightarrow>
           ps_logs w 1 = [''hello, world!'', ''Goodbye, Cruel world'', ''Just kidding'']
           \<and> ps_logs w 2 = [''hello, world!'', ''hi, universe!'', ''Goodbye, Cruel world'', ''Just kidding'']
           \<and> ps_logs w 3 \<in> {[''hi, universe!'', ''Just kidding''], [''hi, universe!'']}
       | _ \<Rightarrow> True)"
proof -
  obtain acts recs where inv: "pubsub_inv [1, 2] main_subs main_script acts recs w"
    using pubsub_inv_run [OF pubsub_inv_start] assms unfolding pubsub_main_def by blast
  have "p \<in> {1, 2}" if "Send p m \<in> set main_script" for p m
    using that by (auto simp: main_script_def)
  moreover have "main_script = acts @ ps_todo w" using inv by (simp add: pubsub_inv_def)
  then have "set (ps_todo w) \<subseteq> set main_script" by (metis Un_upper2 set_append)
  ultimately have "\<forall>p m. Send p m \<in> set (ps_todo w) \<longrightarrow> p \<in> set (ps_pubs w)"
    using inv unfolding pubsub_inv_def by auto
  note finish = can_finish [OF this]
  have "ps_logs w 1 = [''hello, world!'', ''Goodbye, Cruel world'', ''Just kidding'']
      \<and> ps_logs w 2 = [''hello, world!'', ''hi, universe!'', ''Goodbye, Cruel world'', ''Just kidding'']
      \<and> ps_logs w 3 \<in> {[''hi, universe!'', ''Just kidding''], [''hi, universe!'']}"
    if t: "ps_todo w = []" and ph: "ps_phase w = Pass rest" for rest
  proof -
    have acts: "acts = main_script" using inv t by (simp add: pubsub_inv_def)
    have r: "list_all2 (\<lambda>(as, p, m). seen main_subs as p) (pub_sends [] main_script) recs"
      and logs: "\<And>s. ps_logs w s = got recs (pub_sends [] main_script) s"
      using inv by (simp_all add: pubsub_inv_def acts ph)
    from main_records [OF r] show ?thesis
      by (elim disjE) (simp_all add: logs got_def main_script_def)
  qed
  with finish show ?thesis by (auto split: list.split pub_phase.split)
qed

text \<open>Two runs, one with each outcome.\<close>

definition hello_hi_goodbye :: "choice list" where
  "hello_hi_goodbye =
     [NewPass, Visit 1, Meet, Hand, Hand, Done, Visit 2, Meet, Hand, Hand, Done,
      NewPass, Visit 2, Timeout, Visit 1, Meet, Hand, Hand, Done, NewPass]"

definition patient_run :: "choice list" where
  "patient_run = hello_hi_goodbye @ [MainAppends, Visit 1, Meet, Hand, Hand, Hand, Done]"

definition hasty_run :: "choice list" where
  "hasty_run = hello_hi_goodbye @ [Visit 1, MainAppends, Meet, Hand, Hand, Done]"

lemma two_outcomes:
  "\<exists>w. pubsub_run patient_run pubsub_main = Some w \<and> ps_logs w 3 = [''hi, universe!'', ''Just kidding'']"
  "\<exists>w. pubsub_run hasty_run pubsub_main = Some w \<and> ps_logs w 3 = [''hi, universe!'']"
  by (simp_all add: patient_run_def hasty_run_def hello_hi_goodbye_def pubsub_main_def pubsub_start_def main_script_def
      main_subs_def pubsub_step_def main_appends_def)

theorem pub_sub_delivers_witness:
  "\<exists>w. pubsub_run [NewPass, Visit 1, Meet] pubsub_main = Some w
     \<and> (\<exists>ds w'. pubsub_run ds w = Some w' \<and> ps_todo w' = [] \<and> (\<exists>rest. ps_phase w' = Pass rest))"
proof -
  obtain w where "pubsub_run [NewPass, Visit 1, Meet] pubsub_main = Some w"
    by (simp add: pubsub_main_def pubsub_start_def main_script_def pubsub_step_def)
  with pub_sub_delivers [OF this] show ?thesis by blast
qed

end
