(* ===== verification/Pool.thy ===== *)
theory Pool
  imports StringService
begin

text \<open>
  The goroutine pool demo \<^verbatim>\<open>cmd/ants\<close>: \<open>main\<close> submits tasks to a pool and waits for them on a wait group, first with
  tasks that print a line and then with tasks that add to a sum atomically. The pool runs what it accepted in any
  order, and the tasks it runs end in any order; whether it accepts one is not up to the program, which ignores the
  error. The locale says when the order cannot be seen.
\<close>

section \<open>A pool and its wait group\<close>

text \<open>What \<open>main\<close> has still to submit, the tasks that wait or run, how many are at their deferred \<open>wg.Done\<close>, the wait
  group, and what the tasks share.\<close>

record ('t, 's) pool =
  pl_todo :: "'t list"
  pl_pending :: "'t list"
  pl_ending :: nat
  pl_wg :: int
  pl_shared :: 's

datatype pool_choice =
    Invoke bool    \<comment> \<open>\<open>main\<close> submits the next task, and whether the pool accepts it\<close>
  | RunTask nat    \<comment> \<open>a task does its work\<close>
  | EndTask        \<comment> \<open>a task that did its work calls \<open>wg.Done\<close>\<close>

fun pool_step :: "('t \<Rightarrow> 's \<Rightarrow> 's) \<Rightarrow> pool_choice \<Rightarrow> ('t, 's) pool \<Rightarrow> ('t, 's) pool option" where
  "pool_step task (Invoke ok) w =
     (case pl_todo w of
        [] \<Rightarrow> None
      | x # xs \<Rightarrow>
          let w = w\<lparr>pl_todo := xs, pl_wg := pl_wg w + 1\<rparr>
          in Some (if ok then w\<lparr>pl_pending := pl_pending w @ [x]\<rparr> else w))"
| "pool_step task (RunTask k) w =
     (if k < length (pl_pending w)
      then Some (w\<lparr>pl_shared := task (pl_pending w ! k) (pl_shared w),
                   pl_pending := take k (pl_pending w) @ drop (Suc k) (pl_pending w), pl_ending := Suc (pl_ending w)\<rparr>)
      else None)"
| "pool_step task EndTask w =
     (if 0 < pl_ending w then Some (w\<lparr>pl_ending := pl_ending w - 1, pl_wg := pl_wg w - 1\<rparr>) else None)"

fun pool_run :: "('t \<Rightarrow> 's \<Rightarrow> 's) \<Rightarrow> pool_choice list \<Rightarrow> ('t, 's) pool \<Rightarrow> ('t, 's) pool option" where
  "pool_run task [] w = Some w"
| "pool_run task (c # cs) w = (case pool_step task c w of Some w' \<Rightarrow> pool_run task cs w' | None \<Rightarrow> None)"

definition new_pool :: "'t list \<Rightarrow> 's \<Rightarrow> ('t, 's) pool" where
  "new_pool ts s = \<lparr> pl_todo = ts, pl_pending = [], pl_ending = 0, pl_wg = 0, pl_shared = s \<rparr>"

text \<open>\<open>main\<close> has submitted everything and \<open>wg.Wait()\<close> returns.\<close>

definition pool_finished :: "('t, 's) pool \<Rightarrow> bool" where
  "pool_finished w \<longleftrightarrow> pl_todo w = [] \<and> pl_wg w = 0"

definition refused :: "pool_choice list \<Rightarrow> nat" where
  "refused cs = length (filter (\<lambda>c. c = Invoke False) cs)"

section \<open>The wait group\<close>

lemma pool_step_wg:
  "pool_step task c w = Some w' \<Longrightarrow> pl_wg w = int (length (pl_pending w) + pl_ending w + n)
     \<Longrightarrow> pl_wg w' = int (length (pl_pending w') + pl_ending w' + n + refused [c])"
  by (cases c) (auto simp: refused_def Let_def split: list.splits if_splits)

lemma pool_run_wg:
  "pool_run task cs w = Some w' \<Longrightarrow> pl_wg w = int (length (pl_pending w) + pl_ending w + n)
     \<Longrightarrow> pl_wg w' = int (length (pl_pending w') + pl_ending w' + n + refused cs)"
proof (induction cs arbitrary: w n)
  case (Cons c cs)
  then obtain w1 where 1: "pool_step task c w = Some w1" "pool_run task cs w1 = Some w'" by (auto split: option.splits)
  have "pl_wg w1 = int (length (pl_pending w1) + pl_ending w1 + (n + refused [c]))"
    using pool_step_wg [OF 1(1) Cons.prems(2)] by simp
  from Cons.IH [OF 1(2) this] show ?case by (simp add: refused_def)
qed (simp add: refused_def)

lemma new_pool_wg:
  "pool_run task cs (new_pool ts s) = Some w \<Longrightarrow> pl_wg w = int (length (pl_pending w) + pl_ending w + refused cs)"
  using pool_run_wg [of task cs "new_pool ts s" w 0] by (simp add: new_pool_def)

text \<open>Every pool can accept the rest and run it to the end.\<close>

definition pool_rank :: "('t, 's) pool \<Rightarrow> nat" where
  "pool_rank w = 3 * length (pl_todo w) + 2 * length (pl_pending w) + pl_ending w"

lemma pool_step_rank: "pool_step task c w = Some w' \<Longrightarrow> pool_rank w' < pool_rank w"
  by (cases c) (auto simp: pool_rank_def Let_def split: list.splits if_splits)

lemma can_step_pool:
  assumes "0 < pool_rank w"
  shows "\<exists>c w'. pool_step task c w = Some w' \<and> c \<noteq> Invoke False"
proof -
  consider "0 < pl_ending w" | "pl_pending w \<noteq> []" | x xs where "pl_todo w = x # xs"
    using assms by (cases "pl_todo w") (auto simp: pool_rank_def)
  then show ?thesis
  proof cases
    case 1
    then show ?thesis by (intro exI [of _ EndTask]) simp
  next
    case 2
    then show ?thesis by (intro exI [of _ "RunTask 0"]) simp
  next
    case 3
    then show ?thesis by (intro exI [of _ "Invoke True"]) (simp add: Let_def)
  qed
qed

lemma can_complete: "\<exists>cs w'. pool_run task cs w = Some w' \<and> refused cs = 0 \<and> pool_rank w' = 0"
proof (induction "pool_rank w" arbitrary: w rule: less_induct)
  case less
  show ?case
  proof (cases "pool_rank w = 0")
    case True
    then show ?thesis by (intro exI [of _ "[]"] exI [of _ w]) (simp add: refused_def)
  next
    case False
    then obtain c w1 where c: "pool_step task c w = Some w1" "c \<noteq> Invoke False" using can_step_pool by blast
    obtain cs w' where "pool_run task cs w1 = Some w'" "refused cs = 0" "pool_rank w' = 0"
      using less [OF pool_step_rank [OF c(1)]] by blast
    then show ?thesis using c by (intro exI [of _ "c # cs"] exI [of _ w']) (simp add: refused_def)
  qed
qed

section \<open>Tasks whose order cannot be seen\<close>

locale commuting_tasks =
  fixes task :: "'t \<Rightarrow> 's \<Rightarrow> 's"
  assumes commute: "task a (task b s) = task b (task a s)"
begin

lemma fold_task_first: "fold task xs (task x s) = task x (fold task xs s)"
proof (induction xs arbitrary: s)
  case (Cons y ys)
  show ?case using Cons [of "task y s"] by (simp add: commute [of y x])
qed simp

text \<open>What is done, with what is pending and to do, is always the same, until something is refused.\<close>

lemma pool_step_task:
  assumes "pool_step task c w = Some w'" and "c \<noteq> Invoke False"
  shows "fold task (pl_pending w' @ pl_todo w') (pl_shared w') = fold task (pl_pending w @ pl_todo w) (pl_shared w)"
proof (cases c)
  case (RunTask k)
  then have k: "k < length (pl_pending w)" using assms(1) by (simp split: if_splits)
  have "fold task (pl_pending w) (pl_shared w)
      = fold task (take k (pl_pending w) @ pl_pending w ! k # drop (Suc k) (pl_pending w)) (pl_shared w)"
    by (simp add: id_take_nth_drop [OF k, symmetric])
  also have "\<dots> = fold task (take k (pl_pending w) @ drop (Suc k) (pl_pending w)) (task (pl_pending w ! k) (pl_shared w))"
    by (simp add: fold_task_first)
  finally have "fold task (pl_pending w) (pl_shared w) = \<dots>" .
  then show ?thesis using assms(1) RunTask k by auto
qed (use assms in \<open>auto simp: Let_def split: list.splits if_splits\<close>)

lemma pool_run_task:
  "pool_run task cs w = Some w' \<Longrightarrow> refused cs = 0 \<Longrightarrow>
     fold task (pl_pending w' @ pl_todo w') (pl_shared w') = fold task (pl_pending w @ pl_todo w) (pl_shared w)"
proof (induction cs arbitrary: w)
  case (Cons c cs)
  then obtain w1 where 1: "pool_step task c w = Some w1" "pool_run task cs w1 = Some w'" by (auto split: option.splits)
  have "c \<noteq> Invoke False" "refused cs = 0" using Cons.prems(2) by (auto simp: refused_def split: if_splits)
  with Cons.IH [OF 1(2)] pool_step_task [OF 1(1)] show ?case by simp
qed simp

text \<open>Without a refusal the pool can always finish, and then it has done what a loop over the tasks would have done.
  After a refusal it never finishes.\<close>

lemma pool_result:
  assumes "pool_run task cs (new_pool ts s) = Some w"
  shows "if refused cs = 0
    then (pool_finished w \<longrightarrow> pl_shared w = fold task ts s)
      \<and> (\<exists>ds w'. pool_run task ds w = Some w' \<and> refused ds = 0 \<and> pool_finished w')
    else \<not> pool_finished w"
proof (cases "refused cs = 0")
  case True
  have wg: "pl_wg w = int (length (pl_pending w) + pl_ending w)" using new_pool_wg [OF assms] True by simp
  have "fold task (pl_pending w @ pl_todo w) (pl_shared w) = fold task ts s"
    using pool_run_task [OF assms True] by (simp add: new_pool_def)
  moreover have "pl_pending w = []" if "pool_finished w" using that wg by (cases "pl_pending w") (simp_all add: pool_finished_def)
  moreover obtain ds w' where d: "pool_run task ds w = Some w'" "refused ds = 0" "pool_rank w' = 0"
    using can_complete by blast
  then have "pool_finished w'" using pool_run_wg [OF d(1), of 0] wg by (simp add: pool_finished_def pool_rank_def)
  ultimately show ?thesis using True d by (auto simp: pool_finished_def)
next
  case False
  then show ?thesis using new_pool_wg [OF assms] by (simp add: pool_finished_def)
qed

end

section \<open>The program\<close>

text \<open>\<open>myFunc\<close> adds atomically to the sum that all tasks share.\<close>

definition myFunc :: "32 word \<Rightarrow> 32 word \<Rightarrow> 32 word" where
  "myFunc input acc = acc + input"

definition funcPool_args :: "32 word list" where
  "funcPool_args = map word_of_nat [0..<101]"

definition funcPool :: "(32 word, 32 word) pool" where
  "funcPool = new_pool funcPool_args 0"

text \<open>\<open>demoFunc\<close> prints a line, after it slept.\<close>

definition demoFunc :: "unit \<Rightarrow> string list \<Rightarrow> string list" where
  "demoFunc u out = out @ [''Hello world!'']"

definition runTime :: nat where
  "runTime = 1000"

definition commonPool :: "string list \<Rightarrow> (unit, string list) pool" where
  "commonPool out = new_pool (replicate runTime ()) out"

interpretation adding: commuting_tasks myFunc
  by unfold_locales (simp add: myFunc_def ac_simps)

interpretation printing: commuting_tasks demoFunc
  by unfold_locales (simp add: demoFunc_def)

text \<open>What the two functions print once the wait group lets them go on, with the number of goroutines that still run.\<close>

definition commonPool_prints :: "nat \<Rightarrow> string list" where
  "commonPool_prints running = [''running goroutines: '' @ itoa (int running), ''finish all tasks.'']"

definition funcPool_prints :: "nat \<Rightarrow> 32 word \<Rightarrow> string list" where
  "funcPool_prints running res =
     [''running goroutines: '' @ itoa (int running), ''finish all tasks, result is '' @ itoa (sint res)]"

text \<open>\<open>main\<close>, with the schedules of the two pools: what it prints, if it gets that far.\<close>

definition ants_main :: "pool_choice list \<Rightarrow> nat \<Rightarrow> pool_choice list \<Rightarrow> nat \<Rightarrow> string list option" where
  "ants_main cs running ds running' =
     (case pool_run demoFunc cs (commonPool []) of
        None \<Rightarrow> None
      | Some w \<Rightarrow>
          if \<not> pool_finished w then None
          else
            (case pool_run myFunc ds funcPool of
               None \<Rightarrow> None
             | Some v \<Rightarrow>
                 if \<not> pool_finished v then None
                 else Some (pl_shared w @ commonPool_prints running @ funcPool_prints running' (pl_shared v))))"

text \<open>What the loops over the tasks give.\<close>

lemma fold_myFunc: "fold myFunc xs a = a + sum_list xs"
  by (induction xs arbitrary: a) (simp_all add: myFunc_def ac_simps)

lemma sum_numbers: "fold myFunc funcPool_args 0 = 5050"
proof -
  have "sum_list (map word_of_nat xs) = (word_of_nat (sum_list xs) :: 32 word)" for xs
    by (induction xs) simp_all
  moreover have "sum_list [0..<101] = (5050 :: nat)" using Sum_Ico_nat [of 0 101] by simp
  ultimately show ?thesis by (simp add: fold_myFunc funcPool_args_def del: upt_rec_numeral)
qed

lemma fold_demoFunc: "fold demoFunc (replicate n ()) out = out @ replicate n ''Hello world!''"
  by (induction n arbitrary: out) (simp_all add: demoFunc_def)

lemmas func_pool_result = adding.pool_result [of _ funcPool_args 0, folded funcPool_def, unfolded sum_numbers]

lemma common_pool_result:
  assumes "pool_run demoFunc cs (commonPool out) = Some w"
  shows "if refused cs = 0
    then (pool_finished w \<longrightarrow> pl_shared w = out @ replicate runTime ''Hello world!'')
      \<and> (\<exists>ds w'. pool_run demoFunc ds w = Some w' \<and> refused ds = 0 \<and> pool_finished w')
    else \<not> pool_finished w"
  using printing.pool_result [OF assms [unfolded commonPool_def]] by (simp only: fold_demoFunc)

lemma itoa_5050: "itoa 5050 = ''5050''"
proof -
  have "char_of (53 :: nat) = CHR ''5''" "char_of (48 :: nat) = CHR ''0''" by code_simp+
  then show ?thesis
    by (simp add: itoa_def Itoa.simps [of 5050] Itoa.simps [of 505] Itoa.simps [of 50] Itoa.simps [of 5] digit_def)
qed

text \<open>C37: In whatever order the two pools run and end their tasks, \<open>main\<close> prints the same when it ends: a thousand
  times the line of \<open>demoFunc\<close>, and 5050 as the sum of the numbers from 0 to 100, up to the numbers of goroutines
  that still run. It ends only if no task was refused. While none was, each pool can always finish; once one
  was, it never does, because the error of \<open>Submit\<close> and \<open>Invoke\<close> is ignored and the task is waited for.\<close>

theorem ants_main_prints:
  "(ants_main cs r ds r' = Some out \<longrightarrow> refused cs = 0 \<and> refused ds = 0
      \<and> out = replicate runTime ''Hello world!''
          @ [''running goroutines: '' @ itoa (int r), ''finish all tasks.'',
             ''running goroutines: '' @ itoa (int r'), ''finish all tasks, result is 5050''])
    \<and> (\<forall>w. pool_run demoFunc cs (commonPool []) = Some w \<longrightarrow>
        (if refused cs = 0 then \<exists>es w'. pool_run demoFunc es w = Some w' \<and> refused es = 0 \<and> pool_finished w'
         else \<not> pool_finished w))
    \<and> (\<forall>v. pool_run myFunc ds funcPool = Some v \<longrightarrow>
        (if refused ds = 0 then \<exists>es v'. pool_run myFunc es v = Some v' \<and> refused es = 0 \<and> pool_finished v'
         else \<not> pool_finished v))"
proof (intro conjI impI allI)
  assume "ants_main cs r ds r' = Some out"
  then obtain w v where w: "pool_run demoFunc cs (commonPool []) = Some w" "pool_finished w"
    and v: "pool_run myFunc ds funcPool = Some v" "pool_finished v"
    and out: "out = pl_shared w @ [''running goroutines: '' @ itoa (int r), ''finish all tasks.'',
             ''running goroutines: '' @ itoa (int r'), ''finish all tasks, result is '' @ itoa (sint (pl_shared v))]"
    by (auto simp: ants_main_def commonPool_prints_def funcPool_prints_def split: option.splits if_splits)
  have result: "itoa (sint (5050 :: 32 word)) = ''5050''" by (simp add: itoa_5050)
  show "refused cs = 0" "refused ds = 0" "out = replicate runTime ''Hello world!''
          @ [''running goroutines: '' @ itoa (int r), ''finish all tasks.'',
             ''running goroutines: '' @ itoa (int r'), ''finish all tasks, result is 5050'']"
    using common_pool_result [OF w(1)] func_pool_result [OF v(1)] w(2) v(2) out result
    by (simp_all only: simp_thms append.simps append_Nil append_assoc split: if_splits)
next
  fix w assume "pool_run demoFunc cs (commonPool []) = Some w"
  from common_pool_result [OF this]
  show "if refused cs = 0 then \<exists>es w'. pool_run demoFunc es w = Some w' \<and> refused es = 0 \<and> pool_finished w'
    else \<not> pool_finished w" by (simp split: if_splits)
next
  fix v assume "pool_run myFunc ds funcPool = Some v"
  from func_pool_result [OF this]
  show "if refused ds = 0 then \<exists>es v'. pool_run myFunc es v = Some v' \<and> refused es = 0 \<and> pool_finished v'
    else \<not> pool_finished v" by (simp split: if_splits)
qed

text \<open>The program can end, with what it prints.\<close>

theorem ants_main_prints_witness:
  "\<exists>cs ds. ants_main cs 0 ds 0 = Some (replicate runTime ''Hello world!''
     @ [''running goroutines: '' @ itoa (int 0), ''finish all tasks.'',
        ''running goroutines: '' @ itoa (int 0), ''finish all tasks, result is 5050''])"
proof -
  have "pool_run demoFunc [] (commonPool []) = Some (commonPool [])" "pool_run myFunc [] funcPool = Some funcPool"
    "refused [] = 0" by (simp_all add: refused_def)
  then obtain cs w ds v where w: "pool_run demoFunc cs (commonPool []) = Some w" "pool_finished w"
    and v: "pool_run myFunc ds funcPool = Some v" "pool_finished v"
    using ants_main_prints [of "[]" 0 "[]" 0 "[]"] by (auto simp del: pool_run.simps)
  then obtain out where "ants_main cs 0 ds 0 = Some out" by (auto simp: ants_main_def)
  then show ?thesis using ants_main_prints [of cs 0 ds 0 out] by blast
qed

end
