(* ===== verification/Hystrix.thy ===== *)
theory Hystrix
  imports StringService
begin

text \<open>
  The demo of the circuit breaker \<^verbatim>\<open>cmd/hystrix_demo\<close>, with the part of the vendored package \<^verbatim>\<open>hystrix\<close> that it stands
  on: the execution of one command by \<open>GoC\<close> (two goroutines that share a \<open>sync.Once\<close>, a ticket of the pool of the
  circuit, two buffered channels and a condition variable), the synchronous \<open>DoC\<close> on top of it, and the settings.
  Whether a circuit is open, what the run function gives and when a timer fires or a context is done are choices of
  the environment, as is the order in which the goroutines move. The metrics are not modelled.
\<close>

section \<open>Commands\<close>

definition CircuitError :: "string \<Rightarrow> go_error" where
  "CircuitError m = Msg (''hystrix: '' @ m)"

definition ErrMaxConcurrency :: go_error where
  "ErrMaxConcurrency = CircuitError ''max concurrency''"

definition ErrCircuitOpen :: go_error where
  "ErrCircuitOpen = CircuitError ''circuit open''"

definition ErrTimeout :: go_error where
  "ErrTimeout = CircuitError ''timeout''"

text \<open>
  What the caller hands in: for which results its run function sends on the channel the caller selects on, before it
  returns them, and its fallback, which sends there when it gives \<open>nil\<close> (as \<open>DoC\<close> makes it).
\<close>

record hy_client =
  cl_sends :: "go_error option \<Rightarrow> bool"
  cl_fallback :: "(go_error \<Rightarrow> go_error option) option"

text \<open>The client of \<open>asyncDemo\<close>, and that which \<open>DoC\<close> makes of a fallback.\<close>

definition asyncDemo :: hy_client where
  "asyncDemo = \<lparr> cl_sends = (\<lambda>r. True), cl_fallback = None \<rparr>"

definition DoC :: "(go_error \<Rightarrow> go_error option) option \<Rightarrow> hy_client" where
  "DoC f = \<lparr> cl_sends = (\<lambda>r. r = None), cl_fallback = f \<rparr>"

definition syncDemo :: hy_client where
  "syncDemo = DoC (Some (\<lambda>e. None))"

definition customDemo :: hy_client where
  "customDemo = DoC (Some (\<lambda>e. Some e))"

text \<open>What is run under \<open>returnOnce\<close>, statement by statement.\<close>

datatype once_body =
    ReturnTicket "go_error option"  \<comment> \<open>and then report a success or the error\<close>
  | Outcome "go_error option"
  | FallbackSends                   \<comment> \<open>\<open>done <- struct{}{}\<close> in the fallback of \<open>DoC\<close>\<close>
  | ErrChan go_error                \<comment> \<open>\<open>c.errChan <- fallbackErr\<close>\<close>
  | ReportAll

datatype worker =
    AllowRequest | TakeTicket | Run
  | RunSends "go_error option"
  | WorkerOnce "go_error option"
  | WorkerBody once_body
  | SendFinished
  | WorkerEnd

datatype watcher = WatcherSelect | WatcherOnce go_error | WatcherBody once_body | WatcherEnd

datatype once_state = Fresh | Running | Over

text \<open>One call of \<open>GoC\<close>. \<open>cm_out\<close> is the caller's channel, of capacity one, and \<open>cm_got\<close> what its select gave it.\<close>

record command =
  cm_client :: hy_client
  cm_ticket :: bool
  cm_checked :: bool
  cm_once :: once_state
  cm_errs :: "go_error list"
  cm_finished :: bool
  cm_out :: bool
  cm_events :: "string list"
  cm_worker :: worker
  cm_watcher :: watcher
  cm_got :: "go_error option option"

definition GoC :: "hy_client \<Rightarrow> command" where
  "GoC cl = \<lparr> cm_client = cl, cm_ticket = False, cm_checked = False, cm_once = Fresh, cm_errs = [], cm_finished = False,
     cm_out = False, cm_events = [], cm_worker = AllowRequest, cm_watcher = WatcherSelect, cm_got = None \<rparr>"

section \<open>The steps\<close>

definition reportEvent :: "string \<Rightarrow> command \<Rightarrow> command" where
  "reportEvent ev c = c\<lparr>cm_events := cm_events c @ [ev]\<rparr>"

definition eventType :: "go_error \<Rightarrow> string" where
  "eventType e =
     (if e = ErrCircuitOpen then ''short-circuit''
      else if e = ErrMaxConcurrency then ''rejected''
      else if e = ErrTimeout then ''timeout''
      else if e = Msg ''context canceled'' then ''context_canceled''
      else if e = Msg ''context deadline exceeded'' then ''context_deadline_exceeded''
      else ''failure'')"

definition quoted :: "string \<Rightarrow> string" where
  "quoted t = [CHR 0x27] @ t @ [CHR 0x27]"

definition fallback_failed :: "go_error \<Rightarrow> go_error \<Rightarrow> go_error" where
  "fallback_failed fe e =
     Msg (''fallback failed with '' @ quoted (error_text fe) @ ''. run error was '' @ quoted (error_text e))"

text \<open>\<open>errorWithFallback\<close> and \<open>tryFallback\<close>, up to the statement that sends.\<close>

definition errorWithFallback :: "go_error \<Rightarrow> command \<Rightarrow> once_body \<times> command" where
  "errorWithFallback e c =
     (let c = reportEvent (eventType e) c in
      case cl_fallback (cm_client c) of
        None \<Rightarrow> (ErrChan e, c)
      | Some f \<Rightarrow>
          (case f e of
             Some fe \<Rightarrow> (ErrChan (fallback_failed fe e), reportEvent ''fallback-failure'' c)
           | None \<Rightarrow> (FallbackSends, c)))"

text \<open>
  One statement under \<open>returnOnce\<close>, with the number of tickets in the channel of the pool, whose capacity is \<open>maxC\<close>.
  It blocks while the ticket is not checked, or the channel it sends on is full. Without a next statement the
  function given to \<open>Do\<close> has returned.
\<close>

fun body_step :: "nat \<Rightarrow> once_body \<Rightarrow> nat \<times> command \<Rightarrow> (once_body option \<times> nat \<times> command) option" where
  "body_step maxC (ReturnTicket r) (t, c) =
     (if \<not> cm_checked c then None
      else if \<not> cm_ticket c then Some (Some (Outcome r), t, c)
      else if t < maxC then Some (Some (Outcome r), Suc t, c)
      else None)"
| "body_step maxC (Outcome None) (t, c) = Some (Some ReportAll, t, reportEvent ''success'' c)"
| "body_step maxC (Outcome (Some e)) (t, c) = (case errorWithFallback e c of (b, c) \<Rightarrow> Some (Some b, t, c))"
| "body_step maxC FallbackSends (t, c) =
     (if cm_out c then None else Some (Some ReportAll, t, reportEvent ''fallback-success'' (c\<lparr>cm_out := True\<rparr>)))"
| "body_step maxC (ErrChan e) (t, c) =
     (if cm_errs c \<noteq> [] then None else Some (Some ReportAll, t, c\<lparr>cm_errs := [e]\<rparr>))"
| "body_step maxC ReportAll (t, c) = Some (None, t, c\<lparr>cm_once := Over\<rparr>)"

text \<open>The first goroutine. \<open>allow\<close> is what \<open>AllowRequest\<close> answers and \<open>r\<close> what the run function is about to give.\<close>

fun worker_step :: "nat \<Rightarrow> bool \<Rightarrow> go_error option \<Rightarrow> nat \<times> command \<Rightarrow> (nat \<times> command) option" where
  "worker_step maxC allow r (t, c) =
     (case cm_worker c of
        AllowRequest \<Rightarrow>
          Some (t, if allow then c\<lparr>cm_worker := TakeTicket\<rparr>
                   else c\<lparr>cm_checked := True, cm_worker := WorkerOnce (Some ErrCircuitOpen)\<rparr>)
      | TakeTicket \<Rightarrow>
          if 0 < t then Some (t - 1, c\<lparr>cm_ticket := True, cm_checked := True, cm_worker := Run\<rparr>)
          else Some (t, c\<lparr>cm_checked := True, cm_worker := WorkerOnce (Some ErrMaxConcurrency)\<rparr>)
      | Run \<Rightarrow> Some (t, c\<lparr>cm_worker := (if cl_sends (cm_client c) r then RunSends r else WorkerOnce r)\<rparr>)
      | RunSends q \<Rightarrow> if cm_out c then None else Some (t, c\<lparr>cm_out := True, cm_worker := WorkerOnce q\<rparr>)
      | WorkerOnce q \<Rightarrow>
          (case cm_once c of
             Fresh \<Rightarrow> Some (t, c\<lparr>cm_once := Running, cm_worker := WorkerBody (ReturnTicket q)\<rparr>)
           | Running \<Rightarrow> None
           | Over \<Rightarrow> Some (t, c\<lparr>cm_worker := SendFinished\<rparr>))
      | WorkerBody b \<Rightarrow>
          (case body_step maxC b (t, c) of
             None \<Rightarrow> None
           | Some (Some b, t, c) \<Rightarrow> Some (t, c\<lparr>cm_worker := WorkerBody b\<rparr>)
           | Some (None, t, c) \<Rightarrow> Some (t, c\<lparr>cm_worker := SendFinished\<rparr>))
      | SendFinished \<Rightarrow> if cm_finished c then None else Some (t, c\<lparr>cm_finished := True, cm_worker := WorkerEnd\<rparr>)
      | WorkerEnd \<Rightarrow> None)"

text \<open>The second goroutine. Its select takes what is ready: \<open>finished\<close>, or the context or timer when they fire.\<close>

fun watcher_step :: "nat \<Rightarrow> go_error option \<Rightarrow> nat \<times> command \<Rightarrow> (nat \<times> command) option" where
  "watcher_step maxC fired (t, c) =
     (case cm_watcher c of
        WatcherSelect \<Rightarrow>
          (case fired of
             None \<Rightarrow> if cm_finished c then Some (t, c\<lparr>cm_finished := False, cm_watcher := WatcherEnd\<rparr>) else None
           | Some e \<Rightarrow> Some (t, c\<lparr>cm_watcher := WatcherOnce e\<rparr>))
      | WatcherOnce e \<Rightarrow>
          (case cm_once c of
             Fresh \<Rightarrow> Some (t, c\<lparr>cm_once := Running, cm_watcher := WatcherBody (ReturnTicket (Some e))\<rparr>)
           | Running \<Rightarrow> None
           | Over \<Rightarrow> Some (t, c\<lparr>cm_watcher := WatcherEnd\<rparr>))
      | WatcherBody b \<Rightarrow>
          (case body_step maxC b (t, c) of
             None \<Rightarrow> None
           | Some (Some b, t, c) \<Rightarrow> Some (t, c\<lparr>cm_watcher := WatcherBody b\<rparr>)
           | Some (None, t, c) \<Rightarrow> Some (t, c\<lparr>cm_watcher := WatcherEnd\<rparr>))
      | WatcherEnd \<Rightarrow> None)"

text \<open>The select of the caller: the channel it made, or that of the errors.\<close>

fun caller_step :: "bool \<Rightarrow> nat \<times> command \<Rightarrow> (nat \<times> command) option" where
  "caller_step from_out (t, c) =
     (if cm_got c \<noteq> None then None
      else if from_out then (if cm_out c then Some (t, c\<lparr>cm_out := False, cm_got := Some None\<rparr>) else None)
      else (case cm_errs c of [] \<Rightarrow> None | e # es \<Rightarrow> Some (t, c\<lparr>cm_errs := es, cm_got := Some (Some e)\<rparr>)))"

datatype hy_choice = Worker bool "go_error option" | Watcher "go_error option" | Caller bool

fun command_step :: "nat \<Rightarrow> hy_choice \<Rightarrow> nat \<times> command \<Rightarrow> (nat \<times> command) option" where
  "command_step maxC (Worker allow r) tc = worker_step maxC allow r tc"
| "command_step maxC (Watcher fired) tc = watcher_step maxC fired tc"
| "command_step maxC (Caller from_out) tc = caller_step from_out tc"

text \<open>All commands of one circuit, which share its pool of tickets. A choice starts a command or moves one.\<close>

datatype circuit_choice = Start hy_client | Move nat hy_choice

fun circuit_step :: "nat \<Rightarrow> circuit_choice \<Rightarrow> nat \<times> command list \<Rightarrow> (nat \<times> command list) option" where
  "circuit_step maxC (Start cl) (t, cs) = Some (t, cs @ [GoC cl])"
| "circuit_step maxC (Move i ch) (t, cs) =
     (if i < length cs
      then (case command_step maxC ch (t, cs ! i) of None \<Rightarrow> None | Some (t, c) \<Rightarrow> Some (t, cs[i := c]))
      else None)"

fun circuit_run :: "nat \<Rightarrow> circuit_choice list \<Rightarrow> nat \<times> command list \<Rightarrow> (nat \<times> command list) option" where
  "circuit_run maxC [] w = Some w"
| "circuit_run maxC (ch # chs) w = (case circuit_step maxC ch w of None \<Rightarrow> None | Some w \<Rightarrow> circuit_run maxC chs w)"

section \<open>What always holds of a command\<close>

text \<open>The statement under \<open>returnOnce\<close> that one of the goroutines is at.\<close>

definition body_of :: "command \<Rightarrow> once_body option" where
  "body_of c =
     (case (cm_worker c, cm_watcher c) of
        (WorkerBody b, v) \<Rightarrow> Some b
      | (w, WatcherBody b) \<Rightarrow> Some b
      | (w, v) \<Rightarrow> None)"

definition body_over :: "command \<Rightarrow> bool" where
  "body_over c \<longleftrightarrow> cm_once c = Over \<or> body_of c = Some ReportAll"

definition run_over :: "command \<Rightarrow> bool" where
  "run_over c \<longleftrightarrow> cm_worker c \<notin> {AllowRequest, TakeTicket, Run} \<and> (\<forall>q. cm_worker c \<noteq> RunSends q)"

definition delivered :: "command \<Rightarrow> bool" where
  "delivered c \<longleftrightarrow> cm_got c \<noteq> None \<or> cm_out c \<or> cm_errs c \<noteq> []"

definition got_error :: "command \<Rightarrow> bool" where
  "got_error c \<longleftrightarrow> cm_got c \<noteq> None \<and> cm_got c \<noteq> Some None"

fun is_ReturnTicket :: "once_body \<Rightarrow> bool" where
  "is_ReturnTicket (ReturnTicket r) = True"
| "is_ReturnTicket b = False"

text \<open>Exactly one goroutine is in the body while it runs; the ticket is checked before the worker gets there.\<close>

definition once_inv :: "command \<Rightarrow> bool" where
  "once_inv c \<longleftrightarrow>
     (cm_once c = Running) = (body_of c \<noteq> None)
     \<and> ((\<exists>b. cm_worker c = WorkerBody b) \<longrightarrow> (\<forall>b. cm_watcher c \<noteq> WatcherBody b))
     \<and> cm_checked c = (cm_worker c \<notin> {AllowRequest, TakeTicket})
     \<and> (cm_ticket c \<longrightarrow> cm_checked c)
     \<and> (\<not> cm_checked c \<longrightarrow> cm_once c \<noteq> Over \<and> (\<forall>b. body_of c = Some b \<longrightarrow> is_ReturnTicket b))
     \<and> (cm_worker c \<in> {SendFinished, WorkerEnd} \<longrightarrow> cm_once c \<noteq> Fresh)
     \<and> (cm_finished c \<longrightarrow> cm_worker c = WorkerEnd)"

text \<open>The body sends at most once, and so does the run function: nothing is sent on a channel nobody will read.\<close>

definition sent_inv :: "command \<Rightarrow> bool" where
  "sent_inv c \<longleftrightarrow>
     length (cm_errs c) + of_bool (got_error c) \<le> (of_bool (body_over c) :: nat)
     \<and> of_bool (cm_out c) + length (cm_errs c) + of_bool (cm_got c \<noteq> None)
         \<le> (of_bool (run_over c) + of_bool (body_over c) :: nat)"

definition delivered_inv :: "command \<Rightarrow> bool" where
  "delivered_inv c \<longleftrightarrow>
     cl_sends (cm_client c) None
     \<and> (body_over c \<or> body_of c \<in> {Some (ReturnTicket None), Some (Outcome None)} \<or> cm_worker c = WorkerOnce None
         \<longrightarrow> delivered c)"

definition command_inv :: "command \<Rightarrow> bool" where
  "command_inv c \<longleftrightarrow> once_inv c \<and> sent_inv c \<and> delivered_inv c"

text \<open>A ticket is with the command from when the worker takes it until the body gives it back.\<close>

definition tickets_held :: "command \<Rightarrow> nat" where
  "tickets_held c =
     of_bool (cm_ticket c \<and> (cm_once c = Fresh \<or> (case body_of c of None \<Rightarrow> False | Some b \<Rightarrow> is_ReturnTicket b)))"

text \<open>How many more steps a command can take.\<close>

fun body_rank :: "once_body \<Rightarrow> nat" where
  "body_rank (ReturnTicket r) = 5"
| "body_rank (Outcome r) = 4"
| "body_rank FallbackSends = 3"
| "body_rank (ErrChan e) = 3"
| "body_rank ReportAll = 2"

fun worker_rank :: "worker \<Rightarrow> nat" where
  "worker_rank AllowRequest = 10"
| "worker_rank TakeTicket = 9"
| "worker_rank Run = 8"
| "worker_rank (RunSends q) = 7"
| "worker_rank (WorkerOnce q) = 6"
| "worker_rank (WorkerBody b) = body_rank b"
| "worker_rank SendFinished = 1"
| "worker_rank WorkerEnd = 0"

fun watcher_rank :: "watcher \<Rightarrow> nat" where
  "watcher_rank WatcherSelect = 7"
| "watcher_rank (WatcherOnce e) = 6"
| "watcher_rank (WatcherBody b) = body_rank b"
| "watcher_rank WatcherEnd = 0"

definition command_rank :: "command \<Rightarrow> nat" where
  "command_rank c = worker_rank (cm_worker c) + watcher_rank (cm_watcher c) + of_bool (cm_got c = None)"

lemmas command_defs =
  once_inv_def sent_inv_def delivered_inv_def body_over_def run_over_def delivered_def got_error_def
  tickets_held_def command_rank_def reportEvent_def

lemma body_of_update [simp]:
  "body_of (c\<lparr>cm_ticket := a\<rparr>) = body_of c" "body_of (c\<lparr>cm_checked := a\<rparr>) = body_of c"
  "body_of (c\<lparr>cm_once := o'\<rparr>) = body_of c" "body_of (c\<lparr>cm_errs := es\<rparr>) = body_of c"
  "body_of (c\<lparr>cm_finished := a\<rparr>) = body_of c" "body_of (c\<lparr>cm_out := a\<rparr>) = body_of c"
  "body_of (c\<lparr>cm_events := ev\<rparr>) = body_of c" "body_of (c\<lparr>cm_got := g\<rparr>) = body_of c"
  by (simp_all add: body_of_def)

lemma GoC_inv: "cl_sends cl None \<Longrightarrow> command_inv (GoC cl)" "tickets_held (GoC cl) = 0" "command_rank (GoC cl) = 18"
  by (simp_all add: command_inv_def command_defs body_of_def GoC_def)

definition step_ok :: "nat \<times> command \<Rightarrow> nat \<times> command \<Rightarrow> bool" where
  "step_ok tc tc' \<longleftrightarrow>
     command_inv (snd tc') \<and> fst tc' + tickets_held (snd tc') = fst tc + tickets_held (snd tc)
     \<and> command_rank (snd tc') < command_rank (snd tc) \<and> cm_client (snd tc') = cm_client (snd tc)"

lemma over_update [simp]:
  "body_over (c\<lparr>cm_errs := es\<rparr>) = body_over c" "body_over (c\<lparr>cm_out := a\<rparr>) = body_over c"
  "body_over (c\<lparr>cm_got := g\<rparr>) = body_over c" "run_over (c\<lparr>cm_errs := es\<rparr>) = run_over c"
  "run_over (c\<lparr>cm_out := a\<rparr>) = run_over c" "run_over (c\<lparr>cm_got := g\<rparr>) = run_over c"
  by (simp_all add: body_over_def run_over_def)

lemma once_inv_update [simp]:
  "once_inv (c\<lparr>cm_errs := es\<rparr>) = once_inv c" "once_inv (c\<lparr>cm_out := a\<rparr>) = once_inv c"
  "once_inv (c\<lparr>cm_got := g\<rparr>) = once_inv c"
  by (simp_all add: once_inv_def)

lemma caller_step_ok:
  assumes "caller_step from_out (t, c) = Some tc'" and "command_inv c"
  shows "step_ok (t, c) tc'"
proof -
  have got: "cm_got c = None" using assms(1) by (simp split: if_splits)
  have sent: "length (cm_errs c) \<le> (of_bool (body_over c) :: nat)"
    "of_bool (cm_out c) + length (cm_errs c) \<le> (of_bool (run_over c) + of_bool (body_over c) :: nat)"
    using assms(2) got by (simp_all add: command_inv_def sent_inv_def got_error_def)
  show ?thesis
  proof (cases from_out)
    case True
    then have c': "tc' = (t, c\<lparr>cm_out := False, cm_got := Some None\<rparr>)" and "cm_out c"
      using assms(1) got by (simp_all split: if_splits)
    then show ?thesis using assms(2) got sent
      by (simp add: step_ok_def command_inv_def sent_inv_def delivered_inv_def delivered_def got_error_def
          tickets_held_def command_rank_def)
  next
    case False
    then obtain e es where e: "cm_errs c = e # es" and c': "tc' = (t, c\<lparr>cm_errs := es, cm_got := Some (Some e)\<rparr>)"
      using assms(1) got by (auto split: list.splits)
    then show ?thesis using assms(2) got sent
      by (simp add: step_ok_def command_inv_def sent_inv_def delivered_inv_def delivered_def got_error_def
          tickets_held_def command_rank_def)
  qed
qed

text \<open>The body, by whichever goroutine it is run: what it needs and what it does.\<close>

lemma body_step_frame:
  assumes "body_step maxC b (t, c) = Some (ob, t', c')"
  shows "cm_client c' = cm_client c \<and> cm_ticket c' = cm_ticket c \<and> cm_checked c' = cm_checked c
    \<and> cm_finished c' = cm_finished c \<and> cm_worker c' = cm_worker c \<and> cm_watcher c' = cm_watcher c \<and> cm_got c' = cm_got c
    \<and> cm_once c' = (if ob = None then Over else cm_once c)
    \<and> (ob = None \<longleftrightarrow> b = ReportAll) \<and> (ob \<noteq> None \<longrightarrow> body_rank (the ob) < body_rank b)
    \<and> t' = t + of_bool (is_ReturnTicket b \<and> cm_ticket c)
    \<and> (ob \<noteq> None \<longrightarrow> \<not> is_ReturnTicket (the ob))"
  using assms
  by (cases b; (cases "case b of ReturnTicket r \<Rightarrow> r | Outcome r \<Rightarrow> r | _ \<Rightarrow> None")?)
    (auto simp: reportEvent_def errorWithFallback_def Let_def split: if_splits option.splits)

text \<open>What the statement does to what is sent, and to the ticket; \<open>d\<close> is the command with its goroutine moved on.\<close>

lemma body_step_sends:
  assumes step: "body_step maxC b (t, c) = Some (ob, t', c')" and inv: "sent_inv c" "delivered_inv c"
    and at: "body_of c = Some b" "cm_once c = Running"
    and d: "cm_client d = cm_client c" "cm_errs d = cm_errs c'" "cm_out d = cm_out c'" "cm_got d = cm_got c"
      "cm_once d = cm_once c'" "cm_ticket d = cm_ticket c" "body_of d = ob" "run_over d = run_over c"
      "cm_worker d = WorkerOnce None \<Longrightarrow> cm_worker c = WorkerOnce None"
  shows "sent_inv d \<and> delivered_inv d \<and> t' + tickets_held d = t + tickets_held c"
proof -
  note f = body_step_frame [OF step]
  have got: "got_error d = got_error c" using d(4) by (simp add: got_error_def)
  have held: "t' + tickets_held d = t + tickets_held c"
    using f d at by (cases ob) (auto simp: tickets_held_def)
  have over: "body_over c = (b = ReportAll)" "body_over d = (ob \<in> {None, Some ReportAll})"
    using f d at by (auto simp: body_over_def)
  have sent: "length (cm_errs c) + of_bool (got_error c) \<le> (of_bool (b = ReportAll) :: nat)"
    "of_bool (cm_out c) + length (cm_errs c) + of_bool (cm_got c \<noteq> None) \<le> (of_bool (run_over c) + of_bool (b = ReportAll) :: nat)"
    using inv(1) by (simp_all add: sent_inv_def over)
  have "sent_inv d \<and> delivered_inv d"
  proof (cases b)
    case (ReturnTicket r)
    then have "ob = Some (Outcome r)" "c' = c" using step by (auto split: if_splits)
    then show ?thesis using ReturnTicket inv d at got over
      by (auto simp: sent_inv_def delivered_inv_def delivered_def)
  next
    case (Outcome r)
    then have same: "cm_errs c' = cm_errs c" "cm_out c' = cm_out c"
      and ob: "ob = Some ReportAll \<longrightarrow> r = None" "ob \<noteq> Some (ReturnTicket None)" "ob \<noteq> Some (Outcome None)" "ob \<noteq> None"
      using step by (cases r; auto simp: reportEvent_def errorWithFallback_def Let_def split: option.splits)+
    then show ?thesis using Outcome inv d at got over sent
      by (auto simp: sent_inv_def delivered_inv_def delivered_def)
  next
    case FallbackSends
    then have "cm_out c' \<and> \<not> cm_out c \<and> cm_errs c' = cm_errs c \<and> ob = Some ReportAll"
      using step by (auto simp: reportEvent_def split: if_splits)
    then show ?thesis using FallbackSends inv d at got over sent
      by (auto simp: sent_inv_def delivered_inv_def delivered_def)
  next
    case (ErrChan e)
    then have "cm_out c' = cm_out c \<and> cm_errs c' = [e] \<and> cm_errs c = [] \<and> ob = Some ReportAll"
      using step by (auto split: if_splits)
    then show ?thesis using ErrChan inv d at got over sent
      by (auto simp: sent_inv_def delivered_inv_def delivered_def)
  next
    case ReportAll
    then have "cm_out c' = cm_out c \<and> cm_errs c' = cm_errs c \<and> ob = None" using step by auto
    then show ?thesis using ReportAll inv d at got over sent
      by (auto simp: sent_inv_def delivered_inv_def delivered_def)
  qed
  with held show ?thesis by blast
qed

text \<open>The two goroutines.\<close>

fun is_WorkerBody :: "worker \<Rightarrow> bool" where
  "is_WorkerBody (WorkerBody b) = True"
| "is_WorkerBody w = False"

lemma body_of_worker:
  "\<not> is_WorkerBody (cm_worker c) \<Longrightarrow> \<not> is_WorkerBody w \<Longrightarrow> body_of (c\<lparr>cm_worker := w\<rparr>) = body_of c"
  "body_of (c\<lparr>cm_worker := WorkerBody b\<rparr>) = Some b"
  "cm_worker c = WorkerBody b \<Longrightarrow> body_of c = Some b"
  by (auto simp: body_of_def split: worker.splits watcher.splits)

lemma body_of_watcher:
  "\<not> is_WorkerBody (cm_worker c) \<Longrightarrow>
     body_of c = (case cm_watcher c of WatcherBody b \<Rightarrow> Some b | _ \<Rightarrow> None)"
  by (auto simp: body_of_def split: worker.splits)

lemma worker_body_ok:
  assumes step: "worker_step maxC allow r (t, c) = Some (t', c')" and inv: "command_inv c"
    and w: "cm_worker c = WorkerBody b"
  shows "step_ok (t, c) (t', c')"
proof -
  obtain ob c1 where b: "body_step maxC b (t, c) = Some (ob, t', c1)"
    and c': "c' = c1\<lparr>cm_worker := (case ob of None \<Rightarrow> SendFinished | Some b \<Rightarrow> WorkerBody b)\<rparr>"
    using step w by (auto split: option.splits)
  note f = body_step_frame [OF b]
  have once: "once_inv c" and sent: "sent_inv c" "delivered_inv c" using inv by (simp_all add: command_inv_def)
  have at: "body_of c = Some b" "cm_once c = Running" using once w by (auto simp: once_inv_def body_of_worker)
  have v: "\<forall>b. cm_watcher c \<noteq> WatcherBody b" using once w by (auto simp: once_inv_def)
  have checked: "cm_checked c" using once at b by (cases b) (auto simp: once_inv_def split: if_splits)
  have ob: "body_of c' = ob" using c' f v by (cases ob) (auto simp: body_of_def split: watcher.splits)
  have run: "run_over c' = run_over c" using c' w by (cases ob) (auto simp: run_over_def)
  have worker: "cm_worker c' \<noteq> WorkerOnce None" using c' by (cases ob) auto
  have 1: "sent_inv c' \<and> delivered_inv c' \<and> t' + tickets_held c' = t + tickets_held c"
    by (rule body_step_sends [OF b sent at]) (use c' f ob run worker in auto)
  have 2: "once_inv c'" using once w v f at ob checked c' by (cases ob) (auto simp: once_inv_def)
  have "command_rank c' < command_rank c"
    using f w c' by (cases ob; cases b) (auto simp: command_rank_def)
  moreover have "cm_client c' = cm_client c" using f c' by simp
  ultimately show ?thesis using 1 2 by (simp add: step_ok_def command_inv_def)
qed

lemma watcher_body_ok:
  assumes step: "watcher_step maxC fired (t, c) = Some (t', c')" and inv: "command_inv c"
    and w: "cm_watcher c = WatcherBody b"
  shows "step_ok (t, c) (t', c')"
proof -
  obtain ob c1 where b: "body_step maxC b (t, c) = Some (ob, t', c1)"
    and c': "c' = c1\<lparr>cm_watcher := (case ob of None \<Rightarrow> WatcherEnd | Some b \<Rightarrow> WatcherBody b)\<rparr>"
    using step w by (auto split: option.splits)
  note f = body_step_frame [OF b]
  have once: "once_inv c" and sent: "sent_inv c" "delivered_inv c" using inv by (simp_all add: command_inv_def)
  have v: "\<not> is_WorkerBody (cm_worker c)" using once w by (cases "cm_worker c") (auto simp: once_inv_def)
  have at: "body_of c = Some b" "cm_once c = Running" using once w v by (auto simp: once_inv_def body_of_watcher)
  have checked: "cm_checked c" using once at b by (cases b) (auto simp: once_inv_def split: if_splits)
  have ob: "body_of c' = ob" using c' f v by (cases ob) (auto simp: body_of_watcher)
  have run: "run_over c' = run_over c" using c' f by (simp add: run_over_def)
  have worker: "cm_worker c' = cm_worker c" using c' f by simp
  have 1: "sent_inv c' \<and> delivered_inv c' \<and> t' + tickets_held c' = t + tickets_held c"
    by (rule body_step_sends [OF b sent at]) (use c' f ob run worker in auto)
  have 2: "once_inv c'" using once w v f at ob checked c' worker by (cases ob) (auto simp: once_inv_def)
  have "command_rank c' < command_rank c"
    using f w c' by (cases ob; cases b) (auto simp: command_rank_def)
  moreover have "cm_client c' = cm_client c" using f c' by simp
  ultimately show ?thesis using 1 2 by (simp add: step_ok_def command_inv_def)
qed

text \<open>A step that leaves the body and what it sends alone, and the step that enters the body.\<close>

lemma moved_ok:
  assumes inv: "command_inv c" and once: "once_inv c'"
    and same: "body_of c' = body_of c" "cm_once c' = cm_once c" "cm_client c' = cm_client c" "cm_errs c' = cm_errs c"
      "cm_got c' = cm_got c"
    and out: "of_bool (cm_out c') + of_bool (run_over c) \<le> (of_bool (cm_out c) + of_bool (run_over c') :: nat)"
      "cm_out c \<Longrightarrow> cm_out c'" "cm_worker c' = WorkerOnce None \<Longrightarrow> cm_out c' \<or> cm_worker c = WorkerOnce None"
    and rank: "command_rank c' < command_rank c" and held: "t' + tickets_held c' = t + tickets_held c"
  shows "step_ok (t, c) (t', c')"
proof -
  have over: "body_over c' = body_over c" "got_error c' = got_error c" using same by (simp_all add: body_over_def got_error_def)
  have "delivered c'" if "delivered c" using that same out(2) by (auto simp: delivered_def)
  moreover have "delivered c'" if "cm_out c'" using that by (simp add: delivered_def)
  ultimately have "delivered_inv c'" using inv same out(3) over by (auto simp: command_inv_def delivered_inv_def)
  moreover have "sent_inv c'" using inv same out(1) over by (auto simp: command_inv_def sent_inv_def)
  ultimately show ?thesis using once rank held same by (simp add: step_ok_def command_inv_def)
qed

lemma enters_ok:
  assumes inv: "command_inv c" and once: "once_inv c'"
    and enter: "cm_once c = Fresh" "cm_once c' = Running" "body_of c' = Some (ReturnTicket q)"
    and same: "cm_client c' = cm_client c" "cm_errs c' = cm_errs c" "cm_got c' = cm_got c" "cm_out c' = cm_out c"
      "cm_ticket c' = cm_ticket c" "run_over c' = run_over c"
    and q: "q = None \<Longrightarrow> cm_worker c = WorkerOnce None" "cm_worker c' = WorkerOnce None \<Longrightarrow> cm_worker c = WorkerOnce None"
    and rank: "command_rank c' < command_rank c"
  shows "step_ok (t, c) (t, c')"
proof -
  have "body_of c = None" using inv enter(1) by (auto simp: command_inv_def once_inv_def)
  then have over: "\<not> body_over c'" "\<not> body_over c" "got_error c' = got_error c" "delivered c' = delivered c"
      "tickets_held c' = tickets_held c"
    using enter same by (simp_all add: body_over_def got_error_def delivered_def tickets_held_def)
  have "delivered_inv c'" using inv same over q enter(3) by (auto simp: command_inv_def delivered_inv_def)
  moreover have "sent_inv c'" using inv same over by (auto simp: command_inv_def sent_inv_def)
  ultimately show ?thesis using once rank same over by (simp add: step_ok_def command_inv_def)
qed

lemma worker_step_ok:
  assumes step: "worker_step maxC allow r (t, c) = Some (t', c')" and inv: "command_inv c"
  shows "step_ok (t, c) (t', c')"
proof (cases "is_WorkerBody (cm_worker c)")
  case True
  then show ?thesis using worker_body_ok [OF step inv] by (cases "cm_worker c") auto
next
  case False
  note body = body_of_worker(1) [OF False]
  have once: "once_inv c" using inv by (simp add: command_inv_def)
  have sends: "cl_sends (cm_client c) None" using inv by (simp add: command_inv_def delivered_inv_def)
  have moved: "step_ok (t, c) (t', c')"
    if "once_inv c'" "body_of c' = body_of c" "cm_once c' = cm_once c" "cm_client c' = cm_client c" "cm_errs c' = cm_errs c"
      "cm_got c' = cm_got c" "of_bool (cm_out c') + of_bool (run_over c) \<le> (of_bool (cm_out c) + of_bool (run_over c') :: nat)"
      "cm_out c \<Longrightarrow> cm_out c'" "cm_worker c' = WorkerOnce None \<Longrightarrow> cm_out c' \<or> cm_worker c = WorkerOnce None"
      "command_rank c' < command_rank c" "t' + tickets_held c' = t + tickets_held c"
    using that by (rule moved_ok [OF inv])
  have rest: "tickets_held c' = tickets_held c" if "cm_ticket c' = cm_ticket c" "cm_once c' = cm_once c" "body_of c' = body_of c"
    using that by (simp add: tickets_held_def)
  show ?thesis
  proof (cases "cm_worker c")
    case AllowRequest
    show ?thesis
    proof (cases allow)
      case True
      then have c': "t' = t" "c' = c\<lparr>cm_worker := TakeTicket\<rparr>" using step AllowRequest by simp_all
      have b: "body_of c' = body_of c" using body by (simp add: c')
      have "once_inv c'" using once b AllowRequest by (auto simp: c' once_inv_def)
      then show ?thesis using b AllowRequest rest by (intro moved) (simp_all add: c' run_over_def command_rank_def)
    next
      case False
      then have c': "t' = t" "c' = c\<lparr>cm_checked := True, cm_worker := WorkerOnce (Some ErrCircuitOpen)\<rparr>"
        using step AllowRequest by simp_all
      have b: "body_of c' = body_of c"
        using body_of_worker(1) [of "c\<lparr>cm_checked := True\<rparr>"] AllowRequest by (simp add: c')
      have "once_inv c'" using once b AllowRequest by (auto simp: c' once_inv_def)
      then show ?thesis using b AllowRequest rest by (intro moved) (simp_all add: c' run_over_def command_rank_def)
    qed
  next
    case TakeTicket
    then have at: "\<not> cm_ticket c" "\<not> cm_checked c" "cm_once c = Fresh \<or> (\<exists>b. body_of c = Some b \<and> is_ReturnTicket b)"
      using once by (cases "cm_once c"; auto simp: once_inv_def)+
    show ?thesis
    proof (cases "0 < t")
      case True
      then have c': "t' = t - 1" "c' = c\<lparr>cm_ticket := True, cm_checked := True, cm_worker := Run\<rparr>"
        using step TakeTicket by simp_all
      have b: "body_of c' = body_of c"
        using body_of_worker(1) [of "c\<lparr>cm_ticket := True, cm_checked := True\<rparr>"] TakeTicket by (simp add: c')
      have "once_inv c'" using once b TakeTicket by (auto simp: c' once_inv_def)
      moreover have "t' + tickets_held c' = t + tickets_held c" using at b True by (auto simp: c' tickets_held_def)
      ultimately show ?thesis using b TakeTicket by (intro moved) (simp_all add: c' run_over_def command_rank_def)
    next
      case False
      then have c': "t' = t" "c' = c\<lparr>cm_checked := True, cm_worker := WorkerOnce (Some ErrMaxConcurrency)\<rparr>"
        using step TakeTicket by simp_all
      have b: "body_of c' = body_of c"
        using body_of_worker(1) [of "c\<lparr>cm_checked := True\<rparr>"] TakeTicket by (simp add: c')
      have "once_inv c'" using once b TakeTicket by (auto simp: c' once_inv_def)
      then show ?thesis using b TakeTicket rest by (intro moved) (simp_all add: c' run_over_def command_rank_def)
    qed
  next
    case Run
    define w where "w = (if cl_sends (cm_client c) r then RunSends r else WorkerOnce r)"
    have w: "\<not> is_WorkerBody w" "w \<noteq> WorkerOnce None" "worker_rank w < 8" "w \<noteq> AllowRequest" "w \<noteq> TakeTicket"
      "w \<noteq> SendFinished" "w \<noteq> WorkerEnd" using sends by (cases r; simp add: w_def)+
    have c': "t' = t" "c' = c\<lparr>cm_worker := w\<rparr>" using step Run by (simp_all add: w_def)
    have b: "body_of c' = body_of c" using body w(1) by (simp add: c')
    have "once_inv c'" using once b Run w by (auto simp: c' once_inv_def)
    then show ?thesis using b w(2,3) Run rest by (intro moved) (simp_all add: c' run_over_def command_rank_def)
  next
    case (RunSends q)
    have c': "t' = t" "c' = c\<lparr>cm_out := True, cm_worker := WorkerOnce q\<rparr>" using step RunSends by (simp_all split: if_splits)
    have b: "body_of c' = body_of c"
      using body_of_worker(1) [of "c\<lparr>cm_out := True\<rparr>" "WorkerOnce q"] False by (simp add: c')
    have "once_inv c'" using once b RunSends by (auto simp: c' once_inv_def)
    then show ?thesis using b RunSends rest by (intro moved) (simp_all add: c' run_over_def command_rank_def)
  next
    case (WorkerOnce q)
    show ?thesis
    proof (cases "cm_once c")
      case Fresh
      then have c': "t' = t" "c' = c\<lparr>cm_once := Running, cm_worker := WorkerBody (ReturnTicket q)\<rparr>"
        using step WorkerOnce by simp_all
      have "body_of c = None" using once Fresh by (auto simp: once_inv_def)
      then have "once_inv c'" using once Fresh WorkerOnce False
        by (auto simp: c' once_inv_def body_of_worker body_of_watcher)
      then show ?thesis unfolding c'(1) using Fresh WorkerOnce
        by (intro enters_ok [OF inv, where q = q]) (auto simp: c' body_of_worker run_over_def command_rank_def)
    next
      case Running
      then show ?thesis using step WorkerOnce by simp
    next
      case Over
      then have c': "t' = t" "c' = c\<lparr>cm_worker := SendFinished\<rparr>" using step WorkerOnce by simp_all
      have b: "body_of c' = body_of c" using body by (simp add: c')
      have "once_inv c'" using once b WorkerOnce Over by (auto simp: c' once_inv_def)
      then show ?thesis using b WorkerOnce rest by (intro moved) (simp_all add: c' run_over_def command_rank_def)
    qed
  next
    case (WorkerBody b)
    then show ?thesis using False by simp
  next
    case SendFinished
    have c': "t' = t" "c' = c\<lparr>cm_finished := True, cm_worker := WorkerEnd\<rparr>"
      using step SendFinished by (simp_all split: if_splits)
    have b: "body_of c' = body_of c"
      using body_of_worker(1) [of "c\<lparr>cm_finished := True\<rparr>" WorkerEnd] False by (simp add: c')
    have "once_inv c'" using once b SendFinished by (auto simp: c' once_inv_def)
    then show ?thesis using b SendFinished rest by (intro moved) (simp_all add: c' run_over_def command_rank_def)
  next
    case WorkerEnd
    then show ?thesis using step by simp
  qed
qed

lemma body_of_watcher_update:
  "(\<forall>b. cm_watcher c \<noteq> WatcherBody b) \<Longrightarrow> (\<forall>b. v \<noteq> WatcherBody b) \<Longrightarrow> body_of (c\<lparr>cm_watcher := v\<rparr>) = body_of c"
  "body_of c = None \<Longrightarrow> body_of (c\<lparr>cm_watcher := WatcherBody b\<rparr>) = Some b"
proof -
  show "(\<forall>b. cm_watcher c \<noteq> WatcherBody b) \<Longrightarrow> (\<forall>b. v \<noteq> WatcherBody b) \<Longrightarrow> body_of (c\<lparr>cm_watcher := v\<rparr>) = body_of c"
    by (cases "cm_worker c"; cases "cm_watcher c"; cases v) (simp_all add: body_of_def)
  show "body_of c = None \<Longrightarrow> body_of (c\<lparr>cm_watcher := WatcherBody b\<rparr>) = Some b"
    by (cases "cm_worker c"; cases "cm_watcher c") (simp_all add: body_of_def)
qed

lemma watcher_step_ok:
  assumes step: "watcher_step maxC fired (t, c) = Some (t', c')" and inv: "command_inv c"
  shows "step_ok (t, c) (t', c')"
proof (cases "cm_watcher c")
  case WatcherSelect
  have once: "once_inv c" using inv by (simp add: command_inv_def)
  define v where "v = (case fired of None \<Rightarrow> WatcherEnd | Some e \<Rightarrow> WatcherOnce e)"
  have c': "t' = t" "c' = c\<lparr>cm_watcher := v\<rparr> \<or> c' = c\<lparr>cm_finished := False, cm_watcher := v\<rparr>"
    and v: "\<forall>b. v \<noteq> WatcherBody b" "watcher_rank v < 7"
    using step WatcherSelect by (cases fired; simp add: v_def split: if_splits)+
  have body: "body_of c' = body_of c" using c'(2) WatcherSelect v(1) by (auto simp: body_of_watcher_update)
  have "once_inv c'" using once c'(2) body WatcherSelect v(1) by (elim disjE) (auto simp: once_inv_def)
  moreover have "command_rank c' < command_rank c"
    using c'(2) WatcherSelect v(2) by (elim disjE) (simp_all add: command_rank_def)
  moreover have "run_over c' = run_over c" "tickets_held c' = tickets_held c" "cm_worker c' = cm_worker c"
    using c'(2) body by (auto simp: run_over_def tickets_held_def)
  ultimately show ?thesis unfolding c'(1) using c'(2) body
    by (intro moved_ok [OF inv]) auto
next
  case (WatcherOnce e)
  have once: "once_inv c" using inv by (simp add: command_inv_def)
  show ?thesis
  proof (cases "cm_once c")
    case Fresh
    then have c': "t' = t" "c' = c\<lparr>cm_once := Running, cm_watcher := WatcherBody (ReturnTicket (Some e))\<rparr>"
      using step WatcherOnce by simp_all
    have none: "body_of c = None" using once Fresh by (auto simp: once_inv_def)
    then have "once_inv c'" using once Fresh by (auto simp: c' once_inv_def body_of_watcher_update body_of_worker(3))
    then show ?thesis unfolding c'(1) using Fresh WatcherOnce none
      by (intro enters_ok [OF inv, where q = "Some e"]) (auto simp: c' body_of_watcher_update run_over_def command_rank_def)
  next
    case Running
    then show ?thesis using step WatcherOnce by simp
  next
    case Over
    then have c': "t' = t" "c' = c\<lparr>cm_watcher := WatcherEnd\<rparr>" using step WatcherOnce by simp_all
    have body: "body_of c' = body_of c" using WatcherOnce by (simp add: c' body_of_watcher_update)
    have "once_inv c'" using once body WatcherOnce by (auto simp: c' once_inv_def)
    moreover have "run_over c' = run_over c" "tickets_held c' = tickets_held c"
      using body by (auto simp: c' run_over_def tickets_held_def)
    ultimately show ?thesis unfolding c'(1) using body WatcherOnce
      by (intro moved_ok [OF inv]) (auto simp: c' command_rank_def)
  qed
next
  case (WatcherBody b)
  then show ?thesis using watcher_body_ok [OF step inv] by simp
next
  case WatcherEnd
  then show ?thesis using step by simp
qed

lemma command_step_ok:
  assumes "command_step maxC ch (t, c) = Some (t', c')" and "command_inv c"
  shows "step_ok (t, c) (t', c')"
proof (cases ch)
  case (Worker allow r)
  show ?thesis by (rule worker_step_ok) (use assms Worker in \<open>simp_all only: command_step.simps\<close>)
next
  case (Watcher fired)
  show ?thesis by (rule watcher_step_ok) (use assms Watcher in \<open>simp_all only: command_step.simps\<close>)
next
  case (Caller from_out)
  show ?thesis by (rule caller_step_ok) (use assms Caller in \<open>simp_all only: command_step.simps\<close>)
qed

section \<open>No command is ever stuck\<close>

definition command_ended :: "command \<Rightarrow> bool" where
  "command_ended c \<longleftrightarrow> cm_worker c = WorkerEnd \<and> cm_watcher c = WatcherEnd \<and> cm_got c \<noteq> None"

definition can_step :: "nat \<Rightarrow> nat \<times> command \<Rightarrow> bool" where
  "can_step maxC tc \<longleftrightarrow> (\<exists>ch tc'. command_step maxC ch tc = Some tc')"

lemma can_stepI:
  "worker_step maxC True None tc \<noteq> None \<Longrightarrow> can_step maxC tc"
  "watcher_step maxC (Some e) tc \<noteq> None \<Longrightarrow> can_step maxC tc"
  "caller_step b tc \<noteq> None \<Longrightarrow> can_step maxC tc"
  unfolding can_step_def by (metis command_step.simps option.exhaust)+

text \<open>The caller can always move when something is there for it.\<close>

lemma caller_can_step:
  assumes "cm_got c = None" and "delivered c"
  shows "can_step maxC (t, c)"
proof (cases "cm_out c")
  case True
  with assms show ?thesis by (intro can_stepI(3) [where b = True]) simp
next
  case False
  with assms have "cm_errs c \<noteq> []" by (simp add: delivered_def)
  with assms show ?thesis by (intro can_stepI(3) [where b = False]) (simp split: list.split)
qed

text \<open>The body can always go on, or else the caller can.\<close>

lemma body_can_step:
  assumes inv: "command_inv c" and at: "body_of c = Some b" and checked: "cm_checked c"
    and room: "t + tickets_held c \<le> maxC" and blocked: "body_step maxC b (t, c) = None"
  shows "cm_got c = None \<and> delivered c"
proof -
  have once: "cm_once c = Running" using inv at by (simp add: command_inv_def once_inv_def)
  have over: "body_over c = (b = ReportAll)" using at once by (auto simp: body_over_def)
  show ?thesis
  proof (cases b)
    case (ReturnTicket r)
    then show ?thesis using blocked checked room at once by (simp add: tickets_held_def split: if_splits)
  next
    case (Outcome r)
    then show ?thesis using blocked by (cases r) (auto split: prod.splits)
  next
    case FallbackSends
    then have "cm_out c" using blocked by (simp split: if_splits)
    moreover have "cm_got c = None"
    proof (rule ccontr)
      assume "cm_got c \<noteq> None"
      then have "of_bool (cm_out c) + (1 :: nat) \<le> of_bool (run_over c)"
        using inv over FallbackSends by (simp add: command_inv_def sent_inv_def)
      with \<open>cm_out c\<close> show False by (simp add: of_bool_def split: if_splits)
    qed
    ultimately show ?thesis by (simp add: delivered_def)
  next
    case (ErrChan e)
    then have "cm_errs c = []" using inv over by (simp add: command_inv_def sent_inv_def)
    then show ?thesis using blocked ErrChan by simp
  next
    case ReportAll
    then show ?thesis using blocked by simp
  qed
qed

lemma body_or_caller:
  assumes inv: "command_inv c" and room: "t + tickets_held c \<le> maxC" and at: "body_of c = Some b" and checked: "cm_checked c"
  shows "can_step maxC (t, c)"
proof (cases "body_step maxC b (t, c)")
  case None
  then show ?thesis using body_can_step [OF inv at checked room] caller_can_step by blast
next
  case (Some x)
  obtain ob t' c' where x: "x = (ob, t', c')" by (cases x)
  show ?thesis
  proof (cases "is_WorkerBody (cm_worker c)")
    case True
    then have "cm_worker c = WorkerBody b" using at by (cases "cm_worker c") (auto simp: body_of_worker(3))
    then show ?thesis using Some x by (intro can_stepI(1)) (cases ob; simp)
  next
    case False
    then have "cm_watcher c = WatcherBody b" using at by (simp add: body_of_watcher split: watcher.splits)
    then show ?thesis using Some x by (intro can_stepI(2) [where e = ErrTimeout]) (cases ob; simp)
  qed
qed

text \<open>A goroutine that waits for the other one in \<open>returnOnce\<close> does not wait for ever.\<close>

lemma once_can_step:
  assumes inv: "command_inv c" and room: "t + tickets_held c \<le> maxC" and "cm_once c = Running" and "cm_checked c"
  shows "can_step maxC (t, c)"
proof -
  obtain b where "body_of c = Some b" using assms by (auto simp: command_inv_def once_inv_def)
  then show ?thesis using body_or_caller [OF inv room] assms(4) by blast
qed

lemma command_progress:
  assumes inv: "command_inv c" and room: "t + tickets_held c \<le> maxC" and "\<not> command_ended c"
  shows "can_step maxC (t, c)"
proof -
  have once: "once_inv c" and sent: "sent_inv c" using inv by (simp_all add: command_inv_def)
  note via_body = once_can_step [OF inv room]
  have blocked_out: "can_step maxC (t, c)" if "cm_out c" "\<not> run_over c"
  proof -
    have "cm_got c = None" using sent that by (auto simp: sent_inv_def of_bool_def split: if_splits)
    with that show ?thesis by (intro caller_can_step) (simp_all add: delivered_def)
  qed
  show ?thesis
  proof (cases "cm_worker c")
    case AllowRequest
    then show ?thesis by (intro can_stepI(1)) simp
  next
    case TakeTicket
    then show ?thesis by (intro can_stepI(1)) simp
  next
    case Run
    then show ?thesis by (intro can_stepI(1)) simp
  next
    case (RunSends q)
    then have "\<not> run_over c" by (simp add: run_over_def)
    show ?thesis
    proof (cases "cm_out c")
      case True
      then show ?thesis using blocked_out \<open>\<not> run_over c\<close> by blast
    next
      case False
      then show ?thesis using RunSends by (intro can_stepI(1)) simp
    qed
  next
    case (WorkerOnce q)
    then have "cm_checked c" using once by (simp add: once_inv_def)
    then show ?thesis using WorkerOnce via_body by (cases "cm_once c") (auto intro!: can_stepI(1))
  next
    case (WorkerBody b)
    then have "body_of c = Some b" "cm_checked c" using once by (simp_all add: body_of_worker once_inv_def)
    then show ?thesis using body_or_caller [OF inv room] by blast
  next
    case SendFinished
    then have "\<not> cm_finished c" using once by (auto simp: once_inv_def)
    then show ?thesis using SendFinished by (intro can_stepI(1)) simp
  next
    case WorkerEnd
    then have "cm_checked c" "cm_once c \<noteq> Fresh" using once by (simp_all add: once_inv_def)
    then have not_running: "can_step maxC (t, c)" if "cm_once c = Running" using via_body that by blast
    show ?thesis
    proof (cases "cm_watcher c")
      case WatcherSelect
      then show ?thesis by (intro can_stepI(2) [where e = ErrTimeout]) simp
    next
      case (WatcherOnce e)
      then show ?thesis using not_running \<open>cm_once c \<noteq> Fresh\<close>
        by (cases "cm_once c") (auto intro!: can_stepI(2) [where e = e])
    next
      case (WatcherBody b)
      then have "body_of c = Some b" using WorkerEnd by (simp add: body_of_watcher)
      then show ?thesis using body_or_caller [OF inv room] \<open>cm_checked c\<close> by blast
    next
      case WatcherEnd
      show ?thesis
      proof (cases "cm_once c")
        case Over
        then have "delivered c" using inv by (simp add: command_inv_def delivered_inv_def body_over_def)
        moreover have "cm_got c = None" using assms(3) WorkerEnd WatcherEnd by (simp add: command_ended_def)
        ultimately show ?thesis by (intro caller_can_step)
      qed (use \<open>cm_once c \<noteq> Fresh\<close> not_running in auto)
    qed
  qed
qed

section \<open>All commands of a circuit\<close>

definition client_ok :: "hy_client \<Rightarrow> bool" where
  "client_ok cl \<longleftrightarrow> cl_sends cl None"

fun starts_ok :: "circuit_choice \<Rightarrow> bool" where
  "starts_ok (Start cl) = client_ok cl"
| "starts_ok (Move i ch) = True"

definition is_Start :: "circuit_choice \<Rightarrow> bool" where
  "is_Start ch \<longleftrightarrow> (case ch of Start cl \<Rightarrow> True | Move i m \<Rightarrow> False)"

definition circuit_inv :: "nat \<Rightarrow> nat \<times> command list \<Rightarrow> bool" where
  "circuit_inv maxC w \<longleftrightarrow>
     (\<forall>c \<in> set (snd w). command_inv c) \<and> fst w + sum_list (map tickets_held (snd w)) = maxC"

definition circuit_rank :: "nat \<times> command list \<Rightarrow> nat" where
  "circuit_rank w = sum_list (map command_rank (snd w))"

lemma sum_list_upd:
  "i < length xs \<Longrightarrow> sum_list (map f (xs[i := x])) + f (xs ! i) = sum_list (map f xs) + (f x :: nat)"
proof (induction xs arbitrary: i)
  case (Cons y ys)
  then show ?case by (cases i) simp_all
qed simp

lemma circuit_step_ok:
  assumes "circuit_step maxC ch w = Some w'" and "starts_ok ch" and "circuit_inv maxC w"
  shows "circuit_inv maxC w' \<and> circuit_rank w' + of_bool (\<not> is_Start ch) \<le> circuit_rank w + (if is_Start ch then 18 else 0)"
proof -
  obtain t cs where w: "w = (t, cs)" by (cases w)
  show ?thesis
  proof (cases ch)
    case (Start cl)
    then show ?thesis using assms by (auto simp: w circuit_inv_def circuit_rank_def is_Start_def client_ok_def GoC_inv nth_append)
  next
    case (Move i m)
    then obtain t' c' where i: "i < length cs" and c': "command_step maxC m (t, cs ! i) = Some (t', c')"
      and w': "w' = (t', cs[i := c'])"
      using assms(1) by (auto simp: w split: if_splits option.splits)
    have "command_inv (cs ! i)" using assms(3) i by (auto simp: w circuit_inv_def)
    from command_step_ok [OF c' this] have ok: "command_inv c'" "t' + tickets_held c' = t + tickets_held (cs ! i)"
      "command_rank c' < command_rank (cs ! i)" by (simp_all add: step_ok_def)
    have "\<forall>c \<in> set (cs[i := c']). command_inv c"
      using assms(3) ok(1) set_update_subset_insert [of cs i c'] by (auto simp: w circuit_inv_def)
    moreover have "t' + sum_list (map tickets_held (cs[i := c'])) = maxC"
      using assms(3) ok(2) sum_list_upd [OF i, of tickets_held c'] by (simp add: w circuit_inv_def)
    moreover have "sum_list (map command_rank (cs[i := c'])) + 1 \<le> sum_list (map command_rank cs)"
      using ok(3) sum_list_upd [OF i, of command_rank c'] by simp
    ultimately show ?thesis by (simp add: w w' Move circuit_inv_def circuit_rank_def is_Start_def)
  qed
qed

definition starts :: "circuit_choice list \<Rightarrow> nat" where
  "starts chs = length (filter is_Start chs)"

lemma circuit_run_ok:
  "circuit_run maxC chs w = Some w' \<Longrightarrow> list_all starts_ok chs \<Longrightarrow> circuit_inv maxC w \<Longrightarrow>
     circuit_inv maxC w' \<and> circuit_rank w' + length chs \<le> circuit_rank w + 19 * starts chs"
proof (induction chs arbitrary: w)
  case (Cons ch chs)
  then obtain w1 where w1: "circuit_step maxC ch w = Some w1" "circuit_run maxC chs w1 = Some w'"
    by (auto split: option.splits)
  have "starts_ok ch" using Cons.prems(2) by simp
  from circuit_step_ok [OF w1(1) this Cons.prems(3)]
  have 1: "circuit_inv maxC w1" "circuit_rank w1 + of_bool (\<not> is_Start ch) \<le> circuit_rank w + (if is_Start ch then 18 else 0)"
    by simp_all
  show ?case using Cons.IH [OF w1(2) _ 1(1)] Cons.prems(2) 1(2) by (cases "is_Start ch") (simp_all add: starts_def)
qed (simp add: starts_def)

lemma empty_circuit_inv: "circuit_inv maxC (maxC, [])"
  by (simp add: circuit_inv_def)

lemma held_le: "i < length cs \<Longrightarrow> tickets_held (cs ! i) \<le> sum_list (map tickets_held cs)"
  by (metis elem_le_sum_list length_map nth_map)

lemma circuit_progress:
  assumes "circuit_inv maxC (t, cs)" and "i < length cs" and "\<not> command_ended (cs ! i)"
  shows "\<exists>j ch w'. circuit_step maxC (Move j ch) (t, cs) = Some w'"
proof -
  have "t + tickets_held (cs ! i) \<le> maxC" "command_inv (cs ! i)"
    using assms held_le [OF assms(2)] by (auto simp: circuit_inv_def)
  from command_progress [OF this(2,1) assms(3)] obtain ch tc where "command_step maxC ch (t, cs ! i) = Some tc"
    by (auto simp: can_step_def)
  then have "circuit_step maxC (Move i ch) (t, cs) = Some (fst tc, cs[i := snd tc])"
    using assms(2) by (simp split: prod.splits)
  then show ?thesis by blast
qed

section \<open>The errors a caller gets\<close>

text \<open>Without a fallback any error; with one, only what the fallback itself failed with.\<close>

definition client_error :: "hy_client \<Rightarrow> go_error \<Rightarrow> bool" where
  "client_error cl e \<longleftrightarrow>
     (case cl_fallback cl of None \<Rightarrow> True | Some f \<Rightarrow> \<exists>x y. f x = Some y \<and> e = fallback_failed y x)"

definition error_inv :: "command \<Rightarrow> bool" where
  "error_inv c \<longleftrightarrow>
     (\<forall>e. e \<in> set (cm_errs c) \<or> cm_got c = Some (Some e) \<or> cm_worker c = WorkerBody (ErrChan e)
        \<or> cm_watcher c = WatcherBody (ErrChan e) \<longrightarrow> client_error (cm_client c) e)"

lemma errorWithFallback_error:
  "errorWithFallback e c = (ErrChan x, c') \<Longrightarrow> client_error (cm_client c) x"
  by (auto simp: errorWithFallback_def client_error_def reportEvent_def Let_def split: option.splits)

lemma body_step_error:
  assumes "body_step maxC b (t, c) = Some (ob, t', c')"
  shows "\<forall>e. ob = Some (ErrChan e) \<longrightarrow> client_error (cm_client c) e"
    and "\<forall>e \<in> set (cm_errs c'). e \<in> set (cm_errs c) \<or> b = ErrChan e"
proof -
  show "\<forall>e. ob = Some (ErrChan e) \<longrightarrow> client_error (cm_client c) e"
  proof (cases b)
    case (Outcome r)
    then show ?thesis using assms by (cases r) (auto split: prod.splits dest: errorWithFallback_error)
  qed (use assms in \<open>auto split: if_splits\<close>)
  show "\<forall>e \<in> set (cm_errs c'). e \<in> set (cm_errs c) \<or> b = ErrChan e"
  proof (cases b)
    case (Outcome r)
    then show ?thesis using assms
      by (cases r) (auto simp: errorWithFallback_def reportEvent_def Let_def split: option.splits)
  qed (use assms in \<open>auto simp: reportEvent_def split: if_splits\<close>)
qed

lemma worker_step_error:
  assumes step: "worker_step maxC allow r (t, c) = Some (t', c')" and inv: "error_inv c"
  shows "error_inv c'"
proof (cases "cm_worker c")
  case (WorkerBody b)
  then obtain ob c1 where b: "body_step maxC b (t, c) = Some (ob, t', c1)"
    and c': "c' = c1\<lparr>cm_worker := (case ob of None \<Rightarrow> SendFinished | Some b \<Rightarrow> WorkerBody b)\<rparr>"
    using step by (auto split: option.splits)
  then show ?thesis using inv WorkerBody body_step_frame [OF b] body_step_error [OF b]
    by (cases ob) (auto simp: error_inv_def)
next
  case (WorkerOnce q)
  then show ?thesis using step inv by (cases "cm_once c") (auto simp: error_inv_def)
qed (use step inv in \<open>auto simp: error_inv_def split: if_splits\<close>)

lemma watcher_step_error:
  assumes step: "watcher_step maxC fired (t, c) = Some (t', c')" and inv: "error_inv c"
  shows "error_inv c'"
proof (cases "cm_watcher c")
  case (WatcherBody b)
  then obtain ob c1 where b: "body_step maxC b (t, c) = Some (ob, t', c1)"
    and c': "c' = c1\<lparr>cm_watcher := (case ob of None \<Rightarrow> WatcherEnd | Some b \<Rightarrow> WatcherBody b)\<rparr>"
    using step by (auto split: option.splits)
  then show ?thesis using inv WatcherBody body_step_frame [OF b] body_step_error [OF b]
    by (cases ob) (auto simp: error_inv_def)
next
  case (WatcherOnce q)
  then show ?thesis using step inv by (cases "cm_once c") (auto simp: error_inv_def)
qed (use step inv in \<open>auto simp: error_inv_def split: if_splits option.splits\<close>)

lemma caller_step_error:
  "caller_step b (t, c) = Some (t', c') \<Longrightarrow> error_inv c \<Longrightarrow> error_inv c'"
  by (auto simp: error_inv_def split: if_splits list.splits)

lemma circuit_run_error:
  "circuit_run maxC chs (t, cs) = Some (t', cs') \<Longrightarrow> \<forall>c \<in> set cs. error_inv c \<Longrightarrow> \<forall>c \<in> set cs'. error_inv c"
proof (induction chs arbitrary: t cs)
  case (Cons ch chs)
  then obtain t1 cs1 where w1: "circuit_step maxC ch (t, cs) = Some (t1, cs1)" "circuit_run maxC chs (t1, cs1) = Some (t', cs')"
    by (auto split: option.splits)
  have "\<forall>c \<in> set cs1. error_inv c"
  proof (cases ch)
    case (Start cl)
    then show ?thesis using w1(1) Cons.prems(2) by (auto simp: error_inv_def GoC_def)
  next
    case (Move i m)
    then obtain c' where i: "i < length cs" and c': "command_step maxC m (t, cs ! i) = Some (t1, c')" and "cs1 = cs[i := c']"
      using w1(1) by (auto split: if_splits option.splits)
    moreover have "error_inv (cs ! i)" using Cons.prems(2) i by simp
    then have "error_inv c'" using c' 
      by (cases m; simp only: command_step.simps) (blast intro: worker_step_error watcher_step_error caller_step_error)+
    ultimately show ?thesis using Cons.prems(2) set_update_subset_insert [of cs i c'] by blast
  qed
  then show ?case by (rule Cons.IH [OF w1(2)])
qed simp

section \<open>The programs\<close>

text \<open>How the demo hands out its clients: \<open>main\<close> starts a command of \<open>custom\<close> once, and of the others again and again.\<close>

lemma demo_clients [simp]: "client_ok asyncDemo" "client_ok syncDemo" "client_ok customDemo" "client_ok (DoC f)"
  by (simp_all add: client_ok_def asyncDemo_def syncDemo_def customDemo_def DoC_def)

text \<open>C40: However many commands are started on a circuit, whatever the order in which their goroutines move, the
  circuit answers, the run functions give and the timers do: after \<open>n\<close> starts there are at most \<open>19 n\<close> steps; as long
  as a command has not ended some goroutine can move; and once none can, every caller has its answer, both
  goroutines of every command are gone and all tickets are back in the pool. There are never more commands with a
  ticket than the circuit allows, no channel ever holds more than its capacity, and the error that a caller gets
  from a command with a fallback is that of the fallback.\<close>

theorem circuit_commands_end:
  assumes "circuit_run maxC chs (maxC, []) = Some (t, cs)" and "list_all starts_ok chs"
  shows "length chs \<le> 19 * starts chs
    \<and> t + sum_list (map tickets_held cs) = maxC
    \<and> ((\<forall>i ch. circuit_step maxC (Move i ch) (t, cs) = None) \<longrightarrow> t = maxC \<and> list_all command_ended cs)
    \<and> (\<forall>c \<in> set cs. length (cm_errs c) \<le> 1 \<and> (\<forall>e. cm_got c = Some (Some e) \<longrightarrow> client_error (cm_client c) e))"
proof (intro conjI impI ballI allI)
  note ok = circuit_run_ok [OF assms empty_circuit_inv]
  show "length chs \<le> 19 * starts chs" using ok by (simp add: circuit_rank_def)
  show sum: "t + sum_list (map tickets_held cs) = maxC" using ok by (simp add: circuit_inv_def)
  show ended: "list_all command_ended cs" if "\<forall>i ch. circuit_step maxC (Move i ch) (t, cs) = None"
  proof (unfold list_all_length, intro allI impI)
    fix i assume i: "i < length cs"
    show "command_ended (cs ! i)"
    proof (rule ccontr)
      assume "\<not> command_ended (cs ! i)"
      then obtain j ch w' where "circuit_step maxC (Move j ch) (t, cs) = Some w'"
        using circuit_progress [of maxC t cs i] ok i by blast
      then show False using that by simp
    qed
  qed
  show "t = maxC" if "\<forall>i ch. circuit_step maxC (Move i ch) (t, cs) = None"
  proof -
    have "\<forall>c \<in> set cs. tickets_held c = 0"
    proof
      fix c assume c: "c \<in> set cs"
      have "command_ended c" using ended [OF that] c by (simp add: list_all_iff)
      moreover have "once_inv c" using ok c by (auto simp: circuit_inv_def command_inv_def)
      ultimately show "tickets_held c = 0" by (simp add: tickets_held_def command_ended_def once_inv_def body_of_watcher)
    qed
    then have "sum_list (map tickets_held cs) = 0" by (induction cs) simp_all
    then show ?thesis using sum by linarith
  qed
  fix c assume c: "c \<in> set cs"
  then have "sent_inv c" using ok by (auto simp: circuit_inv_def command_inv_def)
  then show "length (cm_errs c) \<le> 1" by (auto simp: sent_inv_def of_bool_def split: if_splits)
  fix e assume "cm_got c = Some (Some e)"
  moreover have "error_inv c" using circuit_run_error [OF assms(1)] c by simp
  ultimately show "client_error (cm_client c) e" by (simp add: error_inv_def)
qed

text \<open>A request that fails and is taken for a success: the channel is sent on before the error is.\<close>

definition failed_async :: "circuit_choice list" where
  "failed_async =
     [Start asyncDemo, Move 0 (Worker True None), Move 0 (Worker True None), Move 0 (Worker True (Some WriteError)),
      Move 0 (Worker True None), Move 0 (Caller True)]"

lemma async_failure_is_success:
  "\<exists>t c. circuit_run 10 failed_async (10, []) = Some (t, [c]) \<and> cm_worker c = WorkerOnce (Some WriteError) \<and> cm_got c = Some None"
  by (simp add: failed_async_def GoC_def asyncDemo_def)

theorem circuit_commands_end_witness:
  "\<exists>t c. circuit_run 10 failed_async (10, []) = Some (t, [c]) \<and> t + tickets_held c = 10 \<and> length failed_async \<le> 19"
proof -
  obtain t c where r: "circuit_run 10 failed_async (10, []) = Some (t, [c])"
    using async_failure_is_success by blast
  have s: "list_all starts_ok failed_async" "starts failed_async = 1" by (simp_all add: failed_async_def starts_def is_Start_def)
  show ?thesis using circuit_commands_end [OF r s(1)] s(2) r by simp
qed

section \<open>Settings\<close>

record CommandConfig =
  cc_Timeout :: int
  cc_MaxConcurrentRequests :: int
  cc_SleepWindow :: int
  cc_RequestVolumeThreshold :: int
  cc_ErrorPercentThreshold :: int

text \<open>Durations are in nanoseconds.\<close>

record hy_settings =
  st_Timeout :: int
  st_MaxConcurrentRequests :: int
  st_RequestVolumeThreshold :: "64 word"
  st_SleepWindow :: int
  st_ErrorPercentThreshold :: int

definition or_default :: "int \<Rightarrow> int \<Rightarrow> int" where
  "or_default v d = (if v \<noteq> 0 then v else d)"

definition ConfigureCommand :: "string \<Rightarrow> CommandConfig \<Rightarrow> (string \<rightharpoonup> hy_settings) \<Rightarrow> (string \<rightharpoonup> hy_settings)" where
  "ConfigureCommand name config st =
     st(name \<mapsto>
       \<lparr> st_Timeout = i64 (or_default (cc_Timeout config) 1000 * 1000000),
         st_MaxConcurrentRequests = or_default (cc_MaxConcurrentRequests config) 10,
         st_RequestVolumeThreshold = word_of_int (or_default (cc_RequestVolumeThreshold config) 20),
         st_SleepWindow = i64 (or_default (cc_SleepWindow config) 5000 * 1000000),
         st_ErrorPercentThreshold = or_default (cc_ErrorPercentThreshold config) 50 \<rparr>)"

definition no_config :: CommandConfig where
  "no_config = \<lparr> cc_Timeout = 0, cc_MaxConcurrentRequests = 0, cc_SleepWindow = 0, cc_RequestVolumeThreshold = 0,
     cc_ErrorPercentThreshold = 0 \<rparr>"

text \<open>It gives the settings, and the map in which an unknown command has got the defaults.\<close>

definition getSettings :: "string \<Rightarrow> (string \<rightharpoonup> hy_settings) \<Rightarrow> hy_settings \<times> (string \<rightharpoonup> hy_settings)" where
  "getSettings name st =
     (case st name of
        Some s \<Rightarrow> (s, st)
      | None \<Rightarrow> let st = ConfigureCommand name no_config st in (the (st name), st))"

definition customConfig :: CommandConfig where
  "customConfig = \<lparr> cc_Timeout = 3 * 1000000000, cc_MaxConcurrentRequests = 100, cc_SleepWindow = 5 * 1000000000,
     cc_RequestVolumeThreshold = 30, cc_ErrorPercentThreshold = 50 \<rparr>"

lemma getSettings_configured: "getSettings name (ConfigureCommand name config st) = (the (ConfigureCommand name config st name), ConfigureCommand name config st)"
  by (simp add: getSettings_def ConfigureCommand_def)

lemma getSettings_default: "st name = None \<Longrightarrow> st_Timeout (fst (getSettings name st)) = 1000000000"
  by (simp add: getSettings_def ConfigureCommand_def no_config_def or_default_def Let_def i64_id)

text \<open>
  The configuration is in milliseconds: a duration given in nanoseconds is taken a million times too long, so the
  command of \<open>customDemo\<close> times out after 3000000 seconds (more than a month), not after three.
\<close>

lemma custom_timeout:
  "st_Timeout (fst (getSettings ''custom'' (ConfigureCommand ''custom'' customConfig st))) = 3000000 * 1000000000"
  "st_SleepWindow (fst (getSettings ''custom'' (ConfigureCommand ''custom'' customConfig st))) = 5000000 * 1000000000"
  by (simp_all add: getSettings_configured) (simp_all add: ConfigureCommand_def customConfig_def or_default_def i64_id)

end
