(* ===== verification/Writev.thy ===== *)
theory Writev
  imports StringService
begin

text \<open>
  The program \<^verbatim>\<open>cmd/writev\<close> on the vendored \<^verbatim>\<open>vectorio\<close>: a writer that collects references to byte arrays and hands
  them to one system call. Bytes are characters. The system call is the argument \<open>sys\<close>: how many of the bytes it is
  offered it takes, or its error number.
\<close>

section \<open>The buffered writer\<close>

text \<open>An element of the buffer refers to an array in memory, which is read when the system call is made.\<close>

record iovec =
  iov_Base :: nat
  iov_Len :: nat

type_synonym memory = "nat \<Rightarrow> string"

datatype sys_result = Taken nat | Errno nat

text \<open>The buffer of the writer, whose capacity is 1024, and the file, which is written at its end.\<close>

record writev_state =
  bw_buf :: "iovec list"
  wv_file :: string

definition defaultBufSize :: nat where
  "defaultBufSize = 1024"

definition gather :: "memory \<Rightarrow> iovec list \<Rightarrow> string" where
  "gather mem vs = concat (map (\<lambda>v. take (iov_Len v) (mem (iov_Base v))) vs)"

text \<open>An error leaves \<open>-1\<close> as the number of bytes; the address of the first element of an empty slice is a panic.\<close>

definition WritevRaw :: "(nat \<Rightarrow> sys_result) \<Rightarrow> memory \<Rightarrow> iovec list \<Rightarrow> (writev_state, int \<times> go_error option) go" where
  "WritevRaw sys mem vs w =
     (if vs = [] then (Panic IndexOutOfRange, w)
      else
        let bs = gather mem vs in
        (case sys (length bs) of
           Taken n \<Rightarrow> (Ok (int (min n (length bs)), None), w\<lparr>wv_file := wv_file w @ take n bs\<rparr>)
         | Errno e \<Rightarrow> (Ok (- 1, Some (Msg (''writev failed with error: '' @ Itoa e))), w)))"

definition bw_flush :: "(nat \<Rightarrow> sys_result) \<Rightarrow> memory \<Rightarrow> (writev_state, int \<times> go_error option) go" where
  "bw_flush sys mem =
     (\<lambda>w. go_bind (WritevRaw sys mem (bw_buf w)) (\<lambda>r. go_bind (go_modify (\<lambda>w. w\<lparr>bw_buf := []\<rparr>)) (\<lambda>_. go_return r)) w)"

definition WriteIovec :: "(nat \<Rightarrow> sys_result) \<Rightarrow> memory \<Rightarrow> iovec \<Rightarrow> (writev_state, int \<times> go_error option) go" where
  "WriteIovec sys mem v =
     go_bind (go_modify (\<lambda>w. w\<lparr>bw_buf := bw_buf w @ [v]\<rparr>)) (\<lambda>_ w.
       if length (bw_buf w) = defaultBufSize then bw_flush sys mem w else (Ok (0, None), w))"

text \<open>\<open>Write\<close> of a whole array; of an empty one it cannot take the address.\<close>

definition bw_Write :: "(nat \<Rightarrow> sys_result) \<Rightarrow> memory \<Rightarrow> nat \<Rightarrow> (writev_state, int \<times> go_error option) go" where
  "bw_Write sys mem a =
     (if mem a = [] then go_panic IndexOutOfRange
      else WriteIovec sys mem \<lparr> iov_Base = a, iov_Len = length (mem a) \<rparr>)"

definition bw_Flush :: "(nat \<Rightarrow> sys_result) \<Rightarrow> memory \<Rightarrow> (writev_state, int \<times> go_error option) go" where
  "bw_Flush sys mem = bw_flush sys mem"

section \<open>The program\<close>

definition newline :: string where
  "newline = [CHR 0x0A]"

definition writev_data :: memory where
  "writev_data = (\<lambda>a. if a = 1 then ''foobarbaz'' else if a = 2 then ''foobazbar'' else [])"

text \<open>Reading the file from its start into a buffer of 18 zero bytes; an empty file gives \<open>EOF\<close>, which is let pass.\<close>

definition read_back :: "nat \<Rightarrow> string \<Rightarrow> string" where
  "read_back n file = take n file @ replicate (n - length file) (CHR 0x00)"

text \<open>\<open>main\<close> with an error of \<open>ioutil.TempFile\<close>, and what it prints.\<close>

definition writev_main :: "go_error option \<Rightarrow> (nat \<Rightarrow> sys_result) \<Rightarrow> (writev_state, string) go" where
  "writev_main temp_err sys =
     (case temp_err of
        Some e \<Rightarrow> go_panic (Explicit e)
      | None \<Rightarrow>
          go_bind (bw_Write sys writev_data 2) (\<lambda>_.
          go_bind (WriteIovec sys writev_data \<lparr> iov_Base = 1, iov_Len = 9 \<rparr>) (\<lambda>_.
          go_bind (bw_Flush sys writev_data) (\<lambda>(nw, err) w.
            (Ok ((case err of Some e \<Rightarrow> ''Flush threw error: '' @ error_text e | None \<Rightarrow> [])
                 @ (if nw = 9 * 2 then ''Wrote '' @ itoa nw @ '' bytes to file!'' @ newline
                    else ''did not write 9 * 2 bytes, wrote  '' @ itoa nw @ newline)
                 @ read_back 18 (wv_file w) @ newline), w)))))"

definition writev_start :: writev_state where
  "writev_start = \<lparr> bw_buf = [], wv_file = [] \<rparr>"

section \<open>What is written\<close>

text \<open>The writer never holds as many elements as its capacity between calls, so appending never reallocates.\<close>

lemma WriteIovec_room:
  assumes "length (bw_buf w) < defaultBufSize" and "WriteIovec sys mem v w = (r, w')"
  shows "length (bw_buf w') < defaultBufSize"
  using assms
  by (auto simp: WriteIovec_def bw_flush_def WritevRaw_def go_bind_def go_modify_def go_return_def defaultBufSize_def Let_def
      split: if_splits sys_result.splits prod.splits res.splits)

lemma gather_append: "gather mem (vs @ us) = gather mem vs @ gather mem us"
  by (simp add: gather_def)

text \<open>
  With a kernel that takes all it is offered, the file and the buffer together hold what was written so far, in order.
\<close>

definition collected :: "memory \<Rightarrow> writev_state \<Rightarrow> string" where
  "collected mem w = wv_file w @ gather mem (bw_buf w)"

definition takes_all :: "(nat \<Rightarrow> sys_result) \<Rightarrow> bool" where
  "takes_all sys \<longleftrightarrow> (\<forall>n. sys n = Taken n)"

lemma bw_flush_all:
  assumes "takes_all sys" and "bw_buf w \<noteq> []"
  shows "bw_flush sys mem w = (Ok (int (length (gather mem (bw_buf w))), None), \<lparr> bw_buf = [], wv_file = collected mem w \<rparr>)"
  using assms by (cases w) (simp add: bw_flush_def WritevRaw_def go_bind_def go_modify_def go_return_def collected_def takes_all_def Let_def)

lemma WriteIovec_all:
  assumes "takes_all sys"
  shows "\<exists>n w'. WriteIovec sys mem v w = (Ok (n, None), w') \<and> collected mem w' = collected mem w @ gather mem [v]"
proof (cases "length (bw_buf w @ [v]) = defaultBufSize")
  case True
  then show ?thesis using bw_flush_all [OF assms, of "w\<lparr>bw_buf := bw_buf w @ [v]\<rparr>" mem]
    by (simp add: WriteIovec_def go_bind_def go_modify_def collected_def gather_append) (simp add: gather_def)
next
  case False
  then show ?thesis by (simp add: WriteIovec_def go_bind_def go_modify_def collected_def gather_append)
qed

text \<open>A flush right after the buffer was full finds nothing to write and panics.\<close>

lemma Flush_after_full:
  assumes "takes_all sys" and "length (bw_buf w) = defaultBufSize - 1"
  shows "\<exists>n w'. WriteIovec sys mem v w = (Ok (n, None), w') \<and> bw_Flush sys mem w' = (Panic IndexOutOfRange, w')"
proof -
  have "length (bw_buf w @ [v]) = defaultBufSize" using assms(2) by (simp add: defaultBufSize_def)
  then show ?thesis using bw_flush_all [OF assms(1), of "w\<lparr>bw_buf := bw_buf w @ [v]\<rparr>" mem]
    by (simp add: WriteIovec_def go_bind_def go_modify_def bw_Flush_def) (simp add: bw_flush_def WritevRaw_def go_bind_def)
qed

text \<open>What the program prints, by what the kernel does with the eighteen bytes.\<close>

definition writev_report :: "sys_result \<Rightarrow> string" where
  "writev_report r =
     (case r of
        Taken n \<Rightarrow>
          (if 18 \<le> n then ''Wrote 18 bytes to file!'' else ''did not write 9 * 2 bytes, wrote  '' @ itoa (int n)) @ newline
            @ take n ''foobazbarfoobarbaz'' @ replicate (18 - n) (CHR 0x00) @ newline
      | Errno e \<Rightarrow>
          ''Flush threw error: writev failed with error: '' @ Itoa e @ ''did not write 9 * 2 bytes, wrote  -1'' @ newline
            @ replicate 18 (CHR 0x00) @ newline)"

lemma itoa_small: "itoa 18 = ''18''" "itoa (- 1) = ''-1''"
  by code_simp+

lemma writev_main_prints: "fst (writev_main None sys writev_start) = Ok (writev_report (sys 18))"
proof -
  have first: "bw_Write sys writev_data 2 writev_start
      = (Ok (0, None), \<lparr> bw_buf = [\<lparr> iov_Base = 2, iov_Len = 9 \<rparr>], wv_file = [] \<rparr>)"
    by (simp add: bw_Write_def WriteIovec_def go_bind_def go_modify_def writev_data_def writev_start_def defaultBufSize_def)
  have iovec: "WriteIovec sys writev_data \<lparr> iov_Base = 1, iov_Len = 9 \<rparr> \<lparr> bw_buf = [\<lparr> iov_Base = 2, iov_Len = 9 \<rparr>], wv_file = [] \<rparr>
      = (Ok (0, None), \<lparr> bw_buf = [\<lparr> iov_Base = 2, iov_Len = 9 \<rparr>, \<lparr> iov_Base = 1, iov_Len = 9 \<rparr>], wv_file = [] \<rparr>)"
    by (simp add: WriteIovec_def go_bind_def go_modify_def defaultBufSize_def)
  have data: "gather writev_data [\<lparr> iov_Base = 2, iov_Len = 9 \<rparr>, \<lparr> iov_Base = 1, iov_Len = 9 \<rparr>] = ''foobazbarfoobarbaz''"
    by (simp add: gather_def writev_data_def)
  let ?w = "\<lparr> bw_buf = [\<lparr> iov_Base = 2, iov_Len = 9 \<rparr>, \<lparr> iov_Base = 1, iov_Len = 9 \<rparr>], wv_file = [] \<rparr>"
  let ?d = "''foobazbarfoobarbaz''"
  have len: "length ?d = 18" by simp
  have flush: "bw_Flush sys writev_data ?w =
    (case sys 18 of
       Taken n \<Rightarrow> (Ok (int (min n 18), None), \<lparr> bw_buf = [], wv_file = take n ?d \<rparr>)
     | Errno e \<Rightarrow> (Ok (- 1, Some (Msg (''writev failed with error: '' @ Itoa e))), \<lparr> bw_buf = [], wv_file = [] \<rparr>))"
    unfolding bw_Flush_def bw_flush_def WritevRaw_def writev_state.simps data Let_def len
    by (simp add: go_bind_def go_modify_def go_return_def split: sys_result.split)
  have run: "writev_main None sys writev_start =
    go_bind (bw_Flush sys writev_data) (\<lambda>(nw, err) w.
      (Ok ((case err of Some e \<Rightarrow> ''Flush threw error: '' @ error_text e | None \<Rightarrow> [])
           @ (if nw = 9 * 2 then ''Wrote '' @ itoa nw @ '' bytes to file!'' @ newline
              else ''did not write 9 * 2 bytes, wrote  '' @ itoa nw @ newline)
           @ read_back 18 (wv_file w) @ newline), w)) ?w"
    by (simp only: writev_main_def option.case) (simp only: go_bind_def first iovec prod.case res.case)
  have rb: "read_back 18 (take n ?d) = take n ?d @ replicate (18 - n) (CHR 0x00)" for n
  proof -
    have "read_back (length d) (take n d) = take n d @ replicate (length d - n) (CHR 0x00)" for d :: string
      by (cases "n \<le> length d") (simp_all add: read_back_def)
    from this [of ?d] show ?thesis unfolding len .
  qed
  show ?thesis
  proof (cases "sys 18")
    case (Taken n)
    show ?thesis
      unfolding run go_bind_def flush Taken writev_report_def sys_result.case prod.case res.case option.case writev_state.simps rb
      by (simp add: itoa_small min_def)
  next
    case (Errno e)
    then show ?thesis
      unfolding run go_bind_def flush Errno writev_report_def sys_result.case prod.case res.case option.case writev_state.simps
      by (simp add: itoa_small read_back_def)
  qed
qed

end
