(* ===== verification/StringClones.thy ===== *)
theory StringClones
  imports Proxy
begin

text \<open>
  The programs \<^verbatim>\<open>stringsvc1\<close> and \<^verbatim>\<open>stringsvc2\<close>, each with its own copy of the service, the endpoints, the JSON messages
  and, in the second, the middlewares; the metrics that \<^verbatim>\<open>stringsvc2\<close> and \<^verbatim>\<open>stringsvc3\<close> register; and one specification
  of what a request is answered, which all three programs meet.
\<close>

section \<open>stringsvc1\<close>

definition Uppercase1 :: "(nat \<Rightarrow> nat) \<Rightarrow> string \<Rightarrow> string \<times> go_error option" where
  "Uppercase1 upper s = (if s = [] then ([], Some ErrEmpty1) else (ToUpper upper s, None))"

definition Count1 :: "string \<Rightarrow> int" where
  "Count1 s = int (length s)"

definition stringService1 :: "(nat \<Rightarrow> nat) \<Rightarrow> 'w string_service" where
  "stringService1 upper =
     \<lparr> svc_Uppercase = (\<lambda>s. go_return (Uppercase1 upper s)), svc_Count = (\<lambda>s. go_return (Count1 s)) \<rparr>"

datatype message1 =
    UppercaseRequest1 string
  | UppercaseResponse1 string string
  | CountRequest1 string
  | CountResponse1 int

definition makeUppercaseEndpoint1 :: "'w string_service \<Rightarrow> message1 \<Rightarrow> ('w, message1) go" where
  "makeUppercaseEndpoint1 svc request =
     (case request of
        UppercaseRequest1 s \<Rightarrow>
          go_bind (svc_Uppercase svc s) (\<lambda>(v, err).
            (case err of
               Some e \<Rightarrow> go_return (UppercaseResponse1 v (error_text e))
             | None \<Rightarrow> go_return (UppercaseResponse1 v [])))
      | _ \<Rightarrow> go_panic TypeAssertion)"

definition makeCountEndpoint1 :: "'w string_service \<Rightarrow> message1 \<Rightarrow> ('w, message1) go" where
  "makeCountEndpoint1 svc request =
     (case request of
        CountRequest1 s \<Rightarrow> go_bind (svc_Count svc s) (\<lambda>v. go_return (CountResponse1 v))
      | _ \<Rightarrow> go_panic TypeAssertion)"

text \<open>Decoding a body into a struct whose only field has the name \<open>s\<close>.\<close>

definition decode_s :: "(string \<Rightarrow> 'm) \<Rightarrow> string \<Rightarrow> 'm res" where
  "decode_s build body =
     (case Decode body of
        Ok v \<Rightarrow> (case decode_struct [''s''] v of Ok vals \<Rightarrow> Ok (build (vals ''s'')) | Err e \<Rightarrow> Err e | Panic p \<Rightarrow> Panic p)
      | Err e \<Rightarrow> Err e
      | Panic p \<Rightarrow> Panic p)"

definition decodeUppercaseRequest1 :: "string \<Rightarrow> message1 res" where
  "decodeUppercaseRequest1 = decode_s UppercaseRequest1"

definition decodeCountRequest1 :: "string \<Rightarrow> message1 res" where
  "decodeCountRequest1 = decode_s CountRequest1"

fun message1_json :: "message1 \<Rightarrow> json" where
  "message1_json (UppercaseRequest1 s) = JObj [(''s'', JStr s)]"
| "message1_json (UppercaseResponse1 v e) =
     JObj ((''v'', JStr v) # (if e = [] then [] else [(''err'', JStr e)]))"
| "message1_json (CountRequest1 s) = JObj [(''s'', JStr s)]"
| "message1_json (CountResponse1 n) = JObj [(''v'', JNum (itoa n))]"

definition encodeResponse1 :: "message1 \<Rightarrow> string" where
  "encodeResponse1 response = Encode (message1_json response)"

definition not_found :: "string \<Rightarrow> ('w, http_response) go" where
  "not_found body = go_return \<lparr> resp_status = 404, resp_body = ''404 page not found'' @ [CHR 0x0A] \<rparr>"

text \<open>The handlers that \<open>main\<close> registers, by the path of the request.\<close>

definition svc1_main :: "(nat \<Rightarrow> nat) \<Rightarrow> string \<Rightarrow> string \<Rightarrow> ('w, http_response) go" where
  "svc1_main upper path =
     (let svc = stringService1 upper;
          uppercaseHandler = kit_ServeHTTP decodeUppercaseRequest1 (makeUppercaseEndpoint1 svc) encodeResponse1;
          countHandler = kit_ServeHTTP decodeCountRequest1 (makeCountEndpoint1 svc) encodeResponse1
      in if path = ''/uppercase'' then uppercaseHandler
         else if path = ''/count'' then countHandler
         else not_found)"

section \<open>stringsvc2\<close>

definition ErrEmpty2 :: go_error where
  "ErrEmpty2 = Msg ''empty string''"

definition Uppercase2 :: "(nat \<Rightarrow> nat) \<Rightarrow> string \<Rightarrow> string \<times> go_error option" where
  "Uppercase2 upper s = (if s = [] then ([], Some ErrEmpty2) else (ToUpper upper s, None))"

definition Count2 :: "string \<Rightarrow> int" where
  "Count2 s = int (length s)"

definition stringService2 :: "(nat \<Rightarrow> nat) \<Rightarrow> 'w string_service" where
  "stringService2 upper =
     \<lparr> svc_Uppercase = (\<lambda>s. go_return (Uppercase2 upper s)), svc_Count = (\<lambda>s. go_return (Count2 s)) \<rparr>"

definition logmw2_Uppercase :: "'e kit_world_scheme string_service \<Rightarrow> string
    \<Rightarrow> ('e kit_world_scheme, string \<times> go_error option) go" where
  "logmw2_Uppercase nxt s =
     go_bind time_Now (\<lambda>begin.
       go_defer (svc_Uppercase nxt s) ([], None) (\<lambda>(output, err). since begin (\<lambda>took.
         logger_Log [(''method'', LStr ''uppercase''), (''input'', LStr s), (''output'', LStr output),
                     (''err'', LErr err), (''took'', LInt took)])))"

definition logmw2_Count :: "'e kit_world_scheme string_service \<Rightarrow> string \<Rightarrow> ('e kit_world_scheme, int) go" where
  "logmw2_Count nxt s =
     go_bind time_Now (\<lambda>begin.
       go_defer (svc_Count nxt s) 0 (\<lambda>n. since begin (\<lambda>took.
         logger_Log [(''method'', LStr ''count''), (''input'', LStr s), (''n'', LInt n), (''took'', LInt took)])))"

definition loggingMiddleware2 :: "'e kit_world_scheme string_service \<Rightarrow> 'e kit_world_scheme string_service" where
  "loggingMiddleware2 nxt = \<lparr> svc_Uppercase = logmw2_Uppercase nxt, svc_Count = logmw2_Count nxt \<rparr>"

definition instrmw2_Uppercase :: "'e kit_world_scheme string_service \<Rightarrow> string
    \<Rightarrow> ('e kit_world_scheme, string \<times> go_error option) go" where
  "instrmw2_Uppercase nxt s =
     go_bind time_Now (\<lambda>begin.
       go_defer (svc_Uppercase nxt s) ([], None) (\<lambda>(output, err). since begin
         (request_metrics [''method'', ''uppercase'', ''error'', if err \<noteq> None then ''true'' else ''false''])))"

datatype message2 =
    UppercaseRequest2 string
  | UppercaseResponse2 string string
  | CountRequest2 string
  | CountResponse2 int

definition makeUppercaseEndpoint2 :: "'w string_service \<Rightarrow> message2 \<Rightarrow> ('w, message2) go" where
  "makeUppercaseEndpoint2 svc request =
     (case request of
        UppercaseRequest2 s \<Rightarrow>
          go_bind (svc_Uppercase svc s) (\<lambda>(v, err).
            (case err of
               Some e \<Rightarrow> go_return (UppercaseResponse2 v (error_text e))
             | None \<Rightarrow> go_return (UppercaseResponse2 v [])))
      | _ \<Rightarrow> go_panic TypeAssertion)"

definition makeCountEndpoint2 :: "'w string_service \<Rightarrow> message2 \<Rightarrow> ('w, message2) go" where
  "makeCountEndpoint2 svc request =
     (case request of
        CountRequest2 s \<Rightarrow> go_bind (svc_Count svc s) (\<lambda>v. go_return (CountResponse2 v))
      | _ \<Rightarrow> go_panic TypeAssertion)"

definition decodeUppercaseRequest2 :: "string \<Rightarrow> message2 res" where
  "decodeUppercaseRequest2 = decode_s UppercaseRequest2"

definition decodeCountRequest2 :: "string \<Rightarrow> message2 res" where
  "decodeCountRequest2 = decode_s CountRequest2"

fun message2_json :: "message2 \<Rightarrow> json" where
  "message2_json (UppercaseRequest2 s) = JObj [(''s'', JStr s)]"
| "message2_json (UppercaseResponse2 v e) =
     JObj ((''v'', JStr v) # (if e = [] then [] else [(''err'', JStr e)]))"
| "message2_json (CountRequest2 s) = JObj [(''s'', JStr s)]"
| "message2_json (CountResponse2 n) = JObj [(''v'', JNum (itoa n))]"

definition encodeResponse2 :: "message2 \<Rightarrow> string" where
  "encodeResponse2 response = Encode (message2_json response)"

text \<open>The service that \<open>main\<close> puts together, and its handlers.\<close>

definition svc2_service :: "(nat \<Rightarrow> nat) \<Rightarrow> 'e kit_world_scheme string_service" where
  "svc2_service upper =
     (let svc = loggingMiddleware2 (stringService2 upper)
      in \<lparr> svc_Uppercase = instrmw2_Uppercase svc, svc_Count = instrmw2_Count svc \<rparr>)"

definition svc2_main :: "(nat \<Rightarrow> nat) \<Rightarrow> (string \<Rightarrow> ('e kit_world_scheme, http_response) go)
    \<Rightarrow> string \<Rightarrow> string \<Rightarrow> ('e kit_world_scheme, http_response) go" where
  "svc2_main upper metrics path =
     (let svc = svc2_service upper;
          uppercaseHandler = kit_ServeHTTP decodeUppercaseRequest2 (makeUppercaseEndpoint2 svc) encodeResponse2;
          countHandler = kit_ServeHTTP decodeCountRequest2 (makeCountEndpoint2 svc) encodeResponse2
      in if path = ''/uppercase'' then uppercaseHandler
         else if path = ''/count'' then countHandler
         else if path = ''/metrics'' then metrics
         else not_found)"

text \<open>The handlers of \<^verbatim>\<open>stringsvc3\<close>; it gets its proxies from the command line.\<close>

definition svc3_main :: "('e proxy_world_scheme, 'm) kit_lib_scheme \<Rightarrow> (nat \<Rightarrow> nat)
    \<Rightarrow> (string \<Rightarrow> ('e proxy_world_scheme, http_response) go) \<Rightarrow> string
    \<Rightarrow> ('e proxy_world_scheme, string \<Rightarrow> string \<Rightarrow> ('e proxy_world_scheme, http_response) go) go" where
  "svc3_main L upper metrics proxy = go_bind (stringsvc3 L upper proxy) (\<lambda>svc. go_return (svc_mux svc metrics))"

section \<open>What a request is answered\<close>

text \<open>The answer to a string that was decoded from the body of a request, or to a body that is none.\<close>

definition answered :: "(string \<Rightarrow> json) \<Rightarrow> string \<Rightarrow> http_response res" where
  "answered reply body =
     (case decode_s id body of
        Ok s \<Rightarrow> Ok \<lparr> resp_status = 200, resp_body = Encode (reply s) \<rparr>
      | Err x \<Rightarrow> Ok \<lparr> resp_status = 500, resp_body = error_text x \<rparr>
      | Panic p \<Rightarrow> Panic p)"

definition uppercase_reply :: "go_error \<Rightarrow> (nat \<Rightarrow> nat) \<Rightarrow> string \<Rightarrow> json" where
  "uppercase_reply e upper s =
     (if s = [] then JObj [(''v'', JStr []), (''err'', JStr (error_text e))] else JObj [(''v'', JStr (ToUpper upper s))])"

definition count_reply :: "string \<Rightarrow> json" where
  "count_reply s = JObj [(''v'', JNum (itoa (int (length s))))]"

definition answer_of :: "go_error \<Rightarrow> (nat \<Rightarrow> nat) \<Rightarrow> string \<Rightarrow> string \<Rightarrow> http_response res" where
  "answer_of e upper path body =
     (if path = ''/uppercase'' then answered (uppercase_reply e upper) body
      else if path = ''/count'' then answered count_reply body
      else Ok \<lparr> resp_status = 404, resp_body = ''404 page not found'' @ [CHR 0x0A] \<rparr>)"

text \<open>A service whose results are those of the bare one, whatever it does to the world.\<close>

definition bare_results :: "go_error \<Rightarrow> (nat \<Rightarrow> nat) \<Rightarrow> 'w string_service \<Rightarrow> bool" where
  "bare_results e upper svc \<longleftrightarrow>
     (\<forall>s w. fst (svc_Uppercase svc s w) = Ok (Uppercase e upper s) \<and> fst (svc_Count svc s w) = Ok (Count s))"

lemma decode_s_map: "decode_s build body =
  (case decode_s id body of Ok s \<Rightarrow> Ok (build s) | Err x \<Rightarrow> Err x | Panic p \<Rightarrow> Panic p)"
  by (simp add: decode_s_def split: res.split)

lemma decode_body_s: "decodeUppercaseRequest = decode_s UppercaseRequest" "decodeCountRequest = decode_s CountRequest"
  by (rule ext; simp add: decodeUppercaseRequest_def decodeCountRequest_def decode_body_def decode_s_def)+

text \<open>A handler around any endpoint answers what the endpoint gives for the decoded string.\<close>

lemma ServeHTTP_answered:
  assumes "\<And>s w. fst (e (build s) w) = Ok (result s)" and "\<And>s. enc (result s) = Encode (reply s)"
  shows "fst (kit_ServeHTTP (decode_s build) e enc body w) = answered reply body"
proof (cases "decode_s id body")
  case (Ok s)
  obtain w' where "e (build s) w = (Ok (result s), w')" using assms(1) [of s w] by (cases "e (build s) w") auto
  then show ?thesis using Ok assms(2) by (simp add: kit_ServeHTTP_def decode_s_map [of build] answered_def)
qed (simp_all add: kit_ServeHTTP_def decode_s_map [of build] answered_def)

lemma fst_go_bind_return:
  "fst (m w) = Ok a \<Longrightarrow> fst (go_bind m (\<lambda>x. go_return (f x)) w) = Ok (f a)"
  by (cases "m w") (simp add: go_bind_def go_return_def)

lemma uppercase_bind:
  assumes "fst (m w) = Ok (Uppercase e upper s)"
  shows "fst (go_bind m (\<lambda>(v, err). (case err of Some x \<Rightarrow> go_return (f v (error_text x)) | None \<Rightarrow> go_return (f v []))) w)
    = Ok (if s = [] then f [] (error_text e) else f (ToUpper upper s) [])"
  using assms by (cases "m w") (simp add: go_bind_def go_return_def Uppercase_def)

lemma ErrEmpty_text: "error_text ErrEmpty \<noteq> []" "error_text ErrEmpty1 \<noteq> []"
  by (simp_all add: ErrEmpty_def ErrEmpty1_def)

lemmas message_encodings = encodeResponse1_def encodeResponse2_def encodeResponse_def

lemma handlers1:
  assumes "bare_results e upper svc" and "error_text e \<noteq> []"
  shows "fst (kit_ServeHTTP decodeUppercaseRequest1 (makeUppercaseEndpoint1 svc) encodeResponse1 body w)
      = answered (uppercase_reply e upper) body"
    and "fst (kit_ServeHTTP decodeCountRequest1 (makeCountEndpoint1 svc) encodeResponse1 body w) = answered count_reply body"
proof -
  show "fst (kit_ServeHTTP decodeUppercaseRequest1 (makeUppercaseEndpoint1 svc) encodeResponse1 body w)
      = answered (uppercase_reply e upper) body"
    unfolding decodeUppercaseRequest1_def
  proof (rule ServeHTTP_answered)
    show "fst (makeUppercaseEndpoint1 svc (UppercaseRequest1 s) w)
        = Ok (if s = [] then UppercaseResponse1 [] (error_text e) else UppercaseResponse1 (ToUpper upper s) [])" for s w
      using assms(1) by (simp add: makeUppercaseEndpoint1_def uppercase_bind bare_results_def)
  qed (use assms(2) in \<open>simp add: message_encodings uppercase_reply_def\<close>)
  show "fst (kit_ServeHTTP decodeCountRequest1 (makeCountEndpoint1 svc) encodeResponse1 body w) = answered count_reply body"
    unfolding decodeCountRequest1_def
  proof (rule ServeHTTP_answered)
    show "fst (makeCountEndpoint1 svc (CountRequest1 s) w) = Ok (CountResponse1 (int (length s)))" for s w
      using assms(1) by (simp add: makeCountEndpoint1_def fst_go_bind_return bare_results_def Count_def)
  qed (simp add: message_encodings count_reply_def)
qed

lemma handlers2:
  assumes "bare_results e upper svc" and "error_text e \<noteq> []"
  shows "fst (kit_ServeHTTP decodeUppercaseRequest2 (makeUppercaseEndpoint2 svc) encodeResponse2 body w)
      = answered (uppercase_reply e upper) body"
    and "fst (kit_ServeHTTP decodeCountRequest2 (makeCountEndpoint2 svc) encodeResponse2 body w) = answered count_reply body"
proof -
  show "fst (kit_ServeHTTP decodeUppercaseRequest2 (makeUppercaseEndpoint2 svc) encodeResponse2 body w)
      = answered (uppercase_reply e upper) body"
    unfolding decodeUppercaseRequest2_def
  proof (rule ServeHTTP_answered)
    show "fst (makeUppercaseEndpoint2 svc (UppercaseRequest2 s) w)
        = Ok (if s = [] then UppercaseResponse2 [] (error_text e) else UppercaseResponse2 (ToUpper upper s) [])" for s w
      using assms(1) by (simp add: makeUppercaseEndpoint2_def uppercase_bind bare_results_def)
  qed (use assms(2) in \<open>simp add: message_encodings uppercase_reply_def\<close>)
  show "fst (kit_ServeHTTP decodeCountRequest2 (makeCountEndpoint2 svc) encodeResponse2 body w) = answered count_reply body"
    unfolding decodeCountRequest2_def
  proof (rule ServeHTTP_answered)
    show "fst (makeCountEndpoint2 svc (CountRequest2 s) w) = Ok (CountResponse2 (int (length s)))" for s w
      using assms(1) by (simp add: makeCountEndpoint2_def fst_go_bind_return bare_results_def Count_def)
  qed (simp add: message_encodings count_reply_def)
qed

lemma handlers3:
  assumes "bare_results e upper svc" and "error_text e \<noteq> []"
  shows "fst (uppercaseHandler svc body w) = answered (uppercase_reply e upper) body"
    and "fst (countHandler svc body w) = answered count_reply body"
proof -
  show "fst (uppercaseHandler svc body w) = answered (uppercase_reply e upper) body"
    unfolding uppercaseHandler_def decode_body_s
  proof (rule ServeHTTP_answered)
    fix s and w
    obtain w' where "svc_Uppercase svc s w = (Ok (Uppercase e upper s), w')"
      using assms(1) unfolding bare_results_def by (metis prod.collapse)
    then show "fst (makeUppercaseEndpoint svc (UppercaseRequest s) w)
        = Ok (if s = [] then UppercaseResponse [] (error_text e) else UppercaseResponse (ToUpper upper s) [])"
      by (simp add: makeUppercaseEndpoint_def go_bind_def go_return_def Uppercase_def)
  qed (use assms(2) in \<open>simp add: message_encodings uppercase_reply_def\<close>)
  show "fst (countHandler svc body w) = answered count_reply body"
    unfolding countHandler_def decode_body_s
  proof (rule ServeHTTP_answered)
    show "fst (makeCountEndpoint svc (CountRequest s) w) = Ok (CountResponse (int (length s)))" for s w
      using assms(1) by (simp add: makeCountEndpoint_def fst_go_bind_return bare_results_def Count_def)
  qed (simp add: message_encodings count_reply_def)
qed

lemma bare_stringService1: "bare_results ErrEmpty1 upper (stringService1 upper)"
  by (simp add: bare_results_def stringService1_def go_return_def Uppercase1_def Uppercase_def Count1_def Count_def)

lemma bare_svc2: "bare_results ErrEmpty upper (svc2_service upper)"
  by (simp add: bare_results_def svc2_service_def loggingMiddleware2_def stringService2_def logmw2_Uppercase_def logmw2_Count_def
      instrmw2_Uppercase_def Uppercase2_def Count2_def ErrEmpty_def ErrEmpty2_def middleware_defs Let_def)

lemma bare_svc3: "bare_results ErrEmpty upper (instrumentingMiddleware (loggingMiddleware (stringService ErrEmpty upper)))"
  by (simp add: bare_results_def middleware_defs)

lemma stringsvc3_no_proxy:
  "stringsvc3 L upper [] w =
     (Ok (instrumentingMiddleware (loggingMiddleware (stringService ErrEmpty upper))), logger_Log [(''proxy_to'', LStr ''none'')] w)"
  by (simp add: stringsvc3_def proxyingMiddleware_def go_bind_def go_return_def)



section \<open>Metrics\<close>

text \<open>A metric as it is registered with Prometheus, with the names of its labels.\<close>

record metric_opts =
  mo_Namespace :: string
  mo_Subsystem :: string
  mo_Name :: string
  mo_Help :: string
  mo_labels :: "string list"

definition fieldKeys :: "string list" where
  "fieldKeys = [''method'', ''error'']"

definition service_metric :: "string \<Rightarrow> string \<Rightarrow> string list \<Rightarrow> metric_opts" where
  "service_metric name hlp labels =
     \<lparr> mo_Namespace = ''my_group'', mo_Subsystem = ''string_service'', mo_Name = name, mo_Help = hlp, mo_labels = labels \<rparr>"

definition svc2_metrics :: "metric_opts list" where
  "svc2_metrics =
     [service_metric ''request_count'' ''Number of request received'' fieldKeys,
      service_metric ''request_latency_microseconds'' ''Total duration of requests in microseconds'' fieldKeys,
      service_metric ''count_result'' ''The result of each count method.'' []]"

definition svc3_metrics :: "metric_opts list" where
  "svc3_metrics =
     [service_metric ''request_count'' ''Number of requests received.'' fieldKeys,
      service_metric ''request_latency_microseconds'' ''Total duration of requests in microseconds.'' fieldKeys,
      service_metric ''count_result'' ''The result of each count method.'' []]"

text \<open>Registering two metrics of one name is a panic, as is a list of label values whose names are not those of the metric.\<close>

definition metric_name :: "metric_opts \<Rightarrow> string" where
  "metric_name m = mo_Namespace m @ ''_'' @ mo_Subsystem m @ ''_'' @ mo_Name m"

fun label_names :: "string list \<Rightarrow> string list" where
  "label_names (k # v # lvs) = k # label_names lvs"
| "label_names lvs = []"

lemma metrics_distinct: "distinct (map metric_name svc2_metrics)" "distinct (map metric_name svc3_metrics)"
  by (simp_all add: metric_name_def svc2_metrics_def svc3_metrics_def service_metric_def)

lemma labels_declared:
  "label_names (labels_of c) = fieldKeys" "even (length (labels_of c))"
  by (cases c; simp add: uppercase_labels_def count_labels_def fieldKeys_def)+

end
