(* ===== verification/Demos.thy ===== *)
theory Demos
  imports Errno
begin

text \<open>
  Small programs of \<^verbatim>\<open>cmd\<close>: the RPC service \<^verbatim>\<open>rpc_server\<close> with its client \<^verbatim>\<open>rpc_client\<close>, the order of deferred calls
  (\<^verbatim>\<open>switch\<close>), receivers by value and by pointer (\<^verbatim>\<open>recipient\<close>), the lengths of a string (\<^verbatim>\<open>rune\<close>), and a
  channel that is closed while a goroutine sends on it (\<^verbatim>\<open>chan\<close>).
\<close>

section \<open>Remote procedure calls\<close>

text \<open>
  The registry of \<^verbatim>\<open>net/rpc\<close>: services by name, methods by name. A method gets its request and gives the reply that it
  stores behind the pointer. A request names its method behind the last dot.
\<close>

type_synonym rpc_service = "string \<rightharpoonup> (string \<Rightarrow> string res)"

type_synonym rpc_registry = "string \<rightharpoonup> rpc_service"

definition rpc_RegisterName :: "string \<Rightarrow> rpc_service \<Rightarrow> (rpc_registry, unit) go" where
  "rpc_RegisterName name svc reg =
     (if reg name \<noteq> None then (Err (Msg (''rpc: service already defined: '' @ name)), reg)
      else (Ok (), reg(name \<mapsto> svc)))"

definition rpc_Call :: "rpc_registry \<Rightarrow> string \<Rightarrow> string \<Rightarrow> string res" where
  "rpc_Call reg serviceMethod arg =
     (case LastIndexByte (CHR ''.'') serviceMethod of
        None \<Rightarrow> Err (Msg (''rpc: service/method request ill-formed: '' @ serviceMethod))
      | Some dot \<Rightarrow>
          (case reg (take dot serviceMethod) of
             None \<Rightarrow> Err (Msg (''rpc: can'' @ [CHR 0x27] @ ''t find service '' @ serviceMethod))
           | Some svc \<Rightarrow>
               (case svc (drop (dot + 1) serviceMethod) of
                  None \<Rightarrow> Err (Msg (''rpc: can'' @ [CHR 0x27] @ ''t find method '' @ serviceMethod))
                | Some f \<Rightarrow> f arg)))"

definition HelloServiceName :: string where
  "HelloServiceName = ''xxx/pkg.HelloService''"

definition Hello :: "string \<Rightarrow> string res" where
  "Hello request = Ok (''hello: '' @ request)"

definition HelloService :: rpc_service where
  "HelloService = [''Hello'' \<mapsto> Hello]"

definition RegisterHelloService :: "rpc_service \<Rightarrow> (rpc_registry, unit) go" where
  "RegisterHelloService svc = rpc_RegisterName HelloServiceName svc"

text \<open>The server: it registers its service, and then the address can be listened on or not.\<close>

definition rpc_server_main :: "bool \<Rightarrow> rpc_registry \<Rightarrow> rpc_registry option" where
  "rpc_server_main listens reg =
     (case go_ignore () (RegisterHelloService HelloService) reg of (_, reg) \<Rightarrow> if listens then Some reg else None)"

text \<open>The client: a connection leads to the registry of the server.\<close>

definition DialHelloService :: "(string \<Rightarrow> string \<Rightarrow> rpc_registry res) \<Rightarrow> string \<Rightarrow> string \<Rightarrow> rpc_registry res" where
  "DialHelloService dial network address =
     (case dial network address of Ok c \<Rightarrow> Ok c | Err e \<Rightarrow> Err e | Panic p \<Rightarrow> Panic p)"

definition client_Hello :: "rpc_registry \<Rightarrow> string \<Rightarrow> string res" where
  "client_Hello c request = rpc_Call c (HelloServiceName @ ''.Hello'') request"

text \<open>What the client prints, or the error with which \<open>log.Fatal\<close> ends it.\<close>

definition rpc_client_main :: "(string \<Rightarrow> string \<Rightarrow> rpc_registry res) \<Rightarrow> string res" where
  "rpc_client_main dial =
     (case DialHelloService dial ''tcp'' ''127.0.0.1:1234'' of
        Ok client \<Rightarrow> client_Hello client ''xly''
      | Err e \<Rightarrow> Err e
      | Panic p \<Rightarrow> Panic p)"

lemma rpc_Call_name:
  assumes "CHR ''.'' \<notin> set m"
  shows "rpc_Call reg (name @ ''.'' @ m) arg =
    (case reg name of
       None \<Rightarrow> Err (Msg (''rpc: can'' @ [CHR 0x27] @ ''t find service '' @ name @ ''.'' @ m))
     | Some svc \<Rightarrow>
         (case svc m of
            None \<Rightarrow> Err (Msg (''rpc: can'' @ [CHR 0x27] @ ''t find method '' @ name @ ''.'' @ m))
          | Some f \<Rightarrow> f arg))"
proof -
  have "LastIndexByte (CHR ''.'') (name @ ''.'' @ m) = Some (length name)"
    using LastIndexByte_append [OF assms, of name] by simp
  then show ?thesis by (simp add: rpc_Call_def split: option.split)
qed

text \<open>A client of the server is greeted, although the name of the service has a dot of its own, whatever other
  services are registered.\<close>

lemma client_greeted:
  assumes "rpc_server_main True reg = Some reg'" and "reg HelloServiceName = None"
    and "dial ''tcp'' ''127.0.0.1:1234'' = Ok reg'"
  shows "client_Hello reg' s = Ok (''hello: '' @ s) \<and> rpc_client_main dial = Ok ''hello: xly''
    \<and> (\<forall>n. n \<noteq> HelloServiceName \<longrightarrow> reg' n = reg n)"
proof -
  have r: "reg' = reg(HelloServiceName \<mapsto> HelloService)"
    using assms(1,2) by (simp add: rpc_server_main_def go_ignore_def RegisterHelloService_def rpc_RegisterName_def)
  have "client_Hello reg' s = Ok (''hello: '' @ s)" for s
    unfolding client_Hello_def using rpc_Call_name [of "''Hello''" reg' HelloServiceName s]
    by (simp add: r HelloService_def Hello_def)
  then show ?thesis using assms(3) by (simp add: rpc_client_main_def DialHelloService_def r)
qed

section \<open>Deferred calls\<close>

definition Println :: "string \<Rightarrow> (string list, unit) go" where
  "Println s = go_modify (\<lambda>out. out @ [s])"

text \<open>\<open>defer f(g())\<close>: the argument is computed at once, the call made when the function returns or panics.\<close>

definition defer_call :: "('s, 'a) go \<Rightarrow> ('a \<Rightarrow> ('s, unit) go) \<Rightarrow> ('s, 'b) go \<Rightarrow> ('s, 'b) go" where
  "defer_call arg f body =
     go_bind arg (\<lambda>x s. case body s of (r, s1) \<Rightarrow>
       (case f x s1 of (Ok _, s2) \<Rightarrow> (r, s2) | (Err e, s2) \<Rightarrow> (r, s2) | (Panic p, s2) \<Rightarrow> (Panic p, s2)))"

definition sw_trace :: "string \<Rightarrow> (string list, string) go" where
  "sw_trace s = go_bind (Println (''entering:  '' @ s)) (\<lambda>_. go_return s)"

definition sw_un :: "string \<Rightarrow> (string list, unit) go" where
  "sw_un s = Println (''leaving: '' @ s)"

definition sw_a :: "(string list, unit) go" where
  "sw_a = defer_call (sw_trace ''a'') sw_un (Println ''in a'')"

definition sw_b :: "(string list, unit) go" where
  "sw_b = defer_call (sw_trace ''b'') sw_un (go_bind (Println ''in b'') (\<lambda>_. sw_a))"

lemma switch_prints:
  "sw_b out = (Ok (), out @ [''entering:  b'', ''in b'', ''entering:  a'', ''in a'', ''leaving: a'', ''leaving: b''])"
  by (simp add: sw_b_def sw_a_def defer_call_def sw_trace_def sw_un_def Println_def go_bind_def go_modify_def
      go_return_def)

section \<open>Receivers\<close>

record person =
  Name :: string
  Birth :: string
  PersonID :: int

definition changeName :: "string \<Rightarrow> (person, unit) go" where
  "changeName name = go_modify (\<lambda>p. p\<lparr>Name := name\<rparr>)"

text \<open>A method with a receiver by value works on a copy; it gives what it prints.\<close>

definition printMess :: "person \<Rightarrow> (string \<times> string \<times> int) \<times> person" where
  "printMess person = ((Name person, Birth person, PersonID person), person\<lparr>PersonID := 3\<rparr>)"

definition by_value :: "('s \<Rightarrow> 'a \<times> 's) \<Rightarrow> ('s, 'a) go" where
  "by_value f s = (Ok (fst (f s)), s)"

definition wang_er :: string where
  "wang_er = utf8 [0x738B, 0x4E8C, 0x5C0F]"

definition wang_lao :: string where
  "wang_lao = utf8 [0x738B, 0x8001, 0x5C0F]"

definition recipient_main :: "(string \<times> string \<times> int) list res" where
  "recipient_main =
     fst ((go_bind (by_value printMess) (\<lambda>l1.
           go_bind (changeName wang_lao) (\<lambda>_.
           go_bind (by_value printMess) (\<lambda>l2. go_return [l1, l2]))))
         \<lparr> Name = wang_er, Birth = ''1996-12-23'', PersonID = 1 \<rparr>)"

lemma recipient_prints:
  "recipient_main = Ok [(wang_er, ''1996-12-23'', 1), (wang_lao, ''1996-12-23'', 1)]"
  by (simp add: recipient_main_def go_bind_def by_value_def printMess_def changeName_def go_modify_def go_return_def)

section \<open>Bytes and runes\<close>

definition rune_string :: string where
  "rune_string = ''Golang'' @ utf8 [0x7F16, 0x7A0B]"

text \<open>The two lengths that are printed, and the runes that \<open>proc\<close> has its processor print.\<close>

definition rune_proc :: "string \<Rightarrow> (string \<Rightarrow> 'a) \<Rightarrow> 'a" where
  "rune_proc input processor = processor input"

definition rune_main :: "nat \<times> nat \<times> nat list" where
  "rune_main = (length rune_string, RuneCountInString rune_string, rune_proc wang_er runes)"

lemma runes_utf8: "list_all ValidRune rs \<Longrightarrow> runes (utf8 rs) = rs"
  by (simp add: utf8_def runes_concat)

lemma rune_main_prints: "rune_main = (12, 8, [0x738B, 0x4E8C, 0x5C0F])"
proof -
  have "rune_string = utf8 [0x47, 0x6F, 0x6C, 0x61, 0x6E, 0x67, 0x7F16, 0x7A0B]"
    unfolding rune_string_def utf8_def by (simp add: EncodeRune_ascii) code_simp
  moreover have "length (utf8 [0x47, 0x6F, 0x6C, 0x61, 0x6E, 0x67, 0x7F16, 0x7A0B]) = 12"
    by (simp add: utf8_def EncodeRune_def ValidRune_def)
  moreover have "runes (utf8 [0x47, 0x6F, 0x6C, 0x61, 0x6E, 0x67, 0x7F16, 0x7A0B])
      = [0x47, 0x6F, 0x6C, 0x61, 0x6E, 0x67, 0x7F16, 0x7A0B]"
    by (rule runes_utf8) (simp add: ValidRune_def)
  moreover have "runes wang_er = [0x738B, 0x4E8C, 0x5C0F]"
    unfolding wang_er_def by (rule runes_utf8) (simp add: ValidRune_def)
  ultimately show ?thesis by (simp add: rune_main_def RuneCountInString_def rune_proc_def)
qed

section \<open>A closed channel\<close>

text \<open>A channel with room for one value; the goroutine that sends; \<open>main\<close>, which closes and then receives.\<close>

record chan_state =
  ch_buffer :: "int list"
  ch_closed :: bool
  ch_sent :: bool
  ch_out :: "string list"
  ch_panic :: bool

datatype chan_choice = ChanSend | ChanClose | ChanReceive

fun chan_step :: "chan_choice \<Rightarrow> chan_state \<Rightarrow> chan_state option" where
  "chan_step ChanSend w =
     (if ch_sent w \<or> ch_panic w then None
      else if ch_closed w then Some (w\<lparr>ch_panic := True\<rparr>)
      else Some (w\<lparr>ch_buffer := ch_buffer w @ [3 + 4], ch_sent := True\<rparr>))"
| "chan_step ChanClose w = (if ch_closed w \<or> ch_panic w then None else Some (w\<lparr>ch_closed := True\<rparr>))"
| "chan_step ChanReceive w =
     (if \<not> ch_closed w \<or> ch_panic w \<or> ''chan closed'' \<in> set (ch_out w) then None
      else
        (case ch_buffer w of
           i # rest \<Rightarrow> Some (w\<lparr>ch_buffer := rest, ch_out := ch_out w @ [Itoa (nat i)]\<rparr>)
         | [] \<Rightarrow> Some (w\<lparr>ch_out := ch_out w @ [''chan closed'']\<rparr>)))"

fun chan_run :: "chan_choice list \<Rightarrow> chan_state \<Rightarrow> chan_state option" where
  "chan_run [] w = Some w"
| "chan_run (c # cs) w = (case chan_step c w of Some w' \<Rightarrow> chan_run cs w' | None \<Rightarrow> None)"

definition chan_start :: chan_state where
  "chan_start = \<lparr> ch_buffer = [], ch_closed = False, ch_sent = False, ch_out = [], ch_panic = False \<rparr>"

text \<open>Whether the goroutine is in time decides between two prints and a panic.\<close>

definition chan_ok :: "chan_state \<Rightarrow> bool" where
  "chan_ok w \<longleftrightarrow>
     (if ch_sent w
      then \<not> ch_panic w \<and> ((ch_buffer w = [7] \<and> ch_out w = []) \<or> (ch_buffer w = [] \<and> ch_out w = [''7''])
        \<or> (ch_buffer w = [] \<and> ch_out w = [''7'', ''chan closed'']))
      else ch_buffer w = [] \<and> (ch_out w = [] \<or> ch_out w = [''chan closed'']))
     \<and> (ch_panic w \<or> ch_out w \<noteq> [] \<longrightarrow> ch_closed w)"

lemma chan_step_ok: "chan_ok w \<Longrightarrow> chan_step c w = Some w' \<Longrightarrow> chan_ok w'"
proof -
  have "Itoa 7 = ''7''" by code_simp
  then show "chan_ok w \<Longrightarrow> chan_step c w = Some w' \<Longrightarrow> chan_ok w'"
    by (cases c) (auto simp: chan_ok_def split: if_splits list.splits)
qed

lemma chan_run_ok: "chan_ok w \<Longrightarrow> chan_run cs w = Some w' \<Longrightarrow> chan_ok w'"
proof (induction cs arbitrary: w)
  case (Cons c cs)
  then show ?case using chan_step_ok by (auto split: option.splits)
qed simp

lemma chan_outcomes:
  assumes "chan_run cs chan_start = Some w"
  shows "ch_out w \<in> {[], [''7''], [''7'', ''chan closed''], [''chan closed'']}
    \<and> (ch_panic w \<longrightarrow> \<not> ch_sent w \<and> ch_closed w)"
proof -
  have "chan_ok chan_start" by (simp add: chan_ok_def chan_start_def)
  from chan_run_ok [OF this assms] show ?thesis by (auto simp: chan_ok_def split: if_splits)
qed

lemma late_sender_panics:
  "\<exists>w. chan_run [ChanClose, ChanReceive, ChanSend] chan_start = Some w \<and> ch_panic w"
  by (simp add: chan_start_def)

end
